(* ===== verification/Prelude.thy ===== *)
theory Prelude
  imports Main "HOL-Library.Word" "HOL-Library.AList"
begin

text \<open>
  Shared vocabulary of the development: the named collections the component proofs draw
  on, the types the source uses everywhere (bytes, strings as byte sequences, instants in
  nanoseconds, errors as values) and the generic facts on lists and association lists that
  several components need.

  Go strings are byte sequences, so they are HOL strings (lists of 8-bit characters) and
  \<open>len\<close> is \<open>length\<close>. Byte slices are lists of 8-bit words. Instants and durations are
  integers counting nanoseconds, as in Go's \<open>time.Duration\<close>.
\<close>

named_theorems wire_simps \<open>unfolding rules of the codec\<close>
named_theorems sql_simps \<open>unfolding rules of the SQL statements\<close>
named_theorems frame_simps \<open>fields an operation leaves alone\<close>

type_synonym byte = "8 word"
type_synonym bytes = "byte list"
type_synonym instant = int
type_synonym duration = int

text \<open>
  Errors as values. Each constructor is one error variable or one family of
  \<open>fmt.Errorf\<close> values of the source; \<open>PgError\<close> carries an SQLSTATE, and \<open>Panic\<close> a Go
  run-time panic (an index out of range).
\<close>

datatype err =
    ErrInvalidTopicName
  | ErrInvalidTopicFilter
  | ErrPacketTooLarge
  | ErrCodec string
  | ErrProtocol string
  | PgError string
  | ErrDeadlineExceeded
  | ErrIO string
  | ErrEOF
  | ErrNetClosed
  | ErrAuthFailed
  | ErrConnectInfra string
  | ErrQoS2Duplicate
  | ErrNoPacketID
  | ErrEncodedTooLarge
  | ErrConnClosing
  | ErrClientDisconnect
  | ErrConfig string
  | ErrKube string
  | Panic string

text \<open>Sequencing of fallible computations: Go's \<open>if err != nil { return err }\<close>.\<close>

definition and_then :: "'e + 'a \<Rightarrow> ('a \<Rightarrow> 'e + 'b) \<Rightarrow> 'e + 'b" where
  "and_then r k = (case r of Inl e \<Rightarrow> Inl e | Inr x \<Rightarrow> k x)"

lemma and_then_simps [simp]:
  "and_then (Inl e) k = Inl e"
  "and_then (Inr x) k = k x"
  by (simp_all add: and_then_def)

lemma and_then_Inr: "and_then r k = Inr y \<longleftrightarrow> (\<exists>x. r = Inr x \<and> k x = Inr y)"
  by (cases r) auto

lemma and_then_Inl: "and_then r k = Inl e \<longleftrightarrow> r = Inl e \<or> (\<exists>x. r = Inr x \<and> k x = Inl e)"
  by (cases r) auto

text \<open>Indexing a slice: out of range is a run-time panic in Go.\<close>

definition index_slice :: "'a list \<Rightarrow> nat \<Rightarrow> err + 'a" where
  "index_slice b i = (if i < length b then Inr (b ! i) else Inl (Panic ''index out of range''))"

text \<open>UUIDs (\<open>github.com/google/uuid\<close>: 16 bytes). They are ordered as Postgres orders
  them, bytewise.\<close>

datatype uuid = UUID (uuid_bits: "128 word")

definition uuid_Nil :: uuid where
  "uuid_Nil = UUID 0"

instantiation uuid :: linorder
begin

definition less_eq_uuid :: "uuid \<Rightarrow> uuid \<Rightarrow> bool" where
  "less_eq_uuid a b \<longleftrightarrow> uuid_bits a \<le> uuid_bits b"

definition less_uuid :: "uuid \<Rightarrow> uuid \<Rightarrow> bool" where
  "less_uuid a b \<longleftrightarrow> uuid_bits a < uuid_bits b"

instance
  by standard (auto simp: less_eq_uuid_def less_uuid_def uuid.expand)

end

text \<open>Splitting a string at a separator character and joining it back: Go's
  \<open>strings.Split(s, sep)\<close> and \<open>strings.Join\<close> for a one-byte separator. The result of
  the split is never empty.\<close>

fun split_on :: "char \<Rightarrow> string \<Rightarrow> string list" where
  "split_on d [] = [[]]"
| "split_on d (c # cs) =
     (if c = d then [] # split_on d cs
      else (case split_on d cs of [] \<Rightarrow> [[c]] | p # ps \<Rightarrow> (c # p) # ps))"

fun join_on :: "char \<Rightarrow> string list \<Rightarrow> string" where
  "join_on d [] = []"
| "join_on d [p] = p"
| "join_on d (p # q # ps) = p @ d # join_on d (q # ps)"

lemma split_on_not_Nil [simp]: "split_on d s \<noteq> []"
  by (induction s) (auto split: list.splits)

lemma split_on_length_pos [simp]: "0 < length (split_on d s)"
  by simp

lemma join_split [simp]: "join_on d (split_on d s) = s"
proof (induction s)
  case Nil
  then show ?case by simp
next
  case (Cons c cs)
  obtain p ps where *: "split_on d cs = p # ps"
    by (cases "split_on d cs") auto
  with Cons show ?case by (cases ps) auto
qed

lemma split_on_no_sep: "d \<notin> set p \<Longrightarrow> split_on d p = [p]"
  by (induction p) auto

lemma split_on_parts: "p \<in> set (split_on d s) \<Longrightarrow> d \<notin> set p"
proof (induction s arbitrary: p)
  case Nil
  then show ?case by simp
next
  case (Cons c cs)
  obtain q qs where *: "split_on d cs = q # qs"
    by (cases "split_on d cs") auto
  with Cons show ?case by (auto split: if_splits)
qed

lemma split_on_append:
  "split_on d (s @ d # u) = split_on d s @ split_on d u"
proof (induction s)
  case Nil
  then show ?case by simp
next
  case (Cons c cs)
  obtain q qs where *: "split_on d cs = q # qs"
    by (cases "split_on d cs") auto
  with Cons show ?case by auto
qed

lemma split_join:
  "ps \<noteq> [] \<Longrightarrow> (\<forall>p \<in> set ps. d \<notin> set p) \<Longrightarrow> split_on d (join_on d ps) = ps"
  by (induction d ps rule: join_on.induct) (auto simp: split_on_no_sep split_on_append)

lemma split_on_inj: "split_on d s = split_on d u \<longleftrightarrow> s = u"
  by (metis join_split)

lemma set_split_on: "c \<noteq> d \<Longrightarrow> c \<in> set s \<longleftrightarrow> (\<exists>p \<in> set (split_on d s). c \<in> set p)"
proof (induction s)
  case Nil
  then show ?case by simp
next
  case (Cons x xs)
  obtain q qs where *: "split_on d xs = q # qs"
    by (cases "split_on d xs") auto
  with Cons show ?case by auto
qed

section \<open>Keyed tables\<close>

text \<open>
  The interface of everything the program looks up by a key: a table of the database with a
  primary key, the engine's map of connections, the per-address limiter entries. The
  provider promises what a lookup returns after a store and after a removal, and that both
  keep its well-formedness; the lemmas below follow for every provider.
\<close>

datatype ('k, 'v) table_op = Put 'k 'v | Del 'k

fun map_op :: "('k, 'v) table_op \<Rightarrow> ('k \<rightharpoonup> 'v) \<Rightarrow> ('k \<rightharpoonup> 'v)" where
  "map_op (Put k v) m = m(k \<mapsto> v)"
| "map_op (Del k) m = m(k := None)"

fun op_key :: "('k, 'v) table_op \<Rightarrow> 'k" where
  "op_key (Put k v) = k"
| "op_key (Del k) = k"

locale keyed_table =
  fixes wf :: "'t \<Rightarrow> bool"
    and get :: "'t \<Rightarrow> 'k \<Rightarrow> 'v option"
    and put :: "'k \<Rightarrow> 'v \<Rightarrow> 't \<Rightarrow> 't"
    and del :: "'k \<Rightarrow> 't \<Rightarrow> 't"
  assumes wf_put: "wf t \<Longrightarrow> wf (put k v t)"
    and wf_del: "wf t \<Longrightarrow> wf (del k t)"
    and get_put: "wf t \<Longrightarrow> get (put k v t) k' = (if k' = k then Some v else get t k')"
    and get_del: "wf t \<Longrightarrow> get (del k t) k' = (if k' = k then None else get t k')"
begin

fun run :: "('k, 'v) table_op list \<Rightarrow> 't \<Rightarrow> 't" where
  "run [] t = t"
| "run (Put k v # ops) t = run ops (put k v t)"
| "run (Del k # ops) t = run ops (del k t)"

lemma run_wf: "wf t \<Longrightarrow> wf (run ops t)"
  by (induction ops t rule: run.induct) (auto simp: wf_put wf_del)

text \<open>Functional refinement: a table is a finite map and its operations are map updates.\<close>

lemma run_refines: "wf t \<Longrightarrow> get (run ops t) = fold map_op ops (get t)"
proof (induction ops t rule: run.induct)
  case (2 k v ops t)
  then show ?case by (simp add: wf_put get_put fun_upd_def)
next
  case (3 k ops t)
  then show ?case by (simp add: wf_del get_del fun_upd_def)
qed simp

lemma run_untouched:
  assumes "wf t" "\<forall>op \<in> set ops. op_key op \<noteq> k"
  shows "get (run ops t) k = get t k"
proof -
  have "fold map_op ops m k = m k" if "\<forall>op \<in> set ops. op_key op \<noteq> k" for m
    using that
  proof (induction ops arbitrary: m)
    case (Cons op ops)
    then show ?case by (cases op) auto
  qed simp
  with assms show ?thesis by (simp add: run_refines)
qed

lemma last_put_wins: "wf t \<Longrightarrow> get (put k v (put k u t)) k = Some v"
  by (simp add: wf_put get_put)

end

section \<open>Rows keyed by a column\<close>

text \<open>A list of rows with a key column, as a keyed table: the shape of every table below.\<close>

definition put_row :: "('r \<Rightarrow> 'k) \<Rightarrow> 'r \<Rightarrow> 'r list \<Rightarrow> 'r list" where
  "put_row key r rs =
     (if \<exists>x \<in> set rs. key x = key r then map (\<lambda>x. if key x = key r then r else x) rs
      else rs @ [r])"

definition del_row :: "('r \<Rightarrow> 'k) \<Rightarrow> 'k \<Rightarrow> 'r list \<Rightarrow> 'r list" where
  "del_row key k rs = filter (\<lambda>x. key x \<noteq> k) rs"

definition get_row :: "('r \<Rightarrow> 'k) \<Rightarrow> 'k \<Rightarrow> 'r list \<Rightarrow> 'r option" where
  "get_row key k rs = find (\<lambda>x. key x = k) rs"

abbreviation distinct_key :: "('r \<Rightarrow> 'k) \<Rightarrow> 'r list \<Rightarrow> bool" where
  "distinct_key key rs \<equiv> distinct (map key rs)"

lemma distinct_key_filter [simp]: "distinct_key key rs \<Longrightarrow> distinct_key key (filter P rs)"
  by (simp add: distinct_map_filter)

lemma distinct_key_map:
  assumes "\<And>x. x \<in> set rs \<Longrightarrow> key (f x) = key x"
  shows "distinct_key key (map f rs) = distinct_key key rs"
  using assms by (simp cong: map_cong)

lemma map_key_update:
  "map key (map (\<lambda>x. if key x = key r then r else x) rs) = map key rs"
  by auto

lemma map_key_put:
  "map key (put_row key r rs) = (if key r \<in> key ` set rs then map key rs else map key rs @ [key r])"
  by (auto simp: put_row_def image_iff) metis

lemma distinct_key_put [simp]: "distinct_key key rs \<Longrightarrow> distinct_key key (put_row key r rs)"
  by (auto simp: map_key_put)

lemma distinct_key_del [simp]: "distinct_key key rs \<Longrightarrow> distinct_key key (del_row key k rs)"
  by (simp add: del_row_def)

lemma get_row_None: "get_row key k rs = None \<longleftrightarrow> k \<notin> key ` set rs"
  by (auto simp: get_row_def find_None_iff image_iff)

lemma get_row_Some: "get_row key k rs = Some r \<Longrightarrow> r \<in> set rs \<and> key r = k"
  by (auto simp: get_row_def find_Some_iff)

lemma get_row_in: "distinct_key key rs \<Longrightarrow> r \<in> set rs \<Longrightarrow> get_row key (key r) rs = Some r"
  by (induction rs) (auto simp: get_row_def image_iff)

lemma get_put_row:
  "get_row key k (put_row key r rs) = (if k = key r then Some r else get_row key k rs)"
proof -
  let ?u = "map (\<lambda>x. if key x = key r then r else x) rs"
  have other: "k \<noteq> key r \<Longrightarrow> get_row key k ?u = get_row key k rs"
    by (induction rs) (auto simp: get_row_def)
  have hit: "key r \<in> key ` set rs \<Longrightarrow> get_row key (key r) ?u = Some r"
    by (induction rs) (auto simp: get_row_def)
  have new: "key r \<notin> key ` set rs \<Longrightarrow>
      get_row key k (rs @ [r]) = (if k = key r then Some r else get_row key k rs)"
    by (induction rs) (auto simp: get_row_def)
  show ?thesis
  proof (cases "key r \<in> key ` set rs")
    case True
    then have "put_row key r rs = ?u" by (auto simp: put_row_def)
    with True hit other show ?thesis by simp
  next
    case False
    then have "put_row key r rs = rs @ [r]" by (auto simp: put_row_def image_iff)
    with False new show ?thesis by simp
  qed
qed

lemma get_del_row: "get_row key k (del_row key k' rs) = (if k = k' then None else get_row key k rs)"
  by (induction rs) (auto simp: get_row_def del_row_def find_None_iff)

section \<open>Decimal numerals\<close>

text \<open>\<open>strconv.Itoa\<close> / \<open>FormatInt(_, 10)\<close> on natural numbers.\<close>

fun itoa :: "nat \<Rightarrow> string" where
  "itoa n = (if n < 10 then [char_of (48 + n)] else itoa (n div 10) @ [char_of (48 + n mod 10)])"

declare itoa.simps [simp del]

definition digit_value :: "char \<Rightarrow> nat option" where
  "digit_value c = (let v = of_char c :: nat in if 48 \<le> v \<and> v \<le> 57 then Some (v - 48) else None)"

fun digits_value :: "nat \<Rightarrow> string \<Rightarrow> nat option" where
  "digits_value a [] = Some a"
| "digits_value a (c # cs) =
     (case digit_value c of None \<Rightarrow> None | Some v \<Rightarrow> digits_value (10 * a + v) cs)"

lemma digit_value_char [simp]: "v < 10 \<Longrightarrow> digit_value (char_of (48 + v)) = Some v"
  by (simp add: digit_value_def of_char_of)

lemma digits_value_append:
  "digits_value a (s @ u) = (case digits_value a s of None \<Rightarrow> None | Some b \<Rightarrow> digits_value b u)"
  by (induction s arbitrary: a) (auto split: option.splits)

lemma itoa_not_Nil [simp]: "itoa n \<noteq> []"
  by (subst itoa.simps) simp

lemma digits_value_itoa: "digits_value 0 (itoa n) = Some n"
proof (induction n rule: itoa.induct)
  case (1 n)
  show ?case
  proof (cases "n < 10")
    case True
    then show ?thesis by (simp add: itoa.simps [of n])
  next
    case False
    with 1 have "digits_value 0 (itoa (n div 10)) = Some (n div 10)" by simp
    with False show ?thesis
      by (simp add: itoa.simps [of n] digits_value_append)
  qed
qed

lemma length_itoa: "n < 10 ^ m \<Longrightarrow> 0 < m \<Longrightarrow> length (itoa n) \<le> m"
proof (induction n arbitrary: m rule: itoa.induct)
  case (1 n)
  show ?case
  proof (cases "n < 10")
    case True
    with 1 show ?thesis by (simp add: itoa.simps [of n])
  next
    case False
    then obtain m' where m: "m = Suc m'" "0 < m'"
      using 1(2,3) by (cases m; cases "m - 1") auto
    with 1(2) have "n div 10 < 10 ^ m'" by (simp add: less_mult_imp_div_less mult.commute)
    with 1(1) False m have "length (itoa (n div 10)) \<le> m'" by simp
    with False m show ?thesis by (simp add: itoa.simps [of n])
  qed
qed

text \<open>\<open>strconv.ParseInt(s, 10, 64)\<close>: an optional sign, at least one digit, in range.\<close>

definition parse_int64 :: "string \<Rightarrow> int option" where
  "parse_int64 s =
     (let neg = (s \<noteq> [] \<and> hd s = CHR ''-'');
          ds = (if s \<noteq> [] \<and> (hd s = CHR ''-'' \<or> hd s = CHR ''+'') then tl s else s) in
      if ds = [] then None
      else case digits_value 0 ds of
        None \<Rightarrow> None
      | Some n \<Rightarrow>
          if neg then (if n \<le> 2 ^ 63 then Some (- int n) else None)
          else (if n < 2 ^ 63 then Some (int n) else None))"

lemma hd_itoa: "\<exists>v. 48 \<le> v \<and> v \<le> 57 \<and> hd (itoa n) = char_of (v :: nat)"
proof (induction n rule: itoa.induct)
  case (1 n)
  show ?case
  proof (cases "n < 10")
    case True
    then show ?thesis by (subst itoa.simps) (auto intro: exI [of _ "48 + n"])
  next
    case False
    with 1 show ?thesis by (subst itoa.simps) simp
  qed
qed

lemma parse_int64_itoa:
  assumes "n < 2 ^ 63"
  shows "parse_int64 (itoa n) = Some (int n)"
proof -
  obtain v :: nat where v: "48 \<le> v" "v \<le> 57" "hd (itoa n) = char_of v" using hd_itoa by blast
  then have ge: "48 \<le> (of_char (hd (itoa n)) :: nat)" by (simp add: of_char_of)
  have "hd (itoa n) \<noteq> c" if "(of_char c :: nat) < 48" for c using ge that by auto
  from this [of "CHR ''-''"] this [of "CHR ''+''"]
  have "hd (itoa n) \<noteq> CHR ''-''" "hd (itoa n) \<noteq> CHR ''+''" by simp_all
  with assms show ?thesis by (simp add: parse_int64_def digits_value_itoa)
qed

text \<open>Go's \<open>int64\<close>: arithmetic wraps around.\<close>

definition int64 :: "int \<Rightarrow> int" where
  "int64 x = (x + 2 ^ 63) mod 2 ^ 64 - 2 ^ 63"

lemma int64_id: "- (2 ^ 63) \<le> x \<Longrightarrow> x < 2 ^ 63 \<Longrightarrow> int64 x = x"
  by (simp add: int64_def)

end
