(* ===== verification/Topic.thy ===== *)
theory Topic
  imports Prelude
begin

text \<open>
  Topic names and topic filters: \<open>internal/mqtt/topic.go\<close> (validation and the shared
  subscription prefix) and the SQL function \<open>mqtt_topic_match\<close> of migration 0001, which
  decides every subscription match of the broker. The UTF-8 check and the string searches
  are the standard library's and are modelled as the source uses them.
\<close>

section \<open>UTF-8 validity\<close>

definition byte_of :: "char \<Rightarrow> nat" where
  "byte_of c = of_char c"

definition in_range :: "nat \<Rightarrow> nat \<Rightarrow> char \<Rightarrow> bool" where
  "in_range lo hi c \<longleftrightarrow> lo \<le> byte_of c \<and> byte_of c \<le> hi"

abbreviation cont :: "char \<Rightarrow> bool" where
  "cont \<equiv> in_range 128 191"

text \<open>\<open>utf8.ValidString\<close>: the table of well-formed byte sequences. A sequence starting
  with \<open>E0\<close>, \<open>ED\<close>, \<open>F0\<close> or \<open>F4\<close> restricts its second byte (no overlong forms, no
  surrogates, nothing above U+10FFFF).\<close>

fun validString :: "string \<Rightarrow> bool" where
  "validString [] = True"
| "validString (c # cs) =
     (let b = byte_of c in
      if b < 128 then validString cs
      else if 194 \<le> b \<and> b \<le> 223 then
        (case cs of c1 # r \<Rightarrow> cont c1 \<and> validString r | _ \<Rightarrow> False)
      else if 224 \<le> b \<and> b \<le> 239 then
        (case cs of c1 # c2 # r \<Rightarrow>
           in_range (if b = 224 then 160 else 128) (if b = 237 then 159 else 191) c1
           \<and> cont c2 \<and> validString r
         | _ \<Rightarrow> False)
      else if 240 \<le> b \<and> b \<le> 244 then
        (case cs of c1 # c2 # c3 # r \<Rightarrow>
           in_range (if b = 240 then 144 else 128) (if b = 244 then 143 else 191) c1
           \<and> cont c2 \<and> cont c3 \<and> validString r
         | _ \<Rightarrow> False)
      else False)"

section \<open>Validation\<close>

definition NUL :: char where
  "NUL = CHR 0x00"

definition ValidateTopicName :: "string \<Rightarrow> err option" where
  "ValidateTopicName t =
     (if t = [] \<or> length t > 65535 then Some ErrInvalidTopicName
      else if \<not> validString t then Some ErrInvalidTopicName
      else if CHR ''+'' \<in> set t \<or> CHR ''#'' \<in> set t \<or> NUL \<in> set t then Some ErrInvalidTopicName
      else None)"

text \<open>The loop over the levels of a filter: \<open>i\<close> is the loop index, \<open>n\<close> is
  \<open>len(parts)\<close>.\<close>

fun filter_levels :: "nat \<Rightarrow> nat \<Rightarrow> string list \<Rightarrow> err option" where
  "filter_levels i n [] = None"
| "filter_levels i n (p # ps) =
     (if CHR ''#'' \<in> set p \<and> p \<noteq> ''#'' then Some ErrInvalidTopicFilter
      else if CHR ''+'' \<in> set p \<and> p \<noteq> ''+'' then Some ErrInvalidTopicFilter
      else if p = ''#'' \<and> i \<noteq> n - 1 then Some ErrInvalidTopicFilter
      else filter_levels (Suc i) n ps)"

definition ValidateTopicFilter :: "string \<Rightarrow> err option" where
  "ValidateTopicFilter t =
     (if t = [] \<or> length t > 65535 then Some ErrInvalidTopicFilter
      else if \<not> validString t then Some ErrInvalidTopicFilter
      else if NUL \<in> set t then Some ErrInvalidTopicFilter
      else let parts = split_on (CHR ''/'') t in filter_levels 0 (length parts) parts)"

section \<open>Shared subscriptions\<close>

text \<open>\<open>strings.HasPrefix\<close> and \<open>strings.IndexByte\<close>.\<close>

fun hasPrefix :: "string \<Rightarrow> string \<Rightarrow> bool" where
  "hasPrefix t [] = True"
| "hasPrefix [] (p # ps) = False"
| "hasPrefix (c # cs) (p # ps) = (c = p \<and> hasPrefix cs ps)"

fun indexByte :: "string \<Rightarrow> char \<Rightarrow> int" where
  "indexByte [] d = -1"
| "indexByte (c # cs) d =
     (if c = d then 0 else let k = indexByte cs d in if k < 0 then -1 else k + 1)"

definition SharedSubscription :: "string \<Rightarrow> string \<times> string \<times> bool" where
  "SharedSubscription t =
     (if \<not> hasPrefix t ''$share/'' then ([], t, False)
      else let rest = drop (length ''$share/'') t;
               slash = indexByte rest (CHR ''/'')
           in if slash \<le> 0 then ([], t, False)
              else (take (nat slash) rest, drop (nat slash + 1) rest, True))"

section \<open>Matching\<close>

text \<open>Postgres's \<open>string_to_array(s, '/')\<close>: as the split, but the empty string gives the
  empty array.\<close>

definition string_to_array :: "string \<Rightarrow> string list" where
  "string_to_array s = (if s = [] then [] else split_on (CHR ''/'') s)"

text \<open>The \<open>WHILE i <= flen\<close> loop; array subscripts count from 1.\<close>

function match_loop :: "string list \<Rightarrow> string list \<Rightarrow> nat \<Rightarrow> bool" where
  "match_loop f t i =
     (if i \<le> length f then
        (if f ! (i - 1) = ''#'' then True
         else if i > length t then False
         else if f ! (i - 1) \<noteq> ''+'' \<and> f ! (i - 1) \<noteq> t ! (i - 1) then False
         else match_loop f t (i + 1))
      else length f = length t)"
  by pat_completeness auto
termination
  by (relation "measure (\<lambda>(f, t, i). Suc (length f) - i)") auto

declare match_loop.simps [simp del]

definition mqtt_topic_match :: "string \<Rightarrow> string \<Rightarrow> bool" where
  "mqtt_topic_match fltr topic =
     (let f = string_to_array fltr; t = string_to_array topic in
      if f = [] \<or> t = [] then False
      else if (f ! 0 = ''#'' \<or> f ! 0 = ''+'') \<and> take 1 topic = ''$'' then False
      else match_loop f t 1)"

section \<open>The MQTT rule, level by level\<close>

text \<open>\<open>level_match\<close> is the matching rule as a recursion on the levels, and
  \<open>positional_match\<close> the rule of the MQTT specification stated on positions, without any
  loop: a filter without \<open>#\<close> matches a topic of as many levels, equal or covered by
  \<open>+\<close> at each position; a filter ending in \<open>#\<close> matches every topic whose levels
  extend those before the \<open>#\<close>, the parent level included.\<close>

fun level_match :: "string list \<Rightarrow> string list \<Rightarrow> bool" where
  "level_match [] ts = (ts = [])"
| "level_match (p # ps) ts =
     (p = ''#'' \<or>
      (case ts of [] \<Rightarrow> False
       | x # xs \<Rightarrow> (p = ''+'' \<or> p = x) \<and> level_match ps xs))"

definition level_ok :: "string \<Rightarrow> string \<Rightarrow> bool" where
  "level_ok p x \<longleftrightarrow> p = ''+'' \<or> p = x"

definition positional_match :: "string list \<Rightarrow> string list \<Rightarrow> bool" where
  "positional_match f t =
     (if last f = ''#''
      then length (butlast f) \<le> length t
           \<and> list_all2 level_ok (butlast f) (take (length (butlast f)) t)
      else list_all2 level_ok f t)"

definition dollar_guard :: "string \<Rightarrow> string \<Rightarrow> bool" where
  "dollar_guard fltr topic \<longleftrightarrow>
     hd (split_on (CHR ''/'') fltr) \<in> {''#'', ''+''} \<and> take 1 topic = ''$''"

text \<open>The loop from index \<open>Suc k\<close> matches the remaining levels.\<close>

lemma match_loop_drop:
  "k \<le> length f \<Longrightarrow> k \<le> length t \<Longrightarrow>
   match_loop f t (Suc k) = level_match (drop k f) (drop k t)"
proof (induction "length f - k" arbitrary: k)
  case 0
  then show ?case by (subst match_loop.simps) auto
next
  case (Suc n)
  then have k: "k < length f" by simp
  show ?case
  proof (cases "k < length t")
    case True
    then have "match_loop f t (Suc (Suc k)) = level_match (drop (Suc k) f) (drop (Suc k) t)"
      using Suc k by (intro Suc.hyps) auto
    with k True show ?thesis
      by (subst match_loop.simps) (auto simp: Cons_nth_drop_Suc [symmetric])
  next
    case False
    with k Suc.prems show ?thesis
      by (subst match_loop.simps) (auto simp: Cons_nth_drop_Suc [symmetric])
  qed
qed

lemma mqtt_topic_match_levels:
  "mqtt_topic_match fltr topic =
     (fltr \<noteq> [] \<and> topic \<noteq> [] \<and> \<not> dollar_guard fltr topic
      \<and> level_match (split_on (CHR ''/'') fltr) (split_on (CHR ''/'') topic))"
  using match_loop_drop [of 0 "split_on (CHR ''/'') fltr" "split_on (CHR ''/'') topic"]
  by (auto simp: mqtt_topic_match_def string_to_array_def dollar_guard_def Let_def
      hd_conv_nth)

text \<open>A filter the validation accepts has \<open>#\<close> only as its last level.\<close>

lemma filter_levels_None:
  "filter_levels i n ps = None \<longleftrightarrow>
     (\<forall>k < length ps. (CHR ''#'' \<in> set (ps ! k) \<longrightarrow> ps ! k = ''#'' \<and> i + k = n - 1)
        \<and> (CHR ''+'' \<in> set (ps ! k) \<longrightarrow> ps ! k = ''+''))"
proof (induction ps arbitrary: i)
  case Nil
  then show ?case by simp
next
  case (Cons p ps)
  show ?case
    by (auto simp: Cons.IH All_less_Suc2 split: if_splits)
qed

lemma level_match_positional:
  assumes "f \<noteq> []" and "\<forall>k < length f. f ! k = ''#'' \<longrightarrow> k = length f - 1"
  shows "level_match f t = positional_match f t"
  using assms
proof (induction f arbitrary: t)
  case Nil
  then show ?case by simp
next
  case (Cons p ps)
  show ?case
  proof (cases ps)
    case Nil
    then show ?thesis
      by (cases t) (auto simp: positional_match_def level_ok_def)
  next
    case (Cons q qs)
    from Cons.prems(2) Cons have p: "p \<noteq> ''#''" by force
    have tl: "\<forall>k < length ps. ps ! k = ''#'' \<longrightarrow> k = length ps - 1"
      using Cons.prems(2) Cons by (auto simp: All_less_Suc2)
    have "level_match ps xs = positional_match ps xs" for xs
      using Cons.IH [OF _ tl] Cons by simp
    with p Cons show ?thesis
      by (cases t) (auto simp: positional_match_def level_ok_def)
  qed
qed

lemma valid_filter_hash_last:
  assumes "ValidateTopicFilter fltr = None"
  shows "\<forall>k < length (split_on (CHR ''/'') fltr).
           split_on (CHR ''/'') fltr ! k = ''#'' \<longrightarrow> k = length (split_on (CHR ''/'') fltr) - 1"
proof (intro allI impI)
  let ?ps = "split_on (CHR ''/'') fltr"
  fix k assume k: "k < length ?ps" and hash: "?ps ! k = ''#''"
  have "filter_levels 0 (length ?ps) ?ps = None"
    using assms by (simp add: ValidateTopicFilter_def Let_def split: if_splits)
  then have "CHR ''#'' \<in> set (?ps ! k) \<longrightarrow> 0 + k = length ?ps - 1"
    using k unfolding filter_levels_None by blast
  then show "k = length ?ps - 1" using hash by simp
qed

text \<open>C35: the SQL matching loop decides exactly the MQTT rule. For every filter that
  \<open>ValidateTopicFilter\<close> accepts and every accepted topic name, the filter matches when it is
  not a wildcard-rooted filter meeting a \<open>$\<close>-topic and the levels correspond position by
  position, \<open>+\<close> standing for one level and a final \<open>#\<close> for any number of levels,
  none included.\<close>

theorem topic_match_mqtt_rule:
  assumes "ValidateTopicFilter fltr = None" and "ValidateTopicName topic = None"
  shows "mqtt_topic_match fltr topic \<longleftrightarrow>
           \<not> dollar_guard fltr topic
           \<and> positional_match (split_on (CHR ''/'') fltr) (split_on (CHR ''/'') topic)"
proof -
  have "fltr \<noteq> []" "topic \<noteq> []"
    using assms by (auto simp: ValidateTopicFilter_def ValidateTopicName_def)
  then show ?thesis
    using level_match_positional [OF _ valid_filter_hash_last [OF assms(1)]]
    by (simp add: mqtt_topic_match_levels)
qed

theorem topic_match_mqtt_rule_witness:
  "ValidateTopicFilter ''a/+/#'' = None \<and> ValidateTopicName ''a/b'' = None
   \<and> mqtt_topic_match ''a/+/#'' ''a/b''"
proof -
  have f: "ValidateTopicFilter ''a/+/#'' = None"
    by (simp add: ValidateTopicFilter_def NUL_def byte_of_def in_range_def Let_def)
  have t: "ValidateTopicName ''a/b'' = None"
    by (simp add: ValidateTopicName_def NUL_def byte_of_def in_range_def Let_def)
  have g: "\<not> dollar_guard ''a/+/#'' ''a/b''" by code_simp
  have p: "positional_match (split_on (CHR ''/'') ''a/+/#'') (split_on (CHR ''/'') ''a/b'')"
    by (simp add: positional_match_def level_ok_def)
  from topic_match_mqtt_rule [OF f t] f t g p show ?thesis by simp
qed

lemma name_no_wildcards:
  assumes "ValidateTopicName t = None" and "p \<in> set (split_on (CHR ''/'') t)"
  shows "CHR ''#'' \<notin> set p \<and> CHR ''+'' \<notin> set p"
  using assms set_split_on [of "CHR ''#''" "CHR ''/''" t] set_split_on [of "CHR ''+''" "CHR ''/''" t]
  by (auto simp: ValidateTopicName_def split: if_splits)

lemma level_match_plain:
  "(\<forall>p \<in> set f. p \<noteq> ''#'' \<and> p \<noteq> ''+'') \<Longrightarrow> level_match f t \<longleftrightarrow> f = t"
  by (induction f arbitrary: t) (auto split: list.splits)

text \<open>A topic name is also a filter, and as a filter it matches that topic and no
  other. This covers \<open>$\<close>-topics, which a client may subscribe to by their full name.\<close>

theorem topic_name_is_exact_filter:
  assumes "ValidateTopicName t = None"
  shows "ValidateTopicFilter t = None \<and> (\<forall>u. mqtt_topic_match t u \<longleftrightarrow> u = t)"
proof -
  have nowild: "\<forall>p \<in> set (split_on (CHR ''/'') t). p \<noteq> ''#'' \<and> p \<noteq> ''+''"
    using name_no_wildcards [OF assms] by fastforce
  have "t \<noteq> []" using assms by (auto simp: ValidateTopicName_def)
  moreover have "\<not> dollar_guard t u" for u
    using nowild hd_in_set [OF split_on_not_Nil, of "CHR ''/''" t] by (auto simp: dollar_guard_def)
  ultimately have "mqtt_topic_match t u \<longleftrightarrow> u = t" for u
    using level_match_plain [OF nowild]
    by (auto simp: mqtt_topic_match_levels split_on_inj)
  moreover have "ValidateTopicFilter t = None"
    using assms name_no_wildcards [OF assms] nth_mem
    by (fastforce simp: ValidateTopicName_def ValidateTopicFilter_def Let_def filter_levels_None
        split: if_splits)
  ultimately show ?thesis by blast
qed

theorem topic_name_is_exact_filter_witness:
  "ValidateTopicName ''$SYS/up'' = None \<and> mqtt_topic_match ''$SYS/up'' ''$SYS/up''"
proof -
  have t: "ValidateTopicName ''$SYS/up'' = None"
    by (simp add: ValidateTopicName_def NUL_def byte_of_def in_range_def Let_def)
  from topic_name_is_exact_filter [OF t] t show ?thesis by blast
qed

lemma hasPrefix_iff: "hasPrefix t p \<longleftrightarrow> (\<exists>r. t = p @ r)"
  by (induction t p rule: hasPrefix.induct) auto

lemma indexByte_neg: "indexByte s d < 0 \<longleftrightarrow> d \<notin> set s"
  by (induction s) (auto simp: Let_def)

lemma indexByte_split:
  "d \<in> set s \<Longrightarrow> s = take (nat (indexByte s d)) s @ d # drop (nat (indexByte s d) + 1) s
     \<and> d \<notin> set (take (nat (indexByte s d)) s)"
proof (induction s)
  case Nil
  then show ?case by simp
next
  case (Cons c cs)
  show ?case
  proof (cases "c = d")
    case False
    with Cons have "\<not> indexByte cs d < 0" and d: "d \<in> set cs" by (auto simp: indexByte_neg)
    then have "nat (indexByte (c # cs) d) = Suc (nat (indexByte cs d))"
      using False by (auto simp: Let_def)
    with Cons.IH [OF d] False show ?thesis by simp
  qed simp
qed

lemma indexByte_append: "d \<notin> set g \<Longrightarrow> indexByte (g @ d # f) d = int (length g)"
  by (induction g) (auto simp: Let_def)

text \<open>The shared-subscription parser recognises exactly the strings
  \<open>$share/{group}/{filter}\<close> with a non-empty group without a slash, and returns that
  group and that filter.\<close>

theorem SharedSubscription_iff:
  "SharedSubscription t = (g, f, True) \<longleftrightarrow>
     t = ''$share/'' @ g @ ''/'' @ f \<and> g \<noteq> [] \<and> CHR ''/'' \<notin> set g"
proof
  assume "SharedSubscription t = (g, f, True)"
  then obtain r where t: "t = ''$share/'' @ r" and pos: "0 < indexByte r (CHR ''/'')"
    and g: "g = take (nat (indexByte r (CHR ''/''))) r"
    and f: "f = drop (nat (indexByte r (CHR ''/'')) + 1) r"
    by (auto simp: SharedSubscription_def hasPrefix_iff Let_def split: if_splits)
  have "CHR ''/'' \<in> set r" using pos indexByte_neg [of r "CHR ''/''"] by linarith
  from indexByte_split [OF this] pos t g f
  show "t = ''$share/'' @ g @ ''/'' @ f \<and> g \<noteq> [] \<and> CHR ''/'' \<notin> set g"
    by (cases r) auto
next
  assume "t = ''$share/'' @ g @ ''/'' @ f \<and> g \<noteq> [] \<and> CHR ''/'' \<notin> set g"
  then show "SharedSubscription t = (g, f, True)"
    using indexByte_append [of "CHR ''/''" g f]
    by (auto simp: SharedSubscription_def hasPrefix_iff Let_def)
qed

end
