(* ===== verification/Store.thy ===== *)
theory Store
  imports Topic
begin

text \<open>
  The database: the schema the migrations leave behind (\<open>src/internal/db/migrations\<close>, final
  state after 0018), one record per table row, and one definition per SQL statement the
  engine issues. A statement is a function from the database to an error (the SQLSTATE
  Postgres raises) or a result and the new database.

  Row order is the order of insertion. Where SQL leaves an order open (the rows of an
  \<open>UPDATE\<close>, the order in which a join feeds an \<open>INSERT\<close>), the model uses insertion order;
  no theorem depends on it. \<open>now()\<close> is an argument. Sequences are kept apart from the tables:
  a rollback restores the tables and leaves the sequences advanced, as Postgres does.
  JSONB columns are byte strings.
\<close>

section \<open>Schema\<close>

record user_row =
  u_username :: string
  u_password_hash :: string

record session_row =
  s_client_id :: string
  s_broker_id :: "uuid option"
  s_connected :: bool
  s_protocol_version :: nat
  s_clean_start :: bool
  s_expiry_interval :: "int option"
  s_will_topic :: "string option"
  s_will_payload :: "bytes option"
  s_will_qos :: "nat option"
  s_will_retain :: "bool option"
  s_will_delay :: "int option"
  s_will_properties :: "bytes option"
  s_last_seen :: instant
  s_will_fire_at :: "instant option"
  s_session_expires_at :: "instant option"
  s_session_token :: uuid

record subscription_row =
  sub_client_id :: string
  sub_topic_filter :: string
  sub_qos :: nat
  sub_no_local :: bool
  sub_retain_as_published :: bool
  sub_retain_handling :: nat
  sub_subscription_id :: "int option"

record retained_row =
  r_topic :: string
  r_payload :: bytes
  r_qos :: nat
  r_properties :: "bytes option"
  r_expires_at :: "instant option"

record message_row =
  m_id :: nat
  m_topic :: string
  m_payload :: bytes
  m_qos :: nat
  m_retain :: bool
  m_properties :: "bytes option"
  m_publisher :: "string option"
  m_created_at :: instant
  m_expires_at :: "instant option"

record delivery_row =
  d_id :: nat
  d_client_id :: string
  d_message_id :: nat
  d_qos :: nat
  d_packet_id :: "nat option"
  d_state :: nat

record inbound_row =
  q_client_id :: string
  q_packet_id :: nat
  q_received_at :: instant

text \<open>\<open>notifications\<close> is the queue of \<open>pg_notify\<close> calls (channel and payload); a transaction's
  notifications become visible with its commit and vanish with its rollback, exactly like
  its row changes.\<close>

record tables =
  users :: "user_row list"
  sessions :: "session_row list"
  subscriptions :: "subscription_row list"
  retained :: "retained_row list"
  messages :: "message_row list"
  deliveries :: "delivery_row list"
  inbound_qos2 :: "inbound_row list"
  notifications :: "(string \<times> string) list"

record db = tables +
  messages_seq :: nat
  deliveries_seq :: nat

definition empty_db :: db where
  "empty_db = \<lparr>users = [], sessions = [], subscriptions = [], retained = [], messages = [],
     deliveries = [], inbound_qos2 = [], notifications = [], messages_seq = 1,
     deliveries_seq = 1\<rparr>"

text \<open>Rolling a transaction back to the database \<open>d0\<close> it started from.\<close>

definition rollback :: "db \<Rightarrow> db \<Rightarrow> db" where
  "rollback d0 d = d0\<lparr>messages_seq := messages_seq d, deliveries_seq := deliveries_seq d\<rparr>"

type_synonym 'a stmt = "db \<Rightarrow> err + 'a \<times> db"

text \<open>The lookup every primary-key query is.\<close>

definition session_of :: "string \<Rightarrow> db \<Rightarrow> session_row option" where
  "session_of c d = find (\<lambda>s. s_client_id s = c) (sessions d)"

definition message_of :: "nat \<Rightarrow> db \<Rightarrow> message_row option" where
  "message_of i d = find (\<lambda>m. m_id m = i) (messages d)"

definition live :: "instant \<Rightarrow> instant option \<Rightarrow> bool" where
  "live now e = (case e of None \<Rightarrow> True | Some t \<Rightarrow> t > now)"

section \<open>Users and sessions\<close>

definition sel_password_hash :: "string \<Rightarrow> db \<Rightarrow> string option" where
  "sel_password_hash u d =
     map_option u_password_hash (find (\<lambda>r. u_username r = u) (users d))"

text \<open>The columns a CONNECT writes (\<open>takeOwnership\<close>).\<close>

record session_values =
  v_broker :: uuid
  v_protocol :: nat
  v_clean_start :: bool
  v_expiry :: "int option"
  v_will_topic :: "string option"
  v_will_payload :: "bytes option"
  v_will_qos :: "nat option"
  v_will_retain :: "bool option"
  v_will_delay :: "int option"
  v_will_properties :: "bytes option"

definition set_session_values ::
  "session_values \<Rightarrow> uuid \<Rightarrow> instant \<Rightarrow> session_row \<Rightarrow> session_row" where
  "set_session_values v token now s =
     s\<lparr>s_broker_id := Some (v_broker v), s_connected := True,
       s_protocol_version := v_protocol v, s_clean_start := v_clean_start v,
       s_expiry_interval := v_expiry v, s_will_topic := v_will_topic v,
       s_will_payload := v_will_payload v, s_will_qos := v_will_qos v,
       s_will_retain := v_will_retain v, s_will_delay := v_will_delay v,
       s_will_properties := v_will_properties v, s_session_token := token,
       s_last_seen := now\<rparr>"

definition upd_session_takeover ::
  "string \<Rightarrow> session_values \<Rightarrow> uuid \<Rightarrow> instant \<Rightarrow> uuid stmt" where
  "upd_session_takeover c v token now d =
     (if \<exists>s \<in> set (sessions d). s_client_id s = c then
        Inr (token, d\<lparr>sessions := map (\<lambda>s. if s_client_id s = c
               then set_session_values v token now s else s) (sessions d)\<rparr>)
      else Inl (PgError ''no rows''))"

definition ins_session ::
  "string \<Rightarrow> session_values \<Rightarrow> uuid \<Rightarrow> instant \<Rightarrow> uuid stmt" where
  "ins_session c v token now d =
     (if \<exists>s \<in> set (sessions d). s_client_id s = c then Inl (PgError ''23505'')
      else Inr (token, d\<lparr>sessions := sessions d @
        [\<lparr>s_client_id = c, s_broker_id = Some (v_broker v), s_connected = True,
          s_protocol_version = v_protocol v, s_clean_start = v_clean_start v,
          s_expiry_interval = v_expiry v, s_will_topic = v_will_topic v,
          s_will_payload = v_will_payload v, s_will_qos = v_will_qos v,
          s_will_retain = v_will_retain v, s_will_delay = v_will_delay v,
          s_will_properties = v_will_properties v, s_last_seen = now,
          s_will_fire_at = None, s_session_expires_at = None,
          s_session_token = token\<rparr>]\<rparr>))"

definition upd_session_timers_null :: "string \<Rightarrow> db \<Rightarrow> db" where
  "upd_session_timers_null c d =
     d\<lparr>sessions := map (\<lambda>s. if s_client_id s = c
          then s\<lparr>s_will_fire_at := None, s_session_expires_at := None\<rparr> else s) (sessions d)\<rparr>"

text \<open>\<open>DELETE FROM sessions\<close>: the foreign keys of \<open>subscriptions\<close> and \<open>inbound_qos2\<close> cascade, the
  one of \<open>deliveries\<close> was dropped in 0006. The count is the command's \<open>RowsAffected\<close>.\<close>

definition del_sessions_where :: "(session_row \<Rightarrow> bool) \<Rightarrow> db \<Rightarrow> nat \<times> db" where
  "del_sessions_where P d =
     (let gone = map s_client_id (filter P (sessions d)) in
      (length gone,
       d\<lparr>sessions := filter (\<lambda>s. \<not> P s) (sessions d),
         subscriptions := filter (\<lambda>r. sub_client_id r \<notin> set gone) (subscriptions d),
         inbound_qos2 := filter (\<lambda>r. q_client_id r \<notin> set gone) (inbound_qos2 d)\<rparr>))"

definition del_session_token :: "string \<Rightarrow> uuid \<Rightarrow> db \<Rightarrow> nat \<times> db" where
  "del_session_token c token = del_sessions_where (\<lambda>s. s_client_id s = c \<and> s_session_token s = token)"

definition clear_will :: "session_row \<Rightarrow> session_row" where
  "clear_will s = s\<lparr>s_will_topic := None, s_will_payload := None, s_will_qos := None,
     s_will_retain := None, s_will_delay := None, s_will_properties := None\<rparr>"

definition upd_session_disconnected ::
  "string \<Rightarrow> uuid \<Rightarrow> instant option \<Rightarrow> instant option \<Rightarrow> bool \<Rightarrow> instant \<Rightarrow> db \<Rightarrow> nat \<times> db" where
  "upd_session_disconnected c token fireAt expiresAt willFired now d =
     (let hit = (\<lambda>s. s_client_id s = c \<and> s_session_token s = token);
          upd = (\<lambda>s. s\<lparr>s_connected := False, s_broker_id := None, s_last_seen := now,
                       s_will_fire_at := fireAt, s_session_expires_at := expiresAt\<rparr>) in
      (length (filter hit (sessions d)),
       d\<lparr>sessions := map (\<lambda>s. if hit s then (if willFired then clear_will (upd s) else upd s)
                              else s) (sessions d)\<rparr>))"

text \<open>Statements of the engine's ownership maintenance: clearing the Pod's sessions at
  shutdown, re-attesting them after a reconnect, finding sockets another Pod owns now.\<close>

definition upd_sessions_detach :: "uuid \<Rightarrow> db \<Rightarrow> db" where
  "upd_sessions_detach self d =
     d\<lparr>sessions := map (\<lambda>s. if s_broker_id s = Some self
          then s\<lparr>s_connected := False, s_broker_id := None\<rparr> else s) (sessions d)\<rparr>"

definition upd_sessions_attest :: "uuid \<Rightarrow> (string \<times> uuid) list \<Rightarrow> instant \<Rightarrow> db \<Rightarrow> db" where
  "upd_sessions_attest self owned now d =
     d\<lparr>sessions := map (\<lambda>s. if (s_client_id s, s_session_token s) \<in> set owned
          then s\<lparr>s_broker_id := Some self, s_connected := True, s_last_seen := now\<rparr> else s)
          (sessions d)\<rparr>"

definition sel_foreign_owned :: "string list \<Rightarrow> uuid \<Rightarrow> db \<Rightarrow> string list" where
  "sel_foreign_owned cs self d =
     map s_client_id (filter (\<lambda>s. s_client_id s \<in> set cs \<and> s_broker_id s \<noteq> None
        \<and> s_broker_id s \<noteq> Some self) (sessions d))"

definition sel_quota_targets :: "string list \<Rightarrow> db \<Rightarrow> (string \<times> uuid \<times> uuid) list" where
  "sel_quota_targets cs d =
     concat (map (\<lambda>s. case s_broker_id s of
        Some b \<Rightarrow> if s_client_id s \<in> set cs \<and> s_connected s
                  then [(s_client_id s, b, s_session_token s)] else []
      | None \<Rightarrow> []) (sessions d))"

section \<open>Subscriptions and retained messages\<close>

definition same_sub :: "subscription_row \<Rightarrow> subscription_row \<Rightarrow> bool" where
  "same_sub a b \<longleftrightarrow> sub_client_id a = sub_client_id b \<and> sub_topic_filter a = sub_topic_filter b"

text \<open>\<open>INSERT ... ON CONFLICT (client_id, topic_filter) DO UPDATE ... RETURNING (xmax = 0)\<close>: the
  result tells whether the row is new. The foreign key to \<open>sessions\<close> raises 23503.\<close>

definition upsert_subscription :: "subscription_row \<Rightarrow> bool stmt" where
  "upsert_subscription r d =
     (if \<exists>x \<in> set (subscriptions d). same_sub x r then
        Inr (False, d\<lparr>subscriptions := map (\<lambda>x. if same_sub x r then r else x) (subscriptions d)\<rparr>)
      else if session_of (sub_client_id r) d = None then Inl (PgError ''23503'')
      else Inr (True, d\<lparr>subscriptions := subscriptions d @ [r]\<rparr>))"

definition del_subscription :: "string \<Rightarrow> string \<Rightarrow> db \<Rightarrow> nat \<times> db" where
  "del_subscription c f d =
     (let hit = (\<lambda>r. sub_client_id r = c \<and> sub_topic_filter r = f) in
      (length (filter hit (subscriptions d)),
       d\<lparr>subscriptions := filter (\<lambda>r. \<not> hit r) (subscriptions d)\<rparr>))"

definition del_subscriptions_client :: "string \<Rightarrow> db \<Rightarrow> db" where
  "del_subscriptions_client c d =
     d\<lparr>subscriptions := filter (\<lambda>r. sub_client_id r \<noteq> c) (subscriptions d)\<rparr>"

text \<open>The \<open>'me'\<close> field of a JSONB property document (\<open>MessageExpiryInterval\<close>), cast to a
  4-byte integer: the cast raises 22003 out of range. Reading the field out of the document
  is the argument \<open>json_me\<close>; an absent field is \<open>None\<close>.\<close>

definition cast_int4 :: "int \<Rightarrow> err + int" where
  "cast_int4 v = (if - 2147483648 \<le> v \<and> v \<le> 2147483647 then Inr v else Inl (PgError ''22003''))"

definition me_seconds :: "(bytes \<Rightarrow> int option) \<Rightarrow> bytes option \<Rightarrow> err + int" where
  "me_seconds json_me props =
     (case props of None \<Rightarrow> Inr 0
      | Some b \<Rightarrow> (case json_me b of None \<Rightarrow> Inr 0 | Some v \<Rightarrow> cast_int4 v))"

abbreviation seconds :: "int \<Rightarrow> duration" where
  "seconds n \<equiv> n * 1000000000"

definition mqtt_retained_expires_at ::
  "(bytes \<Rightarrow> int option) \<Rightarrow> bytes option \<Rightarrow> instant \<Rightarrow> err + instant option" where
  "mqtt_retained_expires_at json_me props now =
     and_then (me_seconds json_me props) (\<lambda>v. Inr (if v \<le> 0 then None else Some (now + seconds v)))"

definition del_retained :: "string \<Rightarrow> db \<Rightarrow> db" where
  "del_retained t d = d\<lparr>retained := filter (\<lambda>r. r_topic r \<noteq> t) (retained d)\<rparr>"

definition put_retained :: "retained_row \<Rightarrow> db \<Rightarrow> db" where
  "put_retained r d =
     (if \<exists>x \<in> set (retained d). r_topic x = r_topic r
      then d\<lparr>retained := map (\<lambda>x. if r_topic x = r_topic r then r else x) (retained d)\<rparr>
      else d\<lparr>retained := retained d @ [r]\<rparr>)"

definition upsert_retained ::
  "(bytes \<Rightarrow> int option) \<Rightarrow> string \<Rightarrow> bytes \<Rightarrow> nat \<Rightarrow> bytes option \<Rightarrow> instant \<Rightarrow> unit stmt" where
  "upsert_retained json_me t p q props now d =
     and_then (mqtt_retained_expires_at json_me props now) (\<lambda>e.
       Inr ((), put_retained \<lparr>r_topic = t, r_payload = p, r_qos = q, r_properties = props,
                              r_expires_at = e\<rparr> d))"

definition sel_retained_matching :: "string \<Rightarrow> instant \<Rightarrow> db \<Rightarrow> retained_row list" where
  "sel_retained_matching f now d =
     filter (\<lambda>r. mqtt_topic_match f (r_topic r) \<and> live now (r_expires_at r)) (retained d)"

section \<open>Messages and deliveries\<close>

definition ins_message ::
  "string \<Rightarrow> bytes option \<Rightarrow> nat \<Rightarrow> bool \<Rightarrow> bytes option \<Rightarrow> string option \<Rightarrow> instant option \<Rightarrow>
   instant \<Rightarrow> nat stmt" where
  "ins_message t p q ret props publ expires now d =
     (case p of None \<Rightarrow> Inl (PgError ''23502'')
      | Some payload \<Rightarrow>
          Inr (messages_seq d,
               d\<lparr>messages := messages d @ [\<lparr>m_id = messages_seq d, m_topic = t,
                   m_payload = payload, m_qos = q, m_retain = ret, m_properties = props,
                   m_publisher = publ, m_created_at = now, m_expires_at = expires\<rparr>],
                 messages_seq := messages_seq d + 1\<rparr>))"

definition ins_delivery :: "string \<Rightarrow> nat \<Rightarrow> nat \<Rightarrow> unit stmt" where
  "ins_delivery c i q d =
     (if message_of i d = None then Inl (PgError ''23503'')
      else Inr ((), d\<lparr>deliveries := deliveries d @ [\<lparr>d_id = deliveries_seq d, d_client_id = c,
                        d_message_id = i, d_qos = q, d_packet_id = None, d_state = 0\<rparr>],
                      deliveries_seq := deliveries_seq d + 1\<rparr>))"

text \<open>\<open>UPDATE deliveries SET packet_id=$1, state=1 WHERE ...\<close>: the unique partial index
  \<open>deliveries_client_packet_idx\<close> on \<open>(client_id, packet_id)\<close> raises 23505.\<close>

definition packet_ids_unique :: "delivery_row list \<Rightarrow> bool" where
  "packet_ids_unique ds \<longleftrightarrow>
     distinct (map (\<lambda>r. (d_client_id r, d_packet_id r)) (filter (\<lambda>r. d_packet_id r \<noteq> None) ds))"

definition claim_deliveries_where :: "(delivery_row \<Rightarrow> bool) \<Rightarrow> nat \<Rightarrow> nat stmt" where
  "claim_deliveries_where P pid d =
     (let ds = map (\<lambda>r. if P r then r\<lparr>d_packet_id := Some pid, d_state := 1\<rparr> else r) (deliveries d) in
      if packet_ids_unique ds
      then Inr (length (filter P (deliveries d)), d\<lparr>deliveries := ds\<rparr>)
      else Inl (PgError ''23505''))"

definition claim_delivery :: "nat \<Rightarrow> nat \<Rightarrow> nat stmt" where
  "claim_delivery pid i = claim_deliveries_where (\<lambda>r. d_id r = i \<and> d_state r = 0) pid"

definition claim_delivery_msg :: "nat \<Rightarrow> string \<Rightarrow> nat \<Rightarrow> nat stmt" where
  "claim_delivery_msg pid c i =
     claim_deliveries_where (\<lambda>r. d_client_id r = c \<and> d_message_id r = i \<and> d_state r = 0) pid"

definition del_deliveries_where :: "(delivery_row \<Rightarrow> bool) \<Rightarrow> db \<Rightarrow> nat \<times> db" where
  "del_deliveries_where P d =
     (length (filter P (deliveries d)), d\<lparr>deliveries := filter (\<lambda>r. \<not> P r) (deliveries d)\<rparr>)"

definition del_delivery :: "nat \<Rightarrow> db \<Rightarrow> nat \<times> db" where
  "del_delivery i = del_deliveries_where (\<lambda>r. d_id r = i)"

definition del_deliveries_client :: "string \<Rightarrow> db \<Rightarrow> db" where
  "del_deliveries_client c d = snd (del_deliveries_where (\<lambda>r. d_client_id r = c) d)"

definition del_delivery_acked :: "string \<Rightarrow> nat \<Rightarrow> nat \<Rightarrow> db \<Rightarrow> nat \<times> db" where
  "del_delivery_acked c pid q =
     del_deliveries_where (\<lambda>r. d_client_id r = c \<and> d_packet_id r = Some pid \<and> d_qos r = q)"

definition upd_delivery_pubrec :: "string \<Rightarrow> nat \<Rightarrow> db \<Rightarrow> db" where
  "upd_delivery_pubrec c pid d =
     d\<lparr>deliveries := map (\<lambda>r. if d_client_id r = c \<and> d_packet_id r = Some pid \<and> d_qos r = 2
          \<and> d_state r = 1 then r\<lparr>d_state := 2\<rparr> else r) (deliveries d)\<rparr>"

definition sel_max_packet_id :: "string \<Rightarrow> db \<Rightarrow> nat option" where
  "sel_max_packet_id c d =
     (let ids = List.map_filter d_packet_id (filter (\<lambda>r. d_client_id r = c) (deliveries d)) in
      if ids = [] then None else Some (foldr max ids 0))"

definition exists_packet_id :: "string \<Rightarrow> nat \<Rightarrow> db \<Rightarrow> bool" where
  "exists_packet_id c pid d \<longleftrightarrow>
     (\<exists>r \<in> set (deliveries d). d_client_id r = c \<and> d_packet_id r = Some pid)"

section \<open>Inbound QoS 2 and notifications\<close>

definition ins_inbound_qos2 :: "string \<Rightarrow> nat \<Rightarrow> instant \<Rightarrow> nat stmt" where
  "ins_inbound_qos2 c pid now d =
     (if \<exists>r \<in> set (inbound_qos2 d). q_client_id r = c \<and> q_packet_id r = pid then Inr (0, d)
      else if session_of c d = None then Inl (PgError ''23503'')
      else Inr (1, d\<lparr>inbound_qos2 := inbound_qos2 d @
                      [\<lparr>q_client_id = c, q_packet_id = pid, q_received_at = now\<rparr>]\<rparr>))"

definition exists_inbound_qos2 :: "string \<Rightarrow> nat \<Rightarrow> db \<Rightarrow> bool" where
  "exists_inbound_qos2 c pid d \<longleftrightarrow>
     (\<exists>r \<in> set (inbound_qos2 d). q_client_id r = c \<and> q_packet_id r = pid)"

definition del_inbound_qos2 :: "string \<Rightarrow> nat \<Rightarrow> db \<Rightarrow> nat \<times> db" where
  "del_inbound_qos2 c pid d =
     (let hit = (\<lambda>r. q_client_id r = c \<and> q_packet_id r = pid) in
      (length (filter hit (inbound_qos2 d)),
       d\<lparr>inbound_qos2 := filter (\<lambda>r. \<not> hit r) (inbound_qos2 d)\<rparr>))"

definition del_inbound_qos2_client :: "string \<Rightarrow> db \<Rightarrow> db" where
  "del_inbound_qos2_client c d =
     d\<lparr>inbound_qos2 := filter (\<lambda>r. q_client_id r \<noteq> c) (inbound_qos2 d)\<rparr>"

text \<open>\<open>pg_notify\<close>: a payload of 8000 bytes or more is an error (22023).\<close>

definition pg_notify :: "string list \<Rightarrow> string \<Rightarrow> unit stmt" where
  "pg_notify channels payload d =
     (if channels \<noteq> [] \<and> length payload \<ge> 8000 then Inl (PgError ''22023'')
      else Inr ((), d\<lparr>notifications := notifications d @ map (\<lambda>c. (c, payload)) channels\<rparr>))"

end
