(* ===== verification/Fanout.thy ===== *)
theory Fanout
  imports Store
begin

text \<open>
  The SQL function \<open>mqtt_publish\<close> in its final version (\<open>0018\<close>), which inserts a message and
  one delivery for each client it reaches, and the join queries by which the engine reads
  deliveries back (\<open>deliver.go\<close>, \<open>conn.go\<close>).
\<close>

section \<open>mqtt_publish\<close>

text \<open>A row of the \<open>matches\<close> common table expression.\<close>

record match_row =
  mt_client :: string
  mt_broker :: "uuid option"
  mt_connected :: bool
  mt_qos :: nat

record publish_result =
  pr_msg_id :: nat
  pr_brokers :: "uuid list"
  pr_overflow :: "string list"
  pr_delivered :: nat

text \<open>The subscriptions the \<open>WHERE\<close> clause of \<open>matches\<close> keeps.\<close>

definition sub_matches :: "string \<Rightarrow> string option \<Rightarrow> subscription_row \<Rightarrow> bool" where
  "sub_matches topic publisher r \<longleftrightarrow>
     mqtt_topic_match (sub_topic_filter r) topic \<and>
     \<not> (sub_no_local r \<and> publisher = Some (sub_client_id r))"

definition matching_subs :: "string \<Rightarrow> string option \<Rightarrow> string \<Rightarrow> db \<Rightarrow> subscription_row list" where
  "matching_subs topic publisher c d =
     filter (\<lambda>r. sub_client_id r = c \<and> sub_matches topic publisher r) (subscriptions d)"

text \<open>\<open>DISTINCT ON (client_id) ... ORDER BY client_id, qos DESC\<close>: one row a client, with the
  highest subscription QoS.\<close>

definition match_of :: "string \<Rightarrow> string option \<Rightarrow> nat \<Rightarrow> db \<Rightarrow> session_row \<Rightarrow> match_row" where
  "match_of topic publisher qos d s =
     \<lparr>mt_client = s_client_id s, mt_broker = s_broker_id s, mt_connected = s_connected s,
      mt_qos = min (foldr max (map sub_qos (matching_subs topic publisher (s_client_id s) d)) 0) qos\<rparr>"

definition matches :: "string \<Rightarrow> string option \<Rightarrow> nat \<Rightarrow> db \<Rightarrow> match_row list" where
  "matches topic publisher qos d =
     map (match_of topic publisher qos d)
       (filter (\<lambda>s. matching_subs topic publisher (s_client_id s) d \<noteq> []) (sessions d))"

text \<open>\<open>pending\<close>: \<open>EXISTS (... OFFSET p_max_queued - 1 LIMIT 1)\<close>.\<close>

definition queue_depth :: "string \<Rightarrow> db \<Rightarrow> nat" where
  "queue_depth c d =
     length (filter (\<lambda>r. d_client_id r = c \<and> d_state r \<in> {0, 1, 2}) (deliveries d))"

definition over_cap :: "int \<Rightarrow> db \<Rightarrow> string \<Rightarrow> bool" where
  "over_cap max_queued d c \<longleftrightarrow> max_queued \<noteq> 0 \<and> int (queue_depth c d) > max_queued - 1"

definition inserted :: "int \<Rightarrow> db \<Rightarrow> match_row list \<Rightarrow> match_row list" where
  "inserted max_queued d ms =
     filter (\<lambda>m. (mt_qos m > 0 \<or> mt_connected m) \<and>
                 (mt_qos m = 0 \<or> \<not> over_cap max_queued d (mt_client m))) ms"

fun ins_deliveries :: "nat \<Rightarrow> match_row list \<Rightarrow> db \<Rightarrow> db" where
  "ins_deliveries i [] d = d"
| "ins_deliveries i (m # ms) d =
     ins_deliveries i ms
       (d\<lparr>deliveries := deliveries d @ [\<lparr>d_id = deliveries_seq d, d_client_id = mt_client m,
            d_message_id = i, d_qos = mt_qos m, d_packet_id = None, d_state = 0\<rparr>],
          deliveries_seq := deliveries_seq d + 1\<rparr>)"

definition mqtt_publish ::
  "(bytes \<Rightarrow> int option) \<Rightarrow> string \<Rightarrow> bytes option \<Rightarrow> nat \<Rightarrow> bool \<Rightarrow> bytes option \<Rightarrow> string option \<Rightarrow>
   int \<Rightarrow> instant \<Rightarrow> publish_result stmt" where
  "mqtt_publish json_me topic payload qos ret props publisher max_queued t d =
     and_then (me_seconds json_me props) (\<lambda>me.
     and_then (ins_message topic payload qos ret props publisher
                (if me > 0 then Some (t + seconds me) else None) t d) (\<lambda>(i, d1).
       let ms = matches topic publisher qos d1;
           ins = inserted max_queued d1 ms in
       if max_queued < 0 \<and> ms \<noteq> [] then Inl (PgError ''2201X'')
       else Inr (\<lparr>pr_msg_id = i,
                  pr_brokers = remdups (List.map_filter mt_broker ins),
                  pr_overflow = map mt_client
                    (filter (\<lambda>m. mt_qos m > 0 \<and> over_cap max_queued d1 (mt_client m)) ms),
                  pr_delivered = length ins\<rparr>,
                 ins_deliveries i ins d1)))"

section \<open>Reading deliveries back\<close>

text \<open>A row of the scans in \<open>Deliver\<close>, \<open>drainSessionQueue\<close> and \<open>drainOnce\<close>.\<close>

record item =
  it_deliveryID :: nat
  it_clientID :: string
  it_qos :: nat
  it_state :: nat
  it_packetID :: "nat option"
  it_topic :: string
  it_payload :: bytes
  it_props :: "bytes option"
  it_retain :: bool
  it_expiresAt :: "instant option"
  it_subIDs :: "int list"
  it_retainAsPublished :: bool

definition client_subs :: "string \<Rightarrow> string \<Rightarrow> db \<Rightarrow> subscription_row list" where
  "client_subs c topic d =
     filter (\<lambda>r. sub_client_id r = c \<and> mqtt_topic_match (sub_topic_filter r) topic) (subscriptions d)"

definition item_of :: "db \<Rightarrow> delivery_row \<Rightarrow> message_row \<Rightarrow> item" where
  "item_of d r m =
     \<lparr>it_deliveryID = d_id r, it_clientID = d_client_id r, it_qos = d_qos r, it_state = d_state r,
      it_packetID = d_packet_id r, it_topic = m_topic m, it_payload = m_payload m,
      it_props = m_properties m, it_retain = m_retain m, it_expiresAt = m_expires_at m,
      it_subIDs = sort (List.map_filter sub_subscription_id (client_subs (d_client_id r) (m_topic m) d)),
      it_retainAsPublished =
        list_ex sub_retain_as_published (client_subs (d_client_id r) (m_topic m) d)\<rparr>"

definition delivery_items :: "(delivery_row \<Rightarrow> bool) \<Rightarrow> instant \<Rightarrow> db \<Rightarrow> item list" where
  "delivery_items P t d =
     concat (map (\<lambda>r. if P r then
         (case message_of (d_message_id r) d of
            None \<Rightarrow> []
          | Some m \<Rightarrow> if live t (m_expires_at m) then [item_of d r m] else [])
       else []) (deliveries d))"

text \<open>The scan of \<open>Deliver\<close>: queued deliveries of one message whose client this Pod owns.\<close>

definition sel_deliver :: "nat \<Rightarrow> uuid \<Rightarrow> instant \<Rightarrow> db \<Rightarrow> item list" where
  "sel_deliver msg self t d =
     delivery_items (\<lambda>r. d_message_id r = msg \<and> d_state r = 0 \<and>
       (\<exists>s \<in> set (sessions d). s_client_id s = d_client_id r \<and> s_broker_id s = Some self)) t d"

definition sel_session_queue :: "string \<Rightarrow> instant \<Rightarrow> db \<Rightarrow> item list" where
  "sel_session_queue c t d =
     sort_key it_deliveryID
       (delivery_items (\<lambda>r. d_client_id r = c \<and> d_state r \<in> {0, 1, 2}) t d)"

definition sel_drain_one :: "string \<Rightarrow> instant \<Rightarrow> db \<Rightarrow> item option" where
  "sel_drain_one c t d =
     (case sort_key it_deliveryID
        (delivery_items (\<lambda>r. d_client_id r = c \<and> d_state r = 0 \<and> d_qos r > 0) t d) of
        [] \<Rightarrow> None | i # _ \<Rightarrow> Some i)"

end
