(* ===== verification/Schema.thy ===== *)
theory Schema
  imports Fanout
begin

text \<open>
  The constraints of the schema as an invariant of the database (primary keys, foreign keys,
  the partial unique index on packet ids, identifiers below their sequences) together with
  the life cycle of a delivery, and the proof that every statement of the engine keeps it.
  Postgres enforces the constraints; here they are consequences of the statements' definitions,
  so a statement that raised the wrong error, or none, would break a proof.
\<close>

section \<open>The invariant\<close>

definition sub_key :: "subscription_row \<Rightarrow> string \<times> string" where
  "sub_key r = (sub_client_id r, sub_topic_filter r)"

definition inbound_key :: "inbound_row \<Rightarrow> string \<times> nat" where
  "inbound_key r = (q_client_id r, q_packet_id r)"

text \<open>The life cycle of a delivery: queued without a packet id (state 0), sent with a packet
  id between 1 and 65535 (state 1), and for QoS 2 received (state 2).\<close>

definition delivery_ok :: "delivery_row \<Rightarrow> bool" where
  "delivery_ok r \<longleftrightarrow>
     (d_state r = 0 \<and> d_packet_id r = None) \<or>
     ((d_state r = 1 \<or> d_state r = 2 \<and> d_qos r = 2) \<and>
      (\<exists>p. d_packet_id r = Some p \<and> 1 \<le> p \<and> p \<le> 65535))"

definition sessions_wf :: "db \<Rightarrow> bool" where
  "sessions_wf d \<longleftrightarrow> distinct_key s_client_id (sessions d) \<and>
     distinct_key sub_key (subscriptions d) \<and> distinct_key inbound_key (inbound_qos2 d) \<and>
     sub_client_id ` set (subscriptions d) \<subseteq> s_client_id ` set (sessions d) \<and>
     q_client_id ` set (inbound_qos2 d) \<subseteq> s_client_id ` set (sessions d)"

definition messages_wf :: "db \<Rightarrow> bool" where
  "messages_wf d \<longleftrightarrow> distinct_key m_id (messages d) \<and>
     (\<forall>m \<in> set (messages d). m_id m < messages_seq d) \<and>
     d_message_id ` set (deliveries d) \<subseteq> m_id ` set (messages d)"

definition deliveries_wf :: "db \<Rightarrow> bool" where
  "deliveries_wf d \<longleftrightarrow> distinct_key d_id (deliveries d) \<and>
     (\<forall>r \<in> set (deliveries d). d_id r < deliveries_seq d \<and> delivery_ok r) \<and>
     packet_ids_unique (deliveries d)"

definition db_wf :: "db \<Rightarrow> bool" where
  "db_wf d \<longleftrightarrow> distinct_key u_username (users d) \<and> sessions_wf d \<and>
     distinct_key r_topic (retained d) \<and> messages_wf d \<and> deliveries_wf d"

lemmas wf_defs = db_wf_def sessions_wf_def messages_wf_def deliveries_wf_def

text \<open>Each part reads only its own tables.\<close>

lemma sessions_wf_frame [simp]:
  "sessions_wf (d\<lparr>users := u\<rparr>) = sessions_wf d"
  "sessions_wf (d\<lparr>retained := r\<rparr>) = sessions_wf d"
  "sessions_wf (d\<lparr>messages := m\<rparr>) = sessions_wf d"
  "sessions_wf (d\<lparr>deliveries := l\<rparr>) = sessions_wf d"
  "sessions_wf (d\<lparr>notifications := n\<rparr>) = sessions_wf d"
  "sessions_wf (d\<lparr>messages_seq := i\<rparr>) = sessions_wf d"
  "sessions_wf (d\<lparr>deliveries_seq := i\<rparr>) = sessions_wf d"
  by (simp_all add: sessions_wf_def)

lemma messages_wf_frame [simp]:
  "messages_wf (d\<lparr>users := u\<rparr>) = messages_wf d"
  "messages_wf (d\<lparr>sessions := s\<rparr>) = messages_wf d"
  "messages_wf (d\<lparr>subscriptions := b\<rparr>) = messages_wf d"
  "messages_wf (d\<lparr>inbound_qos2 := q\<rparr>) = messages_wf d"
  "messages_wf (d\<lparr>retained := r\<rparr>) = messages_wf d"
  "messages_wf (d\<lparr>notifications := n\<rparr>) = messages_wf d"
  "messages_wf (d\<lparr>deliveries_seq := i\<rparr>) = messages_wf d"
  by (simp_all add: messages_wf_def)

lemma deliveries_wf_frame [simp]:
  "deliveries_wf (d\<lparr>users := u\<rparr>) = deliveries_wf d"
  "deliveries_wf (d\<lparr>sessions := s\<rparr>) = deliveries_wf d"
  "deliveries_wf (d\<lparr>subscriptions := b\<rparr>) = deliveries_wf d"
  "deliveries_wf (d\<lparr>inbound_qos2 := q\<rparr>) = deliveries_wf d"
  "deliveries_wf (d\<lparr>retained := r\<rparr>) = deliveries_wf d"
  "deliveries_wf (d\<lparr>messages := m\<rparr>) = deliveries_wf d"
  "deliveries_wf (d\<lparr>notifications := n\<rparr>) = deliveries_wf d"
  "deliveries_wf (d\<lparr>messages_seq := i\<rparr>) = deliveries_wf d"
  by (simp_all add: deliveries_wf_def)

lemma empty_db_wf: "db_wf empty_db"
  by (simp add: wf_defs empty_db_def packet_ids_unique_def)

section \<open>The tables are keyed tables\<close>

lemma session_of_row: "session_of c d = get_row s_client_id c (sessions d)"
  by (simp add: session_of_def get_row_def)

lemma message_of_row: "message_of i d = get_row m_id i (messages d)"
  by (simp add: message_of_def get_row_def)

lemma session_of_None: "session_of c d = None \<longleftrightarrow> c \<notin> s_client_id ` set (sessions d)"
  by (simp add: session_of_row get_row_None)

lemma message_of_None: "message_of i d = None \<longleftrightarrow> i \<notin> m_id ` set (messages d)"
  by (simp add: message_of_row get_row_None)

lemma session_of_Some: "session_of c d = Some s \<Longrightarrow> s \<in> set (sessions d) \<and> s_client_id s = c"
  by (auto simp: session_of_row dest: get_row_Some)

text \<open>Retained messages: the key is the topic, the value the rest of the row.\<close>

type_synonym retained_value = "bytes \<times> nat \<times> bytes option \<times> instant option"

definition retained_value :: "retained_row \<Rightarrow> retained_value" where
  "retained_value r = (r_payload r, r_qos r, r_properties r, r_expires_at r)"

definition retained_of :: "db \<Rightarrow> string \<Rightarrow> retained_value option" where
  "retained_of d t = map_option retained_value (get_row r_topic t (retained d))"

definition set_retained :: "string \<Rightarrow> retained_value \<Rightarrow> db \<Rightarrow> db" where
  "set_retained t v d = (case v of (p, q, props, e) \<Rightarrow>
     put_retained \<lparr>r_topic = t, r_payload = p, r_qos = q, r_properties = props,
                   r_expires_at = e\<rparr> d)"

definition retained_wf :: "db \<Rightarrow> bool" where
  "retained_wf d \<longleftrightarrow> distinct_key r_topic (retained d)"

lemma put_retained_row: "put_retained r d = d\<lparr>retained := put_row r_topic r (retained d)\<rparr>"
  by (simp add: put_retained_def put_row_def)

lemma del_retained_row: "del_retained t d = d\<lparr>retained := del_row r_topic t (retained d)\<rparr>"
  by (simp add: del_retained_def del_row_def)

interpretation retained: keyed_table retained_wf retained_of set_retained del_retained
  by unfold_locales
    (auto simp: retained_wf_def retained_of_def set_retained_def retained_value_def
      put_retained_row del_retained_row get_put_row get_del_row split: prod.splits)

section \<open>Statements keep the invariant\<close>

lemma db_wf_rollback:
  assumes "db_wf d0" "messages_seq d0 \<le> messages_seq d" "deliveries_seq d0 \<le> deliveries_seq d"
  shows "db_wf (rollback d0 d)"
proof -
  have "messages_wf (d0\<lparr>messages_seq := messages_seq d\<rparr>)"
    using assms by (force simp: db_wf_def messages_wf_def)
  moreover have "deliveries_wf (rollback d0 d)"
    using assms by (force simp: db_wf_def deliveries_wf_def rollback_def)
  ultimately show ?thesis
    using assms(1) by (simp add: db_wf_def rollback_def)
qed

text \<open>Updating session rows without touching their keys.\<close>

lemma db_wf_sessions_map:
  assumes "db_wf d" "\<And>s. s_client_id (f s) = s_client_id s"
  shows "db_wf (d\<lparr>sessions := map f (sessions d)\<rparr>)"
proof -
  have "s_client_id \<circ> f = s_client_id" using assms(2) by auto
  with assms show ?thesis by (simp add: db_wf_def sessions_wf_def image_image)
qed

lemma db_wf_upd_session_takeover:
  "db_wf d \<Longrightarrow> upd_session_takeover c v token t d = Inr (x, d') \<Longrightarrow> db_wf d'"
  by (auto simp: upd_session_takeover_def set_session_values_def intro!: db_wf_sessions_map
      split: if_splits)

lemma db_wf_ins_session: "db_wf d \<Longrightarrow> ins_session c v token t d = Inr (x, d') \<Longrightarrow> db_wf d'"
  by (auto simp: ins_session_def db_wf_def sessions_wf_def image_subset_iff split: if_splits)

lemma db_wf_upd_session_timers_null: "db_wf d \<Longrightarrow> db_wf (upd_session_timers_null c d)"
  by (auto simp: upd_session_timers_null_def intro!: db_wf_sessions_map)

lemma db_wf_upd_session_disconnected:
  "db_wf d \<Longrightarrow> db_wf (snd (upd_session_disconnected c token f e b t d))"
  by (auto simp: upd_session_disconnected_def Let_def clear_will_def intro!: db_wf_sessions_map)

lemma db_wf_upd_sessions_detach: "db_wf d \<Longrightarrow> db_wf (upd_sessions_detach self d)"
  by (auto simp: upd_sessions_detach_def intro!: db_wf_sessions_map)

lemma db_wf_upd_sessions_attest: "db_wf d \<Longrightarrow> db_wf (upd_sessions_attest self owned t d)"
  by (auto simp: upd_sessions_attest_def intro!: db_wf_sessions_map)

lemma sessions_wf_del_sessions:
  assumes "sessions_wf d" "gone = map s_client_id (filter P (sessions d))"
  shows "sessions_wf (d\<lparr>sessions := filter (\<lambda>s. \<not> P s) (sessions d),
     subscriptions := filter (\<lambda>r. sub_client_id r \<notin> set gone) (subscriptions d),
     inbound_qos2 := filter (\<lambda>r. q_client_id r \<notin> set gone) (inbound_qos2 d)\<rparr>)"
proof -
  have "c \<in> s_client_id ` set (filter (\<lambda>s. \<not> P s) (sessions d))"
    if "c \<in> s_client_id ` set (sessions d)" "c \<notin> set gone" for c
    using that assms(2) by auto
  with assms(1) show ?thesis by (auto simp: sessions_wf_def image_subset_iff)
qed

lemma db_wf_del_sessions_where: "db_wf d \<Longrightarrow> db_wf (snd (del_sessions_where P d))"
  unfolding del_sessions_where_def Let_def db_wf_def
  by (simp add: sessions_wf_del_sessions [OF _ refl, simplified])

lemma db_wf_del_session_token: "db_wf d \<Longrightarrow> db_wf (snd (del_session_token c token d))"
  by (simp add: del_session_token_def db_wf_del_sessions_where)

lemma upsert_subscription_row:
  assumes "upsert_subscription r d = Inr (x, d')"
  shows "d' = d\<lparr>subscriptions := put_row sub_key r (subscriptions d)\<rparr>"
    "sub_key r \<in> sub_key ` set (subscriptions d) \<or> sub_client_id r \<in> s_client_id ` set (sessions d)"
    "x \<longleftrightarrow> sub_key r \<notin> sub_key ` set (subscriptions d)"
  using assms
  by (auto simp: upsert_subscription_def put_row_def same_sub_def sub_key_def session_of_None
      intro: rev_image_eqI split: if_splits)

lemma set_put_row: "set (put_row key r rs) \<subseteq> insert r (set rs)"
  by (auto simp: put_row_def)

lemma sessions_wf_put_sub:
  assumes "sessions_wf d"
    and "sub_key r \<in> sub_key ` set (subscriptions d) \<or> sub_client_id r \<in> s_client_id ` set (sessions d)"
  shows "sessions_wf (d\<lparr>subscriptions := put_row sub_key r (subscriptions d)\<rparr>)"
proof -
  have "sub_client_id r \<in> s_client_id ` set (sessions d)"
    using assms by (auto simp: sessions_wf_def sub_key_def image_subset_iff)
  then have "sub_client_id ` set (put_row sub_key r (subscriptions d)) \<subseteq> s_client_id ` set (sessions d)"
    using assms(1) set_put_row [of sub_key r "subscriptions d"] by (auto simp: sessions_wf_def)
  with assms(1) show ?thesis by (simp add: sessions_wf_def)
qed

lemma db_wf_upsert_subscription:
  "db_wf d \<Longrightarrow> upsert_subscription r d = Inr (x, d') \<Longrightarrow> db_wf d'"
  using upsert_subscription_row [of r d x d'] sessions_wf_put_sub [of d r]
  by (simp add: db_wf_def)

lemma db_wf_filter_subscriptions:
  "db_wf d \<Longrightarrow> db_wf (d\<lparr>subscriptions := filter P (subscriptions d)\<rparr>)"
  by (auto simp: db_wf_def sessions_wf_def)

lemma db_wf_filter_inbound: "db_wf d \<Longrightarrow> db_wf (d\<lparr>inbound_qos2 := filter P (inbound_qos2 d)\<rparr>)"
  by (auto simp: db_wf_def sessions_wf_def)

lemma db_wf_del_subscription: "db_wf d \<Longrightarrow> db_wf (snd (del_subscription c f d))"
  by (simp add: del_subscription_def Let_def db_wf_filter_subscriptions)

lemma db_wf_del_subscriptions_client: "db_wf d \<Longrightarrow> db_wf (del_subscriptions_client c d)"
  by (simp add: del_subscriptions_client_def db_wf_filter_subscriptions)

lemma db_wf_del_inbound_qos2: "db_wf d \<Longrightarrow> db_wf (snd (del_inbound_qos2 c pid d))"
  by (simp add: del_inbound_qos2_def Let_def db_wf_filter_inbound)

lemma db_wf_del_inbound_qos2_client: "db_wf d \<Longrightarrow> db_wf (del_inbound_qos2_client c d)"
  by (simp add: del_inbound_qos2_client_def db_wf_filter_inbound)

lemma db_wf_ins_inbound_qos2: "db_wf d \<Longrightarrow> ins_inbound_qos2 c pid t d = Inr (x, d') \<Longrightarrow> db_wf d'"
  by (auto simp: ins_inbound_qos2_def db_wf_def sessions_wf_def session_of_None inbound_key_def
      image_subset_iff split: if_splits) metis

lemma db_wf_del_retained: "db_wf d \<Longrightarrow> db_wf (del_retained t d)"
  by (simp add: del_retained_row db_wf_def)

lemma db_wf_upsert_retained: "db_wf d \<Longrightarrow> upsert_retained jm t p q props i d = Inr (x, d') \<Longrightarrow> db_wf d'"
  by (auto simp: upsert_retained_def and_then_Inr put_retained_row db_wf_def)

lemma db_wf_pg_notify: "db_wf d \<Longrightarrow> pg_notify cs p d = Inr (x, d') \<Longrightarrow> db_wf d'"
  by (auto simp: pg_notify_def db_wf_def split: if_splits)

lemma db_wf_ins_message:
  assumes "db_wf d" "ins_message t p q r props publ e i d = Inr (x, d')"
  shows "db_wf d'" "x = messages_seq d" "messages_seq d' = messages_seq d + 1"
    "deliveries d' = deliveries d" "deliveries_seq d' = deliveries_seq d"
    "x \<in> m_id ` set (messages d')"
  using assms
  by (auto simp: ins_message_def db_wf_def messages_wf_def image_subset_iff less_Suc_eq
      split: option.splits) (metis less_irrefl)

text \<open>Appending a queued delivery of an existing message.\<close>

lemma packet_ids_unique_append_queued:
  "d_packet_id r = None \<Longrightarrow> packet_ids_unique (ds @ [r]) = packet_ids_unique ds"
  by (simp add: packet_ids_unique_def)

lemma db_wf_append_delivery:
  assumes "db_wf d" "i \<in> m_id ` set (messages d)"
  shows "db_wf (d\<lparr>deliveries := deliveries d @ [\<lparr>d_id = deliveries_seq d, d_client_id = c,
      d_message_id = i, d_qos = q, d_packet_id = None, d_state = 0\<rparr>],
      deliveries_seq := deliveries_seq d + 1\<rparr>)"
proof -
  let ?r = "\<lparr>d_id = deliveries_seq d, d_client_id = c, d_message_id = i, d_qos = q,
    d_packet_id = None, d_state = 0\<rparr>"
  have "messages_wf (d\<lparr>deliveries := deliveries d @ [?r]\<rparr>)"
    using assms by (auto simp: db_wf_def messages_wf_def)
  moreover have "deliveries_wf (d\<lparr>deliveries := deliveries d @ [?r],
      deliveries_seq := deliveries_seq d + 1\<rparr>)"
    using assms(1)
    by (auto simp: db_wf_def deliveries_wf_def packet_ids_unique_append_queued delivery_ok_def
        less_Suc_eq)
  ultimately show ?thesis
    using assms(1) by (simp add: db_wf_def)
qed

lemma db_wf_ins_delivery: "db_wf d \<Longrightarrow> ins_delivery c i q d = Inr (x, d') \<Longrightarrow> db_wf d'"
  using db_wf_append_delivery [of d i c q]
  by (auto simp: ins_delivery_def message_of_None split: if_splits)

lemma ins_deliveries_other [simp]:
  "messages (ins_deliveries i ms d) = messages d"
  "messages_seq (ins_deliveries i ms d) = messages_seq d"
  "sessions (ins_deliveries i ms d) = sessions d"
  "subscriptions (ins_deliveries i ms d) = subscriptions d"
  "retained (ins_deliveries i ms d) = retained d"
  "inbound_qos2 (ins_deliveries i ms d) = inbound_qos2 d"
  "users (ins_deliveries i ms d) = users d"
  "notifications (ins_deliveries i ms d) = notifications d"
  "deliveries_seq (ins_deliveries i ms d) = deliveries_seq d + length ms"
  by (induction ms arbitrary: d) auto

lemma db_wf_ins_deliveries:
  "db_wf d \<Longrightarrow> i \<in> m_id ` set (messages d) \<Longrightarrow> db_wf (ins_deliveries i ms d)"
proof (induction ms arbitrary: d)
  case (Cons m ms)
  show ?case
    using Cons.IH [OF db_wf_append_delivery [OF Cons.prems, of "mt_client m" "mt_qos m"]]
      Cons.prems(2) by simp
qed simp

lemma mqtt_publish_Inr:
  assumes "mqtt_publish jm topic payload qos ret props publ maxq t d = Inr (r, d')"
  obtains me d1 where
    "me_seconds jm props = Inr me"
    "ins_message topic payload qos ret props publ
        (if me > 0 then Some (t + seconds me) else None) t d = Inr (messages_seq d, d1)"
    "pr_msg_id r = messages_seq d"
    "pr_brokers r = remdups (List.map_filter mt_broker (inserted maxq d1 (matches topic publ qos d1)))"
    "pr_overflow r = map mt_client (filter (\<lambda>m. mt_qos m > 0 \<and> over_cap maxq d1 (mt_client m))
        (matches topic publ qos d1))"
    "pr_delivered r = length (inserted maxq d1 (matches topic publ qos d1))"
    "d' = ins_deliveries (messages_seq d) (inserted maxq d1 (matches topic publ qos d1)) d1"
  using assms
  by (auto simp: mqtt_publish_def and_then_Inr Let_def ins_message_def split: if_splits option.splits)

lemma db_wf_mqtt_publish:
  assumes "db_wf d" "mqtt_publish jm topic payload qos ret props publ maxq t d = Inr (r, d')"
  shows "db_wf d'"
  using assms(2)
proof (rule mqtt_publish_Inr)
  fix me d1
  assume m: "ins_message topic payload qos ret props publ
        (if me > 0 then Some (t + seconds me) else None) t d = Inr (messages_seq d, d1)"
    and d': "d' = ins_deliveries (messages_seq d) (inserted maxq d1 (matches topic publ qos d1)) d1"
  show "db_wf d'"
    unfolding d' using db_wf_ins_message [OF assms(1) m] by (simp add: db_wf_ins_deliveries)
qed

lemma db_wf_filter_deliveries:
  assumes "db_wf d"
  shows "db_wf (d\<lparr>deliveries := filter P (deliveries d)\<rparr>)"
proof -
  have swap: "filter (\<lambda>r. d_packet_id r \<noteq> None) (filter P ds)
      = filter P (filter (\<lambda>r. d_packet_id r \<noteq> None) ds)" for ds
    by (simp add: conj_commute)
  have "packet_ids_unique (deliveries d)"
    using assms by (simp add: db_wf_def deliveries_wf_def)
  then have "packet_ids_unique (filter P (deliveries d))"
    unfolding packet_ids_unique_def swap by (rule distinct_key_filter)
  with assms show ?thesis
    by (auto simp: db_wf_def messages_wf_def deliveries_wf_def)
qed

lemma db_wf_del_deliveries_where: "db_wf d \<Longrightarrow> db_wf (snd (del_deliveries_where P d))"
  by (simp add: del_deliveries_where_def db_wf_filter_deliveries)

lemma db_wf_del_delivery: "db_wf d \<Longrightarrow> db_wf (snd (del_delivery i d))"
  by (simp add: del_delivery_def db_wf_del_deliveries_where)

lemma db_wf_del_deliveries_client: "db_wf d \<Longrightarrow> db_wf (del_deliveries_client c d)"
  by (simp add: del_deliveries_client_def db_wf_del_deliveries_where)

lemma db_wf_del_delivery_acked: "db_wf d \<Longrightarrow> db_wf (snd (del_delivery_acked c p q d))"
  by (simp add: del_delivery_acked_def db_wf_del_deliveries_where)

text \<open>Updating delivery rows without touching their keys.\<close>

lemma db_wf_deliveries_map:
  assumes "db_wf d"
    and key: "\<And>r. d_id (f r) = d_id r" "\<And>r. d_message_id (f r) = d_message_id r"
    and ok: "\<And>r. r \<in> set (deliveries d) \<Longrightarrow> delivery_ok r \<Longrightarrow> delivery_ok (f r)"
    and uniq: "packet_ids_unique (map f (deliveries d))"
  shows "db_wf (d\<lparr>deliveries := map f (deliveries d)\<rparr>)"
proof -
  have f: "d_id \<circ> f = d_id" using key by auto
  have "messages_wf (d\<lparr>deliveries := map f (deliveries d)\<rparr>)"
    using assms(1) by (auto simp: db_wf_def messages_wf_def key)
  moreover have "deliveries_wf (d\<lparr>deliveries := map f (deliveries d)\<rparr>)"
    using assms(1) ok uniq by (auto simp: db_wf_def deliveries_wf_def f key)
  ultimately show ?thesis
    using assms(1) by (simp add: db_wf_def)
qed

lemma db_wf_claim_deliveries_where:
  assumes "db_wf d" "1 \<le> pid" "pid \<le> 65535" "claim_deliveries_where P pid d = Inr (n, d')"
  shows "db_wf d'"
  using assms
  by (auto simp: claim_deliveries_where_def Let_def delivery_ok_def intro!: db_wf_deliveries_map
      split: if_splits)

lemma db_wf_upd_delivery_pubrec:
  assumes "db_wf d"
  shows "db_wf (upd_delivery_pubrec c pid d)"
proof -
  let ?f = "\<lambda>r. if d_client_id r = c \<and> d_packet_id r = Some pid \<and> d_qos r = 2 \<and> d_state r = 1
    then r\<lparr>d_state := 2\<rparr> else r"
  have "map (\<lambda>r. (d_client_id r, d_packet_id r)) (filter (\<lambda>r. d_packet_id r \<noteq> None) (map ?f ds))
    = map (\<lambda>r. (d_client_id r, d_packet_id r)) (filter (\<lambda>r. d_packet_id r \<noteq> None) ds)" for ds
    by (induction ds) auto
  then have "packet_ids_unique (map ?f (deliveries d)) = packet_ids_unique (deliveries d)"
    unfolding packet_ids_unique_def by (rule arg_cong)
  with assms have "packet_ids_unique (map ?f (deliveries d))"
    by (simp add: db_wf_def deliveries_wf_def)
  then show ?thesis
    unfolding upd_delivery_pubrec_def
    by (intro db_wf_deliveries_map [OF assms]) (auto simp: delivery_ok_def)
qed

end
