(* ===== verification/Packet.thy ===== *)
theory Packet
  imports Prelude
begin

text \<open>
  The packet data the source works on. \<open>packets.Packet\<close> and \<open>packets.Properties\<close> belong to
  the codec library; the records below hold the fields the source reads or writes, under
  the library's names. The library's functions are not part of the source: they are the
  fields of the record \<open>mochi\<close>, an argument of every definition that calls them.
\<close>

datatype ptype =
    Connect | Connack | Publish | Puback | Pubrec | Pubrel | Pubcomp | Subscribe | Suback
  | Unsubscribe | Unsuback | Pingreq | Pingresp | Disconnect | Auth | OtherType nat

record properties =
  SessionExpiryInterval :: "32 word"
  SessionExpiryIntervalFlag :: bool
  MaximumPacketSize :: "32 word"
  ReceiveMaximum :: "16 word"
  TopicAliasMaximum :: "16 word"
  TopicAlias :: "16 word"
  TopicAliasFlag :: bool
  SubscriptionIdentifier :: "int list"
  MessageExpiryInterval :: "32 word"
  AuthenticationMethod :: string
  WillDelayInterval :: "32 word"
  AssignedClientID :: string
  ServerKeepAlive :: "16 word"
  ServerKeepAliveFlag :: bool
  MaximumQos :: nat
  MaximumQosFlag :: bool
  RetainAvailable :: nat
  RetainAvailableFlag :: bool
  WildcardSubAvailable :: nat
  WildcardSubAvailableFlag :: bool
  SubIDAvailable :: nat
  SubIDAvailableFlag :: bool
  SharedSubAvailable :: nat
  SharedSubAvailableFlag :: bool
  OtherProperties :: "(nat \<times> bytes) list"

definition no_properties :: properties where
  "no_properties = \<lparr>SessionExpiryInterval = 0, SessionExpiryIntervalFlag = False,
     MaximumPacketSize = 0, ReceiveMaximum = 0, TopicAliasMaximum = 0, TopicAlias = 0,
     TopicAliasFlag = False, SubscriptionIdentifier = [], MessageExpiryInterval = 0,
     AuthenticationMethod = [], WillDelayInterval = 0, AssignedClientID = [],
     ServerKeepAlive = 0, ServerKeepAliveFlag = False, MaximumQos = 0, MaximumQosFlag = False,
     RetainAvailable = 0, RetainAvailableFlag = False, WildcardSubAvailable = 0,
     WildcardSubAvailableFlag = False, SubIDAvailable = 0, SubIDAvailableFlag = False,
     SharedSubAvailable = 0, SharedSubAvailableFlag = False, OtherProperties = []\<rparr>"

text \<open>The CONNECT parameters and one SUBSCRIBE / UNSUBSCRIBE filter.\<close>

record connect_params =
  ProtocolName :: string
  ClientIdentifier :: string
  Clean :: bool
  Keepalive :: "16 word"
  UsernameFlag :: bool
  Username :: string
  PasswordFlag :: bool
  Password :: string
  WillFlag :: bool
  WillTopic :: string
  WillPayload :: bytes
  WillQos :: nat
  WillRetain :: bool
  WillProperties :: properties

definition no_connect :: connect_params where
  "no_connect = \<lparr>ProtocolName = [], ClientIdentifier = [], Clean = False, Keepalive = 0,
     UsernameFlag = False, Username = [], PasswordFlag = False, Password = [],
     WillFlag = False, WillTopic = [], WillPayload = [], WillQos = 0,
     WillRetain = False, WillProperties = no_properties\<rparr>"

record subscription_filter =
  Filter :: string
  fQos :: nat
  fNoLocal :: bool
  fRetainAsPublished :: bool
  fRetainHandling :: nat

record packet =
  ptype :: ptype
  Qos :: nat
  Dup :: bool
  Retain :: bool
  Remaining :: int
  pkProtocol :: nat
  PacketID :: "16 word"
  TopicName :: string
  Payload :: bytes
  ReasonCode :: nat
  ReasonCodes :: "nat list"
  SessionPresent :: bool
  Filters :: "subscription_filter list"
  Properties :: properties
  ConnectParams :: connect_params
  AllowResponseInfo :: bool

text \<open>The zero value \<open>packets.Packet{}\<close> with its type set.\<close>

definition new_packet :: "ptype \<Rightarrow> packet" where
  "new_packet t = \<lparr>ptype = t, Qos = 0, Dup = False, Retain = False, Remaining = 0,
     pkProtocol = 0, PacketID = 0, TopicName = [], Payload = [], ReasonCode = 0,
     ReasonCodes = [], SessionPresent = False, Filters = [], Properties = no_properties,
     ConnectParams = no_connect, AllowResponseInfo = False\<rparr>"

text \<open>The codec library: fixed header, remaining length (which reads from the stream and
  leaves the rest), the body decoders, the encoders, and \<open>ConnectValidate\<close>.\<close>

record mochi =
  mochi_header :: "byte \<Rightarrow> err + packet"
  mochi_decodeLength :: "bytes \<Rightarrow> err \<Rightarrow> (err + int) \<times> bytes"
  mochi_decode :: "packet \<Rightarrow> bytes \<Rightarrow> err + packet"
  mochi_encode :: "packet \<Rightarrow> err + bytes"
  mochi_ConnectValidate :: "packet \<Rightarrow> string option"

end
