(* ===== verification/Codec.thy ===== *)
theory Codec
  imports Packet
begin

text \<open>
  Framing and encoding: \<open>internal/mqtt/codec.go\<close>. The packet codec itself
  (\<open>github.com/mochi-mqtt/server/v2/packets\<close>) is the parameter of type \<open>mochi\<close>; what
  the source adds to it, the framed reader with its size caps, the type dispatch of
  \<open>decodeBody\<close> and \<open>Encode\<close> and the scan of a raw CONNECT body, is modelled here.
\<close>

unbundle bit_operations_syntax

definition MaxPacketSize :: int where
  "MaxPacketSize = 268435455"

definition PreConnectMaxPacketSize :: int where
  "PreConnectMaxPacketSize = 1048576"

definition ProtocolMQTT311 :: nat where
  "ProtocolMQTT311 = 4"

definition ProtocolMQTT5 :: nat where
  "ProtocolMQTT5 = 5"

section \<open>The reader\<close>

text \<open>\<open>type Reader\<close>. The buffered connection is the bytes it will still deliver and the
  error it reports when they run out (\<open>io.EOF\<close> or a read timeout).\<close>

record reader =
  br :: bytes
  br_end :: err
  ProtocolVersion :: nat
  rd_maxPacketSize :: "32 word"
  LastConnectBody :: "bytes option"

definition NewReader :: "bytes \<Rightarrow> err \<Rightarrow> reader" where
  "NewReader bs e = \<lparr>br = bs, br_end = e, ProtocolVersion = 0, rd_maxPacketSize = 0,
     LastConnectBody = None\<rparr>"

definition SetMaxPacketSize :: "32 word \<Rightarrow> reader \<Rightarrow> reader" where
  "SetMaxPacketSize n r = r\<lparr>rd_maxPacketSize := n\<rparr>"

text \<open>\<open>decodeBody\<close>: dispatch on the packet type; the decoders are the library's.\<close>

definition decodeBody :: "mochi \<Rightarrow> packet \<Rightarrow> bytes \<Rightarrow> err + packet" where
  "decodeBody m pk body =
     (case ptype pk of
        Connect \<Rightarrow> mochi_decode m pk body
      | Connack \<Rightarrow> mochi_decode m pk body
      | Publish \<Rightarrow> mochi_decode m pk body
      | Puback \<Rightarrow> mochi_decode m pk body
      | Pubrec \<Rightarrow> mochi_decode m pk body
      | Pubrel \<Rightarrow> mochi_decode m pk body
      | Pubcomp \<Rightarrow> mochi_decode m pk body
      | Subscribe \<Rightarrow> mochi_decode m pk body
      | Suback \<Rightarrow> mochi_decode m pk body
      | Unsubscribe \<Rightarrow> mochi_decode m pk body
      | Unsuback \<Rightarrow> mochi_decode m pk body
      | Pingreq \<Rightarrow> Inr pk
      | Pingresp \<Rightarrow> Inr pk
      | Disconnect \<Rightarrow> mochi_decode m pk body
      | Auth \<Rightarrow> mochi_decode m pk body
      | OtherType n \<Rightarrow> Inl (ErrCodec ''invalid packet type''))"

text \<open>The inbound cap in force: the configured one, or the pre-CONNECT one when none is
  set.\<close>

definition read_cap :: "reader \<Rightarrow> int" where
  "read_cap r = (let c = uint (rd_maxPacketSize r) in
     if c = 0 then PreConnectMaxPacketSize else c)"

text \<open>The two size checks made before the body is allocated.\<close>

definition check_length :: "reader \<Rightarrow> int \<Rightarrow> err option" where
  "check_length r remaining =
     (if remaining > MaxPacketSize then Some ErrPacketTooLarge
      else if remaining > read_cap r then Some ErrPacketTooLarge
      else None)"

text \<open>\<open>Reader.Read\<close>: header byte, remaining length, size checks, body, decode. \<open>make\<close> with
  a negative length panics.\<close>

definition Read :: "mochi \<Rightarrow> reader \<Rightarrow> (err + packet) \<times> reader" where
  "Read m r =
     (case br r of
        [] \<Rightarrow> (Inl (br_end r), r)
      | hb # s1 \<Rightarrow>
        (case mochi_header m hb of
           Inl e \<Rightarrow> (Inl e, r\<lparr>br := s1\<rparr>)
         | Inr pk0 \<Rightarrow>
           (case mochi_decodeLength m s1 (br_end r) of
              (Inl e, s2) \<Rightarrow> (Inl e, r\<lparr>br := s2\<rparr>)
            | (Inr remaining, s2) \<Rightarrow>
              (case check_length r remaining of
                 Some e \<Rightarrow> (Inl e, r\<lparr>br := s2\<rparr>)
               | None \<Rightarrow>
                 if remaining < 0 then (Inl (Panic ''makeslice: len out of range''), r\<lparr>br := s2\<rparr>)
                 else if length s2 < nat remaining then
                   (Inl (if s2 \<noteq> [] \<and> br_end r = ErrEOF then ErrIO ''unexpected EOF'' else br_end r),
                    r\<lparr>br := []\<rparr>)
                 else
                   let body = take (nat remaining) s2;
                       r1 = r\<lparr>br := drop (nat remaining) s2\<rparr>;
                       pk = pk0\<lparr>Remaining := remaining, pkProtocol := ProtocolVersion r\<rparr>
                   in (case decodeBody m pk body of
                         Inl e \<Rightarrow> (Inl e, r1)
                       | Inr pk' \<Rightarrow>
                         if ptype pk' = Connect
                         then (Inr pk', r1\<lparr>ProtocolVersion := pkProtocol pk', LastConnectBody := Some body\<rparr>)
                         else (Inr pk', r1\<lparr>LastConnectBody := None\<rparr>))))))"

text \<open>\<open>Encode\<close>: every packet but CONNACK forwards the response-information properties;
  the wire bytes come from the library.\<close>

definition Encode :: "mochi \<Rightarrow> packet \<Rightarrow> err + bytes" where
  "Encode m pk =
     (let pk' = (if ptype pk \<noteq> Connack then pk\<lparr>AllowResponseInfo := True\<rparr> else pk) in
      case ptype pk' of
        OtherType n \<Rightarrow> Inl (ErrCodec ''encode: invalid packet type'')
      | _ \<Rightarrow> mochi_encode m pk')"

section \<open>Variable-byte integers\<close>

function varint_loop :: "bytes \<Rightarrow> nat \<Rightarrow> nat \<Rightarrow> nat \<Rightarrow> err + (nat \<times> nat)" where
  "varint_loop b v mult n =
     (if n < 4 then
        if n \<ge> length b then Inl (ErrCodec ''varint truncated'')
        else let x = b ! n; v' = v + unat (x AND 0x7F) * mult in
             if x AND 0x80 = 0 then Inr (v', n + 1)
             else varint_loop b v' (mult * 128) (n + 1)
      else Inl (ErrCodec ''varint too long''))"
  by pat_completeness auto
termination
  by (relation "measure (\<lambda>(b, v, mult, n). 4 - n)") auto

declare varint_loop.simps [simp del]

definition decodeVarint :: "bytes \<Rightarrow> err + (nat \<times> nat)" where
  "decodeVarint b = varint_loop b 0 1 0"

section \<open>The scan for MaximumPacketSize\<close>

definition be16 :: "bytes \<Rightarrow> nat \<Rightarrow> err + nat" where
  "be16 body i =
     and_then (index_slice body i) (\<lambda>hi.
     and_then (index_slice body (i + 1)) (\<lambda>lo.
     Inr (unat hi * 256 + unat lo)))"

text \<open>Stepping over one length-prefixed string: the header must lie within the block.\<close>

definition skip_string :: "string \<Rightarrow> bytes \<Rightarrow> nat \<Rightarrow> nat \<Rightarrow> err + nat" where
  "skip_string msg body fin off =
     (if off + 2 > fin then Inl (ErrCodec msg)
      else and_then (be16 body off) (\<lambda>n. Inr (off + 2 + n)))"

definition be32 :: "bytes \<Rightarrow> nat \<Rightarrow> err + 32 word" where
  "be32 body off =
     and_then (index_slice body off) (\<lambda>b0.
     and_then (index_slice body (off + 1)) (\<lambda>b1.
     and_then (index_slice body (off + 2)) (\<lambda>b2.
     and_then (index_slice body (off + 3)) (\<lambda>b3.
     Inr (push_bit 24 (ucast b0) OR push_bit 16 (ucast b1) OR push_bit 8 (ucast b2) OR ucast b3)))))"

text \<open>One property of the block at \<open>off\<close> (just after its identifier): a step to the next
  property (\<open>Inl off\<close>) or the value looked for (\<open>Inr v\<close>).\<close>

definition prop_step :: "bytes \<Rightarrow> nat \<Rightarrow> byte \<Rightarrow> nat \<Rightarrow> err + (nat + 32 word)" where
  "prop_step body fin i off =
     (if i = 0x11 then Inr (Inl (off + 4))
      else if i = 0x15 then and_then (skip_string ''string header truncated'' body fin off) (\<lambda>o'. Inr (Inl o'))
      else if i = 0x16 then and_then (skip_string ''binary header truncated'' body fin off) (\<lambda>o'. Inr (Inl o'))
      else if i = 0x17 then Inr (Inl (off + 1))
      else if i = 0x19 then Inr (Inl (off + 1))
      else if i = 0x21 then Inr (Inl (off + 2))
      else if i = 0x22 then Inr (Inl (off + 2))
      else if i = 0x26 then
        and_then (skip_string ''user property string truncated'' body fin off) (\<lambda>o1.
        and_then (skip_string ''user property string truncated'' body fin o1) (\<lambda>o2. Inr (Inl o2)))
      else if i = 0x27 then
        (if off + 4 > fin then Inl (ErrCodec ''mps value truncated'')
         else and_then (be32 body off) (\<lambda>v. Inr (Inr v)))
      else Inl (ErrCodec ''unknown CONNECT property''))"

lemma skip_string_ge: "skip_string msg body fin off = Inr o' \<Longrightarrow> off + 2 \<le> o'"
  by (auto simp: skip_string_def and_then_Inr split: if_splits)

lemma prop_step_ge: "prop_step body fin i off = Inr (Inl o') \<Longrightarrow> off < o'"
  by (fastforce simp: prop_step_def and_then_Inr dest: skip_string_ge split: if_splits)

function prop_walk :: "bytes \<Rightarrow> nat \<Rightarrow> nat \<Rightarrow> err + (bool \<times> 32 word)" where
  "prop_walk body fin off =
     (if off < fin then
        (case index_slice body off of
           Inl e \<Rightarrow> Inl e
         | Inr i \<Rightarrow>
           (case prop_step body fin i (off + 1) of
              Inl e \<Rightarrow> Inl e
            | Inr (Inr v) \<Rightarrow> Inr (True, v)
            | Inr (Inl o') \<Rightarrow>
              if o' > fin then Inl (ErrCodec ''property block overflow'')
              else prop_walk body fin o'))
      else Inr (False, 0))"
  by pat_completeness auto
termination
proof (relation "measure (\<lambda>(body, fin, off). fin - off)", goal_cases)
  case (2 body fin off i r o')
  then show ?case using prop_step_ge [of body fin i "off + 1" o'] by auto
qed auto

declare prop_walk.simps [simp del]

definition V5ConnectMaximumPacketSize :: "bytes \<Rightarrow> err + (bool \<times> 32 word)" where
  "V5ConnectMaximumPacketSize body =
     (if length body < 2 then Inl (ErrCodec ''connect body too short'')
      else and_then (be16 body 0) (\<lambda>pnLen.
        let off = 2 + pnLen in
        if length body < off + 4 then Inl (ErrCodec ''connect body truncated'')
        else and_then (index_slice body off) (\<lambda>pv.
          let off1 = off + 4 in
          if pv \<noteq> 5 then Inr (False, 0)
          else and_then (decodeVarint (drop off1 body)) (\<lambda>(propLen, n).
            let off2 = off1 + n in
            if propLen = 0 then Inr (False, 0)
            else let fin = off2 + propLen in
                 if fin > length body then Inl (ErrCodec ''property block extends past body'')
                 else prop_walk body fin off2))))"

section \<open>The reader never takes more than its cap\<close>

definition suffix_by :: "int \<Rightarrow> bytes \<Rightarrow> bytes \<Rightarrow> bool" where
  "suffix_by n s s' \<longleftrightarrow> (\<exists>p. s = p @ s' \<and> int (length p) \<le> n)"

lemma check_length_None:
  "check_length r n = None \<longleftrightarrow> n \<le> MaxPacketSize \<and> n \<le> read_cap r"
  by (auto simp: check_length_def)

lemma read_cap_bounds: "0 < read_cap r" "rd_maxPacketSize r = 0 \<Longrightarrow> read_cap r = 1048576"
  by (auto simp: read_cap_def PreConnectMaxPacketSize_def Let_def less_le)

text \<open>C36: whatever bytes the peer sends, one \<open>Read\<close> takes at most the cap in force as a
  packet body: if the header and the announced length were read and left the bytes \<open>s2\<close>,
  then an announced length above the cap (1 MiB until CONNECT has set another one) or above
  the protocol maximum is refused with \<open>ErrPacketTooLarge\<close> and no byte of \<open>s2\<close> is consumed,
  and otherwise at most \<open>min(cap, 268435455)\<close> bytes of \<open>s2\<close> are.\<close>

theorem Read_bounded:
  assumes "br r = hb # s1" and "mochi_header m hb = Inr pk0"
    and "mochi_decodeLength m s1 (br_end r) = (Inr n, s2)"
  shows "(n > min (read_cap r) MaxPacketSize \<longrightarrow> Read m r = (Inl ErrPacketTooLarge, r\<lparr>br := s2\<rparr>))
       \<and> suffix_by (min (read_cap r) MaxPacketSize) s2 (br (snd (Read m r)))"
proof (cases "check_length r n")
  case (Some e)
  with assms show ?thesis
    by (auto simp: Read_def check_length_def suffix_by_def read_cap_bounds(1) less_imp_le
        MaxPacketSize_def split: if_splits intro!: exI [of _ "[]"])
next
  case None
  then have n: "n \<le> min (read_cap r) MaxPacketSize" by (simp add: check_length_None)
  have cap: "0 \<le> min (read_cap r) MaxPacketSize"
    using read_cap_bounds(1) [of r] by (simp add: MaxPacketSize_def)
  have "suffix_by (min (read_cap r) MaxPacketSize) s2 (br (snd (Read m r)))"
  proof (cases "n < 0")
    case True
    then show ?thesis using assms None cap
      by (auto simp: Read_def suffix_by_def intro!: exI [of _ "[]"])
  next
    case False
    show ?thesis
    proof (cases "length s2 < nat n")
      case True
      then show ?thesis using assms None False n
        by (auto simp: Read_def suffix_by_def intro!: exI [of _ s2])
    next
      case len: False
      have "br (snd (Read m r)) = drop (nat n) s2"
        using assms None False len
        by (auto simp: Read_def Let_def split: sum.splits)
      then show ?thesis using False n len
        by (auto simp: suffix_by_def intro!: exI [of _ "take (nat n) s2"])
    qed
  qed
  with n show ?thesis by auto
qed

text \<open>A concrete library for the witnesses: every packet is a PUBLISH whose body is its
  payload, lengths are variable-byte integers.\<close>

definition sample_mochi :: mochi where
  "sample_mochi = \<lparr>
     mochi_header = (\<lambda>b. Inr (new_packet Publish)),
     mochi_decodeLength = (\<lambda>s e. case decodeVarint s of Inl x \<Rightarrow> (Inl x, s)
        | Inr (n, c) \<Rightarrow> (Inr (int n), drop c s)),
     mochi_decode = (\<lambda>pk b. Inr (pk\<lparr>Payload := b\<rparr>)),
     mochi_encode = (\<lambda>pk. Inr (0x30 # Payload pk)),
     mochi_ConnectValidate = (\<lambda>pk. None)\<rparr>"

theorem Read_bounded_witness:
  "Read sample_mochi (NewReader [0x30, 0x81, 0x80, 0x40, 7, 8] ErrEOF)
     = (Inl ErrPacketTooLarge, (NewReader [0x30, 0x81, 0x80, 0x40, 7, 8] ErrEOF)\<lparr>br := [7, 8]\<rparr>)
   \<and> suffix_by 1048576 [7, 8]
        (br (snd (Read sample_mochi (NewReader [0x30, 0x81, 0x80, 0x40, 7, 8] ErrEOF))))"
proof -
  let ?r = "NewReader [0x30, 0x81, 0x80, 0x40, 7, 8] ErrEOF"
  have h1: "br ?r = 0x30 # [0x81, 0x80, 0x40, 7, 8]" by (simp add: NewReader_def)
  have h2: "mochi_header sample_mochi 0x30 = Inr (new_packet Publish)"
    by (simp add: sample_mochi_def)
  have h3: "mochi_decodeLength sample_mochi [0x81, 0x80, 0x40, 7, 8] (br_end ?r) = (Inr 1048577, [7, 8])"
    by (simp add: sample_mochi_def decodeVarint_def varint_loop.simps)
  have cap: "min (read_cap ?r) MaxPacketSize = 1048576"
    by (simp add: read_cap_def NewReader_def PreConnectMaxPacketSize_def MaxPacketSize_def)
  have "(1048576::int) < 1048577" by simp
  with Read_bounded [OF h1 h2 h3, unfolded cap] show ?thesis by blast
qed

section \<open>Round trip of variable-byte integers\<close>

text \<open>The encoding of MQTT 5, section 1.5.5: seven bits a byte, low group first, the top
  bit set on every byte but the last.\<close>

fun encodeVarint :: "nat \<Rightarrow> bytes" where
  "encodeVarint n =
     (if n < 128 then [of_nat n] else of_nat (n mod 128 + 128) # encodeVarint (n div 128))"

declare encodeVarint.simps [simp del]

lemma low7: "unat ((of_nat k :: byte) AND 0x7F) = k mod 128"
proof -
  have "(of_nat k :: byte) AND 0x7F = take_bit 7 (of_nat k)"
    by (simp add: take_bit_eq_mask mask_numeral)
  then have "unat ((of_nat k :: byte) AND 0x7F) = take_bit 7 (take_bit 8 k)"
    by (simp only: unsigned_take_bit_eq unsigned_of_nat) simp
  then show ?thesis by (simp add: take_bit_eq_mod mod_mod_cancel)
qed

lemma even_div_128: "even (k div 128) \<longleftrightarrow> k mod 256 < (128::nat)"
proof -
  have "k mod 256 = 128 * (k div 128 mod 2) + k mod 128"
    using mod_mult2_eq [of k 128 2] by simp
  moreover have "k mod 128 < 128" by simp
  ultimately show ?thesis
    by (cases "even (k div 128)") (simp_all add: mod2_eq_if)
qed

lemma top_bit: "((of_nat k :: byte) AND 0x80 = 0) \<longleftrightarrow> k mod 256 < 128"
proof -
  have "((of_nat k :: byte) AND 2 ^ 7 = 0) \<longleftrightarrow> \<not> bit (of_nat k :: byte) 7"
    by (rule and_exp_eq_0_iff_not_bit)
  also have "\<dots> \<longleftrightarrow> \<not> bit k 7"
    by (simp only: bit_of_nat_iff) simp
  also have "\<dots> \<longleftrightarrow> k mod 256 < 128"
    by (simp add: bit_iff_odd even_div_128)
  finally show ?thesis by simp
qed

lemma varint_loop_encode:
  assumes "k < 4" and "n < 128 ^ (4 - k)" and "length pre = k"
  shows "varint_loop (pre @ encodeVarint n @ rest) v mult k
           = Inr (v + n * mult, k + length (encodeVarint n))"
  using assms
proof (induction n arbitrary: k pre v mult rule: encodeVarint.induct)
  case (1 n)
  show ?case
  proof (cases "n < 128")
    case True
    then show ?thesis using "1.prems"
      by (subst varint_loop.simps)
        (simp add: encodeVarint.simps [of n] nth_append low7 top_bit Let_def)
  next
    case False
    define x :: byte where "x = of_nat (n mod 128 + 128)"
    have enc: "encodeVarint n = x # encodeVarint (n div 128)"
      using False by (simp add: encodeVarint.simps [of n] x_def)
    have k: "Suc k < 4" using "1.prems"(1,2) False by (cases "k = 3") auto
    then have m: "4 - k = Suc (4 - Suc k)" by simp
    have "n div 128 < 128 ^ (4 - Suc k)"
      using "1.prems"(2) unfolding m by (simp add: less_mult_imp_div_less mult.commute)
    then have IH: "varint_loop ((pre @ [x]) @ encodeVarint (n div 128) @ rest) w (mult * 128) (Suc k)
        = Inr (w + n div 128 * (mult * 128), Suc k + length (encodeVarint (n div 128)))" for w
      using "1.IH" [OF False k, of "pre @ [x]"] "1.prems"(3) by simp
    have lo: "unat (x AND 0x7F) = n mod 128" "x AND 0x80 \<noteq> 0"
      unfolding x_def low7 top_bit by simp_all
    have "n mod 128 * mult + n div 128 * (mult * 128) = n * mult"
      by (metis add_mult_distrib mod_mult_div_eq mult.assoc mult.commute)
    with IH lo k "1.prems"(3) show ?thesis
      by (subst varint_loop.simps) (simp add: enc nth_append Let_def add.assoc)
  qed
qed

text \<open>Decoding is the inverse of the MQTT variable-byte encoding: every value of up to
  four bytes (at most 268435455) comes back, whatever follows it, with the number of bytes
  it occupied.\<close>

theorem decodeVarint_roundtrip:
  assumes "n \<le> 268435455"
  shows "decodeVarint (encodeVarint n @ rest) = Inr (n, length (encodeVarint n))"
  using varint_loop_encode [of 0 n "[]" rest 0 1] assms by (simp add: decodeVarint_def)

theorem decodeVarint_roundtrip_witness:
  "(321::nat) \<le> 268435455 \<and> decodeVarint [0xC1, 0x02, 0x11] = Inr (321, 2)"
proof -
  have h: "(321::nat) \<le> 268435455" by simp
  have e: "encodeVarint 321 = [0xC1, 0x02]" by (simp add: encodeVarint.simps)
  from decodeVarint_roundtrip [OF h, of "[0x11]"] h e show ?thesis by simp
qed

section \<open>The CONNECT scan against an encoder\<close>

text \<open>The properties a CONNECT may carry and their wire form (MQTT 5, sections 1.5 and
  3.1.2.11), and a CONNECT body built from them.\<close>

datatype connect_prop =
    PSessionExpiry "32 word" | PAuthMethod bytes | PAuthData bytes
  | PRequestProblem byte | PRequestResponse byte
  | PReceiveMax byte byte | PTopicAliasMax byte byte
  | PUser bytes bytes | PMaxPacketSize "32 word"

definition enc16 :: "nat \<Rightarrow> bytes" where
  "enc16 n = [of_nat (n div 256), of_nat n]"

definition enc32 :: "32 word \<Rightarrow> bytes" where
  "enc32 v = [ucast (drop_bit 24 v), ucast (drop_bit 16 v), ucast (drop_bit 8 v), ucast v]"

definition enc_str :: "bytes \<Rightarrow> bytes" where
  "enc_str s = enc16 (length s) @ s"

fun encode_prop :: "connect_prop \<Rightarrow> bytes" where
  "encode_prop (PSessionExpiry v) = 0x11 # enc32 v"
| "encode_prop (PAuthMethod s) = 0x15 # enc_str s"
| "encode_prop (PAuthData s) = 0x16 # enc_str s"
| "encode_prop (PRequestProblem b) = [0x17, b]"
| "encode_prop (PRequestResponse b) = [0x19, b]"
| "encode_prop (PReceiveMax h l) = [0x21, h, l]"
| "encode_prop (PTopicAliasMax h l) = [0x22, h, l]"
| "encode_prop (PUser k v) = 0x26 # enc_str k @ enc_str v"
| "encode_prop (PMaxPacketSize v) = 0x27 # enc32 v"

fun prop_ok :: "connect_prop \<Rightarrow> bool" where
  "prop_ok (PAuthMethod s) = (length s < 65536)"
| "prop_ok (PAuthData s) = (length s < 65536)"
| "prop_ok (PUser k v) = (length k < 65536 \<and> length v < 65536)"
| "prop_ok _ = True"

fun find_mps :: "connect_prop list \<Rightarrow> bool \<times> 32 word" where
  "find_mps [] = (False, 0)"
| "find_mps (PMaxPacketSize v # ps) = (True, v)"
| "find_mps (_ # ps) = find_mps ps"

definition encode_connect :: "bytes \<Rightarrow> byte \<Rightarrow> byte \<Rightarrow> bytes \<Rightarrow> connect_prop list \<Rightarrow> bytes \<Rightarrow> bytes" where
  "encode_connect name level flags ka ps payload =
     enc16 (length name) @ name @ level # flags # ka
     @ encodeVarint (length (concat (map encode_prop ps))) @ concat (map encode_prop ps) @ payload"

lemma be32_bits:
  fixes v :: "32 word"
  shows "push_bit 24 (ucast (ucast (drop_bit 24 v) :: byte))
           OR push_bit 16 (ucast (ucast (drop_bit 16 v) :: byte))
           OR push_bit 8 (ucast (ucast (drop_bit 8 v) :: byte)) OR ucast (ucast v :: byte) = v"
proof (rule bit_word_eqI, goal_cases)
  case (1 n)
  consider "n < 8" | "8 \<le> n" "n < 16" | "16 \<le> n" "n < 24" | "24 \<le> n" by linarith
  then show ?case using "1" by cases (auto simp: bit_simps)
qed

lemma index_slice_at [simp]:
  "index_slice (pre @ x # r) (length pre) = Inr x"
  "index_slice (pre @ x # y # r) (Suc (length pre)) = Inr y"
  by (simp_all add: index_slice_def nth_append)

lemma be32_at: "be32 (pre @ enc32 v @ r) (length pre) = Inr v"
  by (simp add: be32_def enc32_def index_slice_def nth_append be32_bits)

lemma be16_at: "n < 65536 \<Longrightarrow> be16 (pre @ enc16 n @ r) (length pre) = Inr n"
  by (simp add: be16_def enc16_def unat_of_nat take_bit_eq_mod)

lemma skip_string_at:
  assumes "length s < 65536" and "length pre + 2 \<le> fin"
  shows "skip_string msg (pre @ enc_str s @ r) fin (length pre) = Inr (length pre + length (enc_str s))"
  using assms be16_at [OF assms(1), of pre "s @ r"]
  by (simp add: skip_string_def enc_str_def) (simp add: enc16_def)

lemma length_enc [simp]: "length (enc16 n) = 2" "length (enc32 v) = 4"
    "length (enc_str s) = 2 + length s"
  by (simp_all add: enc16_def enc32_def enc_str_def)

text \<open>One step of the scan over one encoded property.\<close>

lemma prop_step_at:
  assumes "prop_ok p" and "length pre + length (encode_prop p) \<le> fin"
  shows "prop_step (pre @ encode_prop p @ r) fin (hd (encode_prop p)) (Suc (length pre)) =
           Inr (case p of PMaxPacketSize v \<Rightarrow> Inr v
                | _ \<Rightarrow> Inl (length pre + length (encode_prop p)))"
proof (cases p)
  case (PUser k v)
  have "skip_string msg ((pre @ [0x26]) @ enc_str k @ (enc_str v @ r)) fin (length (pre @ [0x26]))
      = Inr (length (pre @ [0x26]) + length (enc_str k))" for msg
    using PUser assms by (intro skip_string_at) auto
  moreover have "skip_string msg ((pre @ 0x26 # enc_str k) @ enc_str v @ r) fin (length (pre @ 0x26 # enc_str k))
      = Inr (length (pre @ 0x26 # enc_str k) + length (enc_str v))" for msg
    using PUser assms by (intro skip_string_at) auto
  ultimately show ?thesis using PUser by (simp add: prop_step_def)
next
  case (PAuthMethod s)
  have "skip_string msg ((pre @ [0x15]) @ enc_str s @ r) fin (length (pre @ [0x15]))
      = Inr (length (pre @ [0x15]) + length (enc_str s))" for msg
    using PAuthMethod assms by (intro skip_string_at) auto
  then show ?thesis using PAuthMethod by (simp add: prop_step_def)
next
  case (PAuthData s)
  have "skip_string msg ((pre @ [0x16]) @ enc_str s @ r) fin (length (pre @ [0x16]))
      = Inr (length (pre @ [0x16]) + length (enc_str s))" for msg
    using PAuthData assms by (intro skip_string_at) auto
  then show ?thesis using PAuthData by (simp add: prop_step_def)
next
  case (PMaxPacketSize v)
  then show ?thesis
    using assms be32_at [of "pre @ [0x27]" v r] by (simp add: prop_step_def)
qed (use assms in \<open>simp_all add: prop_step_def\<close>)

lemma encode_prop_Cons: "encode_prop p = hd (encode_prop p) # tl (encode_prop p)"
  by (cases p) auto

lemma prop_walk_encode:
  assumes "\<forall>p \<in> set ps. prop_ok p"
  shows "prop_walk (pre @ concat (map encode_prop ps) @ post)
           (length pre + length (concat (map encode_prop ps))) (length pre) = Inr (find_mps ps)"
  using assms
proof (induction ps arbitrary: pre)
  case Nil
  then show ?case by (subst prop_walk.simps) simp
next
  case (Cons p ps)
  let ?e = "encode_prop p" and ?rest = "concat (map encode_prop ps)"
  let ?body = "pre @ ?e @ ?rest @ post" and ?fin = "length pre + length ?e + length ?rest"
  have pos: "0 < length ?e" by (cases p) auto
  have idx: "index_slice ?body (length pre) = Inr (hd ?e)"
    by (subst (1) encode_prop_Cons) simp
  have step: "prop_step ?body ?fin (hd ?e) (Suc (length pre)) =
      Inr (case p of PMaxPacketSize v \<Rightarrow> Inr v | _ \<Rightarrow> Inl (length pre + length ?e))"
    using Cons.prems prop_step_at [of p pre ?fin "?rest @ post"] by simp
  have IH: "prop_walk ?body ?fin (length pre + length ?e) = Inr (find_mps ps)"
    using Cons.IH [of "pre @ ?e"] Cons.prems by (simp add: add.assoc)
  show ?case
    using idx step IH pos by (subst prop_walk.simps) (cases p; simp add: add.assoc)
qed

text \<open>The scan of the raw CONNECT body finds exactly what an MQTT 5 client wrote: for
  any protocol name, flags, keepalive, list of CONNECT properties and payload, it reports
  MaximumPacketSize as present with its value when the list has it (the first one), and as
  absent otherwise. A present zero and an absent property are told apart.\<close>

theorem V5ConnectMaximumPacketSize_encode:
  assumes "length name < 65536" and "length ka = 2" and "\<forall>p \<in> set ps. prop_ok p"
    and "length (concat (map encode_prop ps)) \<le> 268435455"
  shows "V5ConnectMaximumPacketSize (encode_connect name 5 flags ka ps payload) = Inr (find_mps ps)"
proof -
  let ?blk = "concat (map encode_prop ps)"
  let ?hd = "enc16 (length name) @ name @ 5 # flags # ka"
  let ?tail = "encodeVarint (length ?blk) @ ?blk @ payload"
  let ?body = "encode_connect name 5 flags ka ps payload"
  have body: "?body = ?hd @ ?tail" by (simp add: encode_connect_def)
  have len: "length ?hd = 2 + length name + 4" using assms(2) by simp
  have pn: "be16 ?body 0 = Inr (length name)"
    using be16_at [OF assms(1), of "[]"] by (simp add: encode_connect_def)
  have lvl: "index_slice ?body (2 + length name) = Inr 5"
    using index_slice_at(1) [of "enc16 (length name) @ name" 5] by (simp add: encode_connect_def)
  have dec: "decodeVarint (drop (2 + length name + 4) ?body) = Inr (length ?blk, length (encodeVarint (length ?blk)))"
    using varint_loop_encode [of 0 "length ?blk" "[]" "?blk @ payload" 0 1] assms(4)
    unfolding body len [symmetric] by (simp add: decodeVarint_def)
  have walk: "prop_walk ?body (2 + length name + 4 + length (encodeVarint (length ?blk)) + length ?blk)
      (2 + length name + 4 + length (encodeVarint (length ?blk))) = Inr (find_mps ps)"
    using prop_walk_encode [OF assms(3), of "?hd @ encodeVarint (length ?blk)" payload]
    unfolding body len [symmetric] by (simp add: add.assoc)
  have blen: "length ?body = length ?hd + length (encodeVarint (length ?blk)) + length ?blk + length payload"
    by (simp add: encode_connect_def)
  have none: "?blk = [] \<Longrightarrow> find_mps ps = (False, 0)"
    by (cases ps) (auto, case_tac a, auto)
  show ?thesis
    unfolding V5ConnectMaximumPacketSize_def
    using pn lvl dec walk none blen len by (simp add: Let_def add.assoc)
qed

theorem V5ConnectMaximumPacketSize_encode_witness:
  "V5ConnectMaximumPacketSize
     (encode_connect [0x4D, 0x51, 0x54, 0x54] 5 2 [0, 60]
        [PReceiveMax 0 20, PUser [1] [2, 3], PMaxPacketSize 0] [0, 0]) = Inr (True, 0)"
proof -
  have h: "length [0x4D, 0x51, 0x54, 0x54 :: byte] < 65536" "length [0, 60 :: byte] = 2"
    "\<forall>p \<in> set [PReceiveMax 0 20, PUser [1] [2, 3], PMaxPacketSize 0]. prop_ok p"
    "length (concat (map encode_prop [PReceiveMax 0 20, PUser [1] [2, 3], PMaxPacketSize 0])) \<le> 268435455"
    by simp_all
  from V5ConnectMaximumPacketSize_encode [OF h] show ?thesis by simp
qed

lemma index_slice_ok: "i < length b \<Longrightarrow> \<exists>x. index_slice b i = Inr x"
  by (simp add: index_slice_def)

lemma be16_ok: "i + 2 \<le> length b \<Longrightarrow> \<exists>n. be16 b i = Inr n"
  by (simp add: be16_def index_slice_def)

lemma skip_string_no_panic: "fin \<le> length b \<Longrightarrow> skip_string msg b fin off \<noteq> Inl (Panic s)"
  using be16_ok [of off b] by (auto simp: skip_string_def)

lemma prop_step_no_panic: "fin \<le> length b \<Longrightarrow> prop_step b fin i off \<noteq> Inl (Panic s)"
  by (auto simp: prop_step_def and_then_Inl skip_string_no_panic be32_def index_slice_def)

lemma prop_walk_no_panic: "fin \<le> length b \<Longrightarrow> prop_walk b fin off \<noteq> Inl (Panic s)"
proof (induction b fin off rule: prop_walk.induct)
  case (1 body fin off)
  then show ?case
    using index_slice_ok [of off body] prop_step_no_panic [OF "1.prems"]
    by (subst prop_walk.simps) (auto split: sum.splits)
qed

lemma varint_loop_no_panic: "varint_loop b v m n \<noteq> Inl (Panic s)"
proof (induction b v m n rule: varint_loop.induct)
  case (1 b v mult n)
  then show ?case by (subst varint_loop.simps) (auto simp: Let_def)
qed

text \<open>The scan never reads out of bounds: on every byte sequence, well formed or not, it
  returns a result or a codec error, never a run-time panic.\<close>

theorem V5ConnectMaximumPacketSize_no_panic:
  "V5ConnectMaximumPacketSize body \<noteq> Inl (Panic s)"
proof (cases "length body < 2")
  case True
  then show ?thesis by (simp add: V5ConnectMaximumPacketSize_def)
next
  case False
  then obtain n where n: "be16 body 0 = Inr n" using be16_ok [of 0 body] by auto
  show ?thesis
  proof (cases "length body < 2 + n + 4")
    case True
    with False n show ?thesis by (simp add: V5ConnectMaximumPacketSize_def Let_def)
  next
    case len: False
    then obtain pv where pv: "index_slice body (2 + n) = Inr pv"
      using index_slice_ok [of "2 + n" body] by auto
    show ?thesis
    proof (cases "decodeVarint (drop (2 + n + 4) body)")
      case (Inl e)
      then show ?thesis
        using False n len pv varint_loop_no_panic [of "drop (2 + n + 4) body" 0 1 0 s]
        by (simp add: V5ConnectMaximumPacketSize_def decodeVarint_def Let_def)
    next
      case (Inr kc)
      obtain k c where kc: "kc = (k, c)" by (cases kc)
      have "V5ConnectMaximumPacketSize body \<noteq> Inl (Panic s)"
        if "2 + n + 4 + c + k \<le> length body"
        using False n len pv Inr kc prop_walk_no_panic [OF that, of "2 + n + 4 + c" s]
        by (simp add: V5ConnectMaximumPacketSize_def Let_def)
      moreover have "V5ConnectMaximumPacketSize body \<noteq> Inl (Panic s)"
        if "\<not> 2 + n + 4 + c + k \<le> length body"
        using that False n len pv Inr kc by (simp add: V5ConnectMaximumPacketSize_def Let_def)
      ultimately show ?thesis by blast
    qed
  qed
qed

end
