(* ===== verification/Ext.thy ===== *)
theory Ext
  imports Codec
begin

text \<open>
  The code the program calls and does not contain: the packet codec, JSON of the codec's
  property records, the UUID and bcrypt packages, address parsing and the token-bucket
  package \<open>golang.org/x/time/rate\<close>. It is one record, an argument of every definition that
  reaches such code. What a theorem needs of it is a named predicate below; \<open>sample_ext\<close> is a
  concrete instance for witnesses.

  A \<open>rate.Limiter\<close> is opaque and stateful, but deterministic: what \<open>AllowN\<close> answers depends on
  the limiter's rate and burst and on the instants of the calls so far. So a limiter is
  represented by exactly that, and the package by the function \<open>rate_allow\<close>.
\<close>

record limiter =
  lim_events :: int
  lim_per_seconds :: int
  lim_burst :: int
  lim_calls :: "instant list"

record ext =
  codec :: mochi
  json_marshal :: "properties \<Rightarrow> err + bytes"
  json_unmarshal :: "bytes \<Rightarrow> properties option"
  json_valid :: "bytes \<Rightarrow> bool"
  json_me :: "bytes \<Rightarrow> int option"
  uuid_string :: "uuid \<Rightarrow> string"
  uuid_parse :: "string \<Rightarrow> uuid option"
  bcrypt_match :: "string \<Rightarrow> string \<Rightarrow> bool"
  parse_ip :: "string \<Rightarrow> nat option"
  rate_allow :: "limiter \<Rightarrow> instant \<Rightarrow> bool"

definition AllowN :: "ext \<Rightarrow> limiter \<Rightarrow> instant \<Rightarrow> bool \<times> limiter" where
  "AllowN X l now = (rate_allow X l now, l\<lparr>lim_calls := now # lim_calls l\<rparr>)"

text \<open>The JSON text of the empty property record and of \<open>null\<close>, as bytes.\<close>

definition ascii :: "string \<Rightarrow> bytes" where
  "ascii s = map (\<lambda>c. of_nat (of_char c)) s"

text \<open>Documented behaviour of the UUID package: the canonical text has 36 characters and
  parses back.\<close>

definition uuid_text_ok :: "ext \<Rightarrow> bool" where
  "uuid_text_ok X \<longleftrightarrow>
     (\<forall>u. length (uuid_string X u) = 36) \<and> (\<forall>u. uuid_parse X (uuid_string X u) = Some u)"

text \<open>Documented behaviour of the token bucket: a call is refused exactly when granting it
  would exceed, over some suffix of the calls granted so far, the burst plus what the rate
  refills; in particular a bucket with no calls grants the first one. Only this consequence
  is used.\<close>

definition rate_first_ok :: "ext \<Rightarrow> bool" where
  "rate_first_ok X \<longleftrightarrow>
     (\<forall>l now. lim_calls l = [] \<and> 0 < lim_burst l \<longrightarrow> rate_allow X l now)"

section \<open>A concrete instance\<close>

text \<open>128 bits written as 36 characters (the exact alphabet does not matter to the program):
  32 characters of four bits each, then four separators. Each four-bit group is one of the
  characters with codes 97 to 112.\<close>

fun nibbles :: "nat \<Rightarrow> nat \<Rightarrow> string" where
  "nibbles 0 v = []"
| "nibbles (Suc n) v = char_of (97 + v mod 16) # nibbles n (v div 16)"

fun unnibbles :: "string \<Rightarrow> nat" where
  "unnibbles [] = 0"
| "unnibbles (c # cs) = (of_char c - 97) + 16 * unnibbles cs"

lemma unnibbles_nibbles: "v < 16 ^ n \<Longrightarrow> unnibbles (nibbles n v) = v"
proof (induction n arbitrary: v)
  case 0
  then show ?case by simp
next
  case (Suc n)
  have "v div 16 < 16 ^ n"
    using Suc.prems by (simp add: less_mult_imp_div_less mult.commute)
  with Suc.IH have "unnibbles (nibbles n (v div 16)) = v div 16"
    by simp
  moreover have "97 + v mod 16 < (256 :: nat)"
    using mod_less_divisor [of 16 v] by simp
  ultimately show ?case
    by (simp add: of_char_of)
qed

lemma length_nibbles [simp]: "length (nibbles n v) = n"
  by (induction n arbitrary: v) auto

definition sample_uuid_string :: "uuid \<Rightarrow> string" where
  "sample_uuid_string u = nibbles 32 (unat (uuid_bits u)) @ ''----''"

definition sample_uuid_parse :: "string \<Rightarrow> uuid option" where
  "sample_uuid_parse s =
     (if length s = 36 then Some (UUID (of_nat (unnibbles (take 32 s)))) else None)"

lemma sample_uuid_roundtrip: "sample_uuid_parse (sample_uuid_string u) = Some u"
proof -
  have "unat (uuid_bits u) < 16 ^ 32"
    using unsigned_less [of "uuid_bits u"] by simp
  then show ?thesis
    by (cases u) (simp add: sample_uuid_parse_def sample_uuid_string_def unnibbles_nibbles)
qed

text \<open>Property documents of the sample instance: the expiry interval as four bytes after a
  marker, or the empty document.\<close>

definition sample_json_marshal :: "properties \<Rightarrow> err + bytes" where
  "sample_json_marshal p =
     Inr (if MessageExpiryInterval p = 0 then ascii ''{}''
          else 109 # enc32 (MessageExpiryInterval p))"

definition sample_json_unmarshal :: "bytes \<Rightarrow> properties option" where
  "sample_json_unmarshal b =
     (case b of [m, b3, b2, b1, b0] \<Rightarrow>
        Some (no_properties\<lparr>MessageExpiryInterval :=
          of_nat (((unat b3 * 256 + unat b2) * 256 + unat b1) * 256 + unat b0)\<rparr>)
      | _ \<Rightarrow> None)"

definition sample_json_me :: "bytes \<Rightarrow> int option" where
  "sample_json_me b =
     map_option (\<lambda>p. uint (MessageExpiryInterval p)) (sample_json_unmarshal b)"

definition sample_ext :: ext where
  "sample_ext = \<lparr>codec = sample_mochi, json_marshal = sample_json_marshal,
     json_unmarshal = sample_json_unmarshal, json_valid = (\<lambda>b. True),
     json_me = sample_json_me, uuid_string = sample_uuid_string,
     uuid_parse = sample_uuid_parse, bcrypt_match = (\<lambda>h p. h = p),
     parse_ip = (\<lambda>s. if s = [] then None else Some (length s)),
     rate_allow = (\<lambda>l now. int (length (lim_calls l)) < lim_burst l)\<rparr>"

lemma sample_ext_ok: "uuid_text_ok sample_ext" "rate_first_ok sample_ext"
  by (simp_all add: uuid_text_ok_def rate_first_ok_def sample_ext_def sample_uuid_roundtrip)
     (simp add: sample_uuid_string_def)

end
