(* ===== verification/IpLimit.thy ===== *)
theory IpLimit
  imports Ext
begin

text \<open>
  The per-address limiter of \<open>src/internal/engine/iplimit.go\<close>: two token buckets and a
  penalty box for each source address. The entries map is an association list with distinct
  keys; a clock reading is an argument of each operation.
\<close>

record ipEntry =
  ie_connect :: "limiter option"
  ie_auth :: "limiter option"
  ie_until :: "instant option"
  ie_lastSeen :: instant

record ipLimiter =
  connectsPerSec :: int
  authFailuresPerMin :: int
  ip_entries :: "(nat \<times> ipEntry) list"
  penaltyDuration :: duration
  gcIdle :: duration
  gcInterval :: duration

definition defaultPenaltyDuration :: duration where
  "defaultPenaltyDuration = 60 * 1000000000"

definition defaultGCIdle :: duration where
  "defaultGCIdle = 5 * 60 * 1000000000"

definition defaultGCInterval :: duration where
  "defaultGCInterval = 60 * 1000000000"

definition newIPLimiter :: "int \<Rightarrow> int \<Rightarrow> ipLimiter" where
  "newIPLimiter cps afm = \<lparr>connectsPerSec = cps, authFailuresPerMin = afm, ip_entries = [],
     penaltyDuration = defaultPenaltyDuration, gcIdle = defaultGCIdle,
     gcInterval = defaultGCInterval\<rparr>"

definition disabled :: "ipLimiter \<Rightarrow> bool" where
  "disabled l \<longleftrightarrow> connectsPerSec l \<le> 0 \<and> authFailuresPerMin l \<le> 0"

definition put_entry :: "nat \<Rightarrow> ipEntry \<Rightarrow> ipLimiter \<Rightarrow> ipLimiter" where
  "put_entry a e l = l\<lparr>ip_entries := AList.update a e (ip_entries l)\<rparr>"

definition del_entry :: "nat \<Rightarrow> ipLimiter \<Rightarrow> ipLimiter" where
  "del_entry a l = l\<lparr>ip_entries := AList.delete a (ip_entries l)\<rparr>"

definition get_entry :: "ipLimiter \<Rightarrow> nat \<Rightarrow> ipEntry option" where
  "get_entry l a = map_of (ip_entries l) a"

text \<open>\<open>entryFor\<close>: with \<open>create\<close>, a fresh entry for an address never seen.\<close>

definition new_entry :: "ipLimiter \<Rightarrow> instant \<Rightarrow> ipEntry" where
  "new_entry l now =
     \<lparr>ie_connect = (if connectsPerSec l > 0
        then Some \<lparr>lim_events = connectsPerSec l, lim_per_seconds = 1,
                   lim_burst = connectsPerSec l, lim_calls = []\<rparr> else None),
      ie_auth = (if authFailuresPerMin l > 0
        then Some \<lparr>lim_events = authFailuresPerMin l, lim_per_seconds = 60,
                   lim_burst = authFailuresPerMin l, lim_calls = []\<rparr> else None),
      ie_until = None, ie_lastSeen = now\<rparr>"

definition entryFor :: "nat \<Rightarrow> bool \<Rightarrow> instant \<Rightarrow> ipLimiter \<Rightarrow> ipEntry option \<times> ipLimiter" where
  "entryFor a create now l =
     (case get_entry l a of
        Some e \<Rightarrow> (Some e, l)
      | None \<Rightarrow> if \<not> create then (None, l)
                else (Some (new_entry l now), put_entry a (new_entry l now) l))"

definition allowConnect :: "ext \<Rightarrow> string \<Rightarrow> instant \<Rightarrow> ipLimiter \<Rightarrow> bool \<times> ipLimiter" where
  "allowConnect X ip now l =
     (if connectsPerSec l \<le> 0 then (True, l)
      else case parse_ip X ip of
        None \<Rightarrow> (True, l)
      | Some a \<Rightarrow>
         (case entryFor a True now l of
            (None, l1) \<Rightarrow> (True, l1)
          | (Some e, l1) \<Rightarrow>
             (case ie_connect e of
                None \<Rightarrow> (True, l1)
              | Some b \<Rightarrow>
                 (case AllowN X b now of (ok, b') \<Rightarrow>
                    (ok, put_entry a (e\<lparr>ie_lastSeen := now, ie_connect := Some b'\<rparr>) l1)))))"

definition recordAuthFailure :: "ext \<Rightarrow> string \<Rightarrow> instant \<Rightarrow> ipLimiter \<Rightarrow> ipLimiter" where
  "recordAuthFailure X ip now l =
     (if authFailuresPerMin l \<le> 0 then l
      else case parse_ip X ip of
        None \<Rightarrow> l
      | Some a \<Rightarrow>
         (case entryFor a True now l of
            (None, l1) \<Rightarrow> l1
          | (Some e, l1) \<Rightarrow>
             (case ie_auth e of
                None \<Rightarrow> l1
              | Some b \<Rightarrow>
                 (let e1 = e\<lparr>ie_lastSeen := now\<rparr> in
                  if (case ie_until e of None \<Rightarrow> False | Some u \<Rightarrow> now < u) then put_entry a e1 l1
                  else case AllowN X b now of (ok, b') \<Rightarrow>
                    (let e2 = e1\<lparr>ie_auth := Some b'\<rparr> in
                     put_entry a (if ok then e2
                       else e2\<lparr>ie_until := Some (now + penaltyDuration l)\<rparr>) l1)))))"

definition inPenaltyBox :: "ext \<Rightarrow> string \<Rightarrow> instant \<Rightarrow> ipLimiter \<Rightarrow> bool \<times> ipLimiter" where
  "inPenaltyBox X ip now l =
     (if authFailuresPerMin l \<le> 0 then (False, l)
      else case parse_ip X ip of
        None \<Rightarrow> (False, l)
      | Some a \<Rightarrow>
         (case entryFor a False now l of
            (None, l1) \<Rightarrow> (False, l1)
          | (Some e, l1) \<Rightarrow>
             (case ie_until e of
                None \<Rightarrow> (False, l1)
              | Some u \<Rightarrow> if now < u then (True, l1)
                          else (False, put_entry a (e\<lparr>ie_until := None\<rparr>) l1))))"

text \<open>\<open>gcOnce\<close> drops the entries idle for longer than \<open>gcIdle\<close> that are not in the box.\<close>

definition gc_drops :: "instant \<Rightarrow> ipLimiter \<Rightarrow> ipEntry \<Rightarrow> bool" where
  "gc_drops now l e \<longleftrightarrow>
     ie_lastSeen e < now - gcIdle l \<and> \<not> (case ie_until e of None \<Rightarrow> False | Some u \<Rightarrow> now < u)"

definition gcOnce :: "instant \<Rightarrow> ipLimiter \<Rightarrow> ipLimiter" where
  "gcOnce now l = l\<lparr>ip_entries := filter (\<lambda>(a, e). \<not> gc_drops now l e) (ip_entries l)\<rparr>"

text \<open>\<open>checkIPLimits\<close> of the engine: the penalty box first, then the connect bucket. The
  result is the reason label of a refusal, or \<open>None\<close>.\<close>

definition checkIPLimits :: "ext \<Rightarrow> string \<Rightarrow> instant \<Rightarrow> ipLimiter \<Rightarrow> string option \<times> ipLimiter" where
  "checkIPLimits X remote now l =
     (case inPenaltyBox X remote now l of (boxed, l1) \<Rightarrow>
        if boxed then (Some ''penalty_box'', l1)
        else case allowConnect X remote now l1 of (ok, l2) \<Rightarrow>
          if \<not> ok then (Some ''rate_limit'', l2) else (None, l2))"

section \<open>The entries are a keyed table\<close>

definition limiter_wf :: "ipLimiter \<Rightarrow> bool" where
  "limiter_wf l \<longleftrightarrow> distinct (map fst (ip_entries l))"

interpretation entries: keyed_table limiter_wf get_entry put_entry del_entry
  by unfold_locales
    (auto simp: limiter_wf_def put_entry_def del_entry_def get_entry_def distinct_update
      distinct_delete update_conv' delete_conv')

text \<open>The entry the operations work on: the stored one or a fresh one. Both rate fields are
  fixed at construction, so every operation keeps them.\<close>

lemma entryFor_True:
  "entryFor a True now l =
     (let e = (case get_entry l a of Some e \<Rightarrow> e | None \<Rightarrow> new_entry l now) in
      (Some e, if get_entry l a = None then put_entry a e l else l))"
  by (auto simp: entryFor_def Let_def split: option.splits)

lemma put_entry_fields [simp]:
  "authFailuresPerMin (put_entry a e l) = authFailuresPerMin l"
  "connectsPerSec (put_entry a e l) = connectsPerSec l"
  "penaltyDuration (put_entry a e l) = penaltyDuration l"
  by (simp_all add: put_entry_def)

lemma get_put_entry [simp]:
  "get_entry (put_entry a e l) b = (if b = a then Some e else get_entry l b)"
  by (simp add: get_entry_def put_entry_def update_conv')

text \<open>The bucket an authentication failure consults.\<close>

definition auth_bucket :: "ipLimiter \<Rightarrow> nat \<Rightarrow> limiter" where
  "auth_bucket l a =
     (case get_entry l a of
        Some e \<Rightarrow> the (ie_auth e)
      | None \<Rightarrow> \<lparr>lim_events = authFailuresPerMin l, lim_per_seconds = 60,
                  lim_burst = authFailuresPerMin l, lim_calls = []\<rparr>)"

lemma inPenaltyBox_iff:
  assumes "parse_ip X ip = Some a" "authFailuresPerMin l > 0"
  shows "fst (inPenaltyBox X ip now l) \<longleftrightarrow>
    (\<exists>e u. get_entry l a = Some e \<and> ie_until e = Some u \<and> now < u)"
  using assms
  by (auto simp: inPenaltyBox_def entryFor_def split: option.splits)

section \<open>The penalty box\<close>

text \<open>The operations of the limiter as one step, at a given instant.\<close>

datatype limiter_op =
    OpConnect string instant
  | OpFailure string instant
  | OpProbe string instant
  | OpGC instant

fun op_time :: "limiter_op \<Rightarrow> instant" where
  "op_time (OpConnect ip t) = t"
| "op_time (OpFailure ip t) = t"
| "op_time (OpProbe ip t) = t"
| "op_time (OpGC t) = t"

fun limiter_step :: "ext \<Rightarrow> limiter_op \<Rightarrow> ipLimiter \<Rightarrow> ipLimiter" where
  "limiter_step X (OpConnect ip t) l = snd (checkIPLimits X ip t l)"
| "limiter_step X (OpFailure ip t) l = recordAuthFailure X ip t l"
| "limiter_step X (OpProbe ip t) l = snd (inPenaltyBox X ip t l)"
| "limiter_step X (OpGC t) l = gcOnce t l"

definition boxed_until :: "ipLimiter \<Rightarrow> nat \<Rightarrow> instant \<Rightarrow> bool" where
  "boxed_until l a u \<longleftrightarrow> limiter_wf l \<and> 0 < authFailuresPerMin l \<and>
     (\<exists>e. get_entry l a = Some e \<and> ie_until e = Some u)"

lemma limiter_wf_put [simp]: "limiter_wf l \<Longrightarrow> limiter_wf (put_entry a e l)"
  by (rule entries.wf_put)

lemma boxed_put:
  "boxed_until l a u \<Longrightarrow> (b = a \<Longrightarrow> ie_until e = Some u) \<Longrightarrow> boxed_until (put_entry b e l) a u"
  by (auto simp: boxed_until_def)

lemma boxed_entryFor:
  "boxed_until l a u \<Longrightarrow> entryFor b c t l = (r, l1) \<Longrightarrow>
     boxed_until l1 a u \<and> (\<forall>e. r = Some e \<longrightarrow> b = a \<longrightarrow> ie_until e = Some u)"
  by (auto simp: entryFor_def boxed_until_def split: option.splits if_splits)

lemma boxed_allowConnect:
  assumes "boxed_until l a u"
  shows "boxed_until (snd (allowConnect X ip t l)) a u"
proof (cases "parse_ip X ip")
  case None
  with assms show ?thesis by (simp add: allowConnect_def)
next
  case (Some b)
  obtain r l1 where r: "entryFor b True t l = (r, l1)" by fastforce
  with boxed_entryFor [OF assms r] Some assms show ?thesis
    by (auto simp: allowConnect_def AllowN_def intro!: boxed_put split: option.splits)
qed

lemma boxed_recordAuthFailure:
  assumes "boxed_until l a u" "t < u"
  shows "boxed_until (recordAuthFailure X ip t l) a u"
proof (cases "parse_ip X ip")
  case None
  with assms show ?thesis by (simp add: recordAuthFailure_def)
next
  case (Some b)
  obtain r l1 where r: "entryFor b True t l = (r, l1)" by fastforce
  with boxed_entryFor [OF assms(1) r] Some assms show ?thesis
    by (auto simp: recordAuthFailure_def AllowN_def Let_def intro!: boxed_put split: option.splits)
qed

lemma boxed_inPenaltyBox:
  assumes "boxed_until l a u" "t < u"
  shows "boxed_until (snd (inPenaltyBox X ip t l)) a u"
proof (cases "parse_ip X ip")
  case None
  with assms show ?thesis by (simp add: inPenaltyBox_def)
next
  case (Some b)
  obtain r l1 where r: "entryFor b False t l = (r, l1)" by fastforce
  with boxed_entryFor [OF assms(1) r] Some assms show ?thesis
    by (auto simp: inPenaltyBox_def intro!: boxed_put split: option.splits)
qed

lemma map_of_filter_Some:
  "distinct (map fst xs) \<Longrightarrow> map_of xs a = Some e \<Longrightarrow> P (a, e) \<Longrightarrow> map_of (filter P xs) a = Some e"
  by (induction xs) (auto split: if_splits)

lemma boxed_gcOnce:
  assumes "boxed_until l a u" "t < u"
  shows "boxed_until (gcOnce t l) a u"
proof -
  obtain e where e: "get_entry l a = Some e" "ie_until e = Some u"
    and wf: "limiter_wf l" "0 < authFailuresPerMin l"
    using assms(1) by (auto simp: boxed_until_def)
  have "\<not> gc_drops t l e"
    using e(2) assms(2) by (simp add: gc_drops_def)
  with e wf have "get_entry (gcOnce t l) a = Some e"
    by (simp add: get_entry_def gcOnce_def limiter_wf_def map_of_filter_Some)
  with e(2) wf show ?thesis
    by (auto simp: boxed_until_def gcOnce_def limiter_wf_def distinct_map_filter)
qed

lemma boxed_checkIPLimits:
  assumes "boxed_until l a u" "t < u"
  shows "boxed_until (snd (checkIPLimits X ip t l)) a u"
  using boxed_inPenaltyBox [OF assms, of X ip]
    boxed_allowConnect [OF boxed_inPenaltyBox [OF assms, of X ip], of X ip t]
  by (simp add: checkIPLimits_def case_prod_beta)

lemma boxed_step:
  "boxed_until l a u \<Longrightarrow> op_time op < u \<Longrightarrow> boxed_until (limiter_step X op l) a u"
  by (cases op)
    (simp_all add: boxed_checkIPLimits boxed_recordAuthFailure boxed_inPenaltyBox boxed_gcOnce)

lemma boxed_fold:
  "boxed_until l a u \<Longrightarrow> \<forall>op \<in> set ops. op_time op < u \<Longrightarrow>
     boxed_until (fold (limiter_step X) ops l) a u"
  by (induction ops arbitrary: l) (auto intro: boxed_step)

lemma boxed_refused:
  assumes "boxed_until l a u" "parse_ip X ip = Some a" "t < u"
  shows "fst (checkIPLimits X ip t l) = Some ''penalty_box''"
proof -
  have "fst (inPenaltyBox X ip t l)"
    using assms by (auto simp: inPenaltyBox_iff boxed_until_def)
  then show ?thesis by (auto simp: checkIPLimits_def split: prod.splits)
qed

lemma refused_failure_boxes:
  assumes "limiter_wf l" "parse_ip X ip = Some a" "0 < authFailuresPerMin l"
    and "\<not> fst (inPenaltyBox X ip t l)"
    and "\<And>e. get_entry l a = Some e \<Longrightarrow> ie_auth e \<noteq> None"
    and "\<not> rate_allow X (auth_bucket l a) t"
  shows "boxed_until (recordAuthFailure X ip t l) a (t + penaltyDuration l)"
  using assms
  by (auto simp: recordAuthFailure_def entryFor_True AllowN_def Let_def boxed_until_def
      auth_bucket_def inPenaltyBox_iff new_entry_def split: option.splits)

text \<open>C30: the penalty box holds. When an authentication failure finds its address's bucket
  empty, then whatever limiter operations follow, for this address or any other, garbage
  collection included, every new connection from that address within the penalty duration
  is refused with reason \<open>penalty_box\<close>, so none of them reaches the password check.\<close>

theorem penalty_box_holds:
  assumes "limiter_wf l" "parse_ip X ip = Some a" "0 < authFailuresPerMin l"
    and "\<not> fst (inPenaltyBox X ip t l)"
    and "\<And>e. get_entry l a = Some e \<Longrightarrow> ie_auth e \<noteq> None"
    and "\<not> rate_allow X (auth_bucket l a) t"
    and "\<forall>op \<in> set ops. op_time op < t + penaltyDuration l"
    and "t' < t + penaltyDuration l"
  shows "fst (checkIPLimits X ip t' (fold (limiter_step X) ops (recordAuthFailure X ip t l)))
    = Some ''penalty_box''"
  using boxed_refused [OF boxed_fold [OF refused_failure_boxes [OF assms(1-6)] assms(7)]
      assms(2) assms(8)] .

definition sample_boxed :: ipLimiter where
  "sample_boxed = recordAuthFailure sample_ext ''1.2.3.4'' 5 (newIPLimiter 0 1)"

theorem penalty_box_holds_witness:
  "fst (checkIPLimits sample_ext ''1.2.3.4'' 59000000000
     (fold (limiter_step sample_ext) [OpGC 7, OpFailure ''1.2.3.4'' 8, OpConnect ''x'' 9]
       (recordAuthFailure sample_ext ''1.2.3.4'' 6 sample_boxed))) = Some ''penalty_box''"
proof (rule penalty_box_holds [where a = 7])
  show "limiter_wf sample_boxed"
    by (simp add: sample_boxed_def limiter_wf_def recordAuthFailure_def newIPLimiter_def
        sample_ext_def entryFor_def get_entry_def put_entry_def new_entry_def AllowN_def)
  show "parse_ip sample_ext ''1.2.3.4'' = Some 7"
    by (simp add: sample_ext_def)
  show "0 < authFailuresPerMin sample_boxed"
    "\<not> rate_allow sample_ext (auth_bucket sample_boxed 7) 6"
    "\<not> fst (inPenaltyBox sample_ext ''1.2.3.4'' 6 sample_boxed)"
    by (simp_all add: sample_boxed_def inPenaltyBox_def auth_bucket_def recordAuthFailure_def
        newIPLimiter_def sample_ext_def entryFor_def get_entry_def put_entry_def new_entry_def
        AllowN_def)
  show "ie_auth e \<noteq> None" if "get_entry sample_boxed 7 = Some e" for e
    using that
    by (auto simp: sample_boxed_def recordAuthFailure_def newIPLimiter_def sample_ext_def
        entryFor_def get_entry_def put_entry_def new_entry_def AllowN_def)
  have p: "penaltyDuration sample_boxed = 60000000000"
    by (simp add: sample_boxed_def recordAuthFailure_def newIPLimiter_def sample_ext_def
        entryFor_def get_entry_def put_entry_def new_entry_def AllowN_def
        defaultPenaltyDuration_def)
  show "\<forall>op \<in> set [OpGC 7, OpFailure ''1.2.3.4'' 8, OpConnect ''x'' 9].
      op_time op < 6 + penaltyDuration sample_boxed"
    "59000000000 < 6 + penaltyDuration sample_boxed"
    by (simp_all add: p)
qed

end
