(* ===== verification/World.thy ===== *)
theory World
  imports Store IpLimit
begin

text \<open>
  The state a handler runs on, and how a handler runs. A Pod (\<open>Engine\<close> in
  \<open>src/internal/engine/engine.go\<close>) keeps its broker id, the map from client ids to
  connections, the count of open sockets, its configuration, the address limiter and its
  metric counters. Connections are objects: the map holds pointers, so the Pod has a heap of
  connection records addressed by natural numbers, and two names may denote one connection.

  A handler is a function on the world (the Pod, the database, the clock, and the schedule
  of faults) that returns an error or a result. Every database statement, transaction begin,
  commit and socket write consults the schedule: its next entry says whether that call fails,
  and with which error; an exhausted schedule means no more failures. A theorem over all
  schedules is a theorem over all ways the calls can fail. A \<open>COMMIT\<close> that fails is one
  Postgres did not perform.
\<close>

section \<open>Connections and Pods\<close>

text \<open>\<open>Conn\<close> of \<open>conn.go\<close>. Channels are their contents: \<open>inflight\<close> is the number of tokens in
  the channel and its capacity, \<open>drainKick\<close> whether a kick is pending; \<open>None\<close> is the nil
  channel. \<open>closing\<close> is set only by the body of \<open>once.Do\<close> in \<open>shutdown\<close>, so it also tells
  whether that body ran. \<open>wire\<close> is what the socket has taken, in order.\<close>

record conn =
  reader_of :: reader
  clientID :: string
  protocol :: nat
  sessionToken :: uuid
  keepalive :: duration
  cleanStart :: bool
  willTopic :: string
  willPayload :: bytes
  willQoS :: nat
  willRetain :: bool
  willProps :: bytes
  willDelay :: "32 word option"
  sessionExpiry :: "32 word option"
  maxPacketSize :: "32 word"
  receiveMaximum :: "16 word"
  inflight :: "(nat \<times> nat) option"
  drainKick :: "bool option"
  inboundInflight :: "32 word"
  topicAliasMaximumOut :: "16 word"
  aliasOut :: "(string \<times> 16 word) list option"
  aliasOutNext :: "16 word"
  closing :: bool
  gracefulRequested :: bool
  takenOver :: bool
  quotaDone :: bool
  rateTokens :: int
  rateLast :: "instant option"
  packetIDSeeded :: bool
  packetIDState :: "32 word"
  remoteAddr :: string
  wire :: "packet list"

record knobs =
  allowAnonymous :: bool
  maxConns :: int
  maxQueued :: int
  maxInboundRate :: int
  maxPacketSizeKnob :: int
  receiveMaxV5 :: int
  keepaliveMaxV5 :: int

record pod =
  brokerID :: uuid
  conns :: "(string \<times> nat) list"
  openConns :: int
  knobs :: knobs
  iplimit :: ipLimiter
  heap :: "nat \<Rightarrow> conn"
  counters :: "string \<times> string \<Rightarrow> int"

text \<open>How a call to Postgres or to the network fails: an SQLSTATE, a deadline, an I/O error.\<close>

datatype fault = FaultPg string | FaultDeadline | FaultIO string | FaultClosed

fun fault_err :: "fault \<Rightarrow> err" where
  "fault_err (FaultPg s) = PgError s"
| "fault_err FaultDeadline = ErrDeadlineExceeded"
| "fault_err (FaultIO s) = ErrIO s"
| "fault_err FaultClosed = ErrNetClosed"

record world = pod +
  store :: db
  now :: instant
  faults :: "fault option list"

type_synonym conn_ref = nat
type_synonym 'a go = "world \<Rightarrow> (err + 'a) \<times> world"

section \<open>Sequencing\<close>

definition go_return :: "'a \<Rightarrow> 'a go" where
  "go_return x w = (Inr x, w)"

definition go_fail :: "err \<Rightarrow> 'a go" where
  "go_fail e w = (Inl e, w)"

definition go_bind :: "'a go \<Rightarrow> ('a \<Rightarrow> 'b go) \<Rightarrow> 'b go" where
  "go_bind m k w = (case m w of (Inl e, w') \<Rightarrow> (Inl e, w') | (Inr x, w') \<Rightarrow> k x w')"

text \<open>Go's \<open>x, err := f()\<close> with the error looked at, or dropped (\<open>_ = f()\<close>).\<close>

definition go_attempt :: "'a go \<Rightarrow> (err + 'a) go" where
  "go_attempt m w = (case m w of (r, w') \<Rightarrow> (Inr r, w'))"

definition go_ask :: "(world \<Rightarrow> 'a) \<Rightarrow> 'a go" where
  "go_ask f w = (Inr (f w), w)"

definition go_modify :: "(world \<Rightarrow> world) \<Rightarrow> unit go" where
  "go_modify g w = (Inr (), g w)"

definition go_when :: "bool \<Rightarrow> unit go \<Rightarrow> unit go" where
  "go_when b m = (if b then m else go_return ())"

definition go_ignore :: "'a go \<Rightarrow> unit go" where
  "go_ignore m = go_bind (go_attempt m) (\<lambda>_. go_return ())"

abbreviation go_then :: "'a go \<Rightarrow> 'b go \<Rightarrow> 'b go" where
  "go_then m k \<equiv> go_bind m (\<lambda>_. k)"

fun go_each :: "('a \<Rightarrow> unit go) \<Rightarrow> 'a list \<Rightarrow> unit go" where
  "go_each f [] = go_return ()"
| "go_each f (x # xs) = go_then (f x) (go_each f xs)"

section \<open>Calls that may fail\<close>

definition next_fault :: "world \<Rightarrow> fault option \<times> world" where
  "next_fault w = (case faults w of [] \<Rightarrow> (None, w) | f # fs \<Rightarrow> (f, w\<lparr>faults := fs\<rparr>))"

definition call :: "unit go" where
  "call w = (case next_fault w of (Some f, w') \<Rightarrow> (Inl (fault_err f), w') | (None, w') \<Rightarrow> (Inr (), w'))"

text \<open>One SQL statement.\<close>

definition sql :: "'a stmt \<Rightarrow> 'a go" where
  "sql s = go_then call (\<lambda>w. case s (store w) of
      Inl e \<Rightarrow> (Inl e, w)
    | Inr (x, d) \<Rightarrow> (Inr x, w\<lparr>store := d\<rparr>))"

definition exec :: "(db \<Rightarrow> nat \<times> db) \<Rightarrow> nat go" where
  "exec f = sql (\<lambda>d. Inr (f d))"

definition execute :: "(db \<Rightarrow> db) \<Rightarrow> unit go" where
  "execute f = sql (\<lambda>d. Inr ((), f d))"

definition query :: "(db \<Rightarrow> 'a) \<Rightarrow> 'a go" where
  "query f = sql (\<lambda>d. Inr (f d, d))"

text \<open>\<open>beginTxTimed\<close>, the body, \<open>Commit\<close>, and the deferred \<open>Rollback\<close> of every other exit.\<close>

definition go_tx :: "'a go \<Rightarrow> 'a go" where
  "go_tx body = go_then call (\<lambda>w.
     case go_bind body (\<lambda>x. go_then call (go_return x)) w of
       (Inl e, w') \<Rightarrow> (Inl e, w'\<lparr>store := rollback (store w) (store w')\<rparr>)
     | (Inr x, w') \<Rightarrow> (Inr x, w'))"

text \<open>What is left of a transaction that has only read so far: its statements, \<open>Commit\<close>, and
  the deferred \<open>Rollback\<close>.\<close>

definition tx_rest :: "'a go \<Rightarrow> 'a go" where
  "tx_rest body w =
     (case go_bind body (\<lambda>x. go_then call (go_return x)) w of
        (Inl e, w') \<Rightarrow> (Inl e, w'\<lparr>store := rollback (store w) (store w')\<rparr>)
      | (Inr x, w') \<Rightarrow> (Inr x, w'))"

text \<open>Reading and updating a connection, counting an event.\<close>

definition upd_conn :: "conn_ref \<Rightarrow> (conn \<Rightarrow> conn) \<Rightarrow> world \<Rightarrow> world" where
  "upd_conn k f w = w\<lparr>heap := (heap w)(k := f (heap w k))\<rparr>"

definition go_conn :: "conn_ref \<Rightarrow> conn go" where
  "go_conn k = go_ask (\<lambda>w. heap w k)"

definition go_upd :: "conn_ref \<Rightarrow> (conn \<Rightarrow> conn) \<Rightarrow> unit go" where
  "go_upd k f = go_modify (upd_conn k f)"

definition count :: "string \<Rightarrow> string \<Rightarrow> int \<Rightarrow> unit go" where
  "count name label n =
     go_modify (\<lambda>w. w\<lparr>counters := (counters w)((name, label) := counters w (name, label) + n)\<rparr>)"

section \<open>Taking runs apart\<close>

lemma go_simps [simp]:
  "go_return x w = (Inr x, w)"
  "go_fail e w = (Inl e, w)"
  "go_ask f w = (Inr (f w), w)"
  "go_conn k w = (Inr (heap w k), w)"
  "go_modify g w = (Inr (), g w)"
  "go_upd k h w = (Inr (), upd_conn k h w)"
  "go_when True m = m"
  "go_when False m = go_return ()"
  by (simp_all add: go_return_def go_fail_def go_ask_def go_conn_def go_modify_def go_upd_def
      go_when_def)

lemma go_bind_simps [simp]:
  "m w = (Inr x, w1) \<Longrightarrow> go_bind m k w = k x w1"
  "m w = (Inl e, w1) \<Longrightarrow> go_bind m k w = (Inl e, w1)"
  by (simp_all add: go_bind_def)

lemma go_bind_Inr:
  "go_bind m k w = (Inr y, w') \<longleftrightarrow> (\<exists>x w1. m w = (Inr x, w1) \<and> k x w1 = (Inr y, w'))"
  by (auto simp: go_bind_def split: sum.splits prod.splits)

lemma go_bind_Inl:
  "go_bind m k w = (Inl e, w') \<longleftrightarrow>
     m w = (Inl e, w') \<or> (\<exists>x w1. m w = (Inr x, w1) \<and> k x w1 = (Inl e, w'))"
  by (auto simp: go_bind_def split: sum.splits prod.splits)

lemma go_attempt_eq [simp]:
  "go_attempt m w = (Inr r, w') \<longleftrightarrow> m w = (r, w')"
  "go_attempt m w \<noteq> (Inl e, w')"
  by (auto simp: go_attempt_def split: prod.splits)

text \<open>Looking at the error of an attempt.\<close>

lemma go_try_Inr:
  "go_bind (go_attempt m) (\<lambda>r. case r of Inl e \<Rightarrow> h e | Inr x \<Rightarrow> k x) w = (Inr y, w') \<longleftrightarrow>
     (\<exists>e w1. m w = (Inl e, w1) \<and> h e w1 = (Inr y, w')) \<or>
     (\<exists>x w1. m w = (Inr x, w1) \<and> k x w1 = (Inr y, w'))"
proof (cases "m w")
  case (Pair r w1)
  then show ?thesis by (cases r) (auto simp: go_bind_Inr)
qed

lemma go_try_Inl:
  "go_bind (go_attempt m) (\<lambda>r. case r of Inl e \<Rightarrow> h e | Inr x \<Rightarrow> k x) w = (Inl y, w') \<longleftrightarrow>
     (\<exists>e w1. m w = (Inl e, w1) \<and> h e w1 = (Inl y, w')) \<or>
     (\<exists>x w1. m w = (Inr x, w1) \<and> k x w1 = (Inl y, w'))"
proof (cases "m w")
  case (Pair r w1)
  then show ?thesis by (cases r) (auto simp: go_bind_Inl)
qed

lemma go_then_ends:
  "go_then m (go_fail e) w \<noteq> (Inr y, w')"
  "go_then m (go_return x) w = (Inr y, w') \<longleftrightarrow> y = x \<and> (\<exists>u. m w = (Inr u, w'))"
  by (auto simp: go_bind_Inr)

lemmas go_invert = go_try_Inr go_try_Inl go_then_ends

lemma go_ignore_eq: "go_ignore m w = (Inr (), snd (m w))"
  by (cases "m w") (simp add: go_ignore_def)

lemma count_eq [simp]:
  "count name label n w =
     (Inr (), w\<lparr>counters := (counters w)((name, label) := counters w (name, label) + n)\<rparr>)"
  by (simp add: count_def)

lemma call_world: "call w = (r, w') \<Longrightarrow> \<exists>fs. w' = w\<lparr>faults := fs\<rparr>"
proof (cases "faults w")
  case Nil
  then show "call w = (r, w') \<Longrightarrow> ?thesis"
    by (intro exI [of _ "faults w"]) (simp add: call_def next_fault_def)
next
  case (Cons f fs)
  then show "call w = (r, w') \<Longrightarrow> ?thesis"
    by (intro exI [of _ fs]) (auto simp: call_def next_fault_def split: option.splits)
qed

lemma call_ok [simp]: "faults w = [] \<Longrightarrow> call w = (Inr (), w)"
  by (simp add: call_def next_fault_def)

lemma sql_Inr:
  assumes "sql s w = (Inr x, w')"
  obtains d fs where "s (store w) = Inr (x, d)" "w' = w\<lparr>faults := fs, store := d\<rparr>"
proof -
  from assms obtain w1 where "call w = (Inr (), w1)"
    and s: "(case s (store w1) of Inl e \<Rightarrow> (Inl e, w1) | Inr (x, d) \<Rightarrow> (Inr x, w1\<lparr>store := d\<rparr>))
      = (Inr x, w')"
    by (auto simp: sql_def go_bind_Inr)
  then obtain fs where w1: "w1 = w\<lparr>faults := fs\<rparr>" using call_world by blast
  with s obtain d where "s (store w) = Inr (x, d)" "w' = w1\<lparr>store := d\<rparr>"
    by (auto split: sum.splits)
  with w1 that show thesis by simp
qed

lemma sql_Inl:
  assumes "sql s w = (Inl e, w')"
  obtains fs where "w' = w\<lparr>faults := fs\<rparr>"
    "s (store w) = Inl e \<or> (\<exists>f. e = fault_err f)"
proof -
  have *: "r = Inl e \<Longrightarrow> \<exists>f. e = fault_err f" if "call w = (r, w1)" for r w1
    using that by (auto simp: call_def split: prod.splits option.splits)
  from assms consider "call w = (Inl e, w')"
    | w1 where "call w = (Inr (), w1)"
        "(case s (store w1) of Inl e \<Rightarrow> (Inl e, w1) | Inr (x, d) \<Rightarrow> (Inr x, w1\<lparr>store := d\<rparr>)) = (Inl e, w')"
    by (auto simp: sql_def go_bind_Inl)
  then show thesis
  proof cases
    case 1
    with * call_world that show thesis by blast
  next
    case 2
    from call_world [OF 2(1)] obtain fs where "w1 = w\<lparr>faults := fs\<rparr>" ..
    with 2(2) that show thesis by (auto split: sum.splits)
  qed
qed

lemma query_Inr:
  assumes "query f w = (Inr x, w')"
  obtains fs where "x = f (store w)" "w' = w\<lparr>faults := fs\<rparr>"
  using assms unfolding query_def by (elim sql_Inr) (use that in auto)

lemma query_world: "query f w = (r, w') \<Longrightarrow> \<exists>fs. w' = w\<lparr>faults := fs\<rparr>"
proof (cases r)
  case (Inl e)
  then show "query f w = (r, w') \<Longrightarrow> ?thesis" unfolding query_def by (auto elim: sql_Inl)
next
  case (Inr x)
  then show "query f w = (r, w') \<Longrightarrow> ?thesis" by (auto elim: query_Inr)
qed

lemma world_eta: "w\<lparr>faults := faults w, store := store w\<rparr> = w"
  by simp

lemma sql_ok: "faults w = [] \<Longrightarrow> sql s w = (case s (store w) of Inl e \<Rightarrow> (Inl e, w)
    | Inr (x, d) \<Rightarrow> (Inr x, w\<lparr>store := d\<rparr>))"
  by (simp add: sql_def)

lemma query_ok [simp]: "faults w = [] \<Longrightarrow> query f w = (Inr (f (store w)), w)"
  by (simp add: query_def sql_ok)

lemma exec_ok: "faults w = [] \<Longrightarrow> exec f w = (Inr (fst (f (store w))), w\<lparr>store := snd (f (store w))\<rparr>)"
  by (simp add: exec_def sql_ok split: prod.splits)

lemma execute_ok: "faults w = [] \<Longrightarrow> execute f w = (Inr (), w\<lparr>store := f (store w)\<rparr>)"
  by (simp add: execute_def sql_ok)

lemma exec_Inr:
  assumes "exec f w = (Inr n, w')"
  obtains fs where "n = fst (f (store w))" "w' = w\<lparr>faults := fs, store := snd (f (store w))\<rparr>"
  using assms unfolding exec_def by (elim sql_Inr) (metis fst_conv snd_conv sum.inject(2))

lemma execute_Inr:
  assumes "execute f w = (Inr u, w')"
  obtains fs where "w' = w\<lparr>faults := fs, store := f (store w)\<rparr>"
  using assms unfolding execute_def by (elim sql_Inr) auto

lemma upd_conn_frame [simp]:
  "store (upd_conn k f w) = store w" "now (upd_conn k f w) = now w"
  "knobs (upd_conn k f w) = knobs w" "brokerID (upd_conn k f w) = brokerID w"
  "conns (upd_conn k f w) = conns w" "faults (upd_conn k f w) = faults w"
  "iplimit (upd_conn k f w) = iplimit w" "counters (upd_conn k f w) = counters w"
  "openConns (upd_conn k f w) = openConns w"
  "heap (upd_conn k f w) j = (if j = k then f (heap w k) else heap w j)"
  by (simp_all add: upd_conn_def)

text \<open>A transaction that fails leaves the tables as they were.\<close>

lemma go_tx_rest: "go_tx body = go_then call (tx_rest body)"
  by (simp add: go_tx_def tx_rest_def [abs_def])

lemma tx_rest_cases:
  assumes "tx_rest body w = (r, w')"
  obtains e w1 where "r = Inl e" "w' = w1\<lparr>store := rollback (store w) (store w1)\<rparr>"
      "go_bind body (\<lambda>x. go_then call (go_return x)) w = (Inl e, w1)"
  | x w1 where "r = Inr x" "body w = (Inr x, w1)" "call w1 = (Inr (), w')"
proof (cases "go_bind body (\<lambda>x. go_then call (go_return x)) w")
  case (Pair r1 w1)
  with assms that show thesis by (cases r1) (auto simp: tx_rest_def go_bind_Inr)
qed

lemma rollback_tables: "tables.truncate (rollback d0 d) = tables.truncate d0"
  by (simp add: rollback_def tables.truncate_def)

lemma go_tx_cases:
  assumes "go_tx body w = (r, w')"
  obtains e where "r = Inl e" "call w = (Inl e, w')"
  | w0 e w1 where "call w = (Inr (), w0)"
      "go_bind body (\<lambda>x. go_then call (go_return x)) w0 = (Inl e, w1)"
      "r = Inl e" "w' = w1\<lparr>store := rollback (store w0) (store w1)\<rparr>"
  | w0 x w1 where "call w = (Inr (), w0)" "body w0 = (Inr x, w1)" "call w1 = (Inr (), w')"
      "r = Inr x"
proof (cases "call w")
  case (Pair r0 w0)
  show thesis
  proof (cases r0)
    case (Inl e)
    with Pair assms that(1) show thesis by (auto simp: go_tx_def)
  next
    case (Inr u)
    show thesis
    proof (cases "go_bind body (\<lambda>x. go_then call (go_return x)) w0")
      case b: (Pair r1 w1)
      with Pair Inr assms that(2,3) show thesis
        by (cases r1) (auto simp: go_tx_def go_bind_Inr)
    qed
  qed
qed

lemma go_tx_Inl:
  assumes "go_tx body w = (Inl e, w')"
  shows "tables.truncate (store w') = tables.truncate (store w)"
  using assms
proof (cases rule: go_tx_cases)
  case (1 e')
  with call_world [OF 1(2)] show ?thesis by auto
next
  case (2 w0 e' w1)
  with call_world [OF 2(1)] show ?thesis by (auto simp: rollback_tables)
qed auto

lemma go_tx_Inr:
  assumes "go_tx body w = (Inr x, w')"
  obtains fs w1 fs' where "body (w\<lparr>faults := fs\<rparr>) = (Inr x, w1)" "w' = w1\<lparr>faults := fs'\<rparr>"
  using assms
proof (cases rule: go_tx_cases)
  case (3 w0 x' w1)
  with call_world [OF 3(1)] call_world [OF 3(3)] that show thesis by auto
qed auto

lemma go_tx_ok:
  assumes "faults w = []" "body w = (Inr x, w1)" "faults w1 = []"
  shows "go_tx body w = (Inr x, w1)"
  using assms by (simp add: go_tx_def)

text \<open>Unfolding a run on a concrete world.\<close>

lemmas go_eval = go_bind_def go_attempt_def go_ignore_def go_tx_def sql_def call_def next_fault_def
  query_def exec_def execute_def upd_conn_def tx_rest_def

named_theorems keeps_rules \<open>how a property of runs goes through the structure of a handler\<close>

section \<open>Properties of runs\<close>

text \<open>\<open>keeps R m\<close>: every run of \<open>m\<close>, successful or not, under any schedule, relates the world
  before to the world after by \<open>R\<close>. The rules below carry such facts through the structure of
  a handler.\<close>

definition keeps :: "(world \<Rightarrow> world \<Rightarrow> bool) \<Rightarrow> 'a go \<Rightarrow> bool" where
  "keeps R m \<longleftrightarrow> (\<forall>w. R w (snd (m w)))"

lemma keepsD: "keeps R m \<Longrightarrow> m w = (r, w') \<Longrightarrow> R w w'"
  by (metis keeps_def snd_conv)

text \<open>A first step that keeps \<open>R\<close> either ends the run or hands on.\<close>

lemma go_bind_keeps:
  assumes "go_bind m k w = (r, w')" "keeps R m"
  obtains (fails) e where "r = Inl e" "m w = (Inl e, w')" "R w w'"
    | (goes) x w1 where "m w = (Inr x, w1)" "R w w1" "k x w1 = (r, w')"
proof (cases "m w")
  case (Pair r1 w1)
  with assms that keepsD [OF assms(2) Pair] show thesis by (cases r1) auto
qed

locale run_relation =
  fixes R :: "world \<Rightarrow> world \<Rightarrow> bool"
  assumes R_refl: "R w w"
    and R_trans: "R w1 w2 \<Longrightarrow> R w2 w3 \<Longrightarrow> R w1 w3"
    and R_fault: "R w (w\<lparr>faults := tl (faults w)\<rparr>)"
begin

lemma keeps_return [keeps_rules]: "keeps R (go_return x)"
  by (simp add: keeps_def go_return_def R_refl)

lemma keeps_fail [keeps_rules]: "keeps R (go_fail e)"
  by (simp add: keeps_def go_fail_def R_refl)

lemma keeps_ask [keeps_rules]: "keeps R (go_ask f)"
  by (simp add: keeps_def go_ask_def R_refl)

lemma keeps_conn [keeps_rules]: "keeps R (go_conn k)"
  by (simp add: go_conn_def keeps_ask)

lemma keeps_bind [keeps_rules]:
  assumes "keeps R m" "\<And>x. keeps R (k x)"
  shows "keeps R (go_bind m k)"
  unfolding keeps_def
proof
  fix w
  have m: "R w (snd (m w))" using assms(1) by (simp add: keeps_def)
  have "R (snd (m w)) (snd (k x (snd (m w))))" for x using assms(2) by (simp add: keeps_def)
  with m show "R w (snd (go_bind m k w))"
    by (auto simp: go_bind_def split: prod.splits sum.splits intro: R_trans)
qed

lemma keeps_attempt [keeps_rules]: "keeps R m \<Longrightarrow> keeps R (go_attempt m)"
  by (simp add: keeps_def go_attempt_def case_prod_beta)

lemma keeps_ignore [keeps_rules]: "keeps R m \<Longrightarrow> keeps R (go_ignore m)"
  unfolding go_ignore_def by (intro keeps_bind keeps_attempt keeps_return)

lemma keeps_if [keeps_rules]: "(b \<Longrightarrow> keeps R m) \<Longrightarrow> (\<not> b \<Longrightarrow> keeps R n) \<Longrightarrow> keeps R (if b then m else n)"
  by simp

lemma keeps_when [keeps_rules]: "(b \<Longrightarrow> keeps R m) \<Longrightarrow> keeps R (go_when b m)"
  unfolding go_when_def by (intro keeps_if keeps_return)

lemma keeps_each [keeps_rules]: "(\<And>x. x \<in> set xs \<Longrightarrow> keeps R (f x)) \<Longrightarrow> keeps R (go_each f xs)"
proof (induction xs)
  case Nil
  then show ?case unfolding go_each.simps by (intro keeps_return)
next
  case (Cons x xs)
  then show ?case unfolding go_each.simps by (intro keeps_bind) simp_all
qed

lemma keeps_call [keeps_rules]: "keeps R call"
proof -
  have "R w (w\<lparr>faults := fs\<rparr>)" if "faults w = f # fs" for w f fs
    using R_fault [of w] that by simp
  then show ?thesis
    by (auto simp: keeps_def call_def next_fault_def R_refl split: list.splits option.splits)
qed

lemma keeps_case_option [keeps_rules]:
  "keeps R m \<Longrightarrow> (\<And>x. v = Some x \<Longrightarrow> keeps R (k x)) \<Longrightarrow> keeps R (case v of None \<Rightarrow> m | Some x \<Rightarrow> k x)"
  by (cases v) auto

lemma keeps_case_sum [keeps_rules]:
  "(\<And>e. v = Inl e \<Longrightarrow> keeps R (h e)) \<Longrightarrow> (\<And>x. v = Inr x \<Longrightarrow> keeps R (k x)) \<Longrightarrow>
     keeps R (case v of Inl e \<Rightarrow> h e | Inr x \<Rightarrow> k x)"
  by (cases v) auto

lemma keeps_case_prod [keeps_rules]: "(\<And>a b. v = (a, b) \<Longrightarrow> keeps R (k a b)) \<Longrightarrow> keeps R (case v of (a, b) \<Rightarrow> k a b)"
  by (cases v) auto

lemma keeps_let [keeps_rules]: "keeps R (k v) \<Longrightarrow> keeps R (Let v k)"
  by simp

lemma keeps_bind_result:
  assumes "keeps R m" "\<And>w x w'. m w = (Inr x, w') \<Longrightarrow> keeps R (k x)"
  shows "keeps R (go_bind m k)"
  unfolding keeps_def
proof
  fix w
  show "R w (snd (go_bind m k w))"
  proof (cases "m w")
    case (Pair r w1)
    with assms(1) have "R w w1" by (rule keepsD)
    with Pair assms(2) [of w _ w1] show ?thesis
      by (cases r) (auto simp: keeps_def intro: R_trans)
  qed
qed

lemma keeps_sql:
  assumes "\<And>w x d. s (store w) = Inr (x, d) \<Longrightarrow> R w (w\<lparr>store := d\<rparr>)"
  shows "keeps R (sql s)"
  unfolding sql_def
  by (rule keeps_bind [OF keeps_call])
     (auto simp: keeps_def R_refl assms split: sum.splits)

lemma keeps_exec:
  assumes "\<And>w. R w (w\<lparr>store := snd (f (store w))\<rparr>)"
  shows "keeps R (exec f)"
  unfolding exec_def by (rule keeps_sql) (metis assms snd_conv sum.inject(2))

lemma keeps_execute:
  assumes "\<And>w. R w (w\<lparr>store := f (store w)\<rparr>)"
  shows "keeps R (execute f)"
  unfolding execute_def by (rule keeps_sql) (auto intro: assms)

lemma keeps_query [keeps_rules]: "keeps R (query f)"
  unfolding query_def by (rule keeps_sql) (auto simp: R_refl)

lemma keeps_upd:
  assumes "\<And>w. R w (upd_conn k f w)"
  shows "keeps R (go_upd k f)"
  using assms by (simp add: keeps_def go_upd_def go_modify_def)

lemma keeps_modify:
  assumes "\<And>w. R w (f w)"
  shows "keeps R (go_modify f)"
  using assms by (simp add: keeps_def go_modify_def)

lemma keeps_tx_rest:
  assumes body: "keeps R body"
    and roll: "\<And>w w'. R w w' \<Longrightarrow> R w (w'\<lparr>store := rollback (store w) (store w')\<rparr>)"
  shows "keeps R (tx_rest body)"
proof -
  have "keeps R (go_bind body (\<lambda>x. go_then call (go_return x)))"
    using body by (intro keeps_rules)
  then show ?thesis
    unfolding keeps_def tx_rest_def
    by (auto split: prod.splits sum.splits intro: roll) (metis roll snd_conv)+
qed

lemma keeps_tx:
  assumes body: "keeps R body"
    and roll: "\<And>w w'. R w w' \<Longrightarrow> R w (w'\<lparr>store := rollback (store w) (store w')\<rparr>)"
  shows "keeps R (go_tx body)"
  unfolding go_tx_rest by (intro keeps_bind keeps_call keeps_tx_rest body roll)

end

section \<open>Code that reports no error\<close>

named_theorems total_rules \<open>how returning without an error goes through the structure of a handler\<close>

definition never_fails :: "'a go \<Rightarrow> bool" where
  "never_fails m \<longleftrightarrow> (\<forall>w. \<exists>x. fst (m w) = Inr x)"

lemma never_failsE:
  assumes "never_fails m"
  obtains x w' where "m w = (Inr x, w')"
  using assms unfolding never_fails_def by (metis prod.collapse)

lemma never_fails_basic [total_rules]:
  "never_fails (go_return x)" "never_fails (go_ask f)" "never_fails (go_conn k)"
  "never_fails (go_modify g)" "never_fails (go_upd k h)" "never_fails (count n l i)"
  "never_fails (go_attempt m)" "never_fails (go_ignore m')"
  by (auto simp: never_fails_def go_attempt_def go_ignore_eq split: prod.splits)

lemma never_fails_bind [total_rules]:
  assumes "never_fails m" "\<And>x. never_fails (k x)"
  shows "never_fails (go_bind m k)"
  unfolding never_fails_def
proof
  fix w
  obtain x w' where "m w = (Inr x, w')" using assms(1) by (rule never_failsE)
  with assms(2) [of x] show "\<exists>y. fst (go_bind m k w) = Inr y" by (simp add: never_fails_def)
qed

lemma never_fails_cases [total_rules]:
  "(b \<Longrightarrow> never_fails m) \<Longrightarrow> (\<not> b \<Longrightarrow> never_fails n) \<Longrightarrow> never_fails (if b then m else n)"
  "never_fails u \<Longrightarrow> never_fails (go_when b u)"
  "never_fails mn \<Longrightarrow> (\<And>x. never_fails (ks x)) \<Longrightarrow> never_fails (case v of None \<Rightarrow> mn | Some x \<Rightarrow> ks x)"
  "(\<And>e. never_fails (hl e)) \<Longrightarrow> (\<And>y. never_fails (hr y)) \<Longrightarrow>
     never_fails (case s of Inl e \<Rightarrow> hl e | Inr y \<Rightarrow> hr y)"
  "(\<And>a b. never_fails (kp a b)) \<Longrightarrow> never_fails (case p of (a, b) \<Rightarrow> kp a b)"
  by (auto simp: go_when_def never_fails_basic split: option.splits sum.splits prod.splits)

lemma never_fails_each [total_rules]: "(\<And>x. never_fails (f x)) \<Longrightarrow> never_fails (go_each f xs)"
  by (induction xs) (simp_all add: never_fails_basic never_fails_bind)

end
