(* ===== verification/Conn.thy ===== *)
theory Conn
  imports World
begin

text \<open>
  The connection object of \<open>src/internal/engine/conn.go\<close> and the Pod's connection map
  (\<open>engine.go\<close>): construction, server policy, the inbound rate bucket, writing, outbound
  topic aliases, packet identifiers, the flow-control channel, and closing.
\<close>

section \<open>Server policy\<close>

definition serverReceiveMaximum :: "knobs \<Rightarrow> 16 word" where
  "serverReceiveMaximum K = (if receiveMaxV5 K > 0 then word_of_int (receiveMaxV5 K) else 100)"

definition serverTopicAliasMaximum :: "knobs \<Rightarrow> 16 word" where
  "serverTopicAliasMaximum K = 0"

definition maxAllowedKeepalive :: "knobs \<Rightarrow> duration" where
  "maxAllowedKeepalive K = (if keepaliveMaxV5 K > 0 then keepaliveMaxV5 K else 60 * 1000000000)"

definition defaultKeepalive :: duration where
  "defaultKeepalive = 60 * 1000000000"

definition maxConcurrentInflight :: nat where
  "maxConcurrentInflight = 1024"

text \<open>\<open>armReadDeadline\<close>: \<open>None\<close> clears the deadline. The multiplier is a fraction (the
  source's default is 1.5) and the conversion to a duration truncates.\<close>

definition armReadDeadline :: "int \<times> int \<Rightarrow> instant \<Rightarrow> conn \<Rightarrow> instant option" where
  "armReadDeadline mult t c =
     (if keepalive c = 0 then None
      else let (a, b) = (if fst mult \<le> 0 then (3, 2) else mult) in
           Some (t + keepalive c * a div b))"

section \<open>Construction\<close>

definition newConn :: "knobs \<Rightarrow> reader \<Rightarrow> string \<Rightarrow> instant \<Rightarrow> conn" where
  "newConn K rd addr t = \<lparr>reader_of = rd, clientID = [], protocol = 0, sessionToken = uuid_Nil,
     keepalive = 0, cleanStart = False, willTopic = [], willPayload = [], willQoS = 0,
     willRetain = False, willProps = [], willDelay = None, sessionExpiry = None,
     maxPacketSize = 0, receiveMaximum = 0, inflight = None, drainKick = None,
     inboundInflight = 0, topicAliasMaximumOut = 0, aliasOut = None, aliasOutNext = 0,
     closing = False, gracefulRequested = False, takenOver = False, quotaDone = False,
     rateTokens = (if maxInboundRate K > 0 then maxInboundRate K else 0),
     rateLast = (if maxInboundRate K > 0 then Some t else None),
     packetIDSeeded = False, packetIDState = 0, remoteAddr = addr, wire = []\<rparr>"

section \<open>Inbound rate bucket\<close>

text \<open>\<open>tryConsumeRateToken\<close>. The refill is computed exactly (the source multiplies in
  floating point and truncates).\<close>

definition refill :: "int \<Rightarrow> instant \<Rightarrow> conn \<Rightarrow> conn" where
  "refill cap t c =
     (case rateLast c of
        Some l \<Rightarrow>
          (let add = (t - l) * cap div 1000000000 in
           if add > 0 then c\<lparr>rateTokens := min cap (rateTokens c + add), rateLast := Some t\<rparr> else c)
      | None \<Rightarrow> c\<lparr>rateLast := Some t, rateTokens := cap\<rparr>)"

definition consume_token :: "int \<Rightarrow> instant \<Rightarrow> conn \<Rightarrow> bool \<times> conn" where
  "consume_token cap t c =
     (if cap \<le> 0 then (True, c)
      else let c1 = refill cap t c in
           if rateTokens c1 \<le> 0 then (False, c1)
           else (True, c1\<lparr>rateTokens := rateTokens c1 - 1\<rparr>))"

definition tryConsumeRateToken :: "conn_ref \<Rightarrow> bool go" where
  "tryConsumeRateToken k w =
     (case consume_token (maxInboundRate (knobs w)) (now w) (heap w k) of
        (ok, c) \<Rightarrow> (Inr ok, upd_conn k (\<lambda>_. c) w))"

section \<open>Writing\<close>

text \<open>\<open>write\<close>: refused once the connection is closing; the packet is stamped with the
  connection's protocol, encoded, checked against the client's maximum, and handed to the
  socket (one fallible call for the deadline and the write).\<close>

definition conn_write :: "ext \<Rightarrow> conn_ref \<Rightarrow> packet \<Rightarrow> unit go" where
  "conn_write X k pk = go_bind (go_conn k) (\<lambda>c.
     if closing c then go_fail ErrConnClosing
     else let pk' = pk\<lparr>pkProtocol := protocol c\<rparr> in
       case Encode (codec X) pk' of
         Inl e \<Rightarrow> go_fail e
       | Inr buf \<Rightarrow>
           if maxPacketSize c > 0 \<and> (of_nat (length buf) :: 32 word) > maxPacketSize c
           then go_fail ErrEncodedTooLarge
           else go_then call (go_upd k (\<lambda>c. c\<lparr>wire := wire c @ [pk']\<rparr>)))"

text \<open>A best-effort \<open>DISCONNECT\<close> with a reason code (\<open>_ = c.write(...)\<close>).\<close>

definition disconnect_packet :: "nat \<Rightarrow> packet" where
  "disconnect_packet r = (new_packet Disconnect)\<lparr>ReasonCode := r\<rparr>"

definition send_disconnect :: "ext \<Rightarrow> conn_ref \<Rightarrow> nat \<Rightarrow> unit go" where
  "send_disconnect X k r = go_ignore (conn_write X k (disconnect_packet r))"

section \<open>Outbound topic aliases\<close>

definition resolve_alias :: "string \<Rightarrow> conn \<Rightarrow> (16 word \<times> bool) \<times> conn" where
  "resolve_alias topic c =
     (if topicAliasMaximumOut c = 0 then ((0, False), c)
      else case aliasOut c of
        None \<Rightarrow> ((0, False), c)
      | Some m \<Rightarrow>
         (case map_of m topic of
            Some a \<Rightarrow> ((a, False), c)
          | None \<Rightarrow>
              if aliasOutNext c \<ge> topicAliasMaximumOut c then ((0, False), c)
              else let a = aliasOutNext c + 1 in
                ((a, True), c\<lparr>aliasOutNext := a, aliasOut := Some (AList.update topic a m)\<rparr>)))"

definition resolveAliasForOutbound :: "conn_ref \<Rightarrow> string \<Rightarrow> (16 word \<times> bool) go" where
  "resolveAliasForOutbound k topic w =
     (case resolve_alias topic (heap w k) of (r, c) \<Rightarrow> (Inr r, upd_conn k (\<lambda>_. c) w))"

section \<open>Packet identifiers\<close>

definition allocPacketIDMaxRetries :: nat where
  "allocPacketIDMaxRetries = 8"

definition ensurePacketIDSeeded :: "conn_ref \<Rightarrow> unit go" where
  "ensurePacketIDSeeded k = go_bind (go_conn k) (\<lambda>c.
     if packetIDSeeded c then go_return ()
     else go_bind (query (sel_max_packet_id (clientID c))) (\<lambda>seed.
       let v = (case seed of None \<Rightarrow> 0 | Some s \<Rightarrow> of_nat (min s 65535)) in
       go_upd k (\<lambda>c. c\<lparr>packetIDState := v, packetIDSeeded := True\<rparr>)))"

definition candidate :: "32 word \<Rightarrow> 16 word" where
  "candidate v = ucast ((v - 1) mod 65535 + 1)"

definition nextPacketIDCandidate :: "conn_ref \<Rightarrow> (16 word) go" where
  "nextPacketIDCandidate k w =
     (let v = packetIDState (heap w k) + 1 in
      (Inr (candidate v), upd_conn k (\<lambda>c. c\<lparr>packetIDState := v\<rparr>) w))"

definition packetIDInUse :: "conn_ref \<Rightarrow> 16 word \<Rightarrow> bool go" where
  "packetIDInUse k pid = go_bind (go_conn k) (\<lambda>c.
     query (exists_packet_id (clientID c) (unat pid)))"

fun alloc_loop :: "conn_ref \<Rightarrow> nat \<Rightarrow> (16 word) go" where
  "alloc_loop k 0 = go_fail ErrNoPacketID"
| "alloc_loop k (Suc n) =
     go_bind (nextPacketIDCandidate k) (\<lambda>pid.
     go_bind (packetIDInUse k pid) (\<lambda>taken.
       if \<not> taken then go_return pid else alloc_loop k n))"

definition AllocPacketID :: "conn_ref \<Rightarrow> (16 word) go" where
  "AllocPacketID k = go_then (ensurePacketIDSeeded k) (alloc_loop k allocPacketIDMaxRetries)"

section \<open>Flow control\<close>

definition tryAcquireInflight :: "conn_ref \<Rightarrow> bool go" where
  "tryAcquireInflight k = go_bind (go_conn k) (\<lambda>c.
     case (if protocol c \<noteq> ProtocolMQTT5 then None else inflight c) of
       None \<Rightarrow> go_return True
     | Some (n, cap) \<Rightarrow>
         if n < cap then go_then (go_upd k (\<lambda>c. c\<lparr>inflight := Some (n + 1, cap)\<rparr>)) (go_return True)
         else go_return False)"

definition kick :: "conn \<Rightarrow> conn" where
  "kick c = (case drainKick c of None \<Rightarrow> c | Some _ \<Rightarrow> c\<lparr>drainKick := Some True\<rparr>)"

definition KickDrain :: "conn_ref \<Rightarrow> unit go" where
  "KickDrain k = go_upd k kick"

definition returnInflight :: "conn_ref \<Rightarrow> unit go" where
  "returnInflight k = go_bind (go_conn k) (\<lambda>c.
     case inflight c of
       None \<Rightarrow> go_return ()
     | Some (n, cap) \<Rightarrow>
         go_then (go_upd k (\<lambda>c. c\<lparr>inflight := Some (n - 1, cap)\<rparr>)) (KickDrain k))"

section \<open>The connection map\<close>

definition ConnFor :: "string \<Rightarrow> conn_ref option go" where
  "ConnFor cid = go_ask (\<lambda>w. map_of (conns w) cid)"

definition registerConn :: "string \<Rightarrow> conn_ref \<Rightarrow> conn_ref option go" where
  "registerConn cid k = go_bind (ConnFor cid) (\<lambda>prev.
     go_then (go_modify (\<lambda>w. w\<lparr>conns := AList.update cid k (conns w)\<rparr>))
     (go_then (if prev = None then count ''Connections'' '''' 1 else count ''TakeoversTotal'' '''' 1)
     (go_return prev)))"

definition unregisterConnIfSame :: "string \<Rightarrow> conn_ref \<Rightarrow> unit go" where
  "unregisterConnIfSame cid k = go_bind (ConnFor cid) (\<lambda>cur.
     if cur = Some k
     then go_then (go_modify (\<lambda>w. w\<lparr>conns := AList.delete cid (conns w)\<rparr>))
                  (count ''Connections'' '''' (- 1))
     else go_return ())"

section \<open>Closing\<close>

definition shutdown :: "conn_ref \<Rightarrow> unit go" where
  "shutdown k = go_bind (go_conn k) (\<lambda>c.
     if closing c then go_return ()
     else go_then (go_upd k (\<lambda>c. c\<lparr>closing := True\<rparr>))
       (go_when (clientID c \<noteq> []) (unregisterConnIfSame (clientID c) k)))"

definition ShutdownForTakeover :: "conn_ref \<Rightarrow> unit go" where
  "ShutdownForTakeover k = go_then (go_upd k (\<lambda>c. c\<lparr>takenOver := True\<rparr>)) (shutdown k)"

definition gracefulClose :: "ext \<Rightarrow> conn_ref \<Rightarrow> unit go" where
  "gracefulClose X k = go_bind (go_conn k) (\<lambda>c.
     go_then (go_when (protocol c = ProtocolMQTT5) (send_disconnect X k 0x8B)) (shutdown k))"

text \<open>The count of open sockets (\<open>tryReserveConn\<close> is a compare-and-swap loop: one atomic
  test-and-increment).\<close>

definition tryReserveConn :: "bool go" where
  "tryReserveConn w =
     (if maxConns (knobs w) \<le> 0 then (Inr True, w\<lparr>openConns := openConns w + 1\<rparr>)
      else if openConns w \<ge> maxConns (knobs w) then (Inr False, w)
      else (Inr True, w\<lparr>openConns := openConns w + 1\<rparr>))"

definition releaseConn :: "unit go" where
  "releaseConn = go_modify (\<lambda>w. w\<lparr>openConns := openConns w - 1\<rparr>)"

section \<open>The rate bucket bounds the message rate\<close>

text \<open>How many of the messages arriving at the given instants are admitted.\<close>

fun grants :: "int \<Rightarrow> instant list \<Rightarrow> conn \<Rightarrow> nat" where
  "grants cap [] c = 0"
| "grants cap (t # ts) c =
     (case consume_token cap t c of (ok, c') \<Rightarrow> (if ok then 1 else 0) + grants cap ts c')"

lemma refill_budget:
  assumes "0 < cap" "rateLast c = Some l" "0 \<le> rateTokens c"
  obtains l' where "rateLast (refill cap t c) = Some l'" "l' = l \<or> l' = t" "0 \<le> rateTokens (refill cap t c)"
    "rateTokens (refill cap t c) * 1000000000 \<le> rateTokens c * 1000000000 + (l' - l) * cap"
proof -
  let ?add = "(t - l) * cap div 1000000000"
  have "?add * 1000000000 \<le> (t - l) * cap"
    by simp
  then show thesis
    using assms that [of "if ?add > 0 then t else l"]
    by (auto simp: refill_def Let_def min_def algebra_simps split: if_splits)
qed

lemma grants_bound:
  assumes "0 < cap" "rateLast c = Some l" "0 \<le> rateTokens c" "l \<le> T" "\<forall>t \<in> set ts. t \<le> T"
  shows "int (grants cap ts c) * 1000000000 \<le> rateTokens c * 1000000000 + (T - l) * cap"
  using assms
proof (induction ts arbitrary: c l)
  case (Cons t ts)
  obtain l' where l': "rateLast (refill cap t c) = Some l'" "l' = l \<or> l' = t"
    "0 \<le> rateTokens (refill cap t c)"
    "rateTokens (refill cap t c) * 1000000000 \<le> rateTokens c * 1000000000 + (l' - l) * cap"
    using refill_budget [OF Cons.prems(1-3), of t] by blast
  let ?c1 = "refill cap t c"
  let ?c2 = "if rateTokens ?c1 \<le> 0 then ?c1 else ?c1\<lparr>rateTokens := rateTokens ?c1 - 1\<rparr>"
  have "int (grants cap ts ?c2) * 1000000000 \<le> rateTokens ?c2 * 1000000000 + (T - l') * cap"
    by (rule Cons.IH) (use Cons.prems l' in auto)
  with l'(3,4) Cons.prems(1) show ?case
    by (simp add: consume_token_def Let_def algebra_simps split: if_splits)
qed (simp)

text \<open>The inbound rate limit. Whatever the arrival times up to \<open>T\<close>, a connection created
  at \<open>l\<close> under a limit of \<open>cap\<close> messages a second has at most \<open>cap\<close> (the burst) plus \<open>cap\<close> times
  the elapsed seconds of its PUBLISH and SUBSCRIBE packets admitted.\<close>

theorem rate_limit_bound:
  assumes "0 < maxInboundRate K" "l \<le> T" "\<forall>t \<in> set ts. t \<le> T"
  shows "int (grants (maxInboundRate K) ts (newConn K rd addr l))
    \<le> maxInboundRate K + (T - l) * maxInboundRate K div 1000000000"
proof -
  let ?cap = "maxInboundRate K"
  have "int (grants ?cap ts (newConn K rd addr l)) * 1000000000
      \<le> ?cap * 1000000000 + (T - l) * ?cap"
    using grants_bound [OF assms(1), of "newConn K rd addr l" l T ts] assms
    by (simp add: newConn_def)
  then have "int (grants ?cap ts (newConn K rd addr l))
      \<le> (?cap * 1000000000 + (T - l) * ?cap) div 1000000000"
    by (simp add: le_div_geq zdiv_mono1 [of _ _ 1000000000, THEN order_trans])
  then show ?thesis by simp
qed

definition sample_knobs :: knobs where
  "sample_knobs = \<lparr>allowAnonymous = True, maxConns = 2, maxQueued = 2, maxInboundRate = 2,
     maxPacketSizeKnob = 0, receiveMaxV5 = 10, keepaliveMaxV5 = 0\<rparr>"

definition sample_reader :: reader where
  "sample_reader = NewReader [] ErrEOF"

theorem rate_limit_bound_witness:
  "int (grants 2 [1, 2, 3, 600000000] (newConn sample_knobs sample_reader [] 0)) \<le> 3"
  using rate_limit_bound [of sample_knobs 0 600000000 "[1, 2, 3, 600000000]" sample_reader "[]"]
  by (simp add: sample_knobs_def)

section \<open>Packet identifiers are in range and unused\<close>

lemma unat_candidate: "unat (candidate v) = unat (v - 1) mod 65535 + 1"
proof -
  have m: "unat ((v - 1) mod 65535) = unat (v - 1) mod 65535"
    by (simp add: unat_mod)
  have lt: "unat (v - 1) mod 65535 + 1 < 65536"
    using mod_less_divisor [of 65535 "unat (v - 1)"] by simp
  have "unat ((v - 1) mod 65535 + 1) = unat (v - 1) mod 65535 + 1"
    using lt m by (simp add: unat_word_ariths)
  with lt show ?thesis
    by (simp add: candidate_def unsigned_ucast_eq take_bit_eq_mod)
qed

lemma candidate_range: "1 \<le> unat (candidate v)" "unat (candidate v) \<le> 65535"
  using mod_less_divisor [of 65535 "unat (v - 1)"] by (simp_all add: unat_candidate)

lemma candidate_succ:
  "unat (candidate (v + 1)) =
     (if v = 0 then unat (candidate v)
      else if unat (candidate v) = 65535 then 1 else unat (candidate v) + 1)"
proof (cases "v = 0")
  case True
  have "unat (- 1 :: 32 word) = 4294967295"
    by (simp add: unsigned_minus_1_eq_mask mask_eq_exp_minus_1)
  with True show ?thesis by (simp add: unat_candidate)
next
  case False
  then have v: "unat v = unat (v - 1) + 1"
    using unat_minus_one [OF False] unat_gt_0 [of v] by simp
  have "Suc (unat (v - 1)) mod 65535 =
      (if Suc (unat (v - 1) mod 65535) = 65535 then 0 else Suc (unat (v - 1) mod 65535))"
    by (rule mod_Suc)
  with v False show ?thesis by (simp add: unat_candidate)
qed

lemma nextPacketIDCandidate_eq:
  "nextPacketIDCandidate k w =
     (Inr (candidate (packetIDState (heap w k) + 1)),
      upd_conn k (\<lambda>c. c\<lparr>packetIDState := packetIDState (heap w k) + 1\<rparr>) w)"
  by (simp add: nextPacketIDCandidate_def Let_def)

lemma alloc_loop_sound:
  "alloc_loop k n w = (Inr pid, w') \<Longrightarrow>
     1 \<le> unat pid \<and> unat pid \<le> 65535 \<and>
     \<not> exists_packet_id (clientID (heap w k)) (unat pid) (store w) \<and> store w' = store w"
proof (induction n arbitrary: w)
  case (Suc n)
  let ?w1 = "upd_conn k (\<lambda>c. c\<lparr>packetIDState := packetIDState (heap w k) + 1\<rparr>) w"
  let ?pid = "candidate (packetIDState (heap w k) + 1)"
  from Suc.prems obtain taken w2 where
    q: "query (exists_packet_id (clientID (heap w k)) (unat ?pid)) ?w1 = (Inr taken, w2)"
    and r: "(if \<not> taken then go_return ?pid else alloc_loop k n) w2 = (Inr pid, w')"
    by (auto simp: go_bind_Inr nextPacketIDCandidate_eq packetIDInUse_def)
  from q obtain fs where t: "taken = exists_packet_id (clientID (heap w k)) (unat ?pid) (store w)"
    and w2: "w2 = ?w1\<lparr>faults := fs\<rparr>"
    by (elim query_Inr) simp
  show ?case
  proof (cases taken)
    case False
    with r t w2 candidate_range show ?thesis by auto
  next
    case True
    with r Suc.IH [of w2] w2 show ?thesis by simp
  qed
qed simp

text \<open>Without failures the loop is a search through the next candidates.\<close>

lemma alloc_loop_search:
  assumes "faults w = []"
  shows "fst (alloc_loop k n w) =
    (case find (\<lambda>i. \<not> exists_packet_id (clientID (heap w k))
              (unat (candidate (packetIDState (heap w k) + 1 + of_nat i))) (store w)) [0..<n] of
       None \<Rightarrow> Inl ErrNoPacketID
     | Some i \<Rightarrow> Inr (candidate (packetIDState (heap w k) + 1 + of_nat i)))"
  using assms
proof (induction n arbitrary: w)
  case (Suc n)
  let ?s = "packetIDState (heap w k)"
  let ?w1 = "upd_conn k (\<lambda>c. c\<lparr>packetIDState := ?s + 1\<rparr>) w"
  let ?used = "\<lambda>i. exists_packet_id (clientID (heap w k)) (unat (candidate (?s + 1 + of_nat i))) (store w)"
  have l: "[0..<Suc n] = 0 # map Suc [0..<n]"
    by (simp only: map_Suc_upt upt_conv_Cons zero_less_Suc)
  have f: "find P (map Suc xs) = map_option Suc (find (P \<circ> Suc) xs)" for P xs
    by (induction xs) auto
  have step: "fst (alloc_loop k (Suc n) w) =
      (if ?used 0 then fst (alloc_loop k n ?w1) else Inr (candidate (?s + 1)))"
    using Suc.prems by (simp add: nextPacketIDCandidate_eq packetIDInUse_def go_bind_def)
  have rest: "fst (alloc_loop k n ?w1) =
      (case find ((\<lambda>i. \<not> ?used i) \<circ> Suc) [0..<n] of
         None \<Rightarrow> Inl ErrNoPacketID | Some i \<Rightarrow> Inr (candidate (?s + 1 + of_nat (Suc i))))"
    using Suc.IH [of ?w1] Suc.prems by (simp add: o_def ac_simps cong: option.case_cong)
  show ?case
    unfolding step l using rest by (auto simp: f split: option.splits)
qed simp

lemma ensurePacketIDSeeded_frame:
  assumes "ensurePacketIDSeeded k w = (r, w')"
  shows "store w' = store w" "clientID (heap w' k) = clientID (heap w k)"
proof -
  have "store w' = store w \<and> clientID (heap w' k) = clientID (heap w k)"
  proof (cases "packetIDSeeded (heap w k)")
    case True
    with assms show ?thesis by (simp add: ensurePacketIDSeeded_def)
  next
    case False
    show ?thesis
    proof (cases "query (sel_max_packet_id (clientID (heap w k))) w")
      case (Pair q w1)
      then have "\<exists>fs. w1 = w\<lparr>faults := fs\<rparr>" by (rule query_world)
      with Pair False assms show ?thesis
        by (cases q) (auto simp: ensurePacketIDSeeded_def Let_def)
    qed
  qed
  then show "store w' = store w" "clientID (heap w' k) = clientID (heap w k)" by simp_all
qed

lemma AllocPacketID_sound:
  assumes "AllocPacketID k w = (Inr pid, w')"
  shows "1 \<le> unat pid \<and> unat pid \<le> 65535 \<and>
    \<not> exists_packet_id (clientID (heap w k)) (unat pid) (store w) \<and> store w' = store w"
proof -
  from assms obtain w1 where "ensurePacketIDSeeded k w = (Inr (), w1)"
    and "alloc_loop k allocPacketIDMaxRetries w1 = (Inr pid, w')"
    by (auto simp: AllocPacketID_def go_bind_Inr)
  with ensurePacketIDSeeded_frame alloc_loop_sound show ?thesis by metis
qed

text \<open>Packet identifiers. Under every schedule of failures, an identifier that
  \<open>AllocPacketID\<close> returns lies between 1 and 65535 and no delivery of the client holds it; the
  allocator does not change the database.\<close>

theorem AllocPacketID_unused:
  assumes "AllocPacketID k w = (Inr pid, w')"
  shows "1 \<le> unat pid \<and> unat pid \<le> 65535 \<and>
    \<not> exists_packet_id (clientID (heap w k)) (unat pid) (store w) \<and> store w' = store w"
  using assms by (rule AllocPacketID_sound)

text \<open>A Pod with one connection, for concrete inputs.\<close>

definition sample_conn :: "string \<Rightarrow> nat \<Rightarrow> conn" where
  "sample_conn cid proto = (newConn sample_knobs sample_reader ''9.9.9.9:1'' 0)\<lparr>clientID := cid,
     protocol := proto, sessionToken := UUID 7, inflight := Some (0, 2), drainKick := Some False\<rparr>"

definition sample_world :: "db \<Rightarrow> conn \<Rightarrow> world" where
  "sample_world d c = \<lparr>brokerID = UUID 1, conns = [(clientID c, 0)], openConns = 1,
     knobs = sample_knobs, iplimit = newIPLimiter 0 0, heap = (\<lambda>_. c), counters = (\<lambda>_. 0),
     store = d, now = 1000, faults = []\<rparr>"

definition sample_delivery :: delivery_row where
  "sample_delivery = \<lparr>d_id = 1, d_client_id = ''c'', d_message_id = 1, d_qos = 1,
     d_packet_id = Some 1, d_state = 1\<rparr>"

lemma alloc_loop_pos:
  "0 < n \<Longrightarrow> alloc_loop k n =
     go_bind (nextPacketIDCandidate k) (\<lambda>pid.
     go_bind (packetIDInUse k pid) (\<lambda>taken.
       if \<not> taken then go_return pid else alloc_loop k (n - 1)))"
  by (cases n) (simp_all cong: if_cong)

lemma sample_alloc:
  "fst (AllocPacketID 0 (sample_world (empty_db\<lparr>deliveries := [sample_delivery]\<rparr>) (sample_conn ''c'' 5)))
     = Inr 2"
  by (simp add: go_eval Let_def AllocPacketID_def ensurePacketIDSeeded_def sample_world_def
      sample_conn_def sample_delivery_def newConn_def empty_db_def sel_max_packet_id_def
      List.map_filter_def sample_knobs_def alloc_loop_pos allocPacketIDMaxRetries_def
      nextPacketIDCandidate_def candidate_def packetIDInUse_def exists_packet_id_def)

theorem AllocPacketID_unused_witness:
  "\<not> exists_packet_id ''c'' 2 (empty_db\<lparr>deliveries := [sample_delivery]\<rparr>)"
proof -
  let ?w = "sample_world (empty_db\<lparr>deliveries := [sample_delivery]\<rparr>) (sample_conn ''c'' 5)"
  obtain w' where "AllocPacketID 0 ?w = (Inr 2, w')"
    using sample_alloc by (cases "AllocPacketID 0 ?w") auto
  from AllocPacketID_unused [OF this] show ?thesis
    by (simp add: sample_world_def sample_conn_def)
qed

text \<open>The packet identifier cycle. Successive candidates of the 32-bit counter run
  cyclically through 1 to 65535, also where the counter itself wraps around; the one
  exception is the step past counter value 0, which repeats the candidate 1.\<close>

theorem candidate_cycle:
  "unat (candidate v) \<in> {1..65535} \<and>
   unat (candidate (v + 1)) =
     (if v = 0 then unat (candidate v)
      else if unat (candidate v) = 65535 then 1 else unat (candidate v) + 1)"
  using candidate_range [of v] by (simp add: candidate_succ)

section \<open>Topic aliases\<close>

text \<open>The alias map in use: the aliases handed out are exactly 1 to \<open>aliasOutNext\<close>, each for
  one topic.\<close>

definition alias_ok :: "conn \<Rightarrow> bool" where
  "alias_ok c \<longleftrightarrow> aliasOutNext c \<le> topicAliasMaximumOut c \<and>
     (\<forall>m. aliasOut c = Some m \<longrightarrow> distinct (map fst m) \<and>
        (\<forall>t1 t2 a. map_of m t1 = Some a \<longrightarrow> map_of m t2 = Some a \<longrightarrow> t1 = t2) \<and>
        (\<forall>topic a. map_of m topic = Some a \<longrightarrow> 1 \<le> a \<and> a \<le> aliasOutNext c))"

lemma unat_inc: "a < b \<Longrightarrow> unat (a + 1) = unat a + 1" for a b :: "'a::len word"
proof -
  assume "a < b"
  then have "unat a + 1 < 2 ^ LENGTH('a)"
    using unsigned_less [of b] by (simp add: word_less_nat_alt) (metis Suc_lessI less_trans unsigned_less)
  then show ?thesis by (simp add: unat_word_ariths)
qed

lemma resolve_alias_cases:
  assumes "resolve_alias topic c = ((a, fresh), c')"
  obtains (plain) "c' = c" "a = 0" "\<not> fresh"
    | (known) m where "c' = c" "aliasOut c = Some m" "map_of m topic = Some a" "\<not> fresh"
    | (new) m where "aliasOut c = Some m" "map_of m topic = None" "a = aliasOutNext c + 1" fresh
        "aliasOutNext c < topicAliasMaximumOut c"
        "c' = c\<lparr>aliasOutNext := a, aliasOut := Some (AList.update topic a m)\<rparr>"
proof (cases "topicAliasMaximumOut c = 0 \<or> aliasOut c = None")
  case True
  with assms have "c' = c" "a = 0" "\<not> fresh" by (auto simp: resolve_alias_def split: if_splits)
  with plain show thesis by blast
next
  case False
  then obtain m where m: "aliasOut c = Some m" "topicAliasMaximumOut c \<noteq> 0" by blast
  show thesis
  proof (cases "map_of m topic")
    case None
    show thesis
    proof (cases "topicAliasMaximumOut c \<le> aliasOutNext c")
      case True
      with None m assms have "c' = c" "a = 0" "\<not> fresh" by (simp_all add: resolve_alias_def)
      with plain show thesis by blast
    next
      case False
      with None m assms new [of m] show thesis by (auto simp: resolve_alias_def Let_def not_le)
    qed
  next
    case (Some b)
    with m assms have "c' = c" "a = b" "\<not> fresh" by (simp_all add: resolve_alias_def)
    with Some m(1) known show thesis by blast
  qed
qed

lemma alias_ok_resolve:
  assumes "alias_ok c" "resolve_alias topic c = ((a, fresh), c')"
  shows "alias_ok c'" "a \<noteq> 0 \<Longrightarrow> 1 \<le> a \<and> a \<le> topicAliasMaximumOut c"
    "topicAliasMaximumOut c' = topicAliasMaximumOut c"
proof -
  from assms(2) have "alias_ok c' \<and> (a \<noteq> 0 \<longrightarrow> 1 \<le> a \<and> a \<le> topicAliasMaximumOut c) \<and>
      topicAliasMaximumOut c' = topicAliasMaximumOut c"
  proof (cases rule: resolve_alias_cases)
    case plain
    with assms(1) show ?thesis by simp
  next
    case known
    with assms(1) show ?thesis by (force simp: alias_ok_def)
  next
    case (new m)
    have a: "unat a = unat (aliasOutNext c) + 1" using new(3,5) unat_inc by blast
    then have le: "a \<le> topicAliasMaximumOut c" "1 \<le> a" and gt: "\<And>b. b \<le> aliasOutNext c \<Longrightarrow> b < a"
      using new(5) by (simp_all add: word_le_nat_alt word_less_nat_alt)
    have old: "distinct (map fst m)"
      "\<And>t1 t2 b. map_of m t1 = Some b \<Longrightarrow> map_of m t2 = Some b \<Longrightarrow> t1 = t2"
      "\<And>t b. map_of m t = Some b \<Longrightarrow> 1 \<le> b \<and> b \<le> aliasOutNext c"
      using assms(1) new(1) by (simp_all add: alias_ok_def)
    have fresh: "map_of m t \<noteq> Some a" for t
      using old(3) [of t a] gt [of a] by auto
    have "t1 = t2" if "((map_of m)(topic \<mapsto> a)) t1 = Some b" "((map_of m)(topic \<mapsto> a)) t2 = Some b"
      for t1 t2 b
      using that fresh old(2) by (auto split: if_splits)
    moreover have "1 \<le> b \<and> b \<le> a" if "((map_of m)(topic \<mapsto> a)) t = Some b" for t b
      using that old(3) gt le(2) by (auto split: if_splits intro: less_imp_le)
    ultimately show ?thesis
      using new(6) le old(1) unfolding alias_ok_def
      by (simp add: distinct_update update_conv' del: fun_upd_apply)
  qed
  then show "alias_ok c'" "a \<noteq> 0 \<Longrightarrow> 1 \<le> a \<and> a \<le> topicAliasMaximumOut c"
    "topicAliasMaximumOut c' = topicAliasMaximumOut c" by auto
qed

end
