(* ===== verification/Publish.thy ===== *)
theory Publish
  imports Conn Fanout
begin

text \<open>
  The publisher path (\<open>src/internal/engine/publish.go\<close>, \<open>will.go\<close>): the transaction
  \<open>publishCore\<close>, the quota signal to slow subscribers, wills, and the handler of an inbound
  PUBLISH. The post-commit \<open>Notifier\<close> hook is a no-op in production and is not modelled; the
  cross-Pod signals are \<open>pg_notify\<close> calls (\<open>src/internal/listener/notifier.go\<close>).
\<close>

section \<open>The publish transaction\<close>

record qos2DedupKey =
  key_ClientID :: string
  key_PacketID :: "16 word"

text \<open>\<open>publishCore\<close> (the struct). A nil byte slice is SQL \<open>NULL\<close> to the driver, so the payload
  is optional.\<close>

record publish_core =
  pc_Topic :: string
  pc_Payload :: "bytes option"
  pc_QoS :: nat
  pc_Retain :: bool
  pc_Properties :: bytes
  pc_Publisher :: string
  pc_QoS2DedupKey :: "qos2DedupKey option"

record publishResult =
  MessageID :: nat
  BrokerIDs :: "uuid list"
  OverflowClients :: "string list"

definition jsonOrNil :: "ext \<Rightarrow> bytes \<Rightarrow> bytes option" where
  "jsonOrNil X b = (if b = [] then None else if \<not> json_valid X b then None else Some b)"

definition propsToJSON :: "ext \<Rightarrow> properties \<Rightarrow> err + bytes" where
  "propsToJSON X p =
     (case json_marshal X p of
        Inl e \<Rightarrow> Inl e
      | Inr b \<Rightarrow> Inr (if b = [] \<or> b = ascii ''{}'' \<or> b = ascii ''null'' then [] else b))"

definition payload_bytes :: "bytes option \<Rightarrow> bytes" where
  "payload_bytes p = (case p of None \<Rightarrow> [] | Some b \<Rightarrow> b)"

text \<open>The retained-message step of the transaction.\<close>

definition publish_retain :: "ext \<Rightarrow> publish_core \<Rightarrow> unit go" where
  "publish_retain X p =
     (if payload_bytes (pc_Payload p) = [] then execute (del_retained (pc_Topic p))
      else go_bind (go_ask now) (\<lambda>t.
        sql (upsert_retained (json_me X) (pc_Topic p) (payload_bytes (pc_Payload p)) (pc_QoS p)
              (jsonOrNil X (pc_Properties p)) t)))"

definition publish_dedup :: "publish_core \<Rightarrow> unit go" where
  "publish_dedup p =
     (case pc_QoS2DedupKey p of
        None \<Rightarrow> go_return ()
      | Some key \<Rightarrow> go_bind (go_ask now) (\<lambda>t.
          go_bind (sql (ins_inbound_qos2 (key_ClientID key) (unat (key_PacketID key)) t)) (\<lambda>n.
            if n = 0 then go_fail ErrQoS2Duplicate else go_return ())))"

definition publish_channel :: "ext \<Rightarrow> uuid \<Rightarrow> string" where
  "publish_channel X b = ''pgmqtt_'' @ uuid_string X b"

definition publish_body :: "ext \<Rightarrow> publish_core \<Rightarrow> publishResult go" where
  "publish_body X p =
     go_then (publish_dedup p)
     (go_then (go_when (pc_Retain p) (publish_retain X p))
     (go_bind (go_ask (\<lambda>w. (now w, maxQueued (knobs w)))) (\<lambda>(t, max_queued).
      go_bind (sql (mqtt_publish (json_me X) (pc_Topic p) (pc_Payload p) (pc_QoS p) (pc_Retain p)
          (jsonOrNil X (pc_Properties p))
          (if pc_Publisher p = [] then None else Some (pc_Publisher p)) max_queued t)) (\<lambda>r.
      go_then (go_when (pr_brokers r \<noteq> [])
          (sql (pg_notify (map (publish_channel X) (pr_brokers r)) (itoa (pr_msg_id r)))))
      (go_return \<lparr>MessageID = pr_msg_id r, BrokerIDs = pr_brokers r,
                  OverflowClients = pr_overflow r\<rparr>)))))"

definition publishCore :: "ext \<Rightarrow> publish_core \<Rightarrow> publishResult go" where
  "publishCore X p =
     go_bind (go_tx (publish_body X p)) (\<lambda>res.
     go_then (count ''DeliveriesDroppedTotal'' ''overflow'' (int (length (OverflowClients res))))
     (go_return res))"

section \<open>Quota\<close>

definition kickForQuota :: "ext \<Rightarrow> conn_ref \<Rightarrow> unit go" where
  "kickForQuota X k = go_bind (go_conn k) (\<lambda>c.
     if quotaDone c then go_return ()
     else go_then (go_upd k (\<lambda>c. c\<lparr>quotaDone := True\<rparr>))
       (go_then (go_when (protocol c = ProtocolMQTT5) (send_disconnect X k 0x97))
       (go_then (count ''QuotaExceededTotal'' '''' 1) (shutdown k))))"

definition QuotaExceededLocally :: "ext \<Rightarrow> string \<Rightarrow> unit go" where
  "QuotaExceededLocally X cid = go_bind (ConnFor cid) (\<lambda>r.
     case r of None \<Rightarrow> go_return () | Some k \<Rightarrow> kickForQuota X k)"

definition QuotaExceededLocallyForToken :: "ext \<Rightarrow> string \<Rightarrow> uuid \<Rightarrow> unit go" where
  "QuotaExceededLocallyForToken X cid token = go_bind (ConnFor cid) (\<lambda>r.
     case r of
       None \<Rightarrow> go_return ()
     | Some k \<Rightarrow> go_bind (go_conn k) (\<lambda>c.
         if sessionToken c \<noteq> token then go_return () else kickForQuota X k))"

definition NotifyQuota :: "ext \<Rightarrow> uuid \<Rightarrow> string \<Rightarrow> uuid \<Rightarrow> unit go" where
  "NotifyQuota X b cid token =
     sql (pg_notify [''pgmqtt_quota_'' @ uuid_string X b] (uuid_string X token @ cid))"

definition NotifyTakeover :: "ext \<Rightarrow> uuid \<Rightarrow> string \<Rightarrow> uuid \<Rightarrow> unit go" where
  "NotifyTakeover X b cid token =
     sql (pg_notify [''pgmqtt_takeover_'' @ uuid_string X b] (uuid_string X token @ cid))"

definition dispatchQuotaExceeded :: "ext \<Rightarrow> string list \<Rightarrow> unit go" where
  "dispatchQuotaExceeded X cids =
     (if cids = [] then go_return ()
      else go_bind (go_attempt (query (sel_quota_targets cids))) (\<lambda>r.
        case r of
          Inl e \<Rightarrow> go_return ()
        | Inr rows \<Rightarrow> go_bind (go_ask brokerID) (\<lambda>self.
            go_each (\<lambda>(cid, bid, token).
              if bid = self then QuotaExceededLocallyForToken X cid token
              else go_ignore (NotifyQuota X bid cid token)) rows)))"

section \<open>Wills\<close>

definition PublishWill ::
  "ext \<Rightarrow> string \<Rightarrow> bytes option \<Rightarrow> nat \<Rightarrow> bool \<Rightarrow> bytes \<Rightarrow> unit go" where
  "PublishWill X topic payload qos ret props =
     go_bind (publishCore X \<lparr>pc_Topic = topic, pc_Payload = payload, pc_QoS = qos,
        pc_Retain = ret, pc_Properties = props, pc_Publisher = [], pc_QoS2DedupKey = None\<rparr>) (\<lambda>res.
      go_when (OverflowClients res \<noteq> []) (dispatchQuotaExceeded X (OverflowClients res)))"

text \<open>\<open>fireWill\<close>: the will payload was copied with \<open>append([]byte(nil), ...)\<close>, so an empty one is
  nil.\<close>

definition fireWill :: "ext \<Rightarrow> conn_ref \<Rightarrow> unit go" where
  "fireWill X k = go_bind (go_conn k) (\<lambda>c.
     if willTopic c = [] then go_return ()
     else PublishWill X (willTopic c) (if willPayload c = [] then None else Some (willPayload c))
            (willQoS c) (willRetain c) (willProps c))"

section \<open>Inbound PUBLISH\<close>

definition disconnectForPublishError :: "ext \<Rightarrow> conn_ref \<Rightarrow> err \<Rightarrow> unit go" where
  "disconnectForPublishError X k e = go_bind (go_conn k) (\<lambda>c.
     if protocol c \<noteq> ProtocolMQTT5 then go_return ()
     else send_disconnect X k
       (case e of
          PgError s \<Rightarrow> if s = ''53200'' \<or> s = ''53300'' then 0x97 else 0x88
        | _ \<Rightarrow> 0x88))"

definition add_inbound :: "conn_ref \<Rightarrow> 32 word \<Rightarrow> unit go" where
  "add_inbound k n = go_upd k (\<lambda>c. c\<lparr>inboundInflight := inboundInflight c + n\<rparr>)"

text \<open>The inbound flow-control prologue. The result tells whether a slot is held that the
  deferred release gives back (\<open>releaseInbound\<close> with its \<open>defer\<close> registered).\<close>

definition acquire_inbound :: "ext \<Rightarrow> conn_ref \<Rightarrow> packet \<Rightarrow> bool go" where
  "acquire_inbound X k pk = go_bind (go_ask (\<lambda>w. (heap w k, knobs w))) (\<lambda>(c, K).
     if Qos pk > 0 \<and> protocol c = ProtocolMQTT5 then
       go_bind (if Qos pk = 2 \<and> Dup pk
          then go_bind (go_attempt (query (exists_inbound_qos2 (clientID c) (unat (PacketID pk)))))
                 (\<lambda>r. go_return (r = Inr True))
          else go_return False) (\<lambda>skipInc.
       if skipInc then go_return False
       else go_then (add_inbound k 1) (go_bind (go_conn k) (\<lambda>c1.
         if (ucast (inboundInflight c1) :: 16 word) > serverReceiveMaximum K
         then go_then (send_disconnect X k 0x93) (go_then (add_inbound k (- 1))
                (go_fail (ErrProtocol ''receive maximum exceeded'')))
         else go_return True)))
     else go_return False)"

text \<open>The checks and the publish itself; the result says whether the inbound slot stays held
  (QoS 2, until PUBREL).\<close>

definition check_publish :: "ext \<Rightarrow> conn_ref \<Rightarrow> packet \<Rightarrow> unit go" where
  "check_publish X k pk = go_bind (go_ask (\<lambda>w. (heap w k, knobs w))) (\<lambda>(c, K).
     if protocol c = ProtocolMQTT5 \<and> SubscriptionIdentifier (Properties pk) \<noteq> []
     then go_then (send_disconnect X k 0x82)
            (go_fail (ErrProtocol ''inbound PUBLISH carried SubscriptionIdentifier''))
     else if protocol c = ProtocolMQTT5 \<and> TopicAliasFlag (Properties pk) \<and>
             (TopicAlias (Properties pk) = 0
              \<or> TopicAlias (Properties pk) > serverTopicAliasMaximum K)
     then go_then (send_disconnect X k 0x94) (go_fail (ErrProtocol ''invalid topic alias''))
     else go_return ())"

definition ack_packet :: "ptype \<Rightarrow> 16 word \<Rightarrow> packet" where
  "ack_packet t pid = (new_packet t)\<lparr>PacketID := pid\<rparr>"

definition core_of :: "conn \<Rightarrow> packet \<Rightarrow> bytes \<Rightarrow> publish_core" where
  "core_of c pk props =
     \<lparr>pc_Topic = TopicName pk, pc_Payload = Some (Payload pk), pc_QoS = Qos pk,
      pc_Retain = Retain pk, pc_Properties = props, pc_Publisher = clientID c,
      pc_QoS2DedupKey = (if Qos pk = 2
        then Some \<lparr>key_ClientID = clientID c, key_PacketID = PacketID pk\<rparr> else None)\<rparr>"

text \<open>Everything after the prologue, with the error kept as a value: the deferred release
  runs on every exit. The Boolean of the result is the final \<open>releaseInbound\<close>.\<close>

definition publish_steps :: "ext \<Rightarrow> conn_ref \<Rightarrow> packet \<Rightarrow> (bool \<times> (err + unit)) go" where
  "publish_steps X k pk =
     go_bind (go_attempt (check_publish X k pk)) (\<lambda>r.
     case r of
       Inl e \<Rightarrow> go_return (True, Inl e)
     | Inr _ \<Rightarrow>
      (case propsToJSON X (Properties pk) of
        Inl e \<Rightarrow> go_return (True, Inl e)
      | Inr props \<Rightarrow>
         go_bind (go_conn k) (\<lambda>c.
         go_bind (go_attempt (publishCore X (core_of c pk props))) (\<lambda>r.
         case r of
           Inl e \<Rightarrow>
             if e = ErrQoS2Duplicate
             then go_bind (go_attempt (conn_write X k (ack_packet Pubrec (PacketID pk))))
                    (\<lambda>r. go_return (True, r))
             else go_then (disconnectForPublishError X k e) (go_return (True, Inl e))
         | Inr res \<Rightarrow>
             go_then (count ''PublishesTotal'' (itoa (Qos pk)) 1)
             (go_then (go_when (OverflowClients res \<noteq> [])
                (dispatchQuotaExceeded X (OverflowClients res)))
             (if Qos pk = 0 then go_return (True, Inr ())
              else if Qos pk = 1
              then go_bind (go_attempt (conn_write X k (ack_packet Puback (PacketID pk))))
                     (\<lambda>r. go_return (True, r))
              else if Qos pk = 2
              then go_bind (go_attempt (conn_write X k (ack_packet Pubrec (PacketID pk))))
                     (\<lambda>r. go_return (False, r))
              else go_return (True, Inl (ErrProtocol ''invalid qos''))))))))"

definition go_lift :: "err + 'a \<Rightarrow> 'a go" where
  "go_lift r = (case r of Inl e \<Rightarrow> go_fail e | Inr x \<Rightarrow> go_return x)"

definition go_check :: "err option \<Rightarrow> unit go" where
  "go_check r = (case r of Some e \<Rightarrow> go_fail e | None \<Rightarrow> go_return ())"

definition handlePublish :: "ext \<Rightarrow> conn_ref \<Rightarrow> packet \<Rightarrow> unit go" where
  "handlePublish X k pk =
     go_then (go_check (ValidateTopicName (TopicName pk)))
     (go_bind (acquire_inbound X k pk) (\<lambda>held.
      go_bind (publish_steps X k pk) (\<lambda>(release, r).
      go_then (go_when (held \<and> release) (add_inbound k (- 1))) (go_lift r))))"

end
