(* ===== verification/Deliver.thy ===== *)
theory Deliver
  imports Publish
begin

text \<open>
  The receiver path: sending one delivery to a client (\<open>deliverOneTracked\<close>), the fan-out on
  a notification (\<open>Deliver\<close>), the per-connection drain (\<open>drainOnce\<close>, \<open>runDrainLoop\<close>) and the
  replay on reconnect (\<open>drainSessionQueue\<close>), from \<open>src/internal/engine/deliver.go\<close> and \<open>conn.go\<close>.
\<close>

text \<open>\<open>time.Until(t).Seconds()\<close>, at least one, as a 32-bit value.\<close>

definition remaining_seconds :: "instant \<Rightarrow> instant \<Rightarrow> 32 word" where
  "remaining_seconds t e = word_of_int (max 1 ((e - t) div 1000000000))"

definition stored_properties :: "ext \<Rightarrow> bytes option \<Rightarrow> properties" where
  "stored_properties X props =
     (case props of
        None \<Rightarrow> no_properties
      | Some b \<Rightarrow> if b = [] then no_properties
                  else (case json_unmarshal X b of None \<Rightarrow> no_properties | Some p \<Rightarrow> p))"

text \<open>The outgoing PUBLISH before its topic alias and packet id.\<close>

definition outgoing :: "ext \<Rightarrow> nat \<Rightarrow> instant \<Rightarrow> item \<Rightarrow> bool \<Rightarrow> bool \<Rightarrow> packet" where
  "outgoing X proto t it ret dup =
     (let p0 = stored_properties X (it_props it);
          p1 = (case it_expiresAt it of
                  Some e \<Rightarrow> if proto = ProtocolMQTT5
                            then p0\<lparr>MessageExpiryInterval := remaining_seconds t e\<rparr> else p0
                | None \<Rightarrow> p0);
          p2 = (if it_subIDs it \<noteq> [] \<and> proto = ProtocolMQTT5
                then p1\<lparr>SubscriptionIdentifier := it_subIDs it\<rparr> else p1) in
      (new_packet Publish)\<lparr>Qos := it_qos it, Dup := dup, Retain := ret,
         TopicName := it_topic it, Payload := it_payload it, Properties := p2\<rparr>)"

definition apply_alias :: "16 word \<times> bool \<Rightarrow> packet \<Rightarrow> packet" where
  "apply_alias af pk =
     (case af of (a, fresh) \<Rightarrow>
        if a > 0 then pk\<lparr>Properties := (Properties pk)\<lparr>TopicAlias := a, TopicAliasFlag := True\<rparr>,
                        TopicName := (if fresh then TopicName pk else [])\<rparr>
        else pk)"

definition alias_outgoing :: "conn_ref \<Rightarrow> item \<Rightarrow> packet \<Rightarrow> packet go" where
  "alias_outgoing k it pk = go_bind (go_conn k) (\<lambda>c.
     if protocol c = ProtocolMQTT5 \<and> topicAliasMaximumOut c > 0
     then go_bind (resolveAliasForOutbound k (it_topic it)) (\<lambda>af. go_return (apply_alias af pk))
     else go_return pk)"

text \<open>The size probe: the packet is encoded as it stands, before \<open>write\<close> stamps the
  protocol version on it.\<close>

definition probe_oversized :: "ext \<Rightarrow> conn \<Rightarrow> packet \<Rightarrow> bool" where
  "probe_oversized X c pk \<longleftrightarrow> maxPacketSize c > 0 \<and>
     (case Encode (codec X) pk of
        Inl e \<Rightarrow> False
      | Inr buf \<Rightarrow> (of_nat (length buf) :: 32 word) > maxPacketSize c)"

text \<open>Assigning the packet id of a QoS 1 or 2 delivery: a row already sent keeps its id, a
  queued one is claimed by \<open>UPDATE ... WHERE state=0\<close>. \<open>None\<close> means the claim was lost.\<close>

definition claim_packet_id :: "conn_ref \<Rightarrow> item \<Rightarrow> 16 word option go" where
  "claim_packet_id k it =
     (case (if it_state it \<ge> 1 then it_packetID it else None) of
        Some p \<Rightarrow> go_return (Some (of_nat p))
      | None \<Rightarrow>
         go_bind (go_attempt (AllocPacketID k)) (\<lambda>r.
         case r of
           Inl e \<Rightarrow> go_then (returnInflight k) (go_fail e)
         | Inr pid \<Rightarrow>
            go_bind (go_attempt (sql (claim_delivery (unat pid) (it_deliveryID it)))) (\<lambda>r.
            case r of
              Inl e \<Rightarrow> go_then (returnInflight k) (go_fail e)
            | Inr n \<Rightarrow> if n = 0 then go_then (returnInflight k) (go_return None)
                       else go_return (Some pid))))"

text \<open>The last part: QoS 0 rows are claimed by deleting them, then the packet is written.\<close>

definition send_outgoing :: "ext \<Rightarrow> conn_ref \<Rightarrow> item \<Rightarrow> packet \<Rightarrow> bool go" where
  "send_outgoing X k it pk =
     go_bind (if it_qos it = 0
        then go_bind (go_attempt (exec (del_delivery (it_deliveryID it)))) (\<lambda>r.
          case r of Inl e \<Rightarrow> go_return False | Inr n \<Rightarrow> go_return (n > 0))
        else go_return True) (\<lambda>claimed.
      if \<not> claimed then go_return False
      else go_bind (go_attempt (conn_write X k pk)) (\<lambda>r.
        case r of
          Inl e \<Rightarrow> go_then (go_when (it_qos it > 0) (returnInflight k))
                   (go_then (count ''DeliveriesDroppedTotal'' ''write_error'' 1) (go_fail e))
        | Inr _ \<Rightarrow> go_return True))"

definition deliver_to :: "ext \<Rightarrow> conn_ref \<Rightarrow> item \<Rightarrow> bool \<Rightarrow> bool \<Rightarrow> bool go" where
  "deliver_to X k it ret dup =
     go_bind (go_ask (\<lambda>w. (heap w k, now w))) (\<lambda>(c, t).
     if \<not> live t (it_expiresAt it)
     then go_then (go_ignore (exec (del_delivery (it_deliveryID it))))
            (go_then (count ''DeliveriesDroppedTotal'' ''expired'' 1) (go_return False))
     else go_bind (alias_outgoing k it (outgoing X (protocol c) t it ret dup)) (\<lambda>pk.
       if probe_oversized X c pk
       then go_then (go_ignore (exec (del_delivery (it_deliveryID it))))
              (go_then (count ''DeliveriesDroppedTotal'' ''oversized'' 1) (go_return False))
       else go_bind (if it_qos it > 0 \<and> it_state it = 0 then tryAcquireInflight k
                     else go_return True) (\<lambda>slot.
         if \<not> slot then go_return False
         else if it_qos it > 0
         then go_bind (claim_packet_id k it) (\<lambda>p. case p of
                None \<Rightarrow> go_return False
              | Some pid \<Rightarrow> send_outgoing X k it (pk\<lparr>PacketID := pid\<rparr>))
         else send_outgoing X k it pk)))"

definition deliverOneTracked :: "ext \<Rightarrow> item \<Rightarrow> bool \<Rightarrow> bool \<Rightarrow> bool go" where
  "deliverOneTracked X it ret dup = go_bind (ConnFor (it_clientID it)) (\<lambda>r.
     case r of None \<Rightarrow> go_return False | Some k \<Rightarrow> deliver_to X k it ret dup)"

definition wire_retain :: "item \<Rightarrow> bool" where
  "wire_retain it \<longleftrightarrow> it_retainAsPublished it \<and> it_retain it"

definition Deliver :: "ext \<Rightarrow> nat \<Rightarrow> unit go" where
  "Deliver X msg = go_bind (go_ask (\<lambda>w. (brokerID w, now w))) (\<lambda>(self, t).
     go_bind (query (sel_deliver msg self t)) (\<lambda>items.
       go_each (\<lambda>it. go_ignore (deliverOneTracked X it (wire_retain it) False)) items))"

section \<open>Draining\<close>

definition drainOnce :: "ext \<Rightarrow> conn_ref \<Rightarrow> bool go" where
  "drainOnce X k = go_bind (go_ask (\<lambda>w. (clientID (heap w k), now w))) (\<lambda>(cid, t).
     go_bind (query (sel_drain_one cid t)) (\<lambda>r.
       case r of
         None \<Rightarrow> go_return True
       | Some it \<Rightarrow> go_bind (deliverOneTracked X it (wire_retain it) False) (\<lambda>sent.
           go_return (\<not> sent))))"

text \<open>The inner loop of \<open>runDrainLoop\<close> after one kick. \<open>None\<close> is running out of fuel; the loop
  leaves otherwise with the connection closing, an error (logged) or nothing left to send.\<close>

fun drain_loop :: "ext \<Rightarrow> conn_ref \<Rightarrow> nat \<Rightarrow> unit option go" where
  "drain_loop X k 0 = go_return None"
| "drain_loop X k (Suc n) = go_bind (go_conn k) (\<lambda>c.
     if closing c then go_return (Some ())
     else go_bind (go_attempt (drainOnce X k)) (\<lambda>r. case r of
         Inl e \<Rightarrow> go_return (Some ())
       | Inr done \<Rightarrow> if done then go_return (Some ()) else drain_loop X k n))"

definition take_kick :: "conn_ref \<Rightarrow> bool go" where
  "take_kick k = go_bind (go_conn k) (\<lambda>c.
     if drainKick c = Some True
     then go_then (go_upd k (\<lambda>c. c\<lparr>drainKick := Some False\<rparr>)) (go_return True)
     else go_return False)"

text \<open>One wake-up of the drain loop. Every iteration that does not leave the loop turns one
  queued row of the client into a sent one, so one more than the number of rows suffices as
  fuel.\<close>

definition drain_wakeup :: "ext \<Rightarrow> conn_ref \<Rightarrow> unit go" where
  "drain_wakeup X k = go_bind (take_kick k) (\<lambda>kicked.
     go_when kicked (go_bind (go_ask (\<lambda>w. length (deliveries (store w)))) (\<lambda>n.
       go_then (drain_loop X k (n + 1)) (go_return ()))))"

definition resend :: "ext \<Rightarrow> conn_ref \<Rightarrow> item \<Rightarrow> unit go" where
  "resend X k it =
     (if it_state it = 2 then
        (case it_packetID it of
           None \<Rightarrow> go_return ()
         | Some p \<Rightarrow> conn_write X k ((new_packet Pubrel)\<lparr>Qos := 1, PacketID := of_nat p\<rparr>))
      else if it_state it \<le> 1
      then go_then (deliverOneTracked X it (wire_retain it) (it_state it = 1)) (go_return ())
      else go_return ())"

definition drainSessionQueue :: "ext \<Rightarrow> conn_ref \<Rightarrow> unit go" where
  "drainSessionQueue X k = go_bind (go_ask (\<lambda>w. (clientID (heap w k), now w))) (\<lambda>(cid, t).
     go_bind (query (sel_session_queue cid t)) (\<lambda>items. go_each (resend X k) items))"

section \<open>Acknowledgements\<close>

definition handlePuback :: "conn_ref \<Rightarrow> packet \<Rightarrow> unit go" where
  "handlePuback k pk = go_bind (go_conn k) (\<lambda>c.
     go_bind (exec (del_delivery_acked (clientID c) (unat (PacketID pk)) 1)) (\<lambda>n.
       go_when (n > 0) (returnInflight k)))"

definition handlePubrec :: "ext \<Rightarrow> conn_ref \<Rightarrow> packet \<Rightarrow> unit go" where
  "handlePubrec X k pk = go_bind (go_conn k) (\<lambda>c.
     if ReasonCode pk \<ge> 0x80
     then go_bind (go_attempt (exec (del_delivery_acked (clientID c) (unat (PacketID pk)) 2))) (\<lambda>r.
            go_then (returnInflight k) (case r of Inl e \<Rightarrow> go_fail e | Inr _ \<Rightarrow> go_return ()))
     else go_then (execute (upd_delivery_pubrec (clientID c) (unat (PacketID pk))))
            (conn_write X k ((new_packet Pubrel)\<lparr>Qos := 1, PacketID := PacketID pk\<rparr>)))"

definition handlePubrel :: "ext \<Rightarrow> conn_ref \<Rightarrow> packet \<Rightarrow> unit go" where
  "handlePubrel X k pk = go_bind (go_conn k) (\<lambda>c.
     go_bind (exec (del_inbound_qos2 (clientID c) (unat (PacketID pk)))) (\<lambda>n.
     go_bind (go_attempt (conn_write X k ((ack_packet Pubcomp (PacketID pk))\<lparr>ReasonCode :=
        (if n = 0 \<and> protocol c = ProtocolMQTT5 then 0x92 else 0)\<rparr>))) (\<lambda>werr.
     go_then (go_when (n > 0) (add_inbound k (- 1))) (go_lift werr))))"

definition handlePubcomp :: "conn_ref \<Rightarrow> packet \<Rightarrow> unit go" where
  "handlePubcomp k pk = go_bind (go_conn k) (\<lambda>c.
     go_bind (exec (del_delivery_acked (clientID c) (unat (PacketID pk)) 2)) (\<lambda>n.
       go_when (n > 0) (returnInflight k)))"

end
