(* ===== verification/Subscribe.thy ===== *)
theory Subscribe
  imports Deliver
begin

text \<open>
  SUBSCRIBE and UNSUBSCRIBE (\<open>src/internal/engine/subscribe.go\<close>, \<open>conn.go\<close>): the subscription
  transaction with its reason codes, and the replay of retained messages.
\<close>

section \<open>Retained replay\<close>

record subscriptionOpts =
  o_QoS :: nat
  o_SubscriptionID :: int

definition persistRetainedDispatch ::
  "ext \<Rightarrow> conn_ref \<Rightarrow> string \<Rightarrow> bytes \<Rightarrow> nat \<Rightarrow> bytes option \<Rightarrow> nat go" where
  "persistRetainedDispatch X k topic payload qos props =
     go_tx (go_bind (go_ask (\<lambda>w. (clientID (heap w k), now w))) (\<lambda>(cid, t).
       go_bind (sql (ins_message topic (Some payload) qos True
          (jsonOrNil X (payload_bytes props)) None None t)) (\<lambda>msg.
       go_then (sql (ins_delivery cid msg qos)) (go_return msg))))"

definition allocPacketID :: "conn_ref \<Rightarrow> nat \<Rightarrow> (16 word) go" where
  "allocPacketID k msg =
     go_bind (AllocPacketID k) (\<lambda>pid.
     go_bind (go_conn k) (\<lambda>c.
     go_bind (sql (claim_delivery_msg (unat pid) (clientID c) msg)) (\<lambda>n.
       if n = 0 then go_fail (ErrProtocol ''retained delivery row missing'') else go_return pid)))"

definition retained_packet ::
  "ext \<Rightarrow> nat \<Rightarrow> instant \<Rightarrow> subscriptionOpts \<Rightarrow> retained_row \<Rightarrow> packet" where
  "retained_packet X proto t opts r =
     (let p0 = stored_properties X (r_properties r);
          p1 = (case r_expires_at r of
                  Some e \<Rightarrow> if proto = ProtocolMQTT5
                            then p0\<lparr>MessageExpiryInterval := remaining_seconds t e\<rparr> else p0
                | None \<Rightarrow> p0);
          p2 = (if o_SubscriptionID opts \<noteq> 0 \<and> proto = ProtocolMQTT5
                then p1\<lparr>SubscriptionIdentifier := [o_SubscriptionID opts]\<rparr> else p1) in
      (new_packet Publish)\<lparr>Retain := True, Qos := min (r_qos r) (o_QoS opts),
         TopicName := r_topic r, Payload := r_payload r, Properties := p2\<rparr>)"

definition dispatch_retained_row ::
  "ext \<Rightarrow> conn_ref \<Rightarrow> subscriptionOpts \<Rightarrow> retained_row \<Rightarrow> unit go" where
  "dispatch_retained_row X k opts r = go_bind (go_ask (\<lambda>w. (protocol (heap w k), now w))) (\<lambda>(proto, t).
     let pk = retained_packet X proto t opts r in
     if Qos pk > 0
     then go_bind (persistRetainedDispatch X k (r_topic r) (r_payload r) (Qos pk) (r_properties r)) (\<lambda>msg.
          go_bind (allocPacketID k msg) (\<lambda>pid. conn_write X k (pk\<lparr>PacketID := pid\<rparr>)))
     else conn_write X k pk)"

definition dispatchRetainedForFilter ::
  "ext \<Rightarrow> conn_ref \<Rightarrow> string \<times> subscriptionOpts \<Rightarrow> unit go" where
  "dispatchRetainedForFilter X k d = (case d of (filt, opts) \<Rightarrow>
     go_bind (go_ask now) (\<lambda>t.
     go_bind (query (sel_retained_matching filt t)) (\<lambda>batch.
       go_each (dispatch_retained_row X k opts) batch)))"

section \<open>SUBSCRIBE\<close>

definition subackTopicFilterInvalid :: nat where "subackTopicFilterInvalid = 0x8F"
definition subackSharedSubNotSupp :: nat where "subackSharedSubNotSupp = 0x9E"
definition subackUnspec :: nat where "subackUnspec = 0x80"

definition nullInt :: "int \<Rightarrow> int option" where
  "nullInt v = (if v = 0 then None else Some v)"

definition sub_row :: "string \<Rightarrow> int \<Rightarrow> subscription_filter \<Rightarrow> subscription_row" where
  "sub_row cid subID f =
     \<lparr>sub_client_id = cid, sub_topic_filter = Filter f, sub_qos = fQos f,
      sub_no_local = fNoLocal f, sub_retain_as_published = fRetainAsPublished f,
      sub_retain_handling = fRetainHandling f, sub_subscription_id = nullInt subID\<rparr>"

text \<open>One filter: its reason code, and the retained replay it asks for.\<close>

definition subscribe_filter ::
  "string \<Rightarrow> int \<Rightarrow> subscription_filter \<Rightarrow> (nat \<times> (string \<times> subscriptionOpts) list) go" where
  "subscribe_filter cid subID f =
     (if snd (snd (SharedSubscription (Filter f))) then go_return (subackSharedSubNotSupp, [])
      else if ValidateTopicFilter (Filter f) \<noteq> None then go_return (subackTopicFilterInvalid, [])
      else go_bind (sql (upsert_subscription (sub_row cid subID f))) (\<lambda>subWasNew.
        let code = (if fQos f \<le> 2 then fQos f else subackUnspec);
            replay = (fRetainHandling f = 0 \<or> fRetainHandling f = 1 \<and> subWasNew) in
        go_return (code, if replay then [(Filter f, \<lparr>o_QoS = fQos f, o_SubscriptionID = subID\<rparr>)]
                         else [])))"

fun subscribe_filters ::
  "string \<Rightarrow> int \<Rightarrow> subscription_filter list \<Rightarrow> (nat list \<times> (string \<times> subscriptionOpts) list) go" where
  "subscribe_filters cid subID [] = go_return ([], [])"
| "subscribe_filters cid subID (f # fs) =
     go_bind (subscribe_filter cid subID f) (\<lambda>(c, d).
     go_bind (subscribe_filters cid subID fs) (\<lambda>(cs, ds). go_return (c # cs, d @ ds)))"

text \<open>The subscription identifier of the packet, or the protocol error it is.\<close>

definition subscription_id :: "nat \<Rightarrow> int list \<Rightarrow> err + int" where
  "subscription_id proto ids =
     (if proto \<noteq> ProtocolMQTT5 \<or> ids = [] then Inr 0
      else if length ids > 1 then Inl (ErrProtocol ''multiple SubscriptionIdentifier'')
      else if hd ids \<le> 0 \<or> hd ids > 268435455
      then Inl (ErrProtocol ''SubscriptionIdentifier out of range'')
      else Inr (hd ids))"

definition subscribe_tx ::
  "ext \<Rightarrow> conn_ref \<Rightarrow> packet \<Rightarrow> (nat list \<times> (string \<times> subscriptionOpts) list) go" where
  "subscribe_tx X k pk = go_tx (go_bind (go_conn k) (\<lambda>c.
     case subscription_id (protocol c) (SubscriptionIdentifier (Properties pk)) of
       Inl e \<Rightarrow> go_then (send_disconnect X k 0x82) (go_fail e)
     | Inr subID \<Rightarrow> subscribe_filters (clientID c) subID (Filters pk)))"

definition handleSubscribe :: "ext \<Rightarrow> conn_ref \<Rightarrow> packet \<Rightarrow> unit go" where
  "handleSubscribe X k pk =
     (if Filters pk = []
      then go_then (send_disconnect X k 0x82) (go_fail (ErrProtocol ''SUBSCRIBE with zero filters''))
      else go_bind (subscribe_tx X k pk) (\<lambda>(codes, dispatches).
        go_then (conn_write X k ((ack_packet Suback (PacketID pk))\<lparr>ReasonCodes := codes\<rparr>))
        (go_then (count ''SubscribesTotal'' '''' 1)
        (go_each (\<lambda>d. go_bind (go_attempt (dispatchRetainedForFilter X k d)) (\<lambda>r.
           case r of Inl e \<Rightarrow> count ''RetainedDispatchFailedTotal'' '''' 1 | Inr _ \<Rightarrow> go_return ()))
           dispatches))))"

section \<open>UNSUBSCRIBE\<close>

definition unsubscribe_filter :: "string \<Rightarrow> subscription_filter \<Rightarrow> nat go" where
  "unsubscribe_filter cid f =
     (if ValidateTopicFilter (Filter f) \<noteq> None then go_return 0x8F
      else go_bind (exec (del_subscription cid (Filter f))) (\<lambda>n.
        go_return (if n > 0 then 0x00 else 0x11)))"

fun unsubscribe_filters :: "string \<Rightarrow> subscription_filter list \<Rightarrow> nat list go" where
  "unsubscribe_filters cid [] = go_return []"
| "unsubscribe_filters cid (f # fs) =
     go_bind (unsubscribe_filter cid f) (\<lambda>c.
     go_bind (unsubscribe_filters cid fs) (\<lambda>cs. go_return (c # cs)))"

definition handleUnsubscribe :: "ext \<Rightarrow> conn_ref \<Rightarrow> packet \<Rightarrow> unit go" where
  "handleUnsubscribe X k pk =
     go_bind (go_conn k) (\<lambda>c.
     go_bind (go_tx (unsubscribe_filters (clientID c) (Filters pk))) (\<lambda>codes.
     go_then (conn_write X k ((ack_packet Unsuback (PacketID pk))\<lparr>ReasonCodes := codes\<rparr>))
       (count ''UnsubscribesTotal'' '''' 1)))"

end
