(* ===== verification/Connect.thy ===== *)
theory Connect
  imports Subscribe
begin

text \<open>
  CONNECT (\<open>src/internal/engine/connect.go\<close>, \<open>auth.go\<close>): validation, the client identifier,
  authentication, the will and session parameters, taking ownership of the session row,
  closing the previous owner's socket, session cleanup, CONNACK and replay. The random
  values of one CONNECT (the generated client identifier and the new session token) are
  arguments.
\<close>

section \<open>Authentication\<close>

definition Authenticate :: "ext \<Rightarrow> string \<Rightarrow> string \<Rightarrow> unit go" where
  "Authenticate X user pass =
     (if user = [] then go_fail ErrAuthFailed
      else go_bind (query (sel_password_hash user)) (\<lambda>r.
        case r of
          None \<Rightarrow> go_fail ErrAuthFailed
        | Some h \<Rightarrow> if bcrypt_match X h pass then go_return () else go_fail ErrAuthFailed))"

definition cackUnsupportedProtocol :: nat where "cackUnsupportedProtocol = 0x84"
definition cackClientIDInvalid :: nat where "cackClientIDInvalid = 0x85"
definition cackBadCredentials :: nat where "cackBadCredentials = 0x86"
definition cackNotAuthorized :: nat where "cackNotAuthorized = 0x87"
definition cackUnspecified :: nat where "cackUnspecified = 0x80"
definition cackBadAuthMethod :: nat where "cackBadAuthMethod = 0x8C"

lemmas cack_defs = cackUnsupportedProtocol_def cackClientIDInvalid_def cackBadCredentials_def
  cackNotAuthorized_def cackUnspecified_def cackBadAuthMethod_def

definition authReasonLabel :: "nat \<Rightarrow> string" where
  "authReasonLabel r =
     (if r = cackBadCredentials then ''bad_credentials''
      else if r = cackNotAuthorized then ''not_authorized''
      else if r = cackBadAuthMethod then ''bad_auth_method''
      else if r = cackClientIDInvalid then ''client_id_invalid''
      else if r = cackUnsupportedProtocol then ''unsupported_protocol''
      else ''other'')"

definition connack_v3_code :: "nat \<Rightarrow> nat" where
  "connack_v3_code r =
     (if r = cackBadCredentials then 0x04
      else if r = cackNotAuthorized then 0x05
      else if r = cackUnsupportedProtocol then 0x01
      else if r = cackClientIDInvalid then 0x02
      else 0x03)"

definition writeConnackReject :: "ext \<Rightarrow> conn_ref \<Rightarrow> nat \<Rightarrow> nat \<Rightarrow> unit go" where
  "writeConnackReject X k pv reason =
     go_then (count ''AuthFailuresTotal'' (authReasonLabel reason) 1)
     (let wirePV = (if pv \<noteq> ProtocolMQTT311 \<and> pv \<noteq> ProtocolMQTT5 then ProtocolMQTT311 else pv);
          code = (if wirePV \<noteq> ProtocolMQTT5 then connack_v3_code reason else reason) in
      go_then (go_upd k (\<lambda>c. c\<lparr>protocol := wirePV\<rparr>))
        (conn_write X k ((new_packet Connack)\<lparr>ReasonCode := code\<rparr>)))"

text \<open>A reject that is sent best-effort and then returned as an error.\<close>

definition reject :: "ext \<Rightarrow> conn_ref \<Rightarrow> nat \<Rightarrow> nat \<Rightarrow> err \<Rightarrow> 'a go" where
  "reject X k pv reason e = go_then (go_ignore (writeConnackReject X k pv reason)) (go_fail e)"

definition dropConnectOnInfraError :: "string \<Rightarrow> 'a go" where
  "dropConnectOnInfraError stage =
     go_then (count ''ConnectDroppedTotal'' ''db_error'' 1) (go_fail (ErrConnectInfra stage))"

definition or_drop :: "string \<Rightarrow> 'a go \<Rightarrow> 'a go" where
  "or_drop stage m = go_bind (go_attempt m) (\<lambda>r.
     case r of Inl e \<Rightarrow> dropConnectOnInfraError stage | Inr x \<Rightarrow> go_return x)"

section \<open>Session values\<close>

definition clampUint32ToInt32 :: "32 word \<Rightarrow> int" where
  "clampUint32ToInt32 v = (if uint v > 2147483647 then 2147483647 else uint v)"

definition defaultExpiryFor :: "packet \<Rightarrow> int option" where
  "defaultExpiryFor pk =
     (if pkProtocol pk = ProtocolMQTT5
      then Some (clampUint32ToInt32 (SessionExpiryInterval (Properties pk)))
      else if Clean (ConnectParams pk) then Some 0 else None)"

definition willDelaySeconds :: "packet \<Rightarrow> int option" where
  "willDelaySeconds pk =
     (if pkProtocol pk \<noteq> ProtocolMQTT5 then None
      else if \<not> WillFlag (ConnectParams pk) then None
      else Some (clampUint32ToInt32 (WillDelayInterval (WillProperties (ConnectParams pk)))))"

definition session_values_of :: "uuid \<Rightarrow> conn \<Rightarrow> packet \<Rightarrow> session_values" where
  "session_values_of self c pk =
     (let present = willTopic c \<noteq> [] in
      \<lparr>v_broker = self, v_protocol = protocol c, v_clean_start = cleanStart c,
       v_expiry = defaultExpiryFor pk,
       v_will_topic = (if present then Some (willTopic c) else None),
       v_will_payload = (if present \<and> willPayload c \<noteq> [] then Some (willPayload c) else None),
       v_will_qos = (if present then Some (willQoS c) else None),
       v_will_retain = (if present then Some (willRetain c) else None),
       v_will_delay = willDelaySeconds pk,
       v_will_properties = (if willProps c = [] then None else Some (willProps c))\<rparr>)"

definition takeOwnership ::
  "conn_ref \<Rightarrow> packet \<Rightarrow> uuid \<Rightarrow> (uuid \<times> uuid \<times> bool) go" where
  "takeOwnership k pk token =
     go_bind (go_tx (go_bind (go_ask (\<lambda>w. (heap w k, brokerID w, now w))) (\<lambda>(c, self, t).
       go_bind (query (session_of (clientID c))) (\<lambda>prev.
       go_then (case prev of
          Some s \<Rightarrow> sql (upd_session_takeover (clientID c) (session_values_of self c pk) token t)
        | None \<Rightarrow> sql (ins_session (clientID c) (session_values_of self c pk) token t))
       (go_return (case prev of
          None \<Rightarrow> (uuid_Nil, uuid_Nil, True)
        | Some s \<Rightarrow> (case s_broker_id s of None \<Rightarrow> uuid_Nil | Some b \<Rightarrow> b,
                     s_session_token s, False)))))))
     (\<lambda>r. go_then (go_upd k (\<lambda>c. c\<lparr>sessionToken := token\<rparr>)) (go_return r))"

section \<open>The stages of handleConnect\<close>

text \<open>The client identifier the server works with, or the reject.\<close>

definition resolve_client_id :: "ext \<Rightarrow> conn_ref \<Rightarrow> packet \<Rightarrow> string \<Rightarrow> string go" where
  "resolve_client_id X k pk auto =
     (let pv = pkProtocol pk; cp = ConnectParams pk; props = Properties pk in
      go_bind (if ClientIdentifier cp = [] then
         (if pv = ProtocolMQTT5 then
            (if \<not> Clean cp \<or> SessionExpiryIntervalFlag props \<and> SessionExpiryInterval props \<noteq> 0
             then reject X k pv cackClientIDInvalid (ErrProtocol ''empty client id'')
             else go_return (''auto-'' @ auto))
          else if \<not> Clean cp
          then reject X k pv cackClientIDInvalid (ErrProtocol ''empty client id with clean=false'')
          else go_return (''auto-'' @ auto))
        else go_return (ClientIdentifier cp)) (\<lambda>cid.
      if length cid > 256
      then reject X k pv cackClientIDInvalid (ErrProtocol ''client id too long'')
      else go_return cid))"

definition negotiate_keepalive :: "knobs \<Rightarrow> 16 word \<Rightarrow> duration \<times> bool" where
  "negotiate_keepalive K ka =
     (let d0 = uint ka * 1000000000;
          (d1, o1) = (if d0 = 0 then (defaultKeepalive, True) else (d0, False)) in
      if d1 > maxAllowedKeepalive K then (maxAllowedKeepalive K, True) else (d1, o1))"

definition authenticate_connect :: "ext \<Rightarrow> conn_ref \<Rightarrow> packet \<Rightarrow> unit go" where
  "authenticate_connect X k pk = go_bind (go_ask (\<lambda>w. (knobs w, remoteAddr (heap w k), now w)))
    (\<lambda>(K, addr, t).
     let user = Username (ConnectParams pk) in
     if user \<noteq> [] \<or> \<not> allowAnonymous K
     then go_bind (go_attempt (Authenticate X user (Password (ConnectParams pk)))) (\<lambda>r.
       case r of
         Inr _ \<Rightarrow> go_return ()
       | Inl e \<Rightarrow>
          if e \<noteq> ErrAuthFailed then dropConnectOnInfraError ''authenticate''
          else go_then (go_modify (\<lambda>w. w\<lparr>iplimit := recordAuthFailure X addr t (iplimit w)\<rparr>))
                 (reject X k (pkProtocol pk) cackBadCredentials e))
     else go_return ())"

definition capture_will :: "ext \<Rightarrow> packet \<Rightarrow> conn \<Rightarrow> conn" where
  "capture_will X pk c =
     (let cp = ConnectParams pk in
      if WillFlag cp then
        (let c1 = c\<lparr>willTopic := WillTopic cp, willPayload := WillPayload cp,
                    willQoS := WillQos cp, willRetain := WillRetain cp\<rparr> in
         if pkProtocol pk = ProtocolMQTT5
         then c1\<lparr>willProps := (case json_marshal X (WillProperties cp) of
                     Inl e \<Rightarrow> willProps c1
                   | Inr b \<Rightarrow> if b \<noteq> ascii ''{}'' \<and> b \<noteq> ascii ''null'' then b else willProps c1),
                 willDelay := Some (WillDelayInterval (WillProperties cp))\<rparr>
         else c1)
      else c)"

definition v5_params :: "ext \<Rightarrow> conn_ref \<Rightarrow> packet \<Rightarrow> unit go" where
  "v5_params X k pk =
     (let props = Properties pk; pv = pkProtocol pk in
      if pv \<noteq> ProtocolMQTT5 then go_return ()
      else
      go_then (go_upd k (\<lambda>c. if SessionExpiryIntervalFlag props
                 then c\<lparr>sessionExpiry := Some (SessionExpiryInterval props)\<rparr> else c))
      (go_bind (go_conn k) (\<lambda>c.
       case V5ConnectMaximumPacketSize (payload_bytes (LastConnectBody (reader_of c))) of
         Inl e \<Rightarrow> reject X k pv cackUnspecified (ErrProtocol ''parse CONNECT mps'')
       | Inr (present, mps) \<Rightarrow>
           if present \<and> mps = 0
           then reject X k pv 0x95 (ErrProtocol ''CONNECT MaximumPacketSize=0'')
           else go_upd k (\<lambda>c. c\<lparr>maxPacketSize := MaximumPacketSize props,
                  receiveMaximum := ReceiveMaximum props,
                  topicAliasMaximumOut := TopicAliasMaximum props,
                  aliasOut := (if TopicAliasMaximum props > 0 then Some [] else aliasOut c)\<rparr>))))"

definition setup_channels :: "conn \<Rightarrow> conn" where
  "setup_channels c =
     (let rm = (if receiveMaximum c = 0 then 65535 else receiveMaximum c) in
      c\<lparr>receiveMaximum := rm, inflight := Some (0, min (unat rm) maxConcurrentInflight),
        drainKick := Some False\<rparr>)"

definition raise_read_cap :: "knobs \<Rightarrow> conn \<Rightarrow> conn" where
  "raise_read_cap K c =
     (if maxPacketSizeKnob K > 0
      then c\<lparr>reader_of := SetMaxPacketSize (word_of_int (maxPacketSizeKnob K)) (reader_of c)\<rparr>
      else c)"

text \<open>Cancelling the timers and, for a clean start, dropping the previous session's state.\<close>

definition session_cleanup :: "string \<Rightarrow> bool \<Rightarrow> unit go" where
  "session_cleanup cid clean = go_tx
     (go_then (go_when clean
        (go_then (execute (del_subscriptions_client cid))
        (go_then (execute (del_deliveries_client cid))
                 (execute (del_inbound_qos2_client cid)))))
      (execute (upd_session_timers_null cid)))"

definition connack :: "knobs \<Rightarrow> packet \<Rightarrow> string \<Rightarrow> duration \<Rightarrow> bool \<Rightarrow> bool \<Rightarrow> packet" where
  "connack K pk cid ka overridden present =
     (let base = (new_packet Connack)\<lparr>SessionPresent := present, ReasonCode := 0\<rparr> in
      if pkProtocol pk = ProtocolMQTT5 then
        base\<lparr>Properties := no_properties\<lparr>
          MaximumQos := 2, MaximumQosFlag := True, RetainAvailable := 1,
          RetainAvailableFlag := True, WildcardSubAvailable := 1,
          WildcardSubAvailableFlag := True, SubIDAvailable := 1, SubIDAvailableFlag := True,
          SharedSubAvailable := 0, SharedSubAvailableFlag := True,
          AssignedClientID := (if ClientIdentifier (ConnectParams pk) = [] then cid else []),
          ServerKeepAlive := (if overridden then word_of_int (ka div 1000000000) else 0),
          ServerKeepAliveFlag := overridden,
          ReceiveMaximum := serverReceiveMaximum K,
          TopicAliasMaximum := serverTopicAliasMaximum K,
          MaximumPacketSize := (if maxPacketSizeKnob K > 0
             then word_of_int (maxPacketSizeKnob K) else 0)\<rparr>\<rparr>
      else base)"

text \<open>Telling the previous owner: its Pod by notification, or the connection of this Pod.\<close>

definition evict_previous :: "ext \<Rightarrow> conn_ref \<Rightarrow> uuid \<Rightarrow> uuid \<Rightarrow> unit go" where
  "evict_previous X k prevBroker prevToken = go_bind (go_ask (\<lambda>w. (brokerID w, clientID (heap w k))))
    (\<lambda>(self, cid).
     go_then (go_when (prevBroker \<noteq> uuid_Nil \<and> prevBroker \<noteq> self)
        (go_ignore (NotifyTakeover X prevBroker cid prevToken)))
     (go_bind (registerConn cid k) (\<lambda>prev.
        case prev of None \<Rightarrow> go_return () | Some p \<Rightarrow> ShutdownForTakeover p)))"

definition replay_queue :: "ext \<Rightarrow> conn_ref \<Rightarrow> unit go" where
  "replay_queue X k = go_bind (go_attempt (drainSessionQueue X k)) (\<lambda>r.
     case r of Inl e \<Rightarrow> count ''DrainSessionQueueFailuresTotal'' ''reconnect'' 1
     | Inr _ \<Rightarrow> count ''DrainSessionQueueTotal'' ''reconnect'' 1)"

text \<open>Before any session state is touched.\<close>

definition connect_admission :: "ext \<Rightarrow> conn_ref \<Rightarrow> packet \<Rightarrow> string \<Rightarrow> (duration \<times> bool) go" where
  "connect_admission X k pk auto =
     (case mochi_ConnectValidate (codec X) pk of
        Some reason \<Rightarrow> go_fail (ErrProtocol reason)
      | None \<Rightarrow>
     (let pv = pkProtocol pk in
      if pv \<noteq> ProtocolMQTT311 \<and> pv \<noteq> ProtocolMQTT5
      then reject X k pv cackUnsupportedProtocol (ErrProtocol ''protocol version unsupported'')
      else
      go_then (go_upd k (\<lambda>c. c\<lparr>protocol := pv\<rparr>))
      (go_bind (resolve_client_id X k pk auto) (\<lambda>cid.
       go_bind (go_ask knobs) (\<lambda>K.
       let (ka, overridden) = negotiate_keepalive K (Keepalive (ConnectParams pk)) in
       go_then (go_upd k (\<lambda>c. c\<lparr>clientID := cid, cleanStart := Clean (ConnectParams pk),
                                keepalive := ka\<rparr>))
       (if pv = ProtocolMQTT5 \<and> AuthenticationMethod (Properties pk) \<noteq> []
        then reject X k pv cackBadAuthMethod (ErrProtocol ''enhanced auth not supported'')
        else
        go_then (authenticate_connect X k pk)
        (go_then (go_upd k (capture_will X pk))
        (go_then (v5_params X k pk)
        (go_then (go_upd k (\<lambda>c. raise_read_cap K (setup_channels c)))
        (go_return (ka, overridden)))))))))))"

text \<open>From taking ownership to the replay.\<close>

definition connect_session ::
  "ext \<Rightarrow> conn_ref \<Rightarrow> packet \<Rightarrow> uuid \<Rightarrow> duration \<times> bool \<Rightarrow> unit go" where
  "connect_session X k pk token kao =
     go_bind (or_drop ''take ownership'' (takeOwnership k pk token)) (\<lambda>(prevBroker, prevToken, newSession).
     go_then (evict_previous X k prevBroker prevToken)
     (go_bind (go_conn k) (\<lambda>c.
      go_then (or_drop ''session cleanup'' (session_cleanup (clientID c) (cleanStart c)))
      (go_bind (go_ask knobs) (\<lambda>K.
       go_then (conn_write X k (connack K pk (clientID c) (fst kao) (snd kao)
                  (\<not> cleanStart c \<and> \<not> newSession)))
       (go_when (\<not> cleanStart c) (replay_queue X k)))))))"

definition handleConnect :: "ext \<Rightarrow> conn_ref \<Rightarrow> packet \<Rightarrow> string \<Rightarrow> uuid \<Rightarrow> unit go" where
  "handleConnect X k pk auto token =
     go_bind (connect_admission X k pk auto) (connect_session X k pk token)"

end
