(* ===== verification/Session.thy ===== *)
theory Session
  imports Connect
begin

text \<open>
  The life of a connection (\<open>src/internal/engine/conn.go\<close>): the packet dispatcher, graceful
  and ungraceful disconnects with their will and session timing, and the read loop. The
  reader holds the bytes the client sends, so the read loop is a function; its fuel is the
  number of those bytes.
\<close>

section \<open>Disconnecting\<close>

definition handleGracefulDisconnect :: "ext \<Rightarrow> conn_ref \<Rightarrow> packet \<Rightarrow> unit go" where
  "handleGracefulDisconnect X k pk = go_bind (go_conn k) (\<lambda>c.
     let v5 = (protocol c = ProtocolMQTT5);
         v = SessionExpiryInterval (Properties pk);
         current = (case sessionExpiry c of None \<Rightarrow> 0 | Some s \<Rightarrow> s) in
     go_then (go_when (\<not> (v5 \<and> ReasonCode pk = 0x04)) (go_upd k (\<lambda>c. c\<lparr>willTopic := []\<rparr>)))
     (go_then (go_when (v5 \<and> SessionExpiryIntervalFlag (Properties pk))
        (if current = 0 \<and> v \<noteq> 0 then send_disconnect X k 0x82
         else go_upd k (\<lambda>c. c\<lparr>sessionExpiry := Some v\<rparr>)))
     (go_then (go_upd k (\<lambda>c. c\<lparr>gracefulRequested := True\<rparr>)) (go_fail ErrClientDisconnect))))"

text \<open>When the will is due: at once, at an instant, or not at all.\<close>

datatype will_due = WillNever | WillNow | WillAt instant

definition will_timing :: "conn \<Rightarrow> instant \<Rightarrow> will_due" where
  "will_timing c t =
     (if willTopic c = [] \<or> takenOver c then WillNever
      else if protocol c = ProtocolMQTT5 then
        (let expiry = (case sessionExpiry c of None \<Rightarrow> 0 | Some s \<Rightarrow> s);
             delay0 = (case willDelay c of None \<Rightarrow> 0 | Some d \<Rightarrow> d);
             delay = (if expiry < delay0 then expiry else delay0) in
         if delay = 0 then WillNow else WillAt (t + seconds (uint delay)))
      else WillNow)"

text \<open>What becomes of the session: deleted, or kept until an instant (or for ever).\<close>

datatype session_fate = SessionDelete | SessionKeep "instant option"

definition session_fate_of :: "conn \<Rightarrow> instant \<Rightarrow> session_fate" where
  "session_fate_of c t =
     (if protocol c = ProtocolMQTT311
      then (if cleanStart c then SessionDelete else SessionKeep None)
      else if protocol c = ProtocolMQTT5 then
        (case sessionExpiry c of
           None \<Rightarrow> SessionDelete
         | Some s \<Rightarrow> if s = 0 then SessionDelete
                     else if s \<noteq> 0xFFFFFFFF then SessionKeep (Some (t + seconds (uint s)))
                     else SessionKeep None)
      else SessionKeep None)"

definition delete_clean_session :: "string \<Rightarrow> uuid \<Rightarrow> unit go" where
  "delete_clean_session cid token = go_tx
     (go_bind (exec (del_session_token cid token)) (\<lambda>n.
        if n = 0 then go_fail (ErrProtocol ''takeover detected'')
        else execute (del_deliveries_client cid)))"

definition handleDisconnect :: "ext \<Rightarrow> conn_ref \<Rightarrow> unit go" where
  "handleDisconnect X k = go_bind (go_ask (\<lambda>w. (heap w k, now w))) (\<lambda>(c, t).
     if closing c \<or> clientID c = [] then go_return ()
     else
     go_bind (if will_timing c t = WillNow
        then go_bind (go_attempt (fireWill X k)) (\<lambda>r. go_return (r = Inr ()))
        else go_return False) (\<lambda>willFired.
     case session_fate_of c t of
       SessionDelete \<Rightarrow> go_ignore (delete_clean_session (clientID c) (sessionToken c))
     | SessionKeep expiresAt \<Rightarrow>
         go_ignore (exec (upd_session_disconnected (clientID c) (sessionToken c)
            (case will_timing c t of WillAt u \<Rightarrow> Some u | _ \<Rightarrow> None) expiresAt willFired t))))"

section \<open>Dispatch\<close>

definition dispatch :: "ext \<Rightarrow> conn_ref \<Rightarrow> packet \<Rightarrow> unit go" where
  "dispatch X k pk =
     go_bind (if ptype pk = Publish \<or> ptype pk = Subscribe then tryConsumeRateToken k
              else go_return True) (\<lambda>ok.
     if \<not> ok
     then go_then (send_disconnect X k 0x96) (go_then (count ''RateLimitedTotal'' '''' 1)
            (go_fail (ErrProtocol ''inbound rate limit exceeded'')))
     else (case ptype pk of
        Publish \<Rightarrow> handlePublish X k pk
      | Puback \<Rightarrow> handlePuback k pk
      | Pubrec \<Rightarrow> handlePubrec X k pk
      | Pubrel \<Rightarrow> handlePubrel X k pk
      | Pubcomp \<Rightarrow> handlePubcomp k pk
      | Subscribe \<Rightarrow> handleSubscribe X k pk
      | Unsubscribe \<Rightarrow> handleUnsubscribe X k pk
      | Pingreq \<Rightarrow> conn_write X k (new_packet Pingresp)
      | Disconnect \<Rightarrow> handleGracefulDisconnect X k pk
      | Auth \<Rightarrow> go_then (send_disconnect X k 0x82)
                 (go_fail (ErrProtocol ''AUTH unexpected: enhanced auth not supported''))
      | _ \<Rightarrow> go_fail (ErrProtocol ''unsupported packet type'')))"

section \<open>The read loop\<close>

definition conn_read :: "ext \<Rightarrow> conn_ref \<Rightarrow> packet go" where
  "conn_read X k = go_bind (go_conn k) (\<lambda>c.
     case Read (codec X) (reader_of c) of (r, rd) \<Rightarrow>
       go_then (go_upd k (\<lambda>c. c\<lparr>reader_of := rd\<rparr>)) (go_lift r))"

text \<open>\<open>None\<close> is running out of fuel. Arming the read deadline fails on a socket another
  goroutine has closed; the loop then leaves without \<open>handleDisconnect\<close>.\<close>

fun read_loop :: "ext \<Rightarrow> conn_ref \<Rightarrow> nat \<Rightarrow> unit option go" where
  "read_loop X k 0 = go_return None"
| "read_loop X k (Suc n) = go_bind (go_conn k) (\<lambda>c.
     if closing c then go_return (Some ())
     else go_bind (go_attempt (conn_read X k)) (\<lambda>r. case r of
       Inl e \<Rightarrow>
         go_then (go_when (e = ErrPacketTooLarge \<and> protocol c = ProtocolMQTT5)
                    (send_disconnect X k 0x95))
         (go_then (handleDisconnect X k) (go_return (Some ())))
     | Inr pk \<Rightarrow> go_bind (go_attempt (dispatch X k pk)) (\<lambda>r. case r of
         Inl e \<Rightarrow> go_then (handleDisconnect X k) (go_return (Some ()))
       | Inr _ \<Rightarrow> read_loop X k n)))"

definition conn_run :: "ext \<Rightarrow> conn_ref \<Rightarrow> string \<Rightarrow> uuid \<Rightarrow> unit go" where
  "conn_run X k auto token =
     go_then (go_ignore (go_bind (conn_read X k) (\<lambda>pk.
       if ptype pk \<noteq> Connect then go_fail (ErrProtocol ''first packet not CONNECT'')
       else go_then (handleConnect X k pk auto token)
         (go_bind (go_conn k) (\<lambda>c. read_loop X k (length (br (reader_of c)) + 2))))))
     (shutdown k)"

end
