(* ===== verification/Engine.thy ===== *)
theory Engine
  imports Session
begin

text \<open>
  The Pod-wide operations of \<open>src/internal/engine/engine.go\<close>: accepting sockets, the ownership
  sweep, attesting owned sessions after a listener reconnect, kicking every drain loop, and
  graceful shutdown.
\<close>

definition KickAllDrains :: "unit go" where
  "KickAllDrains = go_bind (go_ask (\<lambda>w. map snd (conns w))) (\<lambda>ks. go_each KickDrain ks)"

definition AttestOwnedSessions :: "unit go" where
  "AttestOwnedSessions =
     go_bind (go_ask (\<lambda>w. (map (\<lambda>(_, k). (clientID (heap w k), sessionToken (heap w k))) (conns w),
                           brokerID w, now w))) (\<lambda>(owned, self, t).
     if owned = [] then go_return ()
     else go_ignore (execute (upd_sessions_attest self owned t)))"

definition close_orphan :: "string \<Rightarrow> unit go" where
  "close_orphan cid = go_bind (ConnFor cid) (\<lambda>r.
     case r of None \<Rightarrow> go_return () | Some k \<Rightarrow> shutdown k)"

definition sweepOrphanedSockets :: "unit go" where
  "sweepOrphanedSockets = go_bind (go_ask (\<lambda>w. (brokerID w, map fst (conns w)))) (\<lambda>(self, cids).
     if self = uuid_Nil \<or> cids = [] then go_return ()
     else go_bind (query (sel_foreign_owned cids self)) (\<lambda>orphans. go_each close_orphan orphans))"

definition shutdownGracefully :: "ext \<Rightarrow> unit go" where
  "shutdownGracefully X = go_bind (go_ask (\<lambda>w. (map snd (conns w), brokerID w))) (\<lambda>(ks, self).
     go_then (go_each (gracefulClose X) ks)
     (go_when (self \<noteq> uuid_Nil) (go_ignore (execute (upd_sessions_detach self)))))"

text \<open>Accepting a socket: the address limiter, the connection cap, then a goroutine that runs
  the connection and releases its slot. The result tells whether the socket was served.\<close>

definition checkIPLimits_go :: "ext \<Rightarrow> string \<Rightarrow> string option go" where
  "checkIPLimits_go X addr w =
     (case checkIPLimits X addr (now w) (iplimit w) of (r, l) \<Rightarrow> (Inr r, w\<lparr>iplimit := l\<rparr>))"

definition accept_conn ::
  "ext \<Rightarrow> conn_ref \<Rightarrow> reader \<Rightarrow> string \<Rightarrow> string \<Rightarrow> uuid \<Rightarrow> bool go" where
  "accept_conn X k rd addr auto token =
     go_bind (checkIPLimits_go X addr) (\<lambda>refused. case refused of
       Some reason \<Rightarrow> go_then (count ''ConnectDroppedTotal'' reason 1) (go_return False)
     | None \<Rightarrow> go_bind tryReserveConn (\<lambda>ok.
         if \<not> ok then go_return False
         else go_bind (go_ask (\<lambda>w. (knobs w, now w))) (\<lambda>(K, t).
           go_then (go_upd k (\<lambda>_. newConn K rd addr t))
           (go_then (conn_run X k auto token)
           (go_then releaseConn (go_return True))))))"

end
