(* ===== verification/Janitor.thy ===== *)
theory Janitor
  imports Engine
begin

text \<open>
  The janitor (\<open>src/internal/janitor/janitor.go\<close>), which every Pod runs: taking over the
  sessions of dead Pods, firing due wills, expiring sessions and retained messages, sweeping
  orphans, refreshing gauges, and the stratified schedule of \<open>Tick\<close>.

  What Postgres decides outside the tables is the record \<open>pg_env\<close>: which brokers' advisory
  locks other Postgres sessions hold, which session rows another transaction has locked
  (\<open>FOR UPDATE SKIP LOCKED\<close> passes over them), and the notification queue's fill level. The
  metrics object is installed, as \<open>main\<close> does; histograms are not modelled.
\<close>

record pg_env =
  lock_held :: "uuid \<Rightarrow> bool"
  row_locked :: "string \<Rightarrow> bool"
  notification_queue_usage :: int

section \<open>Statements\<close>

definition sel_due_wills :: "(string \<Rightarrow> bool) \<Rightarrow> instant \<Rightarrow> db \<Rightarrow> session_row list" where
  "sel_due_wills locked t d =
     filter (\<lambda>s. (case s_will_fire_at s of None \<Rightarrow> False | Some f \<Rightarrow> f \<le> t) \<and> s_will_topic s \<noteq> None
       \<and> \<not> locked (s_client_id s)) (sessions d)"

definition upd_clear_wills :: "string list \<Rightarrow> db \<Rightarrow> db" where
  "upd_clear_wills cs d =
     d\<lparr>sessions := map (\<lambda>s. if s_client_id s \<in> set cs
          then clear_will (s\<lparr>s_will_fire_at := None\<rparr>) else s) (sessions d)\<rparr>"

definition sel_expired_sessions :: "instant \<Rightarrow> db \<Rightarrow> string list" where
  "sel_expired_sessions t d =
     map s_client_id (filter (\<lambda>s. \<not> s_connected s \<and>
       (case s_session_expires_at s of None \<Rightarrow> False | Some e \<Rightarrow> e \<le> t)) (sessions d))"

definition del_deliveries_of :: "string list \<Rightarrow> db \<Rightarrow> db" where
  "del_deliveries_of cs d = snd (del_deliveries_where (\<lambda>r. d_client_id r \<in> set cs) d)"

definition del_sessions_of :: "string list \<Rightarrow> db \<Rightarrow> db" where
  "del_sessions_of cs d = snd (del_sessions_where (\<lambda>s. s_client_id s \<in> set cs) d)"

definition del_orphan_deliveries :: "instant \<Rightarrow> db \<Rightarrow> nat \<times> db" where
  "del_orphan_deliveries cutoff d =
     del_deliveries_where (\<lambda>r.
       \<not> (\<exists>s \<in> set (sessions d). s_client_id s = d_client_id r) \<or>
       (\<exists>s \<in> set (sessions d). s_client_id s = d_client_id r \<and> \<not> s_connected s \<and>
          s_clean_start s \<and> s_last_seen s < cutoff)) d"

definition del_retained_expired :: "instant \<Rightarrow> db \<Rightarrow> nat \<times> db" where
  "del_retained_expired t d =
     (length (filter (\<lambda>r. \<not> live t (r_expires_at r)) (retained d)),
      d\<lparr>retained := filter (\<lambda>r. live t (r_expires_at r)) (retained d)\<rparr>)"

definition del_inbound_stale :: "instant \<Rightarrow> db \<Rightarrow> nat \<times> db" where
  "del_inbound_stale cutoff d =
     (let stale = (\<lambda>q. q_received_at q < cutoff \<and>
            (\<exists>s \<in> set (sessions d). s_client_id s = q_client_id q \<and> \<not> s_connected s)) in
      (length (filter stale (inbound_qos2 d)),
       d\<lparr>inbound_qos2 := filter (\<lambda>q. \<not> stale q) (inbound_qos2 d)\<rparr>))"

definition sel_broker_ids :: "db \<Rightarrow> uuid list" where
  "sel_broker_ids d = remdups (List.map_filter s_broker_id (sessions d))"

definition sel_broker_wills :: "uuid \<Rightarrow> db \<Rightarrow> session_row list" where
  "sel_broker_wills b d =
     filter (\<lambda>s. s_broker_id s = Some b \<and> s_will_topic s \<noteq> None) (sessions d)"

text \<open>\<open>LEAST(now() + will_delay, COALESCE(session_expires_at, 'infinity'))\<close>.\<close>

definition delayed_fire_at :: "instant \<Rightarrow> int \<Rightarrow> instant option \<Rightarrow> instant" where
  "delayed_fire_at t delay expires =
     (case expires of None \<Rightarrow> t + seconds delay | Some e \<Rightarrow> min (t + seconds delay) e)"

definition has_delay :: "session_row \<Rightarrow> bool" where
  "has_delay s \<longleftrightarrow> (case s_will_delay s of None \<Rightarrow> False | Some d \<Rightarrow> d > 0)"

definition detach_delayed :: "instant \<Rightarrow> session_row \<Rightarrow> session_row" where
  "detach_delayed t s = s\<lparr>s_connected := False, s_broker_id := None, s_last_seen := t,
     s_will_fire_at := map_option (\<lambda>d. delayed_fire_at t d (s_session_expires_at s)) (s_will_delay s)\<rparr>"

definition upd_dead_delayed :: "uuid \<Rightarrow> instant \<Rightarrow> db \<Rightarrow> db" where
  "upd_dead_delayed b t d =
     d\<lparr>sessions := map (\<lambda>s. if s_broker_id s = Some b \<and> s_will_topic s \<noteq> None \<and> has_delay s
          then detach_delayed t s else s) (sessions d)\<rparr>"

definition detach_cleared :: "instant \<Rightarrow> session_row \<Rightarrow> session_row" where
  "detach_cleared t s = clear_will (s\<lparr>s_connected := False, s_broker_id := None, s_last_seen := t\<rparr>)"

definition upd_dead_rest :: "uuid \<Rightarrow> instant \<Rightarrow> db \<Rightarrow> nat \<times> db" where
  "upd_dead_rest b t d =
     (length (filter (\<lambda>s. s_broker_id s = Some b) (sessions d)),
      d\<lparr>sessions := map (\<lambda>s. if s_broker_id s = Some b then detach_cleared t s else s) (sessions d)\<rparr>)"

definition del_orphan_messages :: "instant \<Rightarrow> db \<Rightarrow> nat \<times> db" where
  "del_orphan_messages cutoff d =
     (let orphan = (\<lambda>m. m_created_at m < cutoff \<and>
            \<not> (\<exists>r \<in> set (deliveries d). d_message_id r = m_id m)) in
      (length (filter orphan (messages d)),
       d\<lparr>messages := filter (\<lambda>m. \<not> orphan m) (messages d)\<rparr>))"

section \<open>Jobs\<close>

datatype job =
    JobFindDeadBrokers | JobHandleDeadBroker | JobFireDueWills | JobExpireSessions
  | JobExpireRetained | JobSweepInboundQoS2 | JobSweepOrphanDeliveries
  | JobRefreshDeliveriesGauge | JobRefreshStateGauges | JobSweepOrphanMessages
  | JobRefreshNotifyQueue

fun job_label :: "job \<Rightarrow> string" where
  "job_label JobFindDeadBrokers = ''find_dead_brokers''"
| "job_label JobHandleDeadBroker = ''handle_dead_broker''"
| "job_label JobFireDueWills = ''fire_due_wills''"
| "job_label JobExpireSessions = ''expire_sessions''"
| "job_label JobExpireRetained = ''expire_retained''"
| "job_label JobSweepInboundQoS2 = ''sweep_inbound_qos2''"
| "job_label JobSweepOrphanDeliveries = ''sweep_orphan_deliveries''"
| "job_label JobRefreshDeliveriesGauge = ''refresh_deliveries_gauge''"
| "job_label JobRefreshStateGauges = ''refresh_state_gauges''"
| "job_label JobSweepOrphanMessages = ''sweep_orphan_messages''"
| "job_label JobRefreshNotifyQueue = ''refresh_notify_queue''"

text \<open>\<open>defaultJobIntervals\<close>; a job that is not in the map has the zero duration.\<close>

fun defaultJobIntervals :: "job \<Rightarrow> duration" where
  "defaultJobIntervals JobFindDeadBrokers = seconds 5"
| "defaultJobIntervals JobFireDueWills = seconds 1"
| "defaultJobIntervals JobExpireSessions = seconds 1"
| "defaultJobIntervals JobExpireRetained = seconds 5"
| "defaultJobIntervals JobSweepInboundQoS2 = seconds 30"
| "defaultJobIntervals JobSweepOrphanDeliveries = seconds 30"
| "defaultJobIntervals JobRefreshDeliveriesGauge = seconds 10"
| "defaultJobIntervals JobRefreshStateGauges = seconds 10"
| "defaultJobIntervals JobSweepOrphanMessages = seconds 30"
| "defaultJobIntervals JobRefreshNotifyQueue = seconds 10"
| "defaultJobIntervals JobHandleDeadBroker = 0"

record janitor =
  interval :: duration
  jobIntervals :: "job \<Rightarrow> duration"
  lastRun :: "job \<Rightarrow> instant option"
  orphanGrace :: duration
  inboundQoS2Grace :: duration

definition new_janitor :: janitor where
  "new_janitor = \<lparr>interval = seconds 1, jobIntervals = defaultJobIntervals, lastRun = (\<lambda>_. None),
     orphanGrace = seconds 600, inboundQoS2Grace = seconds 3600\<rparr>"

definition SetJobIntervals :: "(job \<times> duration) list \<Rightarrow> janitor \<Rightarrow> janitor" where
  "SetJobIntervals m j = j\<lparr>jobIntervals := (\<lambda>b. case map_of m b of Some d \<Rightarrow> d | None \<Rightarrow> jobIntervals j b)\<rparr>"

definition SetInterval :: "duration \<Rightarrow> janitor \<Rightarrow> janitor" where
  "SetInterval d j = j\<lparr>interval := d\<rparr>"

definition SetOrphanGrace :: "duration \<Rightarrow> janitor \<Rightarrow> janitor" where
  "SetOrphanGrace d j = j\<lparr>orphanGrace := d\<rparr>"

definition SetInboundQoS2Grace :: "duration \<Rightarrow> janitor \<Rightarrow> janitor" where
  "SetInboundQoS2Grace d j = j\<lparr>inboundQoS2Grace := d\<rparr>"

definition shouldRun :: "janitor \<Rightarrow> job \<Rightarrow> instant \<Rightarrow> bool" where
  "shouldRun j b t \<longleftrightarrow>
     (if jobIntervals j b \<le> 0 then True
      else case lastRun j b of None \<Rightarrow> True | Some l \<Rightarrow> t - l \<ge> jobIntervals j b)"

definition markRun :: "job \<Rightarrow> instant \<Rightarrow> janitor \<Rightarrow> janitor" where
  "markRun b t j = j\<lparr>lastRun := (lastRun j)(b := Some t)\<rparr>"

section \<open>Gauges\<close>

definition set_gauge :: "string \<Rightarrow> string \<Rightarrow> int \<Rightarrow> unit go" where
  "set_gauge name label v = go_modify (\<lambda>w. w\<lparr>counters := (counters w)((name, label) := v)\<rparr>)"

definition refreshNotifyQueue :: "pg_env \<Rightarrow> unit go" where
  "refreshNotifyQueue E = go_bind (query (\<lambda>d. notification_queue_usage E)) (\<lambda>v.
     set_gauge ''NotifyQueueUsageRatio'' '''' v)"

definition refresh_count :: "string \<Rightarrow> (db \<Rightarrow> nat) \<Rightarrow> unit go" where
  "refresh_count name q = go_bind (query q) (\<lambda>n. set_gauge name '''' (int n))"

definition refreshStateGauges :: "unit go" where
  "refreshStateGauges =
     go_then (refresh_count ''Subscriptions'' (\<lambda>d. length (subscriptions d)))
     (go_then (refresh_count ''Sessions'' (\<lambda>d. length (sessions d)))
     (go_then (refresh_count ''RetainedCount'' (\<lambda>d. length (retained d)))
     (go_then (refresh_count ''InboundQoS2Pending'' (\<lambda>d. length (inbound_qos2 d)))
     (refresh_count ''MessagesCount'' (\<lambda>d. length (messages d))))))"

definition stateLabel :: "nat \<Rightarrow> string" where
  "stateLabel state =
     (if state = 0 then ''queued'' else if state = 1 then ''inflight''
      else if state = 2 then ''awaiting_pubcomp'' else ''unknown'')"

definition sel_state_counts :: "db \<Rightarrow> (nat \<times> nat) list" where
  "sel_state_counts d =
     map (\<lambda>s. (s, length (filter (\<lambda>r. d_state r = s) (deliveries d)))) (remdups (map d_state (deliveries d)))"

definition refreshDeliveriesGauge :: "unit go" where
  "refreshDeliveriesGauge = go_bind (query sel_state_counts) (\<lambda>rows.
     go_each (\<lambda>(state, n). set_gauge ''DeliveriesInflight'' (stateLabel state) (int n))
       (fold (\<lambda>(state, n). AList.update state n) rows [(0, 0), (1, 0), (2, 0)]))"

section \<open>Wills\<close>

text \<open>A scanned row with a will. \<open>Scan\<close> fails on a \<open>NULL\<close> QoS or retain flag; a \<open>NULL\<close> payload or
  property document is a nil slice.\<close>

record will_row =
  wr_client :: string
  wr_topic :: string
  wr_payload :: "bytes option"
  wr_qos :: nat
  wr_retain :: bool
  wr_props :: bytes
  wr_delay :: "int option"

definition scan_will :: "session_row \<Rightarrow> err + will_row" where
  "scan_will s =
     (case (s_will_topic s, s_will_qos s, s_will_retain s) of
        (Some topic, Some qos, Some ret) \<Rightarrow>
          Inr \<lparr>wr_client = s_client_id s, wr_topic = topic, wr_payload = s_will_payload s,
               wr_qos = qos, wr_retain = ret,
               wr_props = (case s_will_properties s of None \<Rightarrow> [] | Some p \<Rightarrow> p),
               wr_delay = s_will_delay s\<rparr>
      | _ \<Rightarrow> Inl (ErrIO ''cannot scan NULL''))"

fun scan_wills :: "session_row list \<Rightarrow> err + will_row list" where
  "scan_wills [] = Inr []"
| "scan_wills (s # ss) =
     and_then (scan_will s) (\<lambda>w. and_then (scan_wills ss) (\<lambda>ws. Inr (w # ws)))"

definition publish_will_row :: "ext \<Rightarrow> will_row \<Rightarrow> unit go" where
  "publish_will_row X w =
     PublishWill X (wr_topic w) (wr_payload w) (wr_qos w mod 256) (wr_retain w) (wr_props w)"

text \<open>\<open>PublishWill\<close> runs on another connection than the janitor's transaction, so a rollback of
  that transaction leaves what it committed.\<close>

definition fire_due :: "ext \<Rightarrow> will_row \<Rightarrow> unit go" where
  "fire_due X w = go_bind (go_attempt (publish_will_row X w)) (\<lambda>r.
     case r of Inl e \<Rightarrow> go_return () | Inr _ \<Rightarrow> count ''WillsFiredTotal'' '''' 1)"

definition swept :: "job \<Rightarrow> nat \<Rightarrow> unit go" where
  "swept b n = count ''JanitorSweptRowsTotal'' (job_label b) (int n)"

definition fireDueWills :: "ext \<Rightarrow> pg_env \<Rightarrow> unit go" where
  "fireDueWills X E = go_then call (go_bind (go_ask now) (\<lambda>t.
     go_bind (query (sel_due_wills (row_locked E) t)) (\<lambda>rows.
     go_bind (go_lift (scan_wills rows)) (\<lambda>wills.
     if wills = [] then tx_rest (go_return ())
     else go_then (go_each (fire_due X) wills)
       (go_then (tx_rest (execute (upd_clear_wills (map wr_client wills))))
       (swept JobFireDueWills (length wills)))))))"

section \<open>Expiry and sweeps\<close>

definition expireSessions :: "unit go" where
  "expireSessions = go_bind (go_ask now) (\<lambda>t.
     go_bind (go_tx (go_bind (query (sel_expired_sessions t)) (\<lambda>ids.
        if ids = [] then go_return 0
        else go_then (execute (del_deliveries_of ids))
          (go_then (execute (del_sessions_of ids)) (go_return (length ids)))))) (\<lambda>n.
     go_when (n > 0) (go_then (count ''SessionsExpired'' '''' (int n)) (swept JobExpireSessions n))))"

definition sweepOrphanDeliveries :: "duration \<Rightarrow> unit go" where
  "sweepOrphanDeliveries grace = go_bind (go_ask now) (\<lambda>t.
     go_bind (exec (del_orphan_deliveries (t - grace))) (swept JobSweepOrphanDeliveries))"

definition expireRetained :: "unit go" where
  "expireRetained = go_bind (go_ask now) (\<lambda>t.
     go_bind (exec (del_retained_expired t)) (swept JobExpireRetained))"

definition sweepInboundQoS2 :: "duration \<Rightarrow> unit go" where
  "sweepInboundQoS2 grace = go_bind (go_ask now) (\<lambda>t.
     go_bind (exec (del_inbound_stale (t - grace))) (swept JobSweepInboundQoS2))"

definition sweepOrphanMessages :: "duration \<Rightarrow> unit go" where
  "sweepOrphanMessages grace = go_bind (go_ask now) (\<lambda>t.
     go_bind (go_tx (exec (del_orphan_messages (t - grace)))) (swept JobSweepOrphanMessages))"

section \<open>Dead Pods\<close>

definition findDeadBrokerCandidates :: "uuid list go" where
  "findDeadBrokerCandidates = query sel_broker_ids"

text \<open>The work under the broker's advisory lock: fire the wills without delay, schedule the
  others, detach every session.\<close>

definition fire_undelayed :: "ext \<Rightarrow> will_row \<Rightarrow> unit go" where
  "fire_undelayed X w =
     (if wr_delay w = None \<or> wr_delay w = Some 0 then go_ignore (publish_will_row X w)
      else go_return ())"

definition dead_broker_work :: "ext \<Rightarrow> uuid \<Rightarrow> bool go" where
  "dead_broker_work X b = go_bind (go_ask now) (\<lambda>t.
     go_bind (query (sel_broker_wills b)) (\<lambda>rows.
     go_bind (go_lift (scan_wills rows)) (\<lambda>wills.
     go_then (go_each (fire_undelayed X) wills)
     (go_then (execute (upd_dead_delayed b t))
     (go_bind (exec (upd_dead_rest b t)) (\<lambda>n. go_return (n > 0)))))))"

text \<open>Acquiring a connection, \<open>pg_try_advisory_lock\<close>, the work, and the deferred unlock.\<close>

definition handleDeadBroker :: "ext \<Rightarrow> pg_env \<Rightarrow> uuid \<Rightarrow> bool go" where
  "handleDeadBroker X E b =
     go_then call (go_bind (query (\<lambda>d. \<not> lock_held E b)) (\<lambda>got.
     if \<not> got then go_return False
     else go_bind (go_attempt (dead_broker_work X b)) (\<lambda>r.
       go_then (go_ignore call) (go_lift r))))"

section \<open>Ticks\<close>

definition timed :: "job \<Rightarrow> 'a go \<Rightarrow> 'a go" where
  "timed b f = go_bind (go_attempt f) (\<lambda>r. case r of
     Inl e \<Rightarrow> go_then (count ''JanitorErrorsTotal'' (job_label b) 1) (go_fail e)
   | Inr x \<Rightarrow> go_return x)"

fun run_job :: "ext \<Rightarrow> pg_env \<Rightarrow> janitor \<Rightarrow> job \<Rightarrow> unit go" where
  "run_job X E j JobFireDueWills = fireDueWills X E"
| "run_job X E j JobExpireSessions = expireSessions"
| "run_job X E j JobExpireRetained = expireRetained"
| "run_job X E j JobSweepInboundQoS2 = sweepInboundQoS2 (inboundQoS2Grace j)"
| "run_job X E j JobSweepOrphanDeliveries = sweepOrphanDeliveries (orphanGrace j)"
| "run_job X E j JobRefreshDeliveriesGauge = refreshDeliveriesGauge"
| "run_job X E j JobRefreshStateGauges = refreshStateGauges"
| "run_job X E j JobSweepOrphanMessages = sweepOrphanMessages (orphanGrace j)"
| "run_job X E j JobRefreshNotifyQueue = refreshNotifyQueue E"
| "run_job X E j JobFindDeadBrokers = go_return ()"
| "run_job X E j JobHandleDeadBroker = go_return ()"

definition tick_jobs :: "job list" where
  "tick_jobs = [JobFireDueWills, JobExpireSessions, JobExpireRetained, JobSweepInboundQoS2,
     JobSweepOrphanDeliveries, JobRefreshDeliveriesGauge, JobRefreshStateGauges,
     JobSweepOrphanMessages, JobRefreshNotifyQueue]"

definition tick_dead_broker :: "ext \<Rightarrow> pg_env \<Rightarrow> uuid \<Rightarrow> unit go" where
  "tick_dead_broker X E b = go_bind (go_attempt (timed JobHandleDeadBroker (handleDeadBroker X E b))) (\<lambda>r.
     case r of Inl e \<Rightarrow> go_return ()
     | Inr claimed \<Rightarrow> go_when claimed (count ''DeadBrokersTotal'' '''' 1))"

text \<open>The dead-Pod scan of a tick. A failed scan is marked as run and ends the tick.\<close>

definition tick_dead :: "ext \<Rightarrow> pg_env \<Rightarrow> instant \<Rightarrow> janitor \<Rightarrow> (janitor \<times> err option) go" where
  "tick_dead X E t j =
     (if \<not> shouldRun j JobFindDeadBrokers t then go_return (j, None)
      else go_bind (go_attempt (timed JobFindDeadBrokers findDeadBrokerCandidates)) (\<lambda>r. case r of
        Inl e \<Rightarrow> go_return (markRun JobFindDeadBrokers t j, Some e)
      | Inr candidates \<Rightarrow> go_then (go_each (tick_dead_broker X E) candidates)
          (go_return (markRun JobFindDeadBrokers t j, None))))"

fun tick_each :: "ext \<Rightarrow> pg_env \<Rightarrow> instant \<Rightarrow> job list \<Rightarrow> janitor \<Rightarrow> err option \<Rightarrow> (janitor \<times> err option) go" where
  "tick_each X E t [] j firstErr = go_return (j, firstErr)"
| "tick_each X E t (b # bs) j firstErr =
     (if \<not> shouldRun j b t then tick_each X E t bs j firstErr
      else go_bind (go_attempt (timed b (run_job X E j b))) (\<lambda>r.
        tick_each X E t bs (markRun b t j)
          (case firstErr of Some e \<Rightarrow> Some e | None \<Rightarrow> (case r of Inl e \<Rightarrow> Some e | Inr _ \<Rightarrow> None))))"

definition Tick :: "ext \<Rightarrow> pg_env \<Rightarrow> janitor \<Rightarrow> (janitor \<times> err option) go" where
  "Tick X E j = go_bind (go_ask now) (\<lambda>t.
     go_bind (tick_dead X E t j) (\<lambda>(j1, e). case e of
       Some e' \<Rightarrow> go_return (j1, Some e')
     | None \<Rightarrow> tick_each X E t tick_jobs j1 None))"

end
