(* ===== verification/Listener.thy ===== *)
theory Listener
  imports Engine
begin

text \<open>
  The listener (\<open>src/internal/listener/listener.go\<close>): the Pod's dedicated Postgres connection,
  its channels, the dispatch of one notification to the engine, and reconnecting.

  Dialling is a sequence of fallible calls like every other use of Postgres. Time passes
  while the reconnect loop backs off, so that loop moves the clock. \<open>ctx_done\<close> tells from which
  instant on the context is cancelled; \<open>osExit\<close> is an outcome.
\<close>

section \<open>Channels and payloads\<close>

definition unquotedPub :: "ext \<Rightarrow> uuid \<Rightarrow> string" where
  "unquotedPub X u = ''pgmqtt_'' @ uuid_string X u"

definition unquotedTakeover :: "ext \<Rightarrow> uuid \<Rightarrow> string" where
  "unquotedTakeover X u = ''pgmqtt_takeover_'' @ uuid_string X u"

definition unquotedQuota :: "ext \<Rightarrow> uuid \<Rightarrow> string" where
  "unquotedQuota X u = ''pgmqtt_quota_'' @ uuid_string X u"

text \<open>The quoted identifiers of the \<open>LISTEN\<close> commands (character 34 is the double quote).\<close>

definition quoted :: "string \<Rightarrow> string" where
  "quoted s = char_of (34 :: nat) # s @ [char_of (34 :: nat)]"

definition pubChannel :: "ext \<Rightarrow> uuid \<Rightarrow> string" where
  "pubChannel X u = quoted (unquotedPub X u)"

definition takeoverChannel :: "ext \<Rightarrow> uuid \<Rightarrow> string" where
  "takeoverChannel X u = quoted (unquotedTakeover X u)"

definition quotaChannel :: "ext \<Rightarrow> uuid \<Rightarrow> string" where
  "quotaChannel X u = quoted (unquotedQuota X u)"

definition parseTakeoverPayload :: "ext \<Rightarrow> string \<Rightarrow> uuid \<times> string \<times> bool" where
  "parseTakeoverPayload X payload =
     (if length payload < 36 then (uuid_Nil, payload, False)
      else case uuid_parse X (take 36 payload) of
        None \<Rightarrow> (uuid_Nil, payload, False)
      | Some t \<Rightarrow> (t, drop 36 payload, True))"

section \<open>Dispatch\<close>

text \<open>Message identifiers are positive; a negative one selects no rows.\<close>

definition deliver_id :: "ext \<Rightarrow> int \<Rightarrow> unit go" where
  "deliver_id X v = (if v < 0 then go_then (query (\<lambda>d. ())) (go_return ()) else Deliver X (nat v))"

definition dispatchNotification :: "ext \<Rightarrow> uuid \<Rightarrow> string \<times> string \<Rightarrow> unit go" where
  "dispatchNotification X self notif =
     (case notif of (channel, payload) \<Rightarrow>
        if channel = unquotedPub X self then
          (case parse_int64 payload of
             None \<Rightarrow> go_return ()
           | Some msgID \<Rightarrow> go_ignore (deliver_id X msgID))
        else if channel = unquotedTakeover X self then
          (case parseTakeoverPayload X payload of (prevToken, cid, parsed) \<Rightarrow>
             go_bind (ConnFor cid) (\<lambda>r. case r of
               None \<Rightarrow> go_return ()
             | Some k \<Rightarrow> go_bind (go_conn k) (\<lambda>c.
                 if parsed \<and> sessionToken c \<noteq> prevToken then go_return ()
                 else ShutdownForTakeover k)))
        else if channel = unquotedQuota X self then
          (case parseTakeoverPayload X payload of (prevToken, cid, parsed) \<Rightarrow>
             if parsed then QuotaExceededLocallyForToken X cid prevToken
             else QuotaExceededLocally X cid)
        else go_return ())"

section \<open>Reconnecting\<close>

definition reconnectInitialBackoff :: duration where
  "reconnectInitialBackoff = seconds 1"

definition reconnectMaxBackoff :: duration where
  "reconnectMaxBackoff = seconds 16"

definition reconnectMaxAttempts :: nat where
  "reconnectMaxAttempts = 5"

text \<open>Connect, the advisory lock, and the three \<open>LISTEN\<close>s; an error closes the connection. The
  URL was accepted at the start, so parsing it again succeeds.\<close>

definition acquireBrokerLock :: "unit go" where
  "acquireBrokerLock = call"

definition dialAndRegister :: "unit go" where
  "dialAndRegister = go_then call (go_then acquireBrokerLock (go_then call (go_then call call)))"

definition next_backoff :: "duration \<Rightarrow> duration" where
  "next_backoff b =
     (if b < reconnectMaxBackoff
      then (if b * 2 > reconnectMaxBackoff then reconnectMaxBackoff else b * 2) else b)"

definition go_sleep :: "duration \<Rightarrow> unit go" where
  "go_sleep b = go_modify (\<lambda>w. w\<lparr>now := now w + b\<rparr>)"

text \<open>The attempts that are left, \<open>n\<close> of them. A context cancelled during the back-off is seen at
  the end of it, by the check that opens the next attempt.\<close>

fun reconnect_loop :: "(instant \<Rightarrow> bool) \<Rightarrow> nat \<Rightarrow> duration \<Rightarrow> bool go" where
  "reconnect_loop ctx_done 0 backoff = go_return False"
| "reconnect_loop ctx_done (Suc n) backoff = go_bind (go_ask now) (\<lambda>t.
     if ctx_done t then go_return False
     else go_bind (go_attempt dialAndRegister) (\<lambda>r. case r of
         Inr _ \<Rightarrow> go_return True
       | Inl e \<Rightarrow>
           if n = 0 then go_return False
           else go_then (go_sleep backoff) (reconnect_loop ctx_done n (next_backoff backoff))))"

definition reconnect :: "(instant \<Rightarrow> bool) \<Rightarrow> bool go" where
  "reconnect ctx_done = reconnect_loop ctx_done reconnectMaxAttempts reconnectInitialBackoff"

section \<open>The loop\<close>

text \<open>What \<open>WaitForNotification\<close> returns, and how an iteration ends.\<close>

datatype wait_result = Notified string string | WaitFailed | WaitNetClosed

datatype loop_outcome = LoopOn | LoopReturn | ProcessExit

definition listener_step :: "ext \<Rightarrow> (instant \<Rightarrow> bool) \<Rightarrow> wait_result \<Rightarrow> loop_outcome go" where
  "listener_step X ctx_done r = go_bind (go_ask (\<lambda>w. (brokerID w, now w))) (\<lambda>(self, t).
     case r of
       Notified channel payload \<Rightarrow>
         go_then (dispatchNotification X self (channel, payload)) (go_return LoopOn)
     | WaitNetClosed \<Rightarrow>
         if ctx_done t then go_then (count ''ListenerRestartsTotal'' ''ctx_cancel'' 1) (go_return LoopReturn)
         else go_return LoopReturn
     | WaitFailed \<Rightarrow>
         if ctx_done t then go_then (count ''ListenerRestartsTotal'' ''ctx_cancel'' 1) (go_return LoopReturn)
         else go_then (count ''ListenerRestartsTotal'' ''wait_error'' 1)
          (go_bind (reconnect ctx_done) (\<lambda>ok.
           if ok then go_then AttestOwnedSessions (go_then KickAllDrains (go_return LoopOn))
           else go_bind (go_ask now) (\<lambda>t1.
             if ctx_done t1
             then go_then (count ''ListenerRestartsTotal'' ''ctx_cancel'' 1) (go_return LoopReturn)
             else go_then (count ''ListenerRestartsTotal'' ''exhausted_retries'' 1)
                    (go_return ProcessExit)))))"

fun listener_run :: "ext \<Rightarrow> (instant \<Rightarrow> bool) \<Rightarrow> wait_result list \<Rightarrow> loop_outcome go" where
  "listener_run X ctx_done [] = go_return LoopOn"
| "listener_run X ctx_done (r # rs) = go_bind (listener_step X ctx_done r) (\<lambda>o'.
     if o' = LoopOn then listener_run X ctx_done rs else go_return o')"

end
