(* ===== verification/Steps.thy ===== *)
theory Steps
  imports Schema Janitor Listener
begin

text \<open>
  The database as a transition system: \<open>db_step\<close> has one rule for each statement the engine
  issues and one for the sequence values an aborted transaction leaves consumed. Every
  handler, under every schedule of failures, moves the database along \<open>db_step\<close>; since a step
  is one statement, an interleaving of the handlers of any number of Pods is again a run of
  \<open>db_step\<close>. Invariants of the database are proved once, by rule induction on the steps.
\<close>

section \<open>The step relation\<close>

inductive db_step :: "db \<Rightarrow> db \<Rightarrow> bool" where
  step_burn: "messages_seq d \<le> i \<Longrightarrow> deliveries_seq d \<le> j \<Longrightarrow>
     db_step d (d\<lparr>messages_seq := i, deliveries_seq := j\<rparr>)"
| step_takeover: "upd_session_takeover c v token t d = Inr (x, d') \<Longrightarrow> db_step d d'"
| step_ins_session: "ins_session c v token t d = Inr (x, d') \<Longrightarrow> db_step d d'"
| step_timers: "db_step d (upd_session_timers_null c d)"
| step_del_session: "db_step d (snd (del_session_token c token d))"
| step_disconnected: "db_step d (snd (upd_session_disconnected c token f e b t d))"
| step_detach: "db_step d (upd_sessions_detach self d)"
| step_attest: "db_step d (upd_sessions_attest self owned t d)"
| step_upsert_sub: "upsert_subscription r d = Inr (x, d') \<Longrightarrow> db_step d d'"
| step_del_sub: "db_step d (snd (del_subscription c f d))"
| step_del_subs: "db_step d (del_subscriptions_client c d)"
| step_del_retained: "db_step d (del_retained topic d)"
| step_retained: "upsert_retained jm topic p q props t d = Inr (x, d') \<Longrightarrow> db_step d d'"
| step_ins_message: "ins_message topic p q ret props publ e t d = Inr (x, d') \<Longrightarrow> db_step d d'"
| step_ins_delivery: "ins_delivery c i q d = Inr (x, d') \<Longrightarrow> db_step d d'"
| step_publish: "mqtt_publish jm topic p q ret props publ maxq t d = Inr (r, d') \<Longrightarrow> db_step d d'"
| step_claim: "1 \<le> pid \<Longrightarrow> pid \<le> 65535 \<Longrightarrow> (\<And>r. P r \<Longrightarrow> d_state r = 0) \<Longrightarrow>
     claim_deliveries_where P pid d = Inr (n, d') \<Longrightarrow> db_step d d'"
| step_del_deliveries: "db_step d (snd (del_deliveries_where P d))"
| step_pubrec: "db_step d (upd_delivery_pubrec c pid d)"
| step_ins_inbound: "ins_inbound_qos2 c pid t d = Inr (x, d') \<Longrightarrow> db_step d d'"
| step_del_inbound: "db_step d (snd (del_inbound_qos2 c pid d))"
| step_del_inbound_client: "db_step d (del_inbound_qos2_client c d)"
| step_clear_wills: "db_step d (upd_clear_wills cs d)"
| step_del_sessions: "db_step d (snd (del_sessions_where P d))"
| step_dead_delayed: "db_step d (upd_dead_delayed b t d)"
| step_dead_rest: "db_step d (snd (upd_dead_rest b t d))"
| step_retained_expired: "db_step d (snd (del_retained_expired t d))"
| step_inbound_stale: "db_step d (snd (del_inbound_stale t d))"
| step_orphan_messages: "db_step d (snd (del_orphan_messages t d))"
| step_notify: "pg_notify cs p d = Inr (x, d') \<Longrightarrow> db_step d d'"

abbreviation db_steps :: "db \<Rightarrow> db \<Rightarrow> bool" where
  "db_steps \<equiv> db_step\<^sup>*\<^sup>*"

text \<open>Sequences only grow.\<close>

lemma db_step_seq: "db_step d d' \<Longrightarrow> messages_seq d \<le> messages_seq d' \<and> deliveries_seq d \<le> deliveries_seq d'"
proof (induction rule: db_step.induct)
  case (step_publish jm topic p q ret props publ maxq t d r d')
  then show ?case
    by (rule mqtt_publish_Inr) (auto simp: ins_message_def split: option.splits)
qed (auto simp: upd_session_takeover_def ins_session_def upd_session_timers_null_def
    del_session_token_def del_sessions_where_def upd_session_disconnected_def Let_def
    upd_sessions_detach_def upd_sessions_attest_def upsert_subscription_def del_subscription_def
    del_subscriptions_client_def del_retained_def upsert_retained_def and_then_Inr put_retained_def
    ins_message_def ins_delivery_def claim_deliveries_where_def del_deliveries_where_def
    upd_delivery_pubrec_def ins_inbound_qos2_def del_inbound_qos2_def del_inbound_qos2_client_def
    pg_notify_def upd_clear_wills_def upd_dead_delayed_def upd_dead_rest_def del_retained_expired_def
    del_inbound_stale_def del_orphan_messages_def split: if_splits option.splits)

lemma db_steps_seq: "db_steps d d' \<Longrightarrow> messages_seq d \<le> messages_seq d' \<and> deliveries_seq d \<le> deliveries_seq d'"
  by (induction rule: rtranclp_induct) (auto dest: db_step_seq)

lemma db_steps_rollback: "db_steps d0 d \<Longrightarrow> db_steps d0 (rollback d0 d)"
  using db_steps_seq [of d0 d] step_burn [of d0 "messages_seq d" "deliveries_seq d"]
  by (simp add: rollback_def)

text \<open>The janitor's statements keep the schema invariant; a sweep of messages removes none
  that a delivery refers to.\<close>

lemma db_wf_janitor:
  assumes "db_wf d"
  shows "db_wf (upd_clear_wills cs d)" "db_wf (upd_dead_delayed b t d)"
    "db_wf (snd (upd_dead_rest b t d))" "db_wf (snd (del_inbound_stale t d))"
    "db_wf (snd (del_retained_expired t d))" "db_wf (snd (del_orphan_messages t d))"
proof -
  show "db_wf (upd_clear_wills cs d)" "db_wf (upd_dead_delayed b t d)" "db_wf (snd (upd_dead_rest b t d))"
    using assms
    by (auto simp: upd_clear_wills_def clear_will_def upd_dead_delayed_def detach_delayed_def
        upd_dead_rest_def detach_cleared_def intro!: db_wf_sessions_map)
  show "db_wf (snd (del_inbound_stale t d))"
    using assms by (simp add: del_inbound_stale_def Let_def db_wf_filter_inbound)
  show "db_wf (snd (del_retained_expired t d))"
    using assms by (simp add: del_retained_expired_def db_wf_def)
  let ?keep = "\<lambda>m. \<not> (m_created_at m < t \<and> \<not> (\<exists>r \<in> set (deliveries d). d_message_id r = m_id m))"
  have "d_message_id r \<in> m_id ` set (filter ?keep (messages d))" if r: "r \<in> set (deliveries d)" for r
  proof -
    from r assms obtain m where "m \<in> set (messages d)" "d_message_id r = m_id m"
      by (auto simp: db_wf_def messages_wf_def)
    with r show ?thesis by auto
  qed
  then have "d_message_id ` set (deliveries d) \<subseteq> m_id ` set (filter ?keep (messages d))" by blast
  then show "db_wf (snd (del_orphan_messages t d))"
    using assms unfolding del_orphan_messages_def Let_def db_wf_def messages_wf_def by simp
qed

text \<open>The schema invariant is kept by every step.\<close>

lemma db_wf_step: "db_step d d' \<Longrightarrow> db_wf d \<Longrightarrow> db_wf d'"
proof (induction rule: db_step.induct)
  case (step_burn d i j)
  then show ?case
    using db_wf_rollback [of d "d\<lparr>messages_seq := i, deliveries_seq := j\<rparr>"] by (simp add: rollback_def)
next
  case (step_ins_message topic p q ret props publ e t d x d')
  then show ?case using db_wf_ins_message(1) by blast
qed (auto intro: db_wf_upd_session_takeover db_wf_ins_session db_wf_upd_session_timers_null
    db_wf_del_session_token db_wf_upd_session_disconnected db_wf_upd_sessions_detach
    db_wf_upd_sessions_attest db_wf_upsert_subscription db_wf_del_subscription
    db_wf_del_subscriptions_client db_wf_del_retained db_wf_upsert_retained
    db_wf_ins_delivery db_wf_mqtt_publish db_wf_claim_deliveries_where
    db_wf_del_deliveries_where db_wf_upd_delivery_pubrec db_wf_ins_inbound_qos2
    db_wf_del_inbound_qos2 db_wf_del_inbound_qos2_client db_wf_pg_notify
    db_wf_del_sessions_where db_wf_janitor)

lemma db_wf_steps: "db_steps d d' \<Longrightarrow> db_wf d \<Longrightarrow> db_wf d'"
  by (induction rule: rtranclp_induct) (auto intro: db_wf_step)

section \<open>Handlers move along the steps\<close>

definition moves :: "world \<Rightarrow> world \<Rightarrow> bool" where
  "moves w w' \<longleftrightarrow> db_steps (store w) (store w')"

interpretation moves: run_relation moves
  by unfold_locales (auto simp: moves_def)

lemma moves_sql:
  "(\<And>d x d'. s d = Inr (x, d') \<Longrightarrow> db_step d d') \<Longrightarrow> keeps moves (sql s)"
  by (rule moves.keeps_sql) (auto simp: moves_def)

lemma moves_exec: "(\<And>d. db_step d (snd (f d))) \<Longrightarrow> keeps moves (exec f)"
  by (rule moves.keeps_exec) (auto simp: moves_def)

lemma moves_execute: "(\<And>d. db_step d (f d)) \<Longrightarrow> keeps moves (execute f)"
  by (rule moves.keeps_execute) (auto simp: moves_def)

lemma moves_tx [keeps_rules]: "keeps moves body \<Longrightarrow> keeps moves (go_tx body)"
  by (rule moves.keeps_tx) (auto simp: moves_def db_steps_rollback)

lemma moves_upd [keeps_rules]: "keeps moves (go_upd k f)"
  by (rule moves.keeps_upd) (simp add: moves_def)

lemma moves_count [keeps_rules]: "keeps moves (count n l i)"
  by (simp add: keeps_def moves_def)

lemma moves_statements [keeps_rules]:
  "keeps moves (sql (upd_session_takeover c v token t))"
  "keeps moves (sql (ins_session c v token t))"
  "keeps moves (execute (upd_session_timers_null c))"
  "keeps moves (exec (del_session_token c token))"
  "keeps moves (exec (upd_session_disconnected c token f e b t))"
  "keeps moves (execute (upd_sessions_detach self))"
  "keeps moves (execute (upd_sessions_attest self owned t))"
  "keeps moves (sql (upsert_subscription r))"
  "keeps moves (exec (del_subscription c filt))"
  "keeps moves (execute (del_subscriptions_client c))"
  "keeps moves (execute (del_retained topic))"
  "keeps moves (sql (upsert_retained jm topic p q props t))"
  "keeps moves (sql (ins_message topic po q ret props publ ex t))"
  "keeps moves (sql (ins_delivery c i q))"
  "keeps moves (sql (mqtt_publish jm topic po q ret props publ maxq t))"
  "keeps moves (exec (del_delivery i))"
  "keeps moves (exec (del_delivery_acked c pid q))"
  "keeps moves (execute (del_deliveries_client c))"
  "keeps moves (execute (upd_delivery_pubrec c pid))"
  "keeps moves (sql (ins_inbound_qos2 c pid t))"
  "keeps moves (exec (del_inbound_qos2 c pid))"
  "keeps moves (execute (del_inbound_qos2_client c))"
  "keeps moves (sql (pg_notify cs msg))"
  by (auto intro!: moves_sql moves_exec moves_execute intro: db_step.intros
      simp: del_delivery_def del_delivery_acked_def del_deliveries_client_def)

lemma moves_claim:
  assumes "1 \<le> pid" "pid \<le> 65535"
  shows "keeps moves (sql (claim_delivery pid i))" "keeps moves (sql (claim_delivery_msg pid c i))"
proof -
  have *: "keeps moves (sql (claim_deliveries_where P pid))" if "\<And>r. P r \<Longrightarrow> d_state r = 0" for P
    by (rule moves_sql) (rule step_claim [OF assms that])
  show "keeps moves (sql (claim_delivery pid i))"
    unfolding claim_delivery_def by (rule *) simp
  show "keeps moves (sql (claim_delivery_msg pid c i))"
    unfolding claim_delivery_msg_def by (rule *) simp
qed

lemma moves_conn [keeps_rules]:
  "keeps moves (tryConsumeRateToken k)"
  "keeps moves (resolveAliasForOutbound k topic)"
  "keeps moves (nextPacketIDCandidate k)"
  "keeps moves (ConnFor cid)"
  "keeps moves releaseConn"
  "keeps moves tryReserveConn"
  "keeps moves (checkIPLimits_go X addr)"
  by (auto simp: keeps_def moves_def tryConsumeRateToken_def resolveAliasForOutbound_def
      nextPacketIDCandidate_def ConnFor_def go_ask_def releaseConn_def tryReserveConn_def checkIPLimits_go_def
      Let_def split: prod.splits)

lemma moves_write [keeps_rules]:
  "keeps moves (conn_write X k pk)" "keeps moves (send_disconnect X k r)"
  unfolding send_disconnect_def conn_write_def by (intro keeps_rules)+

lemma moves_alloc [keeps_rules]: "keeps moves (AllocPacketID k)"
proof -
  have "keeps moves (alloc_loop k n)" for n
    by (induction n) (auto simp only: alloc_loop.simps packetIDInUse_def intro!: keeps_rules)
  then show ?thesis
    unfolding AllocPacketID_def ensurePacketIDSeeded_def by (intro keeps_rules)
qed

lemma moves_flow [keeps_rules]:
  "keeps moves (tryAcquireInflight k)" "keeps moves (KickDrain k)" "keeps moves (returnInflight k)"
  unfolding tryAcquireInflight_def KickDrain_def returnInflight_def by (intro keeps_rules)+

lemma moves_modify [keeps_rules]:
  "keeps moves (go_modify (\<lambda>w. w\<lparr>conns := g w\<rparr>))"
  "keeps moves (go_modify (\<lambda>w. w\<lparr>iplimit := h w\<rparr>))"
  by (auto simp: keeps_def moves_def)

lemma moves_registry [keeps_rules]:
  "keeps moves (registerConn cid k)" "keeps moves (unregisterConnIfSame cid k)"
  unfolding registerConn_def unregisterConnIfSame_def by (intro keeps_rules)+

lemma moves_shutdown [keeps_rules]:
  "keeps moves (shutdown k)"
  unfolding shutdown_def by (intro keeps_rules)

lemma moves_closing [keeps_rules]:
  "keeps moves (ShutdownForTakeover k)" "keeps moves (gracefulClose X k)"
  unfolding ShutdownForTakeover_def gracefulClose_def by (intro keeps_rules)+

section \<open>The publisher path\<close>

lemma moves_lift [keeps_rules]: "keeps moves (go_lift r)" "keeps moves (go_check o')"
  unfolding go_lift_def go_check_def by (intro keeps_rules)+

lemma moves_publishCore [keeps_rules]: "keeps moves (publishCore X p)"
  unfolding publishCore_def publish_body_def publish_dedup_def publish_retain_def
  by (intro keeps_rules)

lemma moves_kickForQuota [keeps_rules]: "keeps moves (kickForQuota X k)"
  unfolding kickForQuota_def by (intro keeps_rules)

lemma moves_quota [keeps_rules]:
  "keeps moves (QuotaExceededLocallyForToken X cid token)"
  "keeps moves (NotifyQuota X b cid token)" "keeps moves (NotifyTakeover X b cid token)"
  unfolding QuotaExceededLocallyForToken_def NotifyQuota_def NotifyTakeover_def
  by (intro keeps_rules)+

lemma moves_dispatchQuotaExceeded [keeps_rules]: "keeps moves (dispatchQuotaExceeded X cids)"
  unfolding dispatchQuotaExceeded_def by (intro keeps_rules)

lemma moves_PublishWill [keeps_rules]:
  "keeps moves (PublishWill X t p q r pr)" "keeps moves (fireWill X k)"
  unfolding fireWill_def PublishWill_def by (intro keeps_rules)+

lemma moves_inbound [keeps_rules]: "keeps moves (add_inbound k n)"
  unfolding add_inbound_def by (intro keeps_rules)

lemma moves_publish_parts [keeps_rules]:
  "keeps moves (acquire_inbound X k pk)" "keeps moves (check_publish X k pk)"
  "keeps moves (disconnectForPublishError X k e)"
  unfolding acquire_inbound_def check_publish_def disconnectForPublishError_def
  by (intro keeps_rules)+

lemma moves_handlePublish [keeps_rules]: "keeps moves (handlePublish X k pk)"
  unfolding handlePublish_def publish_steps_def by (intro keeps_rules)

section \<open>The receiver path\<close>

lemma moves_claim_after_alloc:
  assumes "AllocPacketID k w = (Inr pid, w')"
  shows "keeps moves (sql (claim_delivery (unat pid) i))"
    "keeps moves (sql (claim_delivery_msg (unat pid) c i))"
  using AllocPacketID_sound [OF assms] by (intro moves_claim; simp)+

lemma moves_claim_packet_id [keeps_rules]: "keeps moves (claim_packet_id k it)"
  unfolding claim_packet_id_def
proof (intro moves.keeps_case_option moves.keeps_bind_result)
  fix w r w'
  assume r: "go_attempt (AllocPacketID k) w = (Inr r, w')"
  show "keeps moves (case r of Inl e \<Rightarrow> go_then (returnInflight k) (go_fail e)
      | Inr pid \<Rightarrow> go_bind (go_attempt (sql (claim_delivery (unat pid) (it_deliveryID it)))) (\<lambda>r.
          case r of Inl e \<Rightarrow> go_then (returnInflight k) (go_fail e)
          | Inr n \<Rightarrow> if n = 0 then go_then (returnInflight k) (go_return None)
                     else go_return (Some pid)))"
    by (intro moves.keeps_case_sum; intro keeps_rules moves_claim_after_alloc(1) [of k w])
      (use r in simp)
qed (intro keeps_rules)+

lemma moves_deliver [keeps_rules]: "keeps moves (deliverOneTracked X it ret dup)"
  unfolding deliverOneTracked_def deliver_to_def send_outgoing_def alias_outgoing_def
  by (intro keeps_rules)

lemma moves_Deliver [keeps_rules]: "keeps moves (Deliver X msg)" "keeps moves (drainOnce X k)"
  unfolding Deliver_def drainOnce_def by (intro keeps_rules)+

lemma moves_drain [keeps_rules]: "keeps moves (drain_wakeup X k)"
proof -
  have "keeps moves (drain_loop X k n)" for n
  proof (induction n)
    case (Suc n)
    show ?case unfolding drain_loop.simps by (intro keeps_rules Suc)
  qed (unfold drain_loop.simps, intro keeps_rules)
  then show ?thesis
    unfolding drain_wakeup_def take_kick_def by (intro keeps_rules)
qed

lemma moves_drainSessionQueue [keeps_rules]: "keeps moves (drainSessionQueue X k)"
  unfolding drainSessionQueue_def resend_def by (intro keeps_rules)

lemma moves_acks [keeps_rules]:
  "keeps moves (handlePuback k pk)" "keeps moves (handlePubrec X k pk)"
  "keeps moves (handlePubrel X k pk)" "keeps moves (handlePubcomp k pk)"
  unfolding handlePuback_def handlePubrec_def handlePubrel_def handlePubcomp_def
  by (intro keeps_rules)+

section \<open>Subscriptions, sessions and the Pod\<close>

lemma moves_allocPacketID [keeps_rules]: "keeps moves (allocPacketID k msg)"
  unfolding allocPacketID_def
proof (rule moves.keeps_bind_result)
  fix w pid w'
  assume "AllocPacketID k w = (Inr pid, w')"
  then show "keeps moves (go_bind (go_conn k) (\<lambda>c.
      go_bind (sql (claim_delivery_msg (unat pid) (clientID c) msg)) (\<lambda>n.
        if n = 0 then go_fail (ErrProtocol ''retained delivery row missing'') else go_return pid)))"
    by (intro keeps_rules moves_claim_after_alloc(2))
qed (intro keeps_rules)

lemma moves_retained_replay [keeps_rules]: "keeps moves (dispatchRetainedForFilter X k d)"
  unfolding dispatchRetainedForFilter_def dispatch_retained_row_def persistRetainedDispatch_def
  by (intro keeps_rules)

lemma moves_subscribe [keeps_rules]: "keeps moves (handleSubscribe X k pk)"
proof -
  have "keeps moves (subscribe_filters cid subID fs)" for cid subID fs
    by (induction fs) (auto simp only: subscribe_filters.simps subscribe_filter_def intro!: keeps_rules)
  then show ?thesis
    unfolding handleSubscribe_def subscribe_tx_def by (intro keeps_rules)
qed

lemma moves_unsubscribe [keeps_rules]: "keeps moves (handleUnsubscribe X k pk)"
proof -
  have "keeps moves (unsubscribe_filters cid fs)" for cid fs
    by (induction fs) (auto simp only: unsubscribe_filters.simps unsubscribe_filter_def intro!: keeps_rules)
  then show ?thesis
    unfolding handleUnsubscribe_def by (intro keeps_rules)
qed

lemma moves_reject [keeps_rules]:
  "keeps moves (reject X k pv r e)" "keeps moves (dropConnectOnInfraError s)"
  "keeps moves m \<Longrightarrow> keeps moves (or_drop s m)"
  unfolding reject_def writeConnackReject_def dropConnectOnInfraError_def or_drop_def
  by (intro keeps_rules; assumption)+

lemma moves_admission [keeps_rules]: "keeps moves (connect_admission X k pk auto)"
  unfolding connect_admission_def resolve_client_id_def authenticate_connect_def Authenticate_def
    v5_params_def
  by (intro keeps_rules)

lemma moves_handleConnect [keeps_rules]: "keeps moves (handleConnect X k pk auto token)"
  unfolding handleConnect_def connect_session_def takeOwnership_def evict_previous_def
    session_cleanup_def replay_queue_def
  by (intro keeps_rules)

lemma moves_handleDisconnect [keeps_rules]: "keeps moves (handleDisconnect X k)"
proof -
  have fate: "keeps moves (case f of SessionDelete \<Rightarrow> m | SessionKeep e \<Rightarrow> n e)"
    if "keeps moves m" "\<And>e. keeps moves (n e)" for f m n
    using that by (cases f) simp_all
  show ?thesis
    unfolding handleDisconnect_def delete_clean_session_def by (intro keeps_rules fate)
qed

lemma moves_graceful [keeps_rules]: "keeps moves (handleGracefulDisconnect X k pk)"
  unfolding handleGracefulDisconnect_def by (intro keeps_rules)

lemma moves_dispatch [keeps_rules]: "keeps moves (dispatch X k pk)"
  unfolding dispatch_def
  by (cases "ptype pk"; simp only: ptype.simps ptype.distinct simp_thms if_True if_False;
      intro keeps_rules)

lemma moves_conn_run [keeps_rules]: "keeps moves (conn_run X k auto token)"
proof -
  have read: "keeps moves (conn_read X k)"
    unfolding conn_read_def by (intro keeps_rules)
  have "keeps moves (read_loop X k n)" for n
  proof (induction n)
    case (Suc n)
    show ?case unfolding read_loop.simps by (intro keeps_rules read Suc)
  qed (unfold read_loop.simps, intro keeps_rules)
  then show ?thesis
    unfolding conn_run_def by (intro keeps_rules read)
qed

lemma moves_accept [keeps_rules]: "keeps moves (accept_conn X k rd addr auto token)"
  unfolding accept_conn_def by (intro keeps_rules)

lemma moves_pod [keeps_rules]:
  "keeps moves KickAllDrains" "keeps moves AttestOwnedSessions" "keeps moves sweepOrphanedSockets"
  "keeps moves (shutdownGracefully X)"
  unfolding KickAllDrains_def AttestOwnedSessions_def sweepOrphanedSockets_def close_orphan_def
    shutdownGracefully_def
  by (intro keeps_rules)+

section \<open>The janitor and the listener\<close>

lemma moves_janitor_statements [keeps_rules]:
  "keeps moves (execute (upd_clear_wills cs))"
  "keeps moves (execute (upd_dead_delayed b t))"
  "keeps moves (exec (upd_dead_rest b t))"
  "keeps moves (exec (del_retained_expired t))"
  "keeps moves (exec (del_inbound_stale t))"
  "keeps moves (exec (del_orphan_messages t))"
  "keeps moves (exec (del_orphan_deliveries t))"
  "keeps moves (execute (del_deliveries_of cs))"
  "keeps moves (execute (del_sessions_of cs))"
  by (auto intro!: moves_exec moves_execute intro: db_step.intros
      simp: del_orphan_deliveries_def del_deliveries_of_def del_sessions_of_def)

lemma moves_tx_rest [keeps_rules]: "keeps moves body \<Longrightarrow> keeps moves (tx_rest body)"
  by (rule moves.keeps_tx_rest) (auto simp: moves_def db_steps_rollback)

lemma moves_gauge [keeps_rules]:
  "keeps moves (set_gauge n l v)" "keeps moves (swept b i)"
  unfolding swept_def set_gauge_def by (intro keeps_rules | simp add: keeps_def moves_def)+

lemma moves_wills [keeps_rules]:
  "keeps moves (fireDueWills X E)" "keeps moves (handleDeadBroker X E b)"
  unfolding fireDueWills_def fire_due_def handleDeadBroker_def dead_broker_work_def fire_undelayed_def
    publish_will_row_def
  by (intro keeps_rules)+

lemma moves_jobs [keeps_rules]:
  "keeps moves expireSessions" "keeps moves (sweepOrphanDeliveries g)" "keeps moves expireRetained"
  "keeps moves (sweepInboundQoS2 g)" "keeps moves (sweepOrphanMessages g)"
  "keeps moves findDeadBrokerCandidates" "keeps moves (refreshNotifyQueue E)"
  "keeps moves refreshStateGauges" "keeps moves refreshDeliveriesGauge"
  unfolding expireSessions_def sweepOrphanDeliveries_def expireRetained_def sweepInboundQoS2_def
    sweepOrphanMessages_def findDeadBrokerCandidates_def refreshNotifyQueue_def refresh_count_def
    refreshStateGauges_def refreshDeliveriesGauge_def
  by (intro keeps_rules)+

lemma moves_run_job [keeps_rules]: "keeps moves (run_job X E j b)"
  by (cases b) (simp_all only: run_job.simps, (intro keeps_rules)+)

lemma moves_timed [keeps_rules]: "keeps moves m \<Longrightarrow> keeps moves (timed b m)"
  unfolding timed_def by (intro keeps_rules)

lemma moves_Tick [keeps_rules]: "keeps moves (Tick X E j)"
proof -
  have "keeps moves (tick_each X E t bs j e)" for t bs j e
  proof (induction bs arbitrary: j e)
    case (Cons b bs)
    show ?case unfolding tick_each.simps by (intro keeps_rules Cons)
  qed (unfold tick_each.simps, intro keeps_rules)
  then show ?thesis
    unfolding Tick_def tick_dead_def tick_dead_broker_def by (intro keeps_rules)
qed

lemma moves_sleep [keeps_rules]: "keeps moves (go_sleep b)"
  by (simp add: go_sleep_def keeps_def moves_def)

lemma moves_reconnect [keeps_rules]: "keeps moves (reconnect ctx_done)"
proof -
  have "keeps moves (reconnect_loop ctx_done n b)" for n b
  proof (induction n arbitrary: b)
    case (Suc n)
    show ?case
      unfolding reconnect_loop.simps dialAndRegister_def acquireBrokerLock_def
      by (intro keeps_rules Suc)
  qed (unfold reconnect_loop.simps, intro keeps_rules)
  then show ?thesis unfolding reconnect_def .
qed

lemma moves_dispatchNotification [keeps_rules]: "keeps moves (dispatchNotification X self n)"
  unfolding dispatchNotification_def deliver_id_def QuotaExceededLocally_def by (intro keeps_rules)

lemma moves_listener [keeps_rules]: "keeps moves (listener_step X ctx_done r)"
  unfolding listener_step_def
  by (cases r; simp only: wait_result.simps; intro keeps_rules)

section \<open>What a Pod does\<close>

text \<open>Everything a Pod's engine does on its own initiative or on a client's: the entry points
  of the source. The clock moves between them.\<close>

datatype pod_action =
    ServeSocket conn_ref reader string string uuid
  | DeliverMessage nat
  | DrainWakeup conn_ref
  | KickQuota string uuid
  | TakeoverSignal conn_ref
  | KickDrains
  | Attest
  | Sweep
  | JanitorTick pg_env janitor
  | Listen "instant \<Rightarrow> bool" wait_result
  | Stop

fun run_action :: "ext \<Rightarrow> pod_action \<Rightarrow> world \<Rightarrow> world" where
  "run_action X (ServeSocket k rd addr auto token) w = snd (accept_conn X k rd addr auto token w)"
| "run_action X (DeliverMessage msg) w = snd (Deliver X msg w)"
| "run_action X (DrainWakeup k) w = snd (drain_wakeup X k w)"
| "run_action X (KickQuota cid token) w = snd (QuotaExceededLocallyForToken X cid token w)"
| "run_action X (TakeoverSignal k) w = snd (ShutdownForTakeover k w)"
| "run_action X KickDrains w = snd (KickAllDrains w)"
| "run_action X Attest w = snd (AttestOwnedSessions w)"
| "run_action X Sweep w = snd (sweepOrphanedSockets w)"
| "run_action X (JanitorTick E j) w = snd (Tick X E j w)"
| "run_action X (Listen ctx_done r) w = snd (listener_step X ctx_done r w)"
| "run_action X Stop w = snd (shutdownGracefully X w)"

lemma run_action_moves: "db_steps (store w) (store (run_action X a w))"
proof (cases a)
  case (ServeSocket k rd addr auto token)
  then show ?thesis
    using moves_accept [of X k rd addr auto token] by (simp add: keeps_def moves_def)
next
  case (DeliverMessage msg)
  then show ?thesis using moves_Deliver(1) [of X msg] by (simp add: keeps_def moves_def)
next
  case (DrainWakeup k)
  then show ?thesis using moves_drain [of X k] by (simp add: keeps_def moves_def)
next
  case (KickQuota cid token)
  then show ?thesis using moves_quota(1) [of X cid token] by (simp add: keeps_def moves_def)
next
  case (TakeoverSignal k)
  then show ?thesis using moves_closing(1) [of k] by (simp add: keeps_def moves_def)
next
  case KickDrains
  then show ?thesis using moves_pod(1) by (simp add: keeps_def moves_def)
next
  case Attest
  then show ?thesis using moves_pod(2) by (simp add: keeps_def moves_def)
next
  case Sweep
  then show ?thesis using moves_pod(3) by (simp add: keeps_def moves_def)
next
  case (JanitorTick E j)
  then show ?thesis using moves_Tick [of X E j] by (simp add: keeps_def moves_def)
next
  case (Listen ctx_done r)
  then show ?thesis using moves_listener [of X ctx_done r] by (simp add: keeps_def moves_def)
next
  case Stop
  then show ?thesis using moves_pod(4) [of X] by (simp add: keeps_def moves_def)
qed

text \<open>A cluster: Pods that share one database. A step is one action of one Pod, at any time
  and under any schedule of failures.\<close>

definition pod_world :: "pod \<Rightarrow> db \<Rightarrow> instant \<Rightarrow> fault option list \<Rightarrow> world" where
  "pod_world p d t fs = pod.extend p (world.fields d t fs)"

inductive cluster_step :: "ext \<Rightarrow> (nat \<Rightarrow> pod) \<times> db \<Rightarrow> (nat \<Rightarrow> pod) \<times> db \<Rightarrow> bool" for X where
  act: "w = run_action X a (pod_world (pods i) d t fs) \<Longrightarrow>
     cluster_step X (pods, d) (pods(i := pod.truncate w), store w)"

lemma cluster_step_moves: "cluster_step X s s' \<Longrightarrow> db_steps (snd s) (snd s')"
proof (induction rule: cluster_step.induct)
  case (act w a pods i d t fs)
  have "store (pod_world (pods i) d t fs) = d"
    by (simp add: pod_world_def pod.defs world.defs)
  with act run_action_moves [of "pod_world (pods i) d t fs" X a] show ?case by simp
qed

lemma cluster_moves: "(cluster_step X)\<^sup>*\<^sup>* s s' \<Longrightarrow> db_steps (snd s) (snd s')"
  by (induction rule: rtranclp_induct) (auto dest: cluster_step_moves)

end
