(* ===== verification/PublishFacts.thy ===== *)
theory PublishFacts
  imports Steps
begin

text \<open>
  What the publisher path guarantees. The transaction of \<open>publishCore\<close> refines an atomic
  transition of the database; its effect is stated as the MQTT delivery rule (who gets which
  QoS), as the set of Pods notified, as an update of the retained message, and as a claim of
  the QoS 2 packet identifier.
\<close>

section \<open>The atomic specification\<close>

definition dedup_db :: "publish_core \<Rightarrow> instant \<Rightarrow> unit stmt" where
  "dedup_db p t d =
     (case pc_QoS2DedupKey p of
        None \<Rightarrow> Inr ((), d)
      | Some key \<Rightarrow> and_then (ins_inbound_qos2 (key_ClientID key) (unat (key_PacketID key)) t d)
          (\<lambda>(n, d1). if n = 0 then Inl ErrQoS2Duplicate else Inr ((), d1)))"

definition retain_db :: "ext \<Rightarrow> publish_core \<Rightarrow> instant \<Rightarrow> unit stmt" where
  "retain_db X p t d =
     (if \<not> pc_Retain p then Inr ((), d)
      else if payload_bytes (pc_Payload p) = [] then Inr ((), del_retained (pc_Topic p) d)
      else upsert_retained (json_me X) (pc_Topic p) (payload_bytes (pc_Payload p)) (pc_QoS p)
             (jsonOrNil X (pc_Properties p)) t d)"

definition publish_db :: "ext \<Rightarrow> publish_core \<Rightarrow> instant \<Rightarrow> int \<Rightarrow> publishResult stmt" where
  "publish_db X p t maxq d =
     and_then (dedup_db p t d) (\<lambda>(_, d1).
     and_then (retain_db X p t d1) (\<lambda>(_, d2).
     and_then (mqtt_publish (json_me X) (pc_Topic p) (pc_Payload p) (pc_QoS p) (pc_Retain p)
          (jsonOrNil X (pc_Properties p))
          (if pc_Publisher p = [] then None else Some (pc_Publisher p)) maxq t d2) (\<lambda>(r, d3).
     and_then (if pr_brokers r = [] then Inr ((), d3)
               else pg_notify (map (publish_channel X) (pr_brokers r)) (itoa (pr_msg_id r)) d3)
      (\<lambda>(_, d4). Inr (\<lparr>MessageID = pr_msg_id r, BrokerIDs = pr_brokers r,
                        OverflowClients = pr_overflow r\<rparr>, d4)))))"

lemma publish_dedup_Inr:
  assumes "publish_dedup p w = (Inr u, w')"
  obtains d fs where "dedup_db p (now w) (store w) = Inr ((), d)" "w' = w\<lparr>faults := fs, store := d\<rparr>"
proof (cases "pc_QoS2DedupKey p")
  case None
  with assms have "w' = w" by (simp add: publish_dedup_def)
  with None show thesis
    by (intro that [of "store w" "faults w"]) (simp_all add: dedup_db_def world_eta)
next
  case (Some key)
  with assms obtain n w1 where
    s: "sql (ins_inbound_qos2 (key_ClientID key) (unat (key_PacketID key)) (now w)) w = (Inr n, w1)"
    and n: "n \<noteq> 0" "w' = w1"
    by (auto simp: publish_dedup_def go_bind_Inr split: if_splits)
  from s show thesis
    by (rule sql_Inr) (use Some n that in \<open>auto simp: dedup_db_def\<close>)
qed

lemma publish_retain_Inr:
  assumes "go_when (pc_Retain p) (publish_retain X p) w = (Inr u, w')"
  obtains d fs where "retain_db X p (now w) (store w) = Inr ((), d)" "w' = w\<lparr>faults := fs, store := d\<rparr>"
proof (cases "pc_Retain p")
  case False
  with assms have "w' = w" by simp
  with False show thesis
    by (intro that [of "store w" "faults w"]) (simp_all add: retain_db_def world_eta)
next
  case True
  show thesis
  proof (cases "payload_bytes (pc_Payload p) = []")
    case True
    with \<open>pc_Retain p\<close> assms have "execute (del_retained (pc_Topic p)) w = (Inr u, w')"
      by (simp add: publish_retain_def)
    then show thesis
      by (rule execute_Inr) (use True \<open>pc_Retain p\<close> that in \<open>auto simp: retain_db_def\<close>)
  next
    case False
    with \<open>pc_Retain p\<close> assms have
      "sql (upsert_retained (json_me X) (pc_Topic p) (payload_bytes (pc_Payload p)) (pc_QoS p)
         (jsonOrNil X (pc_Properties p)) (now w)) w = (Inr u, w')"
      by (auto simp: publish_retain_def go_bind_Inr)
    then show thesis
      by (rule sql_Inr) (use False \<open>pc_Retain p\<close> that in \<open>auto simp: retain_db_def\<close>)
  qed
qed

lemma publish_body_Inr:
  assumes "publish_body X p w = (Inr res, w')"
  shows "publish_db X p (now w) (maxQueued (knobs w)) (store w) = Inr (res, store w')
    \<and> (\<exists>fs. w' = w\<lparr>faults := fs, store := store w'\<rparr>)"
proof -
  let ?props = "jsonOrNil X (pc_Properties p)"
  let ?publ = "if pc_Publisher p = [] then None else Some (pc_Publisher p)"
  from assms obtain w1 w2 where w1: "publish_dedup p w = (Inr (), w1)"
    and w2: "go_when (pc_Retain p) (publish_retain X p) w1 = (Inr (), w2)"
    and rest: "go_bind (sql (mqtt_publish (json_me X) (pc_Topic p) (pc_Payload p) (pc_QoS p)
          (pc_Retain p) ?props ?publ (maxQueued (knobs w2)) (now w2))) (\<lambda>r.
        go_then (go_when (pr_brokers r \<noteq> [])
          (sql (pg_notify (map (publish_channel X) (pr_brokers r)) (itoa (pr_msg_id r)))))
        (go_return \<lparr>MessageID = pr_msg_id r, BrokerIDs = pr_brokers r,
                    OverflowClients = pr_overflow r\<rparr>)) w2 = (Inr res, w')"
    by (auto simp: publish_body_def go_bind_Inr)
  obtain d1 fs1 where d1: "dedup_db p (now w) (store w) = Inr ((), d1)" "w1 = w\<lparr>faults := fs1, store := d1\<rparr>"
    using w1 by (rule publish_dedup_Inr)
  obtain d2 fs2 where d2: "retain_db X p (now w) d1 = Inr ((), d2)" "w2 = w1\<lparr>faults := fs2, store := d2\<rparr>"
    using w2 d1(2) by (auto elim: publish_retain_Inr)
  from rest obtain r w3 where w3: "sql (mqtt_publish (json_me X) (pc_Topic p) (pc_Payload p) (pc_QoS p)
          (pc_Retain p) ?props ?publ (maxQueued (knobs w)) (now w)) w2 = (Inr r, w3)"
    and tail: "go_then (go_when (pr_brokers r \<noteq> [])
          (sql (pg_notify (map (publish_channel X) (pr_brokers r)) (itoa (pr_msg_id r)))))
        (go_return \<lparr>MessageID = pr_msg_id r, BrokerIDs = pr_brokers r,
                    OverflowClients = pr_overflow r\<rparr>) w3 = (Inr res, w')"
    using d1(2) d2(2) by (auto simp: go_bind_Inr)
  obtain d3 fs3 where d3: "mqtt_publish (json_me X) (pc_Topic p) (pc_Payload p) (pc_QoS p)
      (pc_Retain p) ?props ?publ (maxQueued (knobs w)) (now w) d2 = Inr (r, d3)"
    "w3 = w2\<lparr>faults := fs3, store := d3\<rparr>"
    using w3 d2(2) by (auto elim: sql_Inr)
  have res: "res = \<lparr>MessageID = pr_msg_id r, BrokerIDs = pr_brokers r, OverflowClients = pr_overflow r\<rparr>"
    using tail by (auto simp: go_bind_Inr)
  have "(if pr_brokers r = [] then Inr ((), d3)
      else pg_notify (map (publish_channel X) (pr_brokers r)) (itoa (pr_msg_id r)) d3) = Inr ((), store w')
    \<and> (\<exists>fs. w' = w3\<lparr>faults := fs, store := store w'\<rparr>)"
  proof (cases "pr_brokers r = []")
    case True
    with tail d3(2) show ?thesis
      by (auto simp: go_bind_Inr intro: exI [of _ "faults w3"])
  next
    case False
    with tail have "sql (pg_notify (map (publish_channel X) (pr_brokers r)) (itoa (pr_msg_id r))) w3
        = (Inr (), w')"
      by (auto simp: go_bind_Inr)
    then show ?thesis
      by (rule sql_Inr) (use False d3(2) in auto)
  qed
  with d1 d2 d3 res show ?thesis
    by (auto simp: publish_db_def)
qed

text \<open>The transaction refines the atomic specification, under every schedule.\<close>

lemma publishCore_Inr:
  assumes "publishCore X p w = (Inr res, w')"
  shows "publish_db X p (now w) (maxQueued (knobs w)) (store w) = Inr (res, store w')"
proof -
  from assms obtain w1 where "go_tx (publish_body X p) w = (Inr res, w1)" "store w' = store w1"
    by (auto simp: publishCore_def go_bind_Inr)
  then show ?thesis
    by (elim go_tx_Inr) (auto dest: publish_body_Inr)
qed

lemma publishCore_Inl:
  "publishCore X p w = (Inl e, w') \<Longrightarrow> tables.truncate (store w') = tables.truncate (store w)"
  by (auto simp: publishCore_def go_bind_Inl dest: go_tx_Inl)

text \<open>C2: publishing is atomic. Under every schedule of failures, the publish transaction
  either performs the whole specified transition (duplicate check, retained message, message
  row, deliveries, notifications) or reports an error and leaves every table, the
  notification queue included, as it was.\<close>

theorem publishCore_atomic:
  "case publishCore X p w of
     (Inr res, w') \<Rightarrow> publish_db X p (now w) (maxQueued (knobs w)) (store w) = Inr (res, store w')
   | (Inl e, w') \<Rightarrow> tables.truncate (store w') = tables.truncate (store w)"
  using publishCore_Inr publishCore_Inl by (auto split: prod.splits sum.splits)

section \<open>The effect of a publish\<close>

fun new_rows :: "nat \<Rightarrow> nat \<Rightarrow> match_row list \<Rightarrow> delivery_row list" where
  "new_rows i s [] = []"
| "new_rows i s (m # ms) =
     \<lparr>d_id = s, d_client_id = mt_client m, d_message_id = i, d_qos = mt_qos m,
      d_packet_id = None, d_state = 0\<rparr> # new_rows i (s + 1) ms"

lemma deliveries_ins_deliveries:
  "deliveries (ins_deliveries i ms d) = deliveries d @ new_rows i (deliveries_seq d) ms"
  by (induction ms arbitrary: d) auto

lemma matches_cong:
  assumes "sessions d = sessions d0" "subscriptions d = subscriptions d0"
  shows "matches topic publ q d = matches topic publ q d0"
  using assms by (simp add: matches_def match_of_def matching_subs_def)

lemma inserted_cong: "deliveries d = deliveries d0 \<Longrightarrow> inserted maxq d ms = inserted maxq d0 ms"
  by (simp add: inserted_def over_cap_def queue_depth_def)

abbreviation publisher_of :: "publish_core \<Rightarrow> string option" where
  "publisher_of p \<equiv> (if pc_Publisher p = [] then None else Some (pc_Publisher p))"

definition reached :: "publish_core \<Rightarrow> int \<Rightarrow> db \<Rightarrow> match_row list" where
  "reached p maxq d = inserted maxq d (matches (pc_Topic p) (publisher_of p) (pc_QoS p) d)"

lemma dedup_db_frame:
  assumes "dedup_db p t d = Inr (u, d1)"
  shows "sessions d1 = sessions d" "subscriptions d1 = subscriptions d" "deliveries d1 = deliveries d"
    "messages d1 = messages d" "retained d1 = retained d" "notifications d1 = notifications d"
    "messages_seq d1 = messages_seq d" "deliveries_seq d1 = deliveries_seq d"
  using assms
  by (auto simp: dedup_db_def and_then_Inr ins_inbound_qos2_def split: option.splits if_splits)

lemma retain_db_frame:
  assumes "retain_db X p t d = Inr (u, d1)"
  shows "sessions d1 = sessions d" "subscriptions d1 = subscriptions d" "deliveries d1 = deliveries d"
    "messages d1 = messages d" "inbound_qos2 d1 = inbound_qos2 d" "notifications d1 = notifications d"
    "messages_seq d1 = messages_seq d" "deliveries_seq d1 = deliveries_seq d"
  using assms
  by (auto simp: retain_db_def del_retained_def upsert_retained_def and_then_Inr put_retained_def
      split: if_splits)

lemma publish_db_effect:
  assumes "publish_db X p t maxq d = Inr (res, d')"
  shows "\<exists>d1 d2 payload me. dedup_db p t d = Inr ((), d1) \<and> retain_db X p t d1 = Inr ((), d2) \<and>
    pc_Payload p = Some payload \<and> me_seconds (json_me X) (jsonOrNil X (pc_Properties p)) = Inr me \<and>
    MessageID res = messages_seq d \<and>
    BrokerIDs res = remdups (List.map_filter mt_broker (reached p maxq d)) \<and>
    messages d' = messages d @ [\<lparr>m_id = messages_seq d, m_topic = pc_Topic p, m_payload = payload,
       m_qos = pc_QoS p, m_retain = pc_Retain p, m_properties = jsonOrNil X (pc_Properties p),
       m_publisher = publisher_of p, m_created_at = t,
       m_expires_at = (if me > 0 then Some (t + seconds me) else None)\<rparr>] \<and>
    deliveries d' = deliveries d @ new_rows (messages_seq d) (deliveries_seq d) (reached p maxq d) \<and>
    notifications d' = notifications d @
      map (\<lambda>b. (publish_channel X b, itoa (messages_seq d))) (BrokerIDs res) \<and>
    sessions d' = sessions d \<and> subscriptions d' = subscriptions d \<and>
    retained d' = retained d2 \<and> inbound_qos2 d' = inbound_qos2 d1"
proof -
  from assms obtain d1 d2 r d3 where d1: "dedup_db p t d = Inr ((), d1)"
    and d2: "retain_db X p t d1 = Inr ((), d2)"
    and d3: "mqtt_publish (json_me X) (pc_Topic p) (pc_Payload p) (pc_QoS p) (pc_Retain p)
        (jsonOrNil X (pc_Properties p)) (publisher_of p) maxq t d2 = Inr (r, d3)"
    and d4: "(if pr_brokers r = [] then Inr ((), d3)
        else pg_notify (map (publish_channel X) (pr_brokers r)) (itoa (pr_msg_id r)) d3) = Inr ((), d')"
    and res: "res = \<lparr>MessageID = pr_msg_id r, BrokerIDs = pr_brokers r, OverflowClients = pr_overflow r\<rparr>"
    by (auto simp: publish_db_def and_then_Inr)
  note f = dedup_db_frame [OF d1] retain_db_frame [OF d2]
  from d3 show ?thesis
  proof (rule mqtt_publish_Inr)
    fix me d2'
    assume me: "me_seconds (json_me X) (jsonOrNil X (pc_Properties p)) = Inr me"
      and im: "ins_message (pc_Topic p) (pc_Payload p) (pc_QoS p) (pc_Retain p)
         (jsonOrNil X (pc_Properties p)) (publisher_of p)
         (if me > 0 then Some (t + seconds me) else None) t d2 = Inr (messages_seq d2, d2')"
      and r: "pr_msg_id r = messages_seq d2"
        "pr_brokers r = remdups (List.map_filter mt_broker
           (inserted maxq d2' (matches (pc_Topic p) (publisher_of p) (pc_QoS p) d2')))"
      and d3': "d3 = ins_deliveries (messages_seq d2)
           (inserted maxq d2' (matches (pc_Topic p) (publisher_of p) (pc_QoS p) d2')) d2'"
    from im obtain payload where pay: "pc_Payload p = Some payload"
      and g: "sessions d2' = sessions d" "subscriptions d2' = subscriptions d"
        "deliveries d2' = deliveries d" "deliveries_seq d2' = deliveries_seq d"
        "notifications d2' = notifications d" "retained d2' = retained d2"
        "inbound_qos2 d2' = inbound_qos2 d1"
        "messages d2' = messages d @ [\<lparr>m_id = messages_seq d, m_topic = pc_Topic p, m_payload = payload,
           m_qos = pc_QoS p, m_retain = pc_Retain p, m_properties = jsonOrNil X (pc_Properties p),
           m_publisher = publisher_of p, m_created_at = t,
           m_expires_at = (if me > 0 then Some (t + seconds me) else None)\<rparr>]"
      using f by (auto simp: ins_message_def split: option.splits)
    have reach: "inserted maxq d2' (matches (pc_Topic p) (publisher_of p) (pc_QoS p) d2') = reached p maxq d"
      unfolding reached_def using matches_cong [of d2' d] inserted_cong [of d2' d] g by metis
    have "deliveries d' = deliveries d3 \<and> messages d' = messages d3 \<and> sessions d' = sessions d3 \<and>
        subscriptions d' = subscriptions d3 \<and> retained d' = retained d3 \<and>
        inbound_qos2 d' = inbound_qos2 d3 \<and> notifications d' = notifications d3 @
          map (\<lambda>b. (publish_channel X b, itoa (pr_msg_id r))) (pr_brokers r)"
      using d4 by (auto simp: pg_notify_def split: if_splits)
    with d1 d2 pay me r d3' g f reach res show ?thesis
      by (intro exI [of _ d1] exI [of _ d2] exI [of _ payload] exI [of _ me])
         (simp add: deliveries_ins_deliveries)
  qed
qed

section \<open>The delivery rule\<close>

text \<open>The QoS at which a publish reaches a client, if it does: the highest QoS of the client's
  matching subscriptions, at most the publisher's; at QoS 0 only while the client is
  connected; above QoS 0 only while fewer than the configured number of deliveries are
  queued for it.\<close>

definition fanout_qos :: "string \<Rightarrow> string option \<Rightarrow> nat \<Rightarrow> int \<Rightarrow> db \<Rightarrow> string \<Rightarrow> nat option" where
  "fanout_qos topic publ qos maxq d c =
     (case session_of c d of
        None \<Rightarrow> None
      | Some s \<Rightarrow>
         (let qs = sub_qos ` {r \<in> set (subscriptions d). sub_client_id r = c \<and>
                mqtt_topic_match (sub_topic_filter r) topic \<and> \<not> (sub_no_local r \<and> publ = Some c)};
              q = min (Max qs) qos in
          if qs = {} then None
          else if q = 0 then (if s_connected s then Some 0 else None)
          else if maxq \<noteq> 0 \<and> maxq \<le> int (card {r \<in> set (deliveries d). d_client_id r = c}) then None
          else Some q))"

lemma foldr_max: "xs \<noteq> [] \<Longrightarrow> foldr max xs 0 = Max (set xs)" for xs :: "nat list"
proof (induction xs)
  case (Cons x xs)
  then show ?case by (cases xs) auto
qed simp

lemma queue_depth_card:
  assumes "db_wf d"
  shows "queue_depth c d = card {r \<in> set (deliveries d). d_client_id r = c}"
proof -
  have ok: "d_state r \<in> {0, 1, 2}" if "r \<in> set (deliveries d)" for r
    using assms that by (auto simp: db_wf_def deliveries_wf_def delivery_ok_def)
  have "distinct (deliveries d)"
    using assms by (simp add: db_wf_def deliveries_wf_def distinct_map)
  then have "distinct (filter (\<lambda>r. d_client_id r = c \<and> d_state r \<in> {0, 1, 2}) (deliveries d))"
    by simp
  then have "queue_depth c d =
      card (set (filter (\<lambda>r. d_client_id r = c \<and> d_state r \<in> {0, 1, 2}) (deliveries d)))"
    unfolding queue_depth_def by (rule distinct_card [symmetric])
  also have "set (filter (\<lambda>r. d_client_id r = c \<and> d_state r \<in> {0, 1, 2}) (deliveries d))
      = {r \<in> set (deliveries d). d_client_id r = c}"
    unfolding set_filter using ok by blast
  finally show ?thesis .
qed

lemma over_cap_iff: "over_cap maxq d c \<longleftrightarrow> maxq \<noteq> 0 \<and> maxq \<le> int (queue_depth c d)"
  by (auto simp: over_cap_def)

text \<open>One row of \<open>reached\<close> a client, as the rule says.\<close>

lemma reached_client:
  assumes "db_wf d"
  shows "map mt_qos (filter (\<lambda>m. mt_client m = c) (reached p maxq d)) =
    (case fanout_qos (pc_Topic p) (publisher_of p) (pc_QoS p) maxq d c of None \<Rightarrow> [] | Some q \<Rightarrow> [q])"
proof -
  let ?subs = "matching_subs (pc_Topic p) (publisher_of p) c d"
  let ?m = "match_of (pc_Topic p) (publisher_of p) (pc_QoS p) d"
  let ?cond = "\<lambda>m. (mt_qos m > 0 \<or> mt_connected m) \<and> (mt_qos m = 0 \<or> \<not> over_cap maxq d (mt_client m))"
  have dist: "distinct_key s_client_id (sessions d)"
    using assms by (simp add: db_wf_def sessions_wf_def)
  have one: "filter (\<lambda>s. s_client_id s = c) ss =
      (case get_row s_client_id c ss of None \<Rightarrow> [] | Some s \<Rightarrow> [s])"
    if "distinct_key s_client_id ss" for ss
    using that by (induction ss) (auto simp: get_row_def filter_empty_conv split: option.splits
        simp: find_None_iff find_Some_iff)
  have "filter (\<lambda>m. mt_client m = c) (reached p maxq d) =
      map ?m (filter (\<lambda>s. matching_subs (pc_Topic p) (publisher_of p) (s_client_id s) d \<noteq> [] \<and> ?cond (?m s))
        (filter (\<lambda>s. s_client_id s = c) (sessions d)))"
    unfolding reached_def inserted_def matches_def
    by (simp add: filter_map o_def match_of_def conj_ac cong: conj_cong)
  also have "\<dots> = (case session_of c d of None \<Rightarrow> [] | Some s \<Rightarrow>
      if ?subs \<noteq> [] \<and> ?cond (?m s) then [?m s] else [])"
    using one [OF dist] session_of_Some [of c d]
    by (auto simp: session_of_row split: option.splits)
  finally have l: "filter (\<lambda>m. mt_client m = c) (reached p maxq d) = \<dots>" .
  have set: "set ?subs = {r \<in> set (subscriptions d). sub_client_id r = c \<and>
      mqtt_topic_match (sub_topic_filter r) (pc_Topic p) \<and> \<not> (sub_no_local r \<and> publisher_of p = Some c)}"
    by (auto simp: matching_subs_def sub_matches_def)
  have q: "mt_qos (?m s) = min (Max (sub_qos ` set ?subs)) (pc_QoS p)" if "?subs \<noteq> []" "s_client_id s = c" for s
    using that foldr_max [of "map sub_qos ?subs"] by (simp add: match_of_def)
  show ?thesis
  proof (cases "session_of c d")
    case None
    then show ?thesis by (simp add: l fanout_qos_def)
  next
    case (Some s)
    then have s: "s_client_id s = c" "mt_client (?m s) = c" "mt_connected (?m s) = s_connected s"
      using session_of_Some [of c d s] by (simp_all add: match_of_def)
    let ?q = "min (Max (sub_qos ` set ?subs)) (pc_QoS p)"
    have rule: "fanout_qos (pc_Topic p) (publisher_of p) (pc_QoS p) maxq d c =
        (if ?subs = [] then None
         else if ?q = 0 then (if s_connected s then Some 0 else None)
         else if over_cap maxq d c then None else Some ?q)"
      unfolding fanout_qos_def Some set [symmetric] option.case Let_def over_cap_iff
        queue_depth_card [OF assms] by (simp only: image_is_empty set_empty)
    show ?thesis
    proof (cases "?subs = []")
      case True
      then show ?thesis by (simp add: l Some rule)
    next
      case False
      define qq where "qq = ?q"
      have m: "mt_qos (?m s) = qq" using q [OF False s(1)] by (simp add: qq_def)
      show ?thesis
        unfolding l Some rule option.case qq_def [symmetric] using False
        by (cases "qq = 0") (simp_all only: s m, auto simp: m)
    qed
  qed
qed

definition delivery_view :: "delivery_row \<Rightarrow> nat \<times> nat \<times> nat \<times> nat option" where
  "delivery_view r = (d_qos r, d_message_id r, d_state r, d_packet_id r)"

lemma new_rows_client:
  "map delivery_view (filter (\<lambda>r. d_client_id r = c) (new_rows i s ms)) =
     map (\<lambda>q. (q, i, 0, None)) (map mt_qos (filter (\<lambda>m. mt_client m = c) ms))"
  by (induction ms arbitrary: s) (auto simp: delivery_view_def)

lemma publish_rows:
  assumes "publishCore X p w = (Inr res, w')" "db_wf (store w)"
  shows "\<exists>new. deliveries (store w') = deliveries (store w) @ new \<and>
    (\<forall>c. map delivery_view (filter (\<lambda>r. d_client_id r = c) new) =
      (case fanout_qos (pc_Topic p) (publisher_of p) (pc_QoS p) (maxQueued (knobs w)) (store w) c of
         None \<Rightarrow> [] | Some q \<Rightarrow> [(q, MessageID res, 0, None)]))"
proof -
  from publish_db_effect [OF publishCore_Inr [OF assms(1)]]
  have "deliveries (store w') = deliveries (store w) @ new_rows (MessageID res)
      (deliveries_seq (store w)) (reached p (maxQueued (knobs w)) (store w))" by auto
  then show ?thesis
    by (intro exI conjI allI, assumption)
       (simp add: new_rows_client reached_client [OF assms(2)] split: option.splits)
qed

text \<open>C3: the delivery rule. A successful publish adds, for every client, exactly the one
  delivery the rule \<open>fanout_qos\<close> gives it (queued, without a packet identifier, of the new
  message), or none where the rule gives none; existing deliveries are untouched.\<close>

theorem publish_fanout:
  assumes "publishCore X p w = (Inr res, w')" "db_wf (store w)"
  shows "\<exists>new. deliveries (store w') = deliveries (store w) @ new \<and>
    (\<forall>c. map delivery_view (filter (\<lambda>r. d_client_id r = c) new) =
      (case fanout_qos (pc_Topic p) (publisher_of p) (pc_QoS p) (maxQueued (knobs w)) (store w) c of
         None \<Rightarrow> [] | Some q \<Rightarrow> [(q, MessageID res, 0, None)]))"
  using assms by (rule publish_rows)

text \<open>Which Pods a publish wakes.\<close>

lemma reached_client_iff:
  assumes "db_wf d"
  shows "(\<exists>m \<in> set (reached p maxq d). mt_client m = c) \<longleftrightarrow>
    fanout_qos (pc_Topic p) (publisher_of p) (pc_QoS p) maxq d c \<noteq> None"
proof -
  have "(\<exists>m \<in> set (reached p maxq d). mt_client m = c) \<longleftrightarrow>
      map mt_qos (filter (\<lambda>m. mt_client m = c) (reached p maxq d)) \<noteq> []"
    by (auto simp: filter_empty_conv)
  then show ?thesis
    unfolding reached_client [OF assms] by (auto split: option.splits)
qed

lemma reached_broker:
  assumes "m \<in> set (reached p maxq d)"
  shows "\<exists>s \<in> set (sessions d). s_client_id s = mt_client m \<and> s_broker_id s = mt_broker m"
  using assms by (auto simp: reached_def inserted_def matches_def match_of_def)

lemma session_unique:
  assumes "db_wf d" "s \<in> set (sessions d)" "s' \<in> set (sessions d)" "s_client_id s = s_client_id s'"
  shows "s = s'"
  using assms by (auto simp: db_wf_def sessions_wf_def distinct_map inj_on_def)

lemma reached_brokers_set:
  assumes "db_wf d"
  shows "set (List.map_filter mt_broker (reached p maxq d)) =
    {b. \<exists>s \<in> set (sessions d). s_broker_id s = Some b \<and>
        fanout_qos (pc_Topic p) (publisher_of p) (pc_QoS p) maxq d (s_client_id s) \<noteq> None}"
proof -
  have "set (List.map_filter mt_broker (reached p maxq d)) =
      {b. \<exists>m \<in> set (reached p maxq d). mt_broker m = Some b}"
    by (force simp: List.map_filter_def image_iff)
  also have "\<dots> = {b. \<exists>s \<in> set (sessions d). s_broker_id s = Some b \<and>
      (\<exists>m \<in> set (reached p maxq d). mt_client m = s_client_id s)}"
    using reached_broker session_unique [OF assms] by (auto; metis)
  finally show ?thesis
    by (simp add: reached_client_iff [OF assms])
qed

text \<open>Routing. The notifications a successful publish queues are one for each Pod that
  owns a client with a new delivery, on that Pod's channel and carrying the message's
  number; ownership is the session's \<open>broker_id\<close> alone, whatever \<open>connected\<close> says.\<close>

theorem publish_notifies_owners:
  assumes "publishCore X p w = (Inr res, w')" "db_wf (store w)"
  shows "\<exists>bs. distinct bs \<and>
    notifications (store w') = notifications (store w) @
      map (\<lambda>b. (publish_channel X b, itoa (MessageID res))) bs \<and>
    set bs = {b. \<exists>s \<in> set (sessions (store w)). s_broker_id s = Some b \<and>
      fanout_qos (pc_Topic p) (publisher_of p) (pc_QoS p) (maxQueued (knobs w)) (store w)
        (s_client_id s) \<noteq> None}"
proof -
  from publish_db_effect [OF publishCore_Inr [OF assms(1)]]
  have "notifications (store w') = notifications (store w) @
      map (\<lambda>b. (publish_channel X b, itoa (MessageID res))) (BrokerIDs res)"
    and "BrokerIDs res = remdups (List.map_filter mt_broker (reached p (maxQueued (knobs w)) (store w)))"
    by auto
  with reached_brokers_set [OF assms(2)] show ?thesis
    by (intro exI [of _ "BrokerIDs res"]) simp
qed

section \<open>Retained messages\<close>

lemma retain_db_lookup:
  assumes "retain_db X p t d = Inr (u, d')" "retained_wf d"
  shows "retained_of d' topic =
    (if pc_Retain p \<and> topic = pc_Topic p then
       (if payload_bytes (pc_Payload p) = [] then None
        else Some (payload_bytes (pc_Payload p), pc_QoS p, jsonOrNil X (pc_Properties p),
               (case me_seconds (json_me X) (jsonOrNil X (pc_Properties p)) of
                  Inl e \<Rightarrow> None | Inr v \<Rightarrow> if v \<le> 0 then None else Some (t + seconds v))))
     else retained_of d topic)"
proof -
  have put: "put_retained \<lparr>r_topic = pc_Topic p, r_payload = pl, r_qos = q, r_properties = pr,
      r_expires_at = e\<rparr> d = set_retained (pc_Topic p) (pl, q, pr, e) d" for pl q pr e
    by (simp add: set_retained_def)
  show ?thesis
    using assms
    by (auto simp: retain_db_def upsert_retained_def mqtt_retained_expires_at_def and_then_Inr put
        retained.get_put retained.get_del split: if_splits)
qed

text \<open>C6: retained messages. A successful publish with the RETAIN flag leaves, for its topic,
  exactly its payload, QoS, properties and absolute expiry, or nothing when the payload is
  empty; without the flag, and for every other topic, the retained message is unchanged.\<close>

theorem publish_retained:
  assumes "publishCore X p w = (Inr res, w')" "db_wf (store w)"
  shows "retained_of (store w') topic =
    (if pc_Retain p \<and> topic = pc_Topic p then
       (if payload_bytes (pc_Payload p) = [] then None
        else Some (payload_bytes (pc_Payload p), pc_QoS p, jsonOrNil X (pc_Properties p),
               (case me_seconds (json_me X) (jsonOrNil X (pc_Properties p)) of
                  Inl e \<Rightarrow> None | Inr v \<Rightarrow> if v \<le> 0 then None else Some (now w + seconds v))))
     else retained_of (store w) topic)"
proof -
  from publish_db_effect [OF publishCore_Inr [OF assms(1)]] obtain d1 d2 where
    d: "dedup_db p (now w) (store w) = Inr ((), d1)" "retain_db X p (now w) d1 = Inr ((), d2)"
      "retained (store w') = retained d2" by blast
  have "retained d1 = retained (store w)" using dedup_db_frame [OF d(1)] by simp
  with assms(2) have "retained_wf d1" by (simp add: db_wf_def retained_wf_def)
  from retain_db_lookup [OF d(2) this] d(3) \<open>retained d1 = retained (store w)\<close> show ?thesis
    by (simp add: retained_of_def)
qed


section \<open>QoS 2\<close>

lemma ins_inbound_dup:
  "exists_inbound_qos2 c pid d \<Longrightarrow> ins_inbound_qos2 c pid t d = Inr (0, d)"
  by (simp add: ins_inbound_qos2_def exists_inbound_qos2_def)

lemma publishCore_duplicate:
  assumes "pc_QoS2DedupKey p = Some key"
    and "exists_inbound_qos2 (key_ClientID key) (unat (key_PacketID key)) (store w)"
  shows "\<exists>e. fst (publishCore X p w) = Inl e \<and>
    tables.truncate (store (snd (publishCore X p w))) = tables.truncate (store w)"
proof (cases "publishCore X p w")
  case (Pair r w')
  show ?thesis
  proof (cases r)
    case (Inl e)
    with Pair publishCore_Inl show ?thesis by auto
  next
    case (Inr res)
    with Pair publishCore_Inr have "publish_db X p (now w) (maxQueued (knobs w)) (store w) = Inr (res, store w')"
      by blast
    with assms ins_inbound_dup show ?thesis
      by (simp add: publish_db_def dedup_db_def and_then_Inr)
  qed
qed

lemma publishCore_duplicate_error:
  assumes "pc_QoS2DedupKey p = Some key" "faults w = []"
    and "exists_inbound_qos2 (key_ClientID key) (unat (key_PacketID key)) (store w)"
  shows "fst (publishCore X p w) = Inl ErrQoS2Duplicate"
proof -
  have "publish_dedup p w = (Inl ErrQoS2Duplicate, w)"
    using assms by (simp add: publish_dedup_def sql_ok ins_inbound_dup)
  then have "publish_body X p w = (Inl ErrQoS2Duplicate, w)"
    by (simp add: publish_body_def)
  with assms(2) show ?thesis
    by (simp add: publishCore_def go_tx_def go_bind_def)
qed

text \<open>The claim of a QoS 2 publish is its row in \<open>inbound_qos2\<close>. These are the statements that
  release the claim of client \<open>c\<close>, packet \<open>pid\<close>, received at \<open>t\<close>: the PUBREL for it, a
  clean start of the client, the removal of the client's session (the row goes with it), and
  the janitor's sweep of claims older than its cutoff whose client is not connected.\<close>

inductive claim_released :: "string \<Rightarrow> nat \<Rightarrow> instant \<Rightarrow> db \<Rightarrow> db \<Rightarrow> bool" for c pid t where
  by_pubrel: "claim_released c pid t d (snd (del_inbound_qos2 c pid d))"
| by_clean_start: "claim_released c pid t d (del_inbound_qos2_client c d)"
| by_session_end: "s \<in> set (sessions d) \<Longrightarrow> s_client_id s = c \<Longrightarrow> P s \<Longrightarrow>
     claim_released c pid t d (snd (del_sessions_where P d))"
| by_sweep: "t < cutoff \<Longrightarrow> s \<in> set (sessions d) \<Longrightarrow> s_client_id s = c \<Longrightarrow> \<not> s_connected s \<Longrightarrow>
     claim_released c pid t d (snd (del_inbound_stale cutoff d))"

definition claim_held :: "string \<Rightarrow> nat \<Rightarrow> instant \<Rightarrow> db \<Rightarrow> bool" where
  "claim_held c pid t d \<longleftrightarrow> \<lparr>q_client_id = c, q_packet_id = pid, q_received_at = t\<rparr> \<in> set (inbound_qos2 d)"

lemma publishCore_claimed:
  assumes "publishCore X p w = (Inr res, w')" "pc_QoS2DedupKey p = Some key"
  shows "claim_held (key_ClientID key) (unat (key_PacketID key)) (now w) (store w')"
proof -
  from publish_db_effect [OF publishCore_Inr [OF assms(1)]] obtain d1 where
    "dedup_db p (now w) (store w) = Inr ((), d1)" "inbound_qos2 (store w') = inbound_qos2 d1" by blast
  with assms(2) show ?thesis
    by (auto simp: claim_held_def dedup_db_def and_then_Inr ins_inbound_qos2_def split: if_splits)
qed

text \<open>Every other statement, of whatever client and Pod, leaves the claim.\<close>

lemma claimed_publish:
  assumes "mqtt_publish jm topic p q ret props publ maxq t' d = Inr (r, d')"
  shows "inbound_qos2 d' = inbound_qos2 d"
  using assms
proof (rule mqtt_publish_Inr)
  have frame: "inbound_qos2 (ins_deliveries i ms d) = inbound_qos2 d" for i ms d
    by (induction ms arbitrary: d) simp_all
  fix me d1
  assume "ins_message topic p q ret props publ (if me > 0 then Some (t' + seconds me) else None) t' d = Inr (messages_seq d, d1)"
    and "d' = ins_deliveries (messages_seq d) (inserted maxq d1 (matches topic publ q d1)) d1"
  then show ?thesis by (auto simp: frame ins_message_def split: option.splits)
qed

lemma claimed_session_end:
  "claim_held c pid t d \<Longrightarrow> claim_held c pid t (snd (del_sessions_where P d)) \<or>
     claim_released c pid t d (snd (del_sessions_where P d))"
proof (cases "\<exists>s \<in> set (sessions d). s_client_id s = c \<and> P s")
  case False
  then show "claim_held c pid t d \<Longrightarrow> ?thesis" by (auto simp: claim_held_def del_sessions_where_def Let_def)
qed (blast intro: by_session_end)

lemma claimed_removed:
  assumes "claim_held c pid t d"
  shows "claim_held c pid t (snd (del_inbound_qos2 c' pid' d)) \<or> claim_released c pid t d (snd (del_inbound_qos2 c' pid' d))"
    "claim_held c pid t (del_inbound_qos2_client c' d) \<or> claim_released c pid t d (del_inbound_qos2_client c' d)"
    "claim_held c pid t (snd (del_inbound_stale cutoff d)) \<or> claim_released c pid t d (snd (del_inbound_stale cutoff d))"
proof -
  show "claim_held c pid t (snd (del_inbound_qos2 c' pid' d)) \<or> claim_released c pid t d (snd (del_inbound_qos2 c' pid' d))"
  proof (cases "c' = c \<and> pid' = pid")
    case False
    with assms have "claim_held c pid t (snd (del_inbound_qos2 c' pid' d))"
      by (auto simp: claim_held_def del_inbound_qos2_def)
    then show ?thesis ..
  qed (blast intro: by_pubrel)
  show "claim_held c pid t (del_inbound_qos2_client c' d) \<or> claim_released c pid t d (del_inbound_qos2_client c' d)"
  proof (cases "c' = c")
    case False
    with assms have "claim_held c pid t (del_inbound_qos2_client c' d)"
      by (auto simp: claim_held_def del_inbound_qos2_client_def)
    then show ?thesis ..
  qed (blast intro: by_clean_start)
  show "claim_held c pid t (snd (del_inbound_stale cutoff d)) \<or> claim_released c pid t d (snd (del_inbound_stale cutoff d))"
  proof (cases "t < cutoff \<and> (\<exists>s \<in> set (sessions d). s_client_id s = c \<and> \<not> s_connected s)")
    case False
    with assms have "claim_held c pid t (snd (del_inbound_stale cutoff d))"
      by (auto simp: claim_held_def del_inbound_stale_def Let_def)
    then show ?thesis ..
  qed (blast intro: by_sweep)
qed

lemma claimed_step:
  assumes "db_step d d'" "claim_held c pid t d"
  shows "claim_held c pid t d' \<or> claim_released c pid t d d'"
  using assms
proof (induction rule: db_step.induct)
  case (step_publish jm topic p q ret props publ maxq t' d r d')
  then show ?case using claimed_publish [OF step_publish.hyps] by (simp add: claim_held_def)
next
  case (step_del_session c' token d)
  then show ?case unfolding del_session_token_def by (rule claimed_session_end)
next
  case (step_del_sessions P d)
  then show ?case by (rule claimed_session_end)
next
  case (step_del_inbound c' pid' d)
  then show ?case by (rule claimed_removed)
next
  case (step_del_inbound_client c' d)
  then show ?case by (rule claimed_removed)
next
  case (step_inbound_stale cutoff d)
  then show ?case by (rule claimed_removed)
qed (auto simp: claim_held_def upd_session_takeover_def ins_session_def upd_session_timers_null_def
    upd_session_disconnected_def Let_def upd_sessions_detach_def upd_sessions_attest_def
    upsert_subscription_def del_subscription_def del_subscriptions_client_def del_retained_def
    upsert_retained_def and_then_Inr put_retained_def ins_message_def ins_delivery_def
    claim_deliveries_where_def del_deliveries_where_def upd_delivery_pubrec_def ins_inbound_qos2_def
    pg_notify_def upd_clear_wills_def upd_dead_delayed_def upd_dead_rest_def
    del_retained_expired_def del_orphan_messages_def split: if_splits option.splits)

lemma claimed_run:
  assumes "successively db_step (d # ds)" "claim_held c pid t d"
  shows "claim_held c pid t (last (d # ds)) \<or>
    (\<exists>i < length ds. claim_released c pid t ((d # ds) ! i) (ds ! i))"
  using assms
proof (induction ds arbitrary: d)
  case (Cons d1 ds)
  then have "db_step d d1" by simp
  from claimed_step [OF this Cons.prems(2)] show ?case
  proof
    assume "claim_held c pid t d1"
    from Cons.IH [OF _ this] Cons.prems(1) show ?thesis
      by (auto intro: exI [of _ "Suc i" for i])
  qed (auto intro: exI [of _ 0])
qed simp

text \<open>A released claim is gone.\<close>

lemma claim_released_gone: "claim_released c pid t d d' \<Longrightarrow> \<not> claim_held c pid t d'"
  by (induction rule: claim_released.induct)
     (auto simp: claim_held_def del_inbound_qos2_def del_inbound_qos2_client_def del_sessions_where_def
        del_inbound_stale_def Let_def)

text \<open>What the Pods of a cluster do is such a sequence of statements.\<close>

lemma cluster_statements:
  assumes "(cluster_step X)\<^sup>*\<^sup>* (pods, d) (pods', d')"
  shows "\<exists>ds. successively db_step (d # ds) \<and> last (d # ds) = d'"
proof -
  have "db_steps d d'" using cluster_moves [OF assms] by simp
  then show ?thesis
  proof (induction rule: converse_rtranclp_induct)
    case (step d d1)
    then obtain ds where "successively db_step (d1 # ds)" "last (d1 # ds) = d'" by blast
    with step(1) show ?case by (intro exI [of _ "d1 # ds"]) simp
  qed (intro exI [of _ "[]"], simp)
qed

text \<open>C11: QoS 2 publishes happen once. A QoS 2 publish has succeeded at some time, and then any
  statements of any clients and Pods have run, one after the other: other publishes, connects,
  acknowledgements, sweeps, anything the engine issues. If a second publish with the same client and
  packet identifier comes then, either it is refused: under every schedule it returns an error
  and changes no table, and without other failures the error is \<open>ErrQoS2Duplicate\<close>, which the
  caller answers with a PUBREC. Or one of these statements released the claim: the PUBREL for
  it, a clean start of this client, the end of its session, or the janitor's sweep, with
  a cutoff after the first publish and the client not connected.\<close>

theorem qos2_publish_once:
  assumes "publishCore X p w = (Inr res, w1)" "pc_QoS2DedupKey p = Some key" "pc_QoS2DedupKey p' = Some key"
    and "successively db_step (store w1 # ds)" "store w2 = last (store w1 # ds)"
  shows "(\<exists>e. fst (publishCore X p' w2) = Inl e) \<and>
      tables.truncate (store (snd (publishCore X p' w2))) = tables.truncate (store w2) \<and>
      (faults w2 = [] \<longrightarrow> fst (publishCore X p' w2) = Inl ErrQoS2Duplicate)
    \<or> (\<exists>i < length ds. claim_released (key_ClientID key) (unat (key_PacketID key)) (now w)
         ((store w1 # ds) ! i) (ds ! i))"
proof -
  from claimed_run [OF assms(4) publishCore_claimed [OF assms(1,2)]] show ?thesis
  proof
    assume "claim_held (key_ClientID key) (unat (key_PacketID key)) (now w) (last (store w1 # ds))"
    then have "exists_inbound_qos2 (key_ClientID key) (unat (key_PacketID key)) (store w2)"
      unfolding assms(5) by (force simp: claim_held_def exists_inbound_qos2_def)
    with publishCore_duplicate [OF assms(3), of w2 X] publishCore_duplicate_error [OF assms(3), of w2 X]
    show ?thesis by auto
  qed simp
qed

section \<open>Concrete publishes\<close>

text \<open>Two sessions, one connected to the sample Pod and one offline, and a publish to a topic
  both are subscribed to.\<close>

definition sample_session :: "string \<Rightarrow> uuid option \<Rightarrow> session_row" where
  "sample_session c b = \<lparr>s_client_id = c, s_broker_id = b, s_connected = (b \<noteq> None),
     s_protocol_version = 5, s_clean_start = False, s_expiry_interval = None, s_will_topic = None,
     s_will_payload = None, s_will_qos = None, s_will_retain = None, s_will_delay = None,
     s_will_properties = None, s_last_seen = 0, s_will_fire_at = None, s_session_expires_at = None,
     s_session_token = UUID 7\<rparr>"

definition sample_sub :: "string \<Rightarrow> string \<Rightarrow> nat \<Rightarrow> subscription_row" where
  "sample_sub c f q = \<lparr>sub_client_id = c, sub_topic_filter = f, sub_qos = q, sub_no_local = False,
     sub_retain_as_published = False, sub_retain_handling = 0, sub_subscription_id = None\<rparr>"

definition sample_db :: db where
  "sample_db = empty_db\<lparr>
     sessions := [sample_session ''c'' (Some (UUID 1)), sample_session ''e'' None],
     subscriptions := [sample_sub ''c'' ''a/+'' 1, sample_sub ''c'' ''a/b'' 2, sample_sub ''e'' ''#'' 1]\<rparr>"

definition sample_publish :: "nat \<Rightarrow> publish_core" where
  "sample_publish q = \<lparr>pc_Topic = ''a/b'', pc_Payload = Some [1], pc_QoS = q, pc_Retain = True,
     pc_Properties = [], pc_Publisher = ''p'',
     pc_QoS2DedupKey = (if q = 2 then Some \<lparr>key_ClientID = ''c'', key_PacketID = 4\<rparr> else None)\<rparr>"

lemma sample_db_wf: "db_wf sample_db"
  by (simp add: db_wf_def sessions_wf_def messages_wf_def deliveries_wf_def sample_db_def empty_db_def
      sample_session_def sample_sub_def sub_key_def packet_ids_unique_def)

lemma sample_run:
  "\<exists>w'. publishCore sample_ext (sample_publish q) (sample_world sample_db (sample_conn ''c'' 5))
    = (Inr \<lparr>MessageID = 1, BrokerIDs = [UUID 1], OverflowClients = []\<rparr>, w')"
  if "q = 1 \<or> q = 2"
proof -
  have "fst (publishCore sample_ext (sample_publish 1) (sample_world sample_db (sample_conn ''c'' 5)))
    = Inr \<lparr>MessageID = 1, BrokerIDs = [UUID 1], OverflowClients = []\<rparr>"
    by code_simp
  moreover have "fst (publishCore sample_ext (sample_publish 2) (sample_world sample_db (sample_conn ''c'' 5)))
    = Inr \<lparr>MessageID = 1, BrokerIDs = [UUID 1], OverflowClients = []\<rparr>"
    by code_simp
  ultimately show ?thesis using that by (metis prod.collapse)
qed

lemma sample_world_db [simp]: "store (sample_world d c) = d"
  by (simp add: sample_world_def)

theorem publish_fanout_witness:
  "\<exists>w' new. publishCore sample_ext (sample_publish 1) (sample_world sample_db (sample_conn ''c'' 5))
       = (Inr \<lparr>MessageID = 1, BrokerIDs = [UUID 1], OverflowClients = []\<rparr>, w') \<and>
     deliveries (store w') = new \<and>
     map delivery_view (filter (\<lambda>r. d_client_id r = ''e'') new) = [(1, 1, 0, None)]"
proof -
  obtain w' where r: "publishCore sample_ext (sample_publish 1)
      (sample_world sample_db (sample_conn ''c'' 5))
    = (Inr \<lparr>MessageID = 1, BrokerIDs = [UUID 1], OverflowClients = []\<rparr>, w')"
    using sample_run [of 1] by auto
  have q: "fanout_qos ''a/b'' (Some ''p'') 1 2 sample_db ''e'' = Some 1" by code_simp
  have d: "deliveries sample_db = []" by (simp add: sample_db_def empty_db_def)
  obtain new where n: "deliveries (store w') = deliveries sample_db @ new"
    and v: "map delivery_view (filter (\<lambda>r. d_client_id r = ''e'') new) =
      (case fanout_qos ''a/b'' (Some ''p'') 1 2 sample_db ''e'' of
         None \<Rightarrow> [] | Some q \<Rightarrow> [(q, 1, 0, None)])"
    using publish_fanout [OF r] sample_db_wf
    by (auto simp: sample_publish_def sample_world_def sample_knobs_def cong: option.case_cong)
  from r n v q d show ?thesis by (intro exI [of _ w'] exI [of _ new]) simp
qed

theorem publish_notifies_owners_witness:
  "\<exists>w'. publishCore sample_ext (sample_publish 1) (sample_world sample_db (sample_conn ''c'' 5))
       = (Inr \<lparr>MessageID = 1, BrokerIDs = [UUID 1], OverflowClients = []\<rparr>, w') \<and>
     notifications (store w') \<noteq> []"
proof -
  obtain w' where r: "publishCore sample_ext (sample_publish 1)
      (sample_world sample_db (sample_conn ''c'' 5))
    = (Inr \<lparr>MessageID = 1, BrokerIDs = [UUID 1], OverflowClients = []\<rparr>, w')"
    using sample_run [of 1] by auto
  have q: "fanout_qos ''a/b'' (Some ''p'') 1 2 sample_db ''c'' \<noteq> None" by code_simp
  have "UUID 1 \<in> {b. \<exists>s \<in> set (sessions sample_db). s_broker_id s = Some b \<and>
      fanout_qos ''a/b'' (Some ''p'') 1 2 sample_db (s_client_id s) \<noteq> None}"
    using q by (simp add: sample_db_def sample_session_def)
  with publish_notifies_owners [OF r] sample_db_wf obtain bs where
    "notifications (store w') = notifications sample_db @ map (\<lambda>b. (publish_channel sample_ext b, itoa 1)) bs"
    "UUID 1 \<in> set bs"
    by (auto simp: sample_publish_def sample_world_def sample_knobs_def)
  with r show ?thesis by auto
qed

theorem publish_retained_witness:
  "\<exists>w'. publishCore sample_ext (sample_publish 1) (sample_world sample_db (sample_conn ''c'' 5))
       = (Inr \<lparr>MessageID = 1, BrokerIDs = [UUID 1], OverflowClients = []\<rparr>, w') \<and>
     retained_of (store w') ''a/b'' = Some ([1], 1, None, None)"
proof -
  obtain w' where r: "publishCore sample_ext (sample_publish 1)
      (sample_world sample_db (sample_conn ''c'' 5))
    = (Inr \<lparr>MessageID = 1, BrokerIDs = [UUID 1], OverflowClients = []\<rparr>, w')"
    using sample_run [of 1] by auto
  from publish_retained [OF r, of "''a/b''"] sample_db_wf r show ?thesis
    by (simp add: sample_publish_def payload_bytes_def jsonOrNil_def me_seconds_def)
qed

text \<open>In between another client publishes with the same packet identifier.\<close>

theorem qos2_publish_once_witness:
  "\<exists>w1 ds. fst (publishCore sample_ext (sample_publish 2) (sample_world sample_db (sample_conn ''c'' 5)))
       = Inr \<lparr>MessageID = 1, BrokerIDs = [UUID 1], OverflowClients = []\<rparr> \<and>
     successively db_step (store w1 # ds) \<and> length ds = 1 \<and>
     exists_inbound_qos2 ''e'' 4 (last ds) \<and>
     fst (publishCore sample_ext (sample_publish 2) (w1\<lparr>store := last ds, faults := []\<rparr>)) = Inl ErrQoS2Duplicate"
proof -
  let ?w = "sample_world sample_db (sample_conn ''c'' 5)"
  let ?key = "\<lparr>key_ClientID = ''c'', key_PacketID = 4\<rparr>"
  obtain w1 where r: "publishCore sample_ext (sample_publish 2) ?w
    = (Inr \<lparr>MessageID = 1, BrokerIDs = [UUID 1], OverflowClients = []\<rparr>, w1)"
    using sample_run [of 2] by auto
  have key: "pc_QoS2DedupKey (sample_publish 2) = Some ?key" by (simp add: sample_publish_def)
  let ?row = "\<lparr>q_client_id = ''e'', q_packet_id = 4, q_received_at = 2000\<rparr>"
  let ?d2 = "store w1\<lparr>inbound_qos2 := inbound_qos2 (store w1) @ [?row]\<rparr>"
  from publish_db_effect [OF publishCore_Inr [OF r]] obtain d1 where
    d1: "dedup_db (sample_publish 2) (now ?w) (store ?w) = Inr ((), d1)" "inbound_qos2 (store w1) = inbound_qos2 d1"
    and ss: "sessions (store w1) = sessions sample_db" by auto
  have "inbound_qos2 (store w1) = [\<lparr>q_client_id = ''c'', q_packet_id = 4, q_received_at = now ?w\<rparr>]"
    using d1 key by (auto simp: dedup_db_def and_then_Inr ins_inbound_qos2_def sample_db_def empty_db_def split: if_splits)
  moreover have "session_of ''e'' (store w1) \<noteq> None"
    by (simp add: session_of_def ss sample_db_def sample_session_def)
  ultimately have ins: "ins_inbound_qos2 ''e'' 4 2000 (store w1) = Inr (1, ?d2)"
    by (simp add: ins_inbound_qos2_def)
  then have run: "successively db_step (store w1 # [?d2])" by (auto intro: step_ins_inbound)
  have "claim_held ''c'' 4 (now ?w) ?d2" using publishCore_claimed [OF r key] by (simp add: claim_held_def)
  then have "\<not> claim_released ''c'' 4 (now ?w) (store w1) ?d2" using claim_released_gone by blast
  with qos2_publish_once [OF r key key run, of "w1\<lparr>store := ?d2, faults := []\<rparr>"]
  have "fst (publishCore sample_ext (sample_publish 2) (w1\<lparr>store := ?d2, faults := []\<rparr>)) = Inl ErrQoS2Duplicate"
    by auto
  with r run show ?thesis by (intro exI [of _ w1] exI [of _ "[?d2]"]) (simp add: exists_inbound_qos2_def)
qed

end
