(* ===== verification/DeliverFacts.thy ===== *)
theory DeliverFacts
  imports PublishFacts
begin

text \<open>
  What the receiver path guarantees: a QoS 1 or 2 delivery that is sent has been claimed in
  the database under the packet identifier on the wire; a QoS 0 delivery is written at most
  once; the drain loop ends; the topic alias of a packet on the wire decodes to its topic.
\<close>

section \<open>Bookkeeping that neither writes nor stores\<close>

text \<open>Aliases, packet identifiers, flow-control slots and counters: none of it is visible to
  the client or in the database.\<close>

definition same_conn :: "conn \<Rightarrow> conn \<Rightarrow> bool" where
  "same_conn c c' \<longleftrightarrow> wire c' = wire c \<and> clientID c' = clientID c \<and> protocol c' = protocol c \<and>
     sessionToken c' = sessionToken c \<and> closing c' = closing c \<and> maxPacketSize c' = maxPacketSize c"

definition internal :: "world \<Rightarrow> world \<Rightarrow> bool" where
  "internal w w' \<longleftrightarrow> store w' = store w \<and> conns w' = conns w \<and> now w' = now w \<and>
     knobs w' = knobs w \<and> brokerID w' = brokerID w \<and> (\<forall>j. same_conn (heap w j) (heap w' j))"

interpretation internal: run_relation internal
  by unfold_locales (auto simp: internal_def same_conn_def)

lemma internal_upd [keeps_rules]: "(\<And>c. same_conn c (f c)) \<Longrightarrow> keeps internal (go_upd k f)"
  by (auto simp: keeps_def internal_def same_conn_def)

lemma same_conn_intros [keeps_rules]:
  "same_conn c (c\<lparr>packetIDState := s, packetIDSeeded := b\<rparr>)" "same_conn c (c\<lparr>inflight := i\<rparr>)"
  "same_conn c (kick c)"
  by (auto simp: same_conn_def kick_def split: option.splits)

lemma internal_count [keeps_rules]: "keeps internal (count n l i)"
  by (simp add: keeps_def internal_def same_conn_def)

lemma internal_basic [keeps_rules]:
  "keeps internal (nextPacketIDCandidate k)" "keeps internal (resolveAliasForOutbound k topic)"
  by (auto simp: keeps_def internal_def same_conn_def nextPacketIDCandidate_def Let_def
      resolveAliasForOutbound_def resolve_alias_def split: prod.splits option.splits if_splits)

lemma internal_alloc [keeps_rules]: "keeps internal (AllocPacketID k)"
proof -
  have "keeps internal (alloc_loop k n)" for n
    by (induction n) (auto simp only: alloc_loop.simps packetIDInUse_def intro!: keeps_rules)
  then show ?thesis
    unfolding AllocPacketID_def ensurePacketIDSeeded_def by (intro keeps_rules)
qed

lemma internal_flow [keeps_rules]:
  "keeps internal (tryAcquireInflight k)" "keeps internal (returnInflight k)"
  "keeps internal (alias_outgoing k it pk)"
  unfolding tryAcquireInflight_def KickDrain_def returnInflight_def alias_outgoing_def
  by (intro keeps_rules)+

text \<open>A write: refused, or one packet at the end of the connection's wire.\<close>

lemma conn_write_Inr:
  assumes "conn_write X k pk w = (Inr u, w')"
  shows "\<exists>fs. w' = upd_conn k (\<lambda>c. c\<lparr>wire := wire c @ [pk\<lparr>pkProtocol := protocol (heap w k)\<rparr>]\<rparr>)
      (w\<lparr>faults := fs\<rparr>)"
    "\<not> closing (heap w k)"
  using assms
  by (auto simp: conn_write_def go_bind_Inr Let_def dest!: call_world split: if_splits sum.splits)

lemma conn_write_Inl: "conn_write X k pk w = (Inl e, w') \<Longrightarrow> \<exists>fs. w' = w\<lparr>faults := fs\<rparr>"
  by (auto simp: conn_write_def go_bind_Inl Let_def dest!: call_world split: if_splits sum.splits
      intro: exI [of _ "faults w"])

section \<open>A sent delivery is claimed\<close>

lemma alias_outgoing_packet:
  assumes "alias_outgoing k it pk w = (Inr pk', w')"
  shows "ptype pk' = ptype pk" "Payload pk' = Payload pk" "Qos pk' = Qos pk"
  using assms
  by (auto simp: alias_outgoing_def go_bind_Inr apply_alias_def split: if_splits prod.splits)

lemma claim_packet_id_Inr:
  assumes "claim_packet_id k it w = (Inr (Some pid), w')" "it_state it = 0"
  shows "\<exists>n. claim_delivery (unat pid) (it_deliveryID it) (store w) = Inr (n, store w') \<and> 0 < n"
    "1 \<le> unat pid \<and> unat pid \<le> 65535"
    "\<forall>j. same_conn (heap w j) (heap w' j)" "conns w' = conns w"
proof -
  from assms obtain w1 n where a: "AllocPacketID k w = (Inr pid, w1)"
    and s: "sql (claim_delivery (unat pid) (it_deliveryID it)) w1 = (Inr n, w')" and n: "n \<noteq> 0"
    by (auto simp: claim_packet_id_def go_invert split: if_splits)
  have i: "internal w w1" using keepsD [OF internal_alloc a] .
  from s obtain d fs where "claim_delivery (unat pid) (it_deliveryID it) (store w1) = Inr (n, d)"
    "w' = w1\<lparr>faults := fs, store := d\<rparr>" by (rule sql_Inr)
  with i n AllocPacketID_sound [OF a]
  show "\<exists>n. claim_delivery (unat pid) (it_deliveryID it) (store w) = Inr (n, store w') \<and> 0 < n"
    "1 \<le> unat pid \<and> unat pid \<le> 65535"
    "\<forall>j. same_conn (heap w j) (heap w' j)" "conns w' = conns w"
    by (auto simp: internal_def)
qed

lemma send_outgoing_True:
  assumes "send_outgoing X k it pk w = (Inr True, w')" "it_qos it > 0"
  shows "store w' = store w" "conns w' = conns w"
    "wire (heap w' k) = wire (heap w k) @ [pk\<lparr>pkProtocol := protocol (heap w k)\<rparr>]"
    "\<forall>j. clientID (heap w' j) = clientID (heap w j)"
proof -
  obtain r w1 where cw: "conn_write X k pk w = (r, w1)" by fastforce
  with assms have "conn_write X k pk w = (Inr (), w')"
    by (cases r) (auto simp: send_outgoing_def go_bind_def go_attempt_def
        split: sum.splits prod.splits)
  with conn_write_Inr(1) [OF this]
  show "store w' = store w" "conns w' = conns w"
    "wire (heap w' k) = wire (heap w k) @ [pk\<lparr>pkProtocol := protocol (heap w k)\<rparr>]"
    "\<forall>j. clientID (heap w' j) = clientID (heap w j)"
    by auto
qed

lemma deliver_to_sent:
  assumes "deliver_to X k it ret dup w = (Inr True, w')" "it_qos it > 0" "it_state it = 0"
  shows "\<exists>pk n. claim_delivery (unat (PacketID pk)) (it_deliveryID it) (store w) = Inr (n, store w') \<and>
    0 < n \<and> 1 \<le> unat (PacketID pk) \<and> wire (heap w' k) = wire (heap w k) @ [pk] \<and>
    ptype pk = Publish \<and> Qos pk = it_qos it \<and> Payload pk = it_payload it \<and>
    conns w' = conns w \<and> (\<forall>j. clientID (heap w' j) = clientID (heap w j))"
proof -
  let ?out = "outgoing X (protocol (heap w k)) (now w) it ret dup"
  from assms obtain pk w1 w2 pid w3 where
    al: "alias_outgoing k it ?out w = (Inr pk, w1)"
    and ac: "tryAcquireInflight k w1 = (Inr True, w2)"
    and cl: "claim_packet_id k it w2 = (Inr (Some pid), w3)"
    and se: "send_outgoing X k it (pk\<lparr>PacketID := pid\<rparr>) w3 = (Inr True, w')"
    by (auto simp: deliver_to_def go_bind_Inr split: if_splits option.splits)
  have i: "internal w w2"
    using keepsD [OF internal_flow(3) al] keepsD [OF internal_flow(1) ac] internal.R_trans by blast
  note c = claim_packet_id_Inr [OF cl assms(3)] and s = send_outgoing_True [OF se assms(2)]
  let ?pk = "pk\<lparr>PacketID := pid, pkProtocol := protocol (heap w3 k)\<rparr>"
  have "ptype pk = Publish" "Qos pk = it_qos it" "Payload pk = it_payload it"
    using alias_outgoing_packet [OF al] by (simp_all add: outgoing_def new_packet_def Let_def)
  with c s i show ?thesis
    by (intro exI [of _ ?pk]) (auto simp: internal_def same_conn_def)
qed

text \<open>After a claim exactly the claimed delivery carries the packet identifier.\<close>

lemma claim_delivery_unique:
  assumes "claim_delivery pid i d = Inr (n, d')" "0 < n" "db_wf d"
    and "r \<in> set (deliveries d)" "d_id r = i" "r' \<in> set (deliveries d')" "d_client_id r' = d_client_id r"
  shows "(d_packet_id r' = Some pid \<longleftrightarrow> d_id r' = i) \<and> (d_id r' = i \<longrightarrow> d_state r' = 1)"
proof -
  let ?hit = "\<lambda>r. d_id r = i \<and> d_state r = 0"
  let ?f = "\<lambda>r. if ?hit r then r\<lparr>d_packet_id := Some pid, d_state := 1\<rparr> else r"
  have ds: "deliveries d' = map ?f (deliveries d)" and u: "packet_ids_unique (deliveries d')"
    and n: "n = length (filter ?hit (deliveries d))"
    using assms(1) by (auto simp: claim_delivery_def claim_deliveries_where_def Let_def split: if_splits)
  have inj: "x = r" if "x \<in> set (deliveries d)" "d_id x = i" for x
    using that assms(3-5) by (auto simp: db_wf_def deliveries_wf_def distinct_map inj_on_def)
  moreover have "\<exists>x \<in> set (deliveries d). ?hit x"
    using n assms(2) by (auto simp: filter_empty_conv)
  ultimately have r0: "d_state r = 0" by auto
  have claimed: "?f r \<in> set (deliveries d')" "d_packet_id (?f r) = Some pid"
    using assms(4,5) r0 ds by auto
  from assms(6) ds obtain x where x: "x \<in> set (deliveries d)" "r' = ?f x" by auto
  show ?thesis
  proof (cases "d_id x = i")
    case False
    have "r' = ?f r" if "d_packet_id r' = Some pid"
      using that u claimed assms(6,7) r0 by (auto simp: packet_ids_unique_def distinct_map inj_on_def)
    with False x assms(5) r0 show ?thesis by auto
  qed (use inj x r0 in auto)
qed

text \<open>C12: a QoS 1 or 2 delivery is claimed before it is sent. When \<open>deliverOneTracked\<close> reports a
  queued delivery as sent, exactly one packet has been appended to the client's connection,
  a PUBLISH with the delivery's QoS and payload, and in the database the delivery now has
  state 1 and carries that packet's identifier, which no other delivery of the client has.\<close>

theorem delivery_claimed_before_sent:
  assumes "deliverOneTracked X it ret dup w = (Inr True, w')"
    and "it_qos it > 0" "it_state it = 0" "db_wf (store w)"
    and "r \<in> set (deliveries (store w))" "d_id r = it_deliveryID it" "d_client_id r = it_clientID it"
  shows "\<exists>k pk. map_of (conns w) (it_clientID it) = Some k \<and>
    wire (heap w' k) = wire (heap w k) @ [pk] \<and> ptype pk = Publish \<and> Qos pk = it_qos it \<and>
    Payload pk = it_payload it \<and>
    (\<forall>r' \<in> set (deliveries (store w')). d_client_id r' = it_clientID it \<longrightarrow>
       (d_packet_id r' = Some (unat (PacketID pk)) \<longleftrightarrow> d_id r' = it_deliveryID it) \<and>
       (d_id r' = it_deliveryID it \<longrightarrow> d_state r' = 1))"
proof -
  from assms(1) obtain k where k: "map_of (conns w) (it_clientID it) = Some k"
    and d: "deliver_to X k it ret dup w = (Inr True, w')"
    by (auto simp: deliverOneTracked_def ConnFor_def go_bind_Inr split: option.splits)
  from deliver_to_sent [OF d assms(2,3)] obtain pk n where
    cl: "claim_delivery (unat (PacketID pk)) (it_deliveryID it) (store w) = Inr (n, store w')" "0 < n"
    and pk: "wire (heap w' k) = wire (heap w k) @ [pk]" "ptype pk = Publish" "Qos pk = it_qos it"
      "Payload pk = it_payload it"
    by blast
  with k claim_delivery_unique [OF cl assms(4-6)] assms(7) show ?thesis
    by (intro exI [of _ k] exI [of _ pk]) simp
qed

section \<open>QoS 0 deliveries are written at most once\<close>

definition has_delivery :: "nat \<Rightarrow> world \<Rightarrow> bool" where
  "has_delivery i w \<longleftrightarrow> (\<exists>r \<in> set (deliveries (store w)). d_id r = i)"

definition wires_same :: "world \<Rightarrow> world \<Rightarrow> bool" where
  "wires_same w w' \<longleftrightarrow> (\<forall>j. wire (heap w' j) = wire (heap w j))"

lemma internal_visible: "internal w w' \<Longrightarrow> wires_same w w' \<and> has_delivery i w' = has_delivery i w"
  by (auto simp: internal_def wires_same_def same_conn_def has_delivery_def)

lemma del_delivery_exec:
  assumes "exec (del_delivery i) w = (r, w')"
  shows "wires_same w w' \<and> (has_delivery j w' \<longrightarrow> has_delivery j w) \<and>
    (\<forall>n. r = Inr n \<longrightarrow> \<not> has_delivery i w' \<and> (0 < n \<longleftrightarrow> has_delivery i w))"
proof (cases r)
  case (Inl e)
  from assms [unfolded Inl exec_def] obtain fs where "w' = w\<lparr>faults := fs\<rparr>" by (rule sql_Inl)
  with Inl show ?thesis by (simp add: wires_same_def has_delivery_def)
next
  case (Inr n)
  with assms have "exec (del_delivery i) w = (Inr n, w')" by simp
  then obtain fs where "n = fst (del_delivery i (store w))"
    "w' = w\<lparr>faults := fs, store := snd (del_delivery i (store w))\<rparr>" by (rule exec_Inr)
  with Inr show ?thesis
    by (auto simp: wires_same_def has_delivery_def del_delivery_def del_deliveries_where_def
        filter_empty_conv)
qed

lemma send_outgoing_qos0:
  assumes "send_outgoing X k it pk w = (r, w')" "it_qos it = 0"
  shows "\<not> has_delivery (it_deliveryID it) w \<Longrightarrow> r = Inr False \<and> wires_same w w'"
    "r = Inr True \<Longrightarrow> has_delivery (it_deliveryID it) w \<and> \<not> has_delivery (it_deliveryID it) w' \<and>
       wire (heap w' k) = wire (heap w k) @ [pk\<lparr>pkProtocol := protocol (heap w k)\<rparr>]"
proof -
  obtain r1 w1 where e: "exec (del_delivery (it_deliveryID it)) w = (r1, w1)" by fastforce
  note del = del_delivery_exec [OF e, of "it_deliveryID it"]
  have same: "heap w1 = heap w"
    using e by (cases r1) (auto simp: exec_def elim!: sql_Inl sql_Inr)
  obtain r2 w2 where c: "conn_write X k pk w1 = (r2, w2)" by fastforce
  show "r = Inr False \<and> wires_same w w'" if "\<not> has_delivery (it_deliveryID it) w"
    using assms e del that
    by (cases r1) (auto simp: send_outgoing_def go_bind_def go_attempt_def)
  show "has_delivery (it_deliveryID it) w \<and> \<not> has_delivery (it_deliveryID it) w' \<and>
       wire (heap w' k) = wire (heap w k) @ [pk\<lparr>pkProtocol := protocol (heap w k)\<rparr>]"
    if "r = Inr True"
  proof -
    from assms e c that obtain n where n: "r1 = Inr n" "0 < n" "r2 = Inr ()" "w' = w2"
      by (cases r1; cases r2)
        (auto simp: send_outgoing_def go_bind_def go_attempt_def split: if_splits)
    with conn_write_Inr(1) [of X k pk w1 "()" w2] c del same show ?thesis
      by (auto simp: has_delivery_def)
  qed
qed

lemma deliver_to_qos0:
  assumes "deliver_to X k it ret dup w = (r, w')" "it_qos it = 0"
  shows "\<not> has_delivery (it_deliveryID it) w \<Longrightarrow> r = Inr False \<and> wires_same w w'"
    "r = Inr True \<Longrightarrow> has_delivery (it_deliveryID it) w \<and> \<not> has_delivery (it_deliveryID it) w'"
proof -
  let ?out = "outgoing X (protocol (heap w k)) (now w) it ret dup"
  let ?drop = "\<lambda>l. go_then (go_ignore (exec (del_delivery (it_deliveryID it))))
      (go_then (count ''DeliveriesDroppedTotal'' l 1) (go_return False))"
  have drop: "r = Inr False \<and> wires_same w1 w'" if "?drop l w1 = (r, w')" for l w1
  proof -
    obtain r2 w2 where "exec (del_delivery (it_deliveryID it)) w1 = (r2, w2)" by fastforce
    with that del_delivery_exec [OF this] show ?thesis
      by (auto simp: go_ignore_eq wires_same_def)
  qed
  obtain pk w1 where al: "alias_outgoing k it ?out w = (Inr pk, w1)"
    by (fastforce simp: alias_outgoing_def resolveAliasForOutbound_def go_bind_def split: prod.splits)
  note i = internal_visible [OF keepsD [OF internal_flow(3) al], of "it_deliveryID it"]
  consider "?drop ''expired'' w = (r, w')" | "?drop ''oversized'' w1 = (r, w')"
    | "send_outgoing X k it pk w1 = (r, w')"
    using assms al by (auto simp: deliver_to_def split: if_splits)
  then have "(\<not> has_delivery (it_deliveryID it) w \<longrightarrow> r = Inr False \<and> wires_same w w') \<and>
      (r = Inr True \<longrightarrow> has_delivery (it_deliveryID it) w \<and> \<not> has_delivery (it_deliveryID it) w')"
  proof cases
    case 1
    with drop show ?thesis by auto
  next
    case 2
    with drop [of "''oversized''" w1] i show ?thesis by (auto simp: wires_same_def)
  next
    case 3
    with send_outgoing_qos0 [OF 3 assms(2)] i show ?thesis by (auto simp: wires_same_def)
  qed
  then show "\<not> has_delivery (it_deliveryID it) w \<Longrightarrow> r = Inr False \<and> wires_same w w'"
    "r = Inr True \<Longrightarrow> has_delivery (it_deliveryID it) w \<and> \<not> has_delivery (it_deliveryID it) w'"
    by auto
qed

text \<open>C13: QoS 0 deliveries are written at most once. A QoS 0 delivery is reported sent only if
  its row was there and is gone afterwards; and any call for the same delivery that starts
  without the row (a concurrent caller, or a later one) writes nothing to any connection.\<close>

theorem qos0_at_most_once:
  assumes "it_qos it = 0"
  shows "(fst (deliverOneTracked X it ret dup w) = Inr True \<longrightarrow>
      has_delivery (it_deliveryID it) w \<and>
      \<not> has_delivery (it_deliveryID it) (snd (deliverOneTracked X it ret dup w))) \<and>
    (\<not> has_delivery (it_deliveryID it) w \<longrightarrow>
      fst (deliverOneTracked X it ret dup w) = Inr False \<and>
      wires_same w (snd (deliverOneTracked X it ret dup w)))"
proof (cases "map_of (conns w) (it_clientID it)")
  case None
  then show ?thesis by (simp add: deliverOneTracked_def ConnFor_def wires_same_def)
next
  case (Some k)
  then have "deliverOneTracked X it ret dup w = deliver_to X k it ret dup w"
    by (simp add: deliverOneTracked_def ConnFor_def)
  with deliver_to_qos0 [of X k it ret dup w _ _, OF _ assms] show ?thesis
    by (metis prod.collapse)
qed

section \<open>The drain loop ends\<close>

definition queued :: "string \<Rightarrow> world \<Rightarrow> nat" where
  "queued c w = length (filter (\<lambda>r. d_client_id r = c \<and> d_state r = 0) (deliveries (store w)))"

lemma length_filter_map_less:
  assumes "\<And>x. P (f x) \<Longrightarrow> P x" "x \<in> set xs" "P x" "\<not> P (f x)"
  shows "length (filter P (map f xs)) < length (filter P xs)"
proof -
  have le: "length (filter P (map f ys)) \<le> length (filter P ys)" for ys
    using assms(1) by (induction ys) (auto simp: le_SucI)
  show ?thesis
    using assms(2-4)
  proof (induction xs)
    case (Cons y ys)
    then show ?case using le [of ys] assms(1) [of y] by auto
  qed simp
qed

lemma sel_drain_one_item:
  assumes "sel_drain_one c t d = Some it"
  shows "\<exists>r \<in> set (deliveries d). d_id r = it_deliveryID it \<and> d_client_id r = c \<and> d_state r = 0 \<and>
    it_clientID it = c \<and> it_state it = 0 \<and> it_qos it > 0"
proof -
  have "it \<in> set (delivery_items (\<lambda>r. d_client_id r = c \<and> d_state r = 0 \<and> d_qos r > 0) t d)"
    using assms by (auto simp: sel_drain_one_def split: list.splits)
       (metis list.set_intros(1) set_sort)
  then show ?thesis
    by (auto simp: delivery_items_def item_of_def split: option.splits if_splits)
qed

lemma drainOnce_progress:
  assumes "drainOnce X k w = (Inr False, w')"
  shows "queued (clientID (heap w k)) w' < queued (clientID (heap w k)) w"
    "clientID (heap w' k) = clientID (heap w k)"
proof -
  let ?c = "clientID (heap w k)"
  from assms obtain it w1 where q: "query (sel_drain_one ?c (now w)) w = (Inr (Some it), w1)"
    and d: "deliverOneTracked X it (wire_retain it) False w1 = (Inr True, w')"
    by (auto simp: drainOnce_def go_bind_Inr split: option.splits)
  from q obtain fs where s: "sel_drain_one ?c (now w) (store w) = Some it" and w1: "w1 = w\<lparr>faults := fs\<rparr>"
    by (elim query_Inr) auto
  from sel_drain_one_item [OF s] obtain r where r: "r \<in> set (deliveries (store w))"
    "d_id r = it_deliveryID it" "d_client_id r = ?c" "d_state r = 0"
    and it: "it_state it = 0" "it_qos it > 0" by blast
  from d obtain k' where d': "deliver_to X k' it (wire_retain it) False w1 = (Inr True, w')"
    by (auto simp: deliverOneTracked_def ConnFor_def go_bind_Inr split: option.splits)
  from deliver_to_sent [OF d' it(2,1)] w1 obtain pid n where
    cl: "claim_delivery pid (it_deliveryID it) (store w) = Inr (n, store w')"
    and cid: "\<forall>j. clientID (heap w' j) = clientID (heap w1 j)" by auto
  let ?hit = "\<lambda>r. d_id r = it_deliveryID it \<and> d_state r = 0"
  have "store w' = (store w)\<lparr>deliveries := map (\<lambda>r. if ?hit r
      then r\<lparr>d_packet_id := Some pid, d_state := 1\<rparr> else r) (deliveries (store w))\<rparr>"
    using cl by (auto simp: claim_delivery_def claim_deliveries_where_def Let_def split: if_splits)
  then have ds: "deliveries (store w') = map (\<lambda>r. if ?hit r
      then r\<lparr>d_packet_id := Some pid, d_state := 1\<rparr> else r) (deliveries (store w))" by simp
  show "queued ?c w' < queued ?c w"
    unfolding queued_def ds by (rule length_filter_map_less [OF _ r(1)]) (use r in \<open>auto split: if_splits\<close>)
  show "clientID (heap w' k) = ?c" using cid w1 by simp
qed

lemma drain_loop_enough:
  "queued (clientID (heap w k)) w < n \<Longrightarrow> fst (drain_loop X k n w) = Inr (Some ())"
proof (induction n arbitrary: w)
  case (Suc n)
  show ?case
  proof (cases "closing (heap w k)")
    case False
    obtain r w1 where d: "drainOnce X k w = (r, w1)" by fastforce
    show ?thesis
    proof (cases "r = Inr False")
      case True
      with d drainOnce_progress [of X k w w1] Suc.prems have
        "queued (clientID (heap w1 k)) w1 < n" by simp
      from Suc.IH [OF this] d False True show ?thesis by (simp add: go_bind_def go_attempt_def)
    next
      case r: False
      with d False show ?thesis
        by (cases r) (auto simp: go_bind_def go_attempt_def)
    qed
  qed simp
qed simp

text \<open>C14: the drain loop ends. Under every schedule of failures, the inner loop of
  \<open>runDrainLoop\<close> leaves within one iteration more than the client has queued deliveries:
  every iteration that goes on has claimed one of them. In particular the fuel
  \<open>drain_wakeup\<close> gives it is enough.\<close>

theorem drain_loop_ends:
  "(queued (clientID (heap w k)) w < n \<longrightarrow> fst (drain_loop X k n w) = Inr (Some ())) \<and>
   fst (drain_loop X k (length (deliveries (store w)) + 1) w) = Inr (Some ())"
proof -
  have "queued (clientID (heap w k)) w \<le> length (deliveries (store w))"
    by (simp add: queued_def)
  then show ?thesis
    using drain_loop_enough [of w k n X] drain_loop_enough [of w k "length (deliveries (store w)) + 1" X]
    by (simp del: drain_loop.simps)
qed

section \<open>Topic aliases decode to the topics\<close>

text \<open>What an MQTT 5 client makes of the topic alias of a PUBLISH (MQTT 5, 3.3.2.3.4): a
  packet without the property carries its topic; one with a topic and the property defines
  the alias; one with an empty topic uses it.\<close>

definition client_topic :: "packet \<Rightarrow> (16 word \<rightharpoonup> string) \<Rightarrow> string option \<times> (16 word \<rightharpoonup> string)" where
  "client_topic pk m =
     (if \<not> TopicAliasFlag (Properties pk) then (Some (TopicName pk), m)
      else if TopicName pk \<noteq> [] then (Some (TopicName pk), m(TopicAlias (Properties pk) \<mapsto> TopicName pk))
      else (m (TopicAlias (Properties pk)), m))"

text \<open>The client's map agrees with the server's, except for the topics \<open>lost\<close>.\<close>

definition aliases_agree :: "string set \<Rightarrow> conn \<Rightarrow> (16 word \<rightharpoonup> string) \<Rightarrow> bool" where
  "aliases_agree lost c m \<longleftrightarrow> alias_ok c \<and>
     (\<forall>am topic a. aliasOut c = Some am \<longrightarrow> map_of am topic = Some a \<longrightarrow> topic \<in> lost \<or> m a = Some topic)"

text \<open>The packet the client gets, and what its topic means there: the topic of the delivery, if it
  is not among the lost ones, and afterwards the maps agree as before. If the packet never
  reaches the client, at most this topic is lost with it, and not even that when it had its
  alias before.\<close>

definition topic_understood :: "string set \<Rightarrow> string \<Rightarrow> conn \<Rightarrow> (16 word \<rightharpoonup> string) \<Rightarrow> packet \<Rightarrow> bool" where
  "topic_understood lost topic c m pk \<longleftrightarrow> (\<exists>t m'. client_topic pk m = (t, m') \<and>
     (topic \<notin> lost \<longrightarrow> t = Some topic) \<and> aliases_agree lost c m') \<and>
     (TopicAliasFlag (Properties pk) \<longrightarrow>
        1 \<le> TopicAlias (Properties pk) \<and> TopicAlias (Properties pk) \<le> topicAliasMaximumOut c)"

definition topic_unsent :: "string set \<Rightarrow> string \<Rightarrow> conn \<Rightarrow> (16 word \<rightharpoonup> string) \<Rightarrow> conn \<Rightarrow> bool" where
  "topic_unsent lost topic c m c' \<longleftrightarrow> aliases_agree (insert topic lost) c' m \<and>
     (aliasOut c' = aliasOut c \<longrightarrow> aliases_agree lost c' m)"

lemma resolve_alias_agrees:
  assumes "aliases_agree lost c m" "resolve_alias topic c = (af, c')"
    and pk: "TopicName pk = topic" "topic \<noteq> []" "\<not> TopicAliasFlag (Properties pk)"
  shows "topic_understood lost topic c' m (apply_alias af pk) \<and> topic_unsent lost topic c m c'"
proof -
  obtain a fresh where af: "af = (a, fresh)" by (cases af)
  note r = assms(2) [unfolded af]
  have ok: "alias_ok c" using assms(1) by (simp add: aliases_agree_def)
  note k = alias_ok_resolve [OF ok r]
  have more: "aliases_agree (insert topic lost) c m" using assms(1) by (auto simp: aliases_agree_def)
  from r show ?thesis
  proof (cases rule: resolve_alias_cases)
    case plain
    with pk assms(1) af more show ?thesis
      by (simp add: topic_understood_def topic_unsent_def client_topic_def apply_alias_def)
  next
    case (known am)
    then have m: "topic \<in> lost \<or> m a = Some topic" using assms(1) by (auto simp: aliases_agree_def)
    have "a \<noteq> 0" using known ok by (force simp: alias_ok_def)
    with known m pk assms(1) af k more show ?thesis
      by (auto simp: topic_understood_def topic_unsent_def client_topic_def apply_alias_def word_gt_0)
  next
    case (new am)
    have a: "a \<noteq> 0" "\<And>t. map_of am t \<noteq> Some a"
    proof -
      have u: "unat a = unat (aliasOutNext c) + 1" using new(3,5) unat_inc by blast
      then show "a \<noteq> 0" by auto
      show "map_of am t \<noteq> Some a" for t
      proof
        assume "map_of am t = Some a"
        then have "a \<le> aliasOutNext c" using ok new(1) by (auto simp: alias_ok_def)
        with u show False by (simp add: word_le_nat_alt)
      qed
    qed
    have out: "aliasOut c' = Some (AList.update topic a am)" using new(6) by simp
    have agree: "t \<in> lost \<or> m b = Some t" if "map_of am t = Some b" for t b
      using assms(1) new(1) that by (auto simp: aliases_agree_def)
    have table: "map_of (AList.update topic a am) = (map_of am)(topic \<mapsto> a)" by (simp add: update_conv')
    have "aliases_agree lost c' (m(a \<mapsto> topic))"
      unfolding aliases_agree_def out using k(1) table agree a(2) by (auto split: if_splits)
    moreover have "aliases_agree (insert topic lost) c' m"
      unfolding aliases_agree_def out using k(1) table agree by (auto split: if_splits)
    moreover have "aliasOut c' \<noteq> aliasOut c"
    proof
      assume "aliasOut c' = aliasOut c"
      then have "map_of (AList.update topic a am) topic = map_of am topic" using out new(1) by simp
      with table new(2) show False by simp
    qed
    ultimately show ?thesis
      using a new(4) pk af k
      by (auto simp: topic_understood_def topic_unsent_def client_topic_def apply_alias_def word_gt_0)
  qed
qed

text \<open>What neither writes to the connection nor touches its aliases.\<close>

definition same_aliases :: "conn \<Rightarrow> conn \<Rightarrow> bool" where
  "same_aliases c c' \<longleftrightarrow> wire c' = wire c \<and> protocol c' = protocol c \<and> aliasOut c' = aliasOut c \<and>
     aliasOutNext c' = aliasOutNext c \<and> topicAliasMaximumOut c' = topicAliasMaximumOut c"

definition aliases_kept :: "conn_ref \<Rightarrow> world \<Rightarrow> world \<Rightarrow> bool" where
  "aliases_kept k w w' \<longleftrightarrow> same_aliases (heap w k) (heap w' k)"

interpretation aliases_kept: run_relation "aliases_kept k" for k
  by unfold_locales (auto simp: aliases_kept_def same_aliases_def)

lemma aliases_kept_upd [keeps_rules]: "(\<And>c. same_aliases c (f c)) \<Longrightarrow> keeps (aliases_kept k) (go_upd j f)"
  by (auto simp: keeps_def aliases_kept_def same_aliases_def)

lemma same_aliases_intros [keeps_rules]:
  "same_aliases c (c\<lparr>packetIDState := s, packetIDSeeded := b\<rparr>)" "same_aliases c (c\<lparr>inflight := i\<rparr>)"
  "same_aliases c (kick c)"
  by (auto simp: same_aliases_def kick_def split: option.splits)

lemma aliases_kept_basic [keeps_rules]:
  "keeps (aliases_kept k) (count n l i)" "keeps (aliases_kept k) (nextPacketIDCandidate j)"
  "keeps (aliases_kept k) (sql s)" "keeps (aliases_kept k) (exec f)"
proof -
  show "keeps (aliases_kept k) (count n l i)" "keeps (aliases_kept k) (nextPacketIDCandidate j)"
    by (auto simp: keeps_def aliases_kept_def same_aliases_def nextPacketIDCandidate_def Let_def)
  show "keeps (aliases_kept k) (sql s)"
    by (rule aliases_kept.keeps_sql) (simp add: aliases_kept_def same_aliases_def)
  show "keeps (aliases_kept k) (exec f)"
    by (rule aliases_kept.keeps_exec) (simp add: aliases_kept_def same_aliases_def)
qed

lemma aliases_kept_claim [keeps_rules]:
  "keeps (aliases_kept k) (tryAcquireInflight j)" "keeps (aliases_kept k) (returnInflight j)"
  "keeps (aliases_kept k) (claim_packet_id j it)"
proof -
  have "keeps (aliases_kept k) (alloc_loop j n)" for n
    by (induction n) (auto simp only: alloc_loop.simps packetIDInUse_def intro!: keeps_rules)
  then have "keeps (aliases_kept k) (AllocPacketID j)"
    unfolding AllocPacketID_def ensurePacketIDSeeded_def by (intro keeps_rules)
  moreover show "keeps (aliases_kept k) (tryAcquireInflight j)" "keeps (aliases_kept k) (returnInflight j)"
    unfolding tryAcquireInflight_def KickDrain_def returnInflight_def by (intro keeps_rules)+
  ultimately show "keeps (aliases_kept k) (claim_packet_id j it)"
    unfolding claim_packet_id_def by (intro keeps_rules)
qed

text \<open>The rest of a delivery after the alias is chosen: with \<open>True\<close> as result it has written the
  packet, with the topic and the properties it was given; otherwise it has written nothing.\<close>

definition send_effect :: "conn_ref \<Rightarrow> packet \<Rightarrow> world \<Rightarrow> err + bool \<Rightarrow> world \<Rightarrow> bool" where
  "send_effect k pk w r w' \<longleftrightarrow> same_aliases ((heap w k)\<lparr>wire := wire (heap w' k)\<rparr>) (heap w' k) \<and>
     (r = Inr True \<longrightarrow> (\<exists>p. wire (heap w' k) = wire (heap w k) @ [p] \<and>
        TopicName p = TopicName pk \<and> Properties p = Properties pk)) \<and>
     (r \<noteq> Inr True \<longrightarrow> wire (heap w' k) = wire (heap w k))"

definition sends :: "conn_ref \<Rightarrow> packet \<Rightarrow> bool go \<Rightarrow> bool" where
  "sends k pk M \<longleftrightarrow> (\<forall>w. send_effect k pk w (fst (M w)) (snd (M w)))"

lemma sendsD: "sends k pk M \<Longrightarrow> M w = (r, w') \<Longrightarrow> send_effect k pk w r w'"
  unfolding sends_def by (drule spec [of _ w]) simp

lemma sendsI: "(\<And>w r w'. M w = (r, w') \<Longrightarrow> send_effect k pk w r w') \<Longrightarrow> sends k pk M"
  by (simp add: sends_def)

lemma sends_nothing: "keeps (aliases_kept k) M \<Longrightarrow> (\<And>w. fst (M w) \<noteq> Inr True) \<Longrightarrow> sends k pk M"
  by (simp add: sends_def send_effect_def keeps_def aliases_kept_def same_aliases_def)

lemma send_effect_after:
  "aliases_kept k w w1 \<Longrightarrow> send_effect k pk w1 r w' \<Longrightarrow> send_effect k pk w r w'"
  by (simp add: send_effect_def aliases_kept_def same_aliases_def)

lemma sends_bind:
  assumes "keeps (aliases_kept k) M" "\<And>x. sends k pk (f x)"
  shows "sends k pk (go_bind M f)"
proof (rule sendsI)
  fix w r w' assume b: "go_bind M f w = (r, w')"
  obtain r1 w1 where M: "M w = (r1, w1)" by fastforce
  have 1: "aliases_kept k w w1" using keepsD [OF assms(1) M] .
  show "send_effect k pk w r w'"
  proof (cases r1)
    case (Inl e)
    with M b 1 show ?thesis by (auto simp: go_bind_def send_effect_def aliases_kept_def same_aliases_def)
  next
    case (Inr x)
    with M b have "f x w1 = (r, w')" by (simp add: go_bind_def)
    from send_effect_after [OF 1 sendsD [OF assms(2) this]] show ?thesis .
  qed
qed

lemma sends_if: "(b \<Longrightarrow> sends k pk M) \<Longrightarrow> (\<not> b \<Longrightarrow> sends k pk N) \<Longrightarrow> sends k pk (if b then M else N)"
  by simp

lemma sends_drop:
  "sends k pk (go_then (go_ignore (exec (del_delivery i))) (go_then (count n l v) (go_return False)))"
  by (rule sends_nothing, intro keeps_rules) (auto simp: go_ignore_eq split: prod.split)

lemma sends_attempted:
  assumes "TopicName p = TopicName pk" "Properties p = Properties pk"
    and "\<And>e. sends k pk (f (Inl e))" "\<And>u. f (Inr u) = go_return True"
  shows "sends k pk (go_bind (go_attempt (conn_write X k p)) f)"
proof (rule sendsI)
  fix w r w' assume "go_bind (go_attempt (conn_write X k p)) f w = (r, w')"
  then obtain r1 w1 where c: "conn_write X k p w = (r1, w1)" and f: "f r1 w1 = (r, w')"
    by (auto simp: go_bind_def go_attempt_def split: prod.splits)
  show "send_effect k pk w r w'"
  proof (cases r1)
    case (Inl e)
    with conn_write_Inl c obtain fs where "w1 = w\<lparr>faults := fs\<rparr>" by blast
    then have "aliases_kept k w w1" by (simp add: aliases_kept_def same_aliases_def)
    from send_effect_after [OF this sendsD [OF assms(3) f [unfolded Inl]]] show ?thesis .
  next
    case (Inr u)
    with conn_write_Inr(1) c obtain fs where
      "w1 = upd_conn k (\<lambda>c. c\<lparr>wire := wire c @ [p\<lparr>pkProtocol := protocol (heap w k)\<rparr>]\<rparr>) (w\<lparr>faults := fs\<rparr>)" by blast
    with f Inr assms(1,2,4) show ?thesis by (auto simp: send_effect_def same_aliases_def)
  qed
qed

lemma sends_write:
  assumes "TopicName p = TopicName pk" "Properties p = Properties pk"
  shows "sends k pk (send_outgoing X k it p)"
proof -
  have quiet: "sends k pk (go_return False)" by (rule sends_nothing) (intro keeps_rules, simp)
  have fail: "sends k pk (go_then (go_when b (returnInflight k)) (go_then (count n l v) (go_fail e)))" for b n l v e
    by (intro sends_bind keeps_rules) (rule sends_nothing, intro keeps_rules, simp)
  have written: "sends k pk (go_bind (go_attempt (conn_write X k p)) (\<lambda>r. case r of
        Inl e \<Rightarrow> go_then (go_when (it_qos it > 0) (returnInflight k))
                   (go_then (count ''DeliveriesDroppedTotal'' ''write_error'' 1) (go_fail e))
      | Inr _ \<Rightarrow> go_return True))"
    by (rule sends_attempted [OF assms]) (simp_all add: fail)
  show ?thesis
    unfolding send_outgoing_def by (rule sends_bind) (intro keeps_rules, rule sends_if [OF quiet written])
qed

definition rest_of_delivery :: "ext \<Rightarrow> conn_ref \<Rightarrow> item \<Rightarrow> conn \<Rightarrow> packet \<Rightarrow> bool go" where
  "rest_of_delivery X k it c pk =
     (if probe_oversized X c pk
      then go_then (go_ignore (exec (del_delivery (it_deliveryID it))))
             (go_then (count ''DeliveriesDroppedTotal'' ''oversized'' 1) (go_return False))
      else go_bind (if it_qos it > 0 \<and> it_state it = 0 then tryAcquireInflight k else go_return True) (\<lambda>slot.
        if \<not> slot then go_return False
        else if it_qos it > 0
        then go_bind (claim_packet_id k it) (\<lambda>p. case p of
               None \<Rightarrow> go_return False
             | Some pid \<Rightarrow> send_outgoing X k it (pk\<lparr>PacketID := pid\<rparr>))
        else send_outgoing X k it pk))"

lemma sends_rest: "sends k pk (rest_of_delivery X k it c pk)"
proof -
  have quiet: "sends k pk (go_return False)" by (rule sends_nothing) (intro keeps_rules, simp)
  have claimed: "sends k pk (case x of None \<Rightarrow> go_return False
      | Some pid \<Rightarrow> send_outgoing X k it (pk\<lparr>PacketID := pid\<rparr>))" for x
    by (cases x) (simp_all add: quiet sends_write)
  show ?thesis
    unfolding rest_of_delivery_def
    by (intro sends_if sends_drop sends_bind quiet claimed sends_write keeps_rules) simp_all
qed

text \<open>C15: topic aliases on the wire. Let a client's alias map agree with the server's, except for
  some lost topics, and let \<open>deliverOneTracked\<close> handle a delivery for this client, under any
  schedule of failures. (The topic is not empty, and the stored properties carry no alias of
  their own: \<open>check_publish\<close> refuses one from a publisher.) If it reports the delivery sent, one packet has been written, its alias
  is between 1 and the maximum the client announced, the client finds the topic of the
  delivery by the MQTT 5 alias rules (unless it is a lost one), and the maps agree again. If
  it reports anything else, nothing has been written, and the maps agree except for the lost
  topics and this one; this one becomes lost only if the server has just given it an alias.\<close>

theorem aliases_on_the_wire:
  assumes "deliverOneTracked X it ret dup w = (r, w')" "map_of (conns w) (it_clientID it) = Some k"
    and "aliases_agree lost (heap w k) m"
    and "it_topic it \<noteq> []" "\<not> TopicAliasFlag (Properties (outgoing X (protocol (heap w k)) (now w) it ret dup))"
  shows "if r = Inr True
    then \<exists>pk. wire (heap w' k) = wire (heap w k) @ [pk] \<and> topic_understood lost (it_topic it) (heap w' k) m pk
    else wire (heap w' k) = wire (heap w k) \<and> topic_unsent lost (it_topic it) (heap w k) m (heap w' k)"
proof -
  let ?out = "outgoing X (protocol (heap w k)) (now w) it ret dup"
  have d: "deliver_to X k it ret dup w = (r, w')"
    using assms(1,2) by (simp add: deliverOneTracked_def ConnFor_def)
  have unsent: "topic_unsent lost (it_topic it) (heap w k) m (heap w' k)" if "same_aliases (heap w k) (heap w' k)"
    using that assms(3) by (auto simp: topic_unsent_def aliases_agree_def alias_ok_def same_aliases_def)
  have that_rest: "\<exists>rest. deliver_to X k it ret dup w = go_bind (alias_outgoing k it ?out) rest w \<and>
      (\<forall>pk. sends k pk (rest pk))" if "live (now w) (it_expiresAt it)"
  proof -
    have "deliver_to X k it ret dup w = go_bind (alias_outgoing k it ?out) (rest_of_delivery X k it (heap w k)) w"
      using that by (simp add: deliver_to_def rest_of_delivery_def [abs_def])
    then show ?thesis using sends_rest by blast
  qed
  show ?thesis
  proof (cases "live (now w) (it_expiresAt it)")
    case False
    then have "deliver_to X k it ret dup w = go_then (go_ignore (exec (del_delivery (it_deliveryID it))))
        (go_then (count ''DeliveriesDroppedTotal'' ''expired'' 1) (go_return False)) w"
      by (simp add: deliver_to_def go_ask_def go_bind_def)
    with d have q: "go_then (go_ignore (exec (del_delivery (it_deliveryID it))))
        (go_then (count ''DeliveriesDroppedTotal'' ''expired'' 1) (go_return False)) w = (r, w')" by simp
    then have "r \<noteq> Inr True" by (auto simp: go_ignore_eq split: prod.splits)
    with sendsD [OF sends_drop q, of k] unsent show ?thesis
      by (auto simp: send_effect_def same_aliases_def)
  next
    case True
    then obtain rest where
      b: "deliver_to X k it ret dup w = go_bind (alias_outgoing k it ?out) rest w" and s: "\<And>pk. sends k pk (rest pk)"
      using that_rest by blast
    have out: "TopicName ?out = it_topic it" by (simp add: outgoing_def Let_def)
    obtain pk w1 where al: "alias_outgoing k it ?out w = (Inr pk, w1)" and wire: "wire (heap w1 k) = wire (heap w k)"
      and u: "topic_understood lost (it_topic it) (heap w1 k) m pk \<and> topic_unsent lost (it_topic it) (heap w k) m (heap w1 k)"
    proof (cases "protocol (heap w k) = ProtocolMQTT5 \<and> topicAliasMaximumOut (heap w k) > 0")
      case False
      then have "alias_outgoing k it ?out w = (Inr ?out, w)" by (auto simp: alias_outgoing_def)
      moreover have "topic_understood lost (it_topic it) (heap w k) m ?out \<and>
          topic_unsent lost (it_topic it) (heap w k) m (heap w k)"
        using assms(3,5) out by (auto simp: topic_understood_def topic_unsent_def client_topic_def aliases_agree_def)
      ultimately show ?thesis using that by blast
    next
      case True
      obtain af c' where r: "resolve_alias (it_topic it) (heap w k) = (af, c')" by fastforce
      from r have "wire c' = wire (heap w k)"
        by (auto simp: resolve_alias_def Let_def split: if_splits option.splits)
      moreover have "alias_outgoing k it ?out w = (Inr (apply_alias af ?out), upd_conn k (\<lambda>_. c') w)"
        using True r by (simp add: alias_outgoing_def resolveAliasForOutbound_def go_bind_def)
      ultimately show ?thesis
        using that [of "apply_alias af ?out" "upd_conn k (\<lambda>_. c') w"]
          resolve_alias_agrees [OF assms(3) r out assms(4,5)] by simp
    qed
    have r: "rest pk w1 = (r, w')" using d b al by (simp add: go_bind_def)
    from sendsD [OF s r]
    have same: "same_aliases ((heap w1 k)\<lparr>wire := wire (heap w' k)\<rparr>) (heap w' k)"
      and sent: "r = Inr True \<Longrightarrow> \<exists>p. wire (heap w' k) = wire (heap w1 k) @ [p] \<and>
        TopicName p = TopicName pk \<and> Properties p = Properties pk"
        "r \<noteq> Inr True \<Longrightarrow> wire (heap w' k) = wire (heap w1 k)"
      by (simp_all add: send_effect_def)
    have agree: "aliases_agree l (heap w' k) m' = aliases_agree l (heap w1 k) m'" for l m'
      using same by (simp add: aliases_agree_def alias_ok_def same_aliases_def)
    have understood: "topic_understood lost (it_topic it) (heap w' k) m p"
      if "TopicName p = TopicName pk" "Properties p = Properties pk" for p
    proof -
      have "client_topic p m = client_topic pk m" using that by (simp add: client_topic_def)
      with u same that(2) show ?thesis by (simp add: topic_understood_def agree same_aliases_def)
    qed
    have "topic_unsent lost (it_topic it) (heap w k) m (heap w' k)"
      using u same by (simp add: topic_unsent_def agree same_aliases_def)
    with sent understood wire show ?thesis by auto
  qed
qed

text \<open>A connection starts without aliases, as CONNECT leaves it.\<close>

lemma aliases_agree_fresh:
  "aliasOut c = Some [] \<or> aliasOut c = None \<Longrightarrow> aliasOutNext c = 0 \<Longrightarrow> aliases_agree {} c Map.empty"
  by (auto simp: aliases_agree_def alias_ok_def)

text \<open>A queued delivery of each QoS, for concrete inputs.\<close>

definition sample_item :: "nat \<Rightarrow> item" where
  "sample_item q = \<lparr>it_deliveryID = 1, it_clientID = ''c'', it_qos = q, it_state = 0, it_packetID = None,
     it_topic = ''a/b'', it_payload = [1], it_props = None, it_retain = False,
     it_expiresAt = None, it_subIDs = [], it_retainAsPublished = False\<rparr>"

definition sample_queue :: "nat \<Rightarrow> db" where
  "sample_queue q = sample_db\<lparr>deliveries := [\<lparr>d_id = 1, d_client_id = ''c'', d_message_id = 1,
       d_qos = q, d_packet_id = None, d_state = 0\<rparr>],
     messages := [\<lparr>m_id = 1, m_topic = ''a/b'', m_payload = [1], m_qos = 2, m_retain = False,
       m_properties = None, m_publisher = None, m_created_at = 0, m_expires_at = None\<rparr>],
     messages_seq := 2, deliveries_seq := 2\<rparr>"

lemma sample_queue_wf: "q \<le> 2 \<Longrightarrow> db_wf (sample_queue q)"
  by (simp add: db_wf_def sessions_wf_def messages_wf_def deliveries_wf_def delivery_ok_def sample_queue_def sample_db_def
      empty_db_def sample_session_def sample_sub_def sub_key_def packet_ids_unique_def)

lemma sample_deliver:
  "fst (deliverOneTracked sample_ext (sample_item 1) False False
     (sample_world (sample_queue 1) (sample_conn ''c'' 5))) = Inr True"
  "fst (deliverOneTracked sample_ext (sample_item 0) False False
     (sample_world (sample_queue 0) (sample_conn ''c'' 5))) = Inr True"
  by code_simp+

theorem delivery_claimed_before_sent_witness:
  "\<exists>w' pk. deliverOneTracked sample_ext (sample_item 1) False False
      (sample_world (sample_queue 1) (sample_conn ''c'' 5)) = (Inr True, w') \<and>
    wire (heap w' 0) = [pk] \<and> Qos pk = 1 \<and> Payload pk = [1]"
proof -
  let ?w = "sample_world (sample_queue 1) (sample_conn ''c'' 5)"
  obtain w' where r: "deliverOneTracked sample_ext (sample_item 1) False False ?w = (Inr True, w')"
    using sample_deliver(1) by (metis prod.collapse)
  from delivery_claimed_before_sent [OF r, of "hd (deliveries (sample_queue 1))"] sample_queue_wf [of 1]
  have "\<exists>k pk. map_of (conns ?w) ''c'' = Some k \<and> wire (heap w' k) = wire (heap ?w k) @ [pk] \<and>
      Qos pk = 1 \<and> Payload pk = [1]"
    by (auto simp: sample_item_def sample_queue_def)
  with r show ?thesis by (auto simp: sample_world_def sample_conn_def newConn_def)
qed

theorem qos0_at_most_once_witness:
  "\<not> has_delivery 1 (snd (deliverOneTracked sample_ext (sample_item 0) False False
      (sample_world (sample_queue 0) (sample_conn ''c'' 5)))) \<and>
   fst (deliverOneTracked sample_ext (sample_item 0) False False
      (sample_world sample_db (sample_conn ''c'' 5))) = Inr False"
  using qos0_at_most_once [of "sample_item 0" sample_ext False False
      "sample_world (sample_queue 0) (sample_conn ''c'' 5)"]
    qos0_at_most_once [of "sample_item 0" sample_ext False False
      "sample_world sample_db (sample_conn ''c'' 5)"] sample_deliver(2)
  by (simp add: sample_item_def has_delivery_def sample_db_def empty_db_def)

theorem drain_loop_ends_witness:
  "queued ''c'' (sample_world (sample_queue 1) (sample_conn ''c'' 5)) = 1 \<and>
   fst (drain_loop sample_ext 0 2 (sample_world (sample_queue 1) (sample_conn ''c'' 5))) = Inr (Some ())"
proof -
  have "queued ''c'' (sample_world (sample_queue 1) (sample_conn ''c'' 5)) = 1"
    by (simp add: queued_def sample_queue_def)
  with drain_loop_ends [of "sample_world (sample_queue 1) (sample_conn ''c'' 5)" 0 2 sample_ext]
  show ?thesis by (simp add: sample_world_def sample_conn_def del: drain_loop.simps)
qed

text \<open>A client that accepts one alias; the first delivery of the topic announces it.\<close>

lemma sample_aliased:
  "(case deliverOneTracked sample_ext (sample_item 1) False False
       (sample_world (sample_queue 1) ((sample_conn ''c'' 5)\<lparr>topicAliasMaximumOut := 1, aliasOut := Some []\<rparr>)) of
     (r, w') \<Rightarrow> (r, map (\<lambda>p. (TopicName p, TopicAlias (Properties p))) (wire (heap w' 0))))
   = (Inr True, [(''a/b'', 1)])"
  by code_simp

theorem aliases_on_the_wire_witness:
  "\<exists>w' pk m'. deliverOneTracked sample_ext (sample_item 1) False False
       (sample_world (sample_queue 1) ((sample_conn ''c'' 5)\<lparr>topicAliasMaximumOut := 1, aliasOut := Some []\<rparr>)) = (Inr True, w') \<and>
     wire (heap w' 0) = [pk] \<and> TopicAlias (Properties pk) = 1 \<and>
     client_topic pk Map.empty = (Some ''a/b'', m') \<and> aliases_agree {} (heap w' 0) m'"
proof -
  let ?c = "(sample_conn ''c'' 5)\<lparr>topicAliasMaximumOut := 1, aliasOut := Some []\<rparr>"
  let ?w = "sample_world (sample_queue 1) ?c"
  obtain w' where r: "deliverOneTracked sample_ext (sample_item 1) False False ?w = (Inr True, w')"
    and a: "map (\<lambda>p. (TopicName p, TopicAlias (Properties p))) (wire (heap w' 0)) = [(''a/b'', 1)]"
    using sample_aliased by (auto split: prod.splits)
  have k: "map_of (conns ?w) (it_clientID (sample_item 1)) = Some 0"
    by (simp add: sample_world_def sample_conn_def newConn_def sample_item_def)
  have agree: "aliases_agree {} (heap ?w 0) Map.empty"
    by (rule aliases_agree_fresh) (simp_all add: sample_world_def sample_conn_def newConn_def)
  have plain: "it_topic (sample_item 1) \<noteq> []"
    "\<not> TopicAliasFlag (Properties (outgoing sample_ext (protocol (heap ?w 0)) (now ?w) (sample_item 1) False False))"
    by (simp_all add: sample_item_def outgoing_def stored_properties_def no_properties_def)
  from aliases_on_the_wire [OF r k agree plain] obtain pk where
    pk: "wire (heap w' 0) = wire (heap ?w 0) @ [pk]" "topic_understood {} ''a/b'' (heap w' 0) Map.empty pk"
    by (auto simp: sample_item_def)
  have "wire (heap ?w 0) = []" by (simp add: sample_world_def sample_conn_def newConn_def)
  with a r pk show ?thesis by (auto simp: topic_understood_def)
qed

text \<open>A dropped delivery stops the drain: \<open>drainOnce\<close> reports an oversized message as it reports that no
  slot is left, so the deliveries queued behind it wait although slots are free.\<close>

definition sample_backlog :: db where
  "sample_backlog = (sample_queue 1)\<lparr>
     deliveries := [\<lparr>d_id = 1, d_client_id = ''c'', d_message_id = 1, d_qos = 1, d_packet_id = None, d_state = 0\<rparr>,
       \<lparr>d_id = 2, d_client_id = ''c'', d_message_id = 2, d_qos = 1, d_packet_id = None, d_state = 0\<rparr>],
     messages := [\<lparr>m_id = 1, m_topic = ''a/b'', m_payload = [1, 2, 3, 4], m_qos = 1, m_retain = False,
         m_properties = None, m_publisher = None, m_created_at = 0, m_expires_at = None\<rparr>,
       \<lparr>m_id = 2, m_topic = ''a/b'', m_payload = [1], m_qos = 1, m_retain = False,
         m_properties = None, m_publisher = None, m_created_at = 0, m_expires_at = None\<rparr>]\<rparr>"

lemma drain_stops_at_oversized:
  "(case drainOnce sample_ext 0 (sample_world sample_backlog ((sample_conn ''c'' 5)\<lparr>maxPacketSize := 3\<rparr>)) of
     (r, w') \<Rightarrow> (r, map d_id (deliveries (store w')), wire (heap w' 0), inflight (heap w' 0)))
   = (Inr True, [2], [], Some (0, 2))"
  by code_simp

text \<open>And an alias can be lost: the alias of a topic is allocated before the size check, so after an
  oversized first message has been dropped the next message of the topic goes out with the
  alias and an empty topic name, which the client has never seen.\<close>

lemma alias_sent_unannounced:
  "(case go_then (drainOnce sample_ext 0) (drainOnce sample_ext 0) (sample_world sample_backlog
       ((sample_conn ''c'' 5)\<lparr>maxPacketSize := 3, topicAliasMaximumOut := 4, aliasOut := Some []\<rparr>)) of
     (r, w') \<Rightarrow> (r, map (\<lambda>p. (TopicName p, TopicAlias (Properties p))) (wire (heap w' 0))))
   = (Inr False, [([], 1)])"
  by code_simp

end
