(* ===== verification/WillFacts.thy ===== *)
theory WillFacts
  imports DeliverFacts
begin

text \<open>
  What the janitor guarantees about wills: the sessions change only when the job as a whole
  succeeds, and without failures every due will is published once. The lemmas on publishing
  without failures and on code that leaves the sessions alone are shared by later theories.
\<close>

section \<open>Publishing a will leaves the sessions alone\<close>

definition steady :: "world \<Rightarrow> world \<Rightarrow> bool" where
  "steady w w' \<longleftrightarrow> sessions (store w') = sessions (store w) \<and> now w' = now w \<and> brokerID w' = brokerID w"

interpretation steady: run_relation steady
  by unfold_locales (auto simp: steady_def)

lemma steady_sql: "(\<And>d x d'. s d = Inr (x, d') \<Longrightarrow> sessions d' = sessions d) \<Longrightarrow> keeps steady (sql s)"
  by (rule steady.keeps_sql) (auto simp: steady_def)

lemma steady_execute: "(\<And>d. sessions (f d) = sessions d) \<Longrightarrow> keeps steady (execute f)"
  by (rule steady.keeps_execute) (auto simp: steady_def)

lemma steady_statements [keeps_rules]:
  "keeps steady (sql (ins_inbound_qos2 c pid t))"
  "keeps steady (sql (upsert_retained jm topic p q props t))"
  "keeps steady (sql (mqtt_publish jm topic po q ret props publ maxq t))"
  "keeps steady (sql (pg_notify cs msg))"
  "keeps steady (execute (del_retained topic))"
proof -
  show "keeps steady (sql (mqtt_publish jm topic po q ret props publ maxq t))"
    by (rule steady_sql, erule mqtt_publish_Inr) (auto simp: ins_message_def split: option.splits)
qed (auto intro!: steady_sql steady_execute simp: ins_inbound_qos2_def upsert_retained_def and_then_Inr
    put_retained_def pg_notify_def del_retained_def split: if_splits)

lemma steady_basic [keeps_rules]:
  "keeps steady (go_upd k f)" "keeps steady (count n l i)" "keeps steady (ConnFor cid)"
  "keeps steady (go_modify (\<lambda>w. w\<lparr>conns := g w\<rparr>))" "keeps steady (set_gauge n l v)"
  by (auto simp: keeps_def steady_def ConnFor_def go_ask_def set_gauge_def)

lemma steady_lift [keeps_rules]: "keeps steady (go_lift r)"
  unfolding go_lift_def by (intro keeps_rules)

lemma steady_tx [keeps_rules]: "keeps steady body \<Longrightarrow> keeps steady (go_tx body)"
  by (rule steady.keeps_tx) (auto simp: steady_def rollback_def)

lemma steady_tx_rest [keeps_rules]: "keeps steady body \<Longrightarrow> keeps steady (tx_rest body)"
  by (rule steady.keeps_tx_rest) (auto simp: steady_def rollback_def)

lemma steady_publishCore [keeps_rules]: "keeps steady (publishCore X p)"
  unfolding publishCore_def publish_body_def publish_dedup_def publish_retain_def
  by (intro keeps_rules)

lemma steady_kick [keeps_rules]: "keeps steady (QuotaExceededLocallyForToken X cid token)"
  unfolding QuotaExceededLocallyForToken_def kickForQuota_def send_disconnect_def conn_write_def
    shutdown_def unregisterConnIfSame_def
  by (intro keeps_rules)

lemma steady_PublishWill [keeps_rules]: "keeps steady (PublishWill X t p q r pr)"
  unfolding PublishWill_def dispatchQuotaExceeded_def NotifyQuota_def by (intro keeps_rules)

lemma steady_will_rows [keeps_rules]:
  "keeps steady (go_each (fire_due X) ws)" "keeps steady (go_each (fire_undelayed X) ws)"
  unfolding fire_due_def fire_undelayed_def publish_will_row_def by (intro keeps_rules)+

section \<open>Due wills\<close>

definition due :: "pg_env \<Rightarrow> instant \<Rightarrow> session_row \<Rightarrow> bool" where
  "due E t s \<longleftrightarrow> (\<exists>f. s_will_fire_at s = Some f \<and> f \<le> t) \<and> s_will_topic s \<noteq> None \<and>
     \<not> row_locked E (s_client_id s)"

lemma sel_due_wills_due: "sel_due_wills (row_locked E) t d = filter (due E t) (sessions d)"
  unfolding sel_due_wills_def by (rule filter_cong) (auto simp: due_def split: option.splits)

lemma scan_wills_clients: "scan_wills rows = Inr ws \<Longrightarrow> map wr_client ws = map s_client_id rows"
  by (induction rows arbitrary: ws)
     (auto simp: and_then_Inr scan_will_def split: option.splits prod.splits)

definition fired :: "session_row \<Rightarrow> session_row" where
  "fired s = clear_will (s\<lparr>s_will_fire_at := None\<rparr>)"

lemma upd_clear_wills_due:
  assumes "distinct_key s_client_id (sessions d)"
  shows "sessions (upd_clear_wills (map s_client_id (filter P (sessions d))) d) =
    map (\<lambda>s. if P s then fired s else s) (sessions d)"
proof -
  have "s_client_id s \<in> s_client_id ` {x \<in> set (sessions d). P x} \<longleftrightarrow> P s" if "s \<in> set (sessions d)" for s
    using assms that by (auto simp: distinct_map inj_on_def)
  then show ?thesis by (auto simp: upd_clear_wills_def fired_def)
qed

lemma tx_rest_execute_sessions:
  assumes "tx_rest (execute f) w = (r, w')"
  shows "sessions (store w') = (case r of Inl e \<Rightarrow> sessions (store w) | Inr _ \<Rightarrow> sessions (f (store w)))"
  using assms
proof (cases rule: tx_rest_cases)
  case (1 e w1)
  then show ?thesis by (simp add: rollback_def)
next
  case (2 x w1)
  from 2(2) obtain fs where "w1 = w\<lparr>faults := fs, store := f (store w)\<rparr>" by (rule execute_Inr)
  with 2 call_world [OF 2(3)] show ?thesis by auto
qed

lemma fire_wills_sessions:
  assumes "(if ws = [] then tx_rest (go_return ())
      else go_then (go_each (fire_due X) ws)
        (go_then (tx_rest (execute (upd_clear_wills (map wr_client ws))))
        (swept JobFireDueWills (length ws)))) w = (r, w')"
    and "map wr_client ws = map s_client_id (filter P (sessions (store w)))"
    and "distinct_key s_client_id (sessions (store w))"
  shows "sessions (store w') = (case r of Inl e \<Rightarrow> sessions (store w)
    | Inr _ \<Rightarrow> map (\<lambda>s. if P s then fired s else s) (sessions (store w)))"
proof (cases "ws = []")
  case True
  then have "map (\<lambda>s. if P s then fired s else s) (sessions (store w)) = sessions (store w)"
    using assms(2) by (auto simp: filter_empty_conv intro: map_idI)
  moreover have "tx_rest (go_return ()) w = (r, w')" using assms(1) True by simp
  ultimately show ?thesis
    using keepsD [OF steady_tx_rest [OF steady.keeps_return]] by (fastforce simp: steady_def split: sum.splits)
next
  case False
  let ?upd = "upd_clear_wills (map s_client_id (filter P (sessions (store w))))"
  from False assms(1,2) have "go_then (go_each (fire_due X) ws) (go_then (tx_rest (execute ?upd))
      (swept JobFireDueWills (length ws))) w = (r, w')" by simp
  then show ?thesis
  proof (cases rule: go_bind_keeps [OF _ steady_will_rows(1), consumes 1, case_names fails goes])
    case (fails e)
    then show ?thesis by (simp add: steady_def)
  next
    case (goes x w1)
    then have s1: "sessions (store w1) = sessions (store w)" by (simp add: steady_def)
    obtain r2 w2 where t: "tx_rest (execute ?upd) w1 = (r2, w2)" by fastforce
    have "sessions (?upd (store w1)) = map (\<lambda>s. if P s then fired s else s) (sessions (store w))"
      using upd_clear_wills_due [of "store w1" P] s1 assms(3) by simp
    with tx_rest_execute_sessions [OF t] s1 goes(3) t show ?thesis
      by (cases r2) (auto simp: swept_def)
  qed
qed

lemma fireDueWills_sessions:
  assumes "fireDueWills X E w = (r, w')" "distinct_key s_client_id (sessions (store w))"
  shows "sessions (store w') = (case r of Inl e \<Rightarrow> sessions (store w)
    | Inr _ \<Rightarrow> map (\<lambda>s. if due E (now w) s then fired s else s) (sessions (store w)))"
  using assms(1) unfolding fireDueWills_def
proof (cases rule: go_bind_keeps [OF _ steady.keeps_call, consumes 1, case_names fails goes])
  case (fails e)
  then show ?thesis by (simp add: steady_def)
next
  case (goes u w0)
  then have s0: "sessions (store w0) = sessions (store w)" "now w0 = now w" by (simp_all add: steady_def)
  let ?rest = "\<lambda>rows. go_bind (go_lift (scan_wills rows)) (\<lambda>ws.
     if ws = [] then tx_rest (go_return ())
     else go_then (go_each (fire_due X) ws)
       (go_then (tx_rest (execute (upd_clear_wills (map wr_client ws))))
       (swept JobFireDueWills (length ws))))"
  from goes(3) s0 have "go_bind (query (sel_due_wills (row_locked E) (now w))) ?rest w0 = (r, w')" by simp
  then show ?thesis
  proof (cases rule: go_bind_keeps [OF _ steady.keeps_query, consumes 1, case_names fails goes])
    case (fails e)
    with s0 show ?thesis by (simp add: steady_def)
  next
    case (goes rows w1)
    then have s1: "sessions (store w1) = sessions (store w)" using s0 by (simp add: steady_def)
    have rows: "rows = filter (due E (now w)) (sessions (store w1))"
      using goes(1) s0 s1 by (auto simp: sel_due_wills_due elim: query_Inr)
    show ?thesis
    proof (cases "scan_wills rows")
      case (Inl e)
      with goes(3) s1 show ?thesis by (auto simp: go_lift_def go_bind_def)
    next
      case (Inr ws)
      from fire_wills_sessions [OF _ scan_wills_clients [OF Inr, unfolded rows], of X r w'] Inr goes(3) s1 assms(2)
      show ?thesis by (simp add: go_lift_def cong: sum.case_cong)
    qed
  qed
qed

section \<open>Wills are published\<close>

lemma publish_db_ok:
  assumes "pc_QoS2DedupKey p = None" "pc_Payload p = Some payload"
    and "me_seconds (json_me X) (jsonOrNil X (pc_Properties p)) = Inr me"
    and "messages_seq d < 10 ^ 100" "0 \<le> maxq"
  shows "\<exists>res d'. publish_db X p t maxq d = Inr (res, d')"
proof -
  have dd: "dedup_db p t d = Inr ((), d)" using assms(1) by (simp add: dedup_db_def)
  have "\<exists>d2. retain_db X p t d = Inr ((), d2)"
    using assms(3) by (simp add: retain_db_def upsert_retained_def mqtt_retained_expires_at_def)
  then obtain d2 where rd: "retain_db X p t d = Inr ((), d2)" "messages_seq d2 = messages_seq d"
    using retain_db_frame(7) by blast
  obtain r d3 where mp: "mqtt_publish (json_me X) (pc_Topic p) (pc_Payload p) (pc_QoS p) (pc_Retain p)
      (jsonOrNil X (pc_Properties p)) (publisher_of p) maxq t d2 = Inr (r, d3)"
    using assms(2,3,5) by (simp add: mqtt_publish_def ins_message_def Let_def)
  then have "pr_msg_id r = messages_seq d2" by (rule mqtt_publish_Inr) simp
  with rd(2) assms(4) have "length (itoa (pr_msg_id r)) \<le> 100" by (intro length_itoa) simp_all
  with dd rd(1) mp show ?thesis
    by (auto simp: publish_db_def pg_notify_def)
qed

lemma publish_db_seq:
  assumes "publish_db X p t maxq d = Inr (res, d')"
  shows "messages_seq d' = messages_seq d + 1"
proof -
  from assms obtain d1 d2 r d3 where d1: "dedup_db p t d = Inr ((), d1)"
    and d2: "retain_db X p t d1 = Inr ((), d2)"
    and d3: "mqtt_publish (json_me X) (pc_Topic p) (pc_Payload p) (pc_QoS p) (pc_Retain p)
        (jsonOrNil X (pc_Properties p)) (publisher_of p) maxq t d2 = Inr (r, d3)"
    and d4: "messages_seq d' = messages_seq d3"
    by (auto simp: publish_db_def and_then_Inr pg_notify_def split: if_splits)
  from d3 have "messages_seq d3 = messages_seq d2 + 1"
    by (rule mqtt_publish_Inr) (auto simp: ins_message_def split: option.splits)
  with d4 dedup_db_frame(7) [OF d1] retain_db_frame(7) [OF d2] show ?thesis by simp
qed

lemma publishCore_ok:
  assumes "faults w = []" "publish_db X p (now w) (maxQueued (knobs w)) (store w) = Inr (res, d')"
  shows "\<exists>cs. publishCore X p w = (Inr res, w\<lparr>store := d', counters := cs\<rparr>)"
proof -
  from assms(2) obtain d1 d2 r d3 where
    d1: "dedup_db p (now w) (store w) = Inr ((), d1)"
    and d2: "retain_db X p (now w) d1 = Inr ((), d2)"
    and d3: "mqtt_publish (json_me X) (pc_Topic p) (pc_Payload p) (pc_QoS p) (pc_Retain p)
        (jsonOrNil X (pc_Properties p)) (publisher_of p) (maxQueued (knobs w)) (now w) d2 = Inr (r, d3)"
    and d4: "(if pr_brokers r = [] then Inr ((), d3)
        else pg_notify (map (publish_channel X) (pr_brokers r)) (itoa (pr_msg_id r)) d3) = Inr ((), d')"
    and res: "res = \<lparr>MessageID = pr_msg_id r, BrokerIDs = pr_brokers r, OverflowClients = pr_overflow r\<rparr>"
    by (auto simp: publish_db_def and_then_Inr)
  have w1: "publish_dedup p w = (Inr (), w\<lparr>store := d1\<rparr>)"
    using d1 assms(1)
    by (auto simp: publish_dedup_def dedup_db_def and_then_Inr sql_ok split: option.splits if_splits)
  have w2: "go_when (pc_Retain p) (publish_retain X p) (w\<lparr>store := d1\<rparr>) = (Inr (), w\<lparr>store := d2\<rparr>)"
    using d2 assms(1)
    by (cases "pc_Retain p") (auto simp: publish_retain_def retain_db_def sql_ok execute_ok split: if_splits)
  have "publish_body X p w = (Inr res, w\<lparr>store := d'\<rparr>)"
    using w1 w2 d3 d4 res assms(1)
    by (cases "pr_brokers r = []") (auto simp: publish_body_def sql_ok)
  then have "go_tx (publish_body X p) w = (Inr res, w\<lparr>store := d'\<rparr>)"
    using assms(1) by (intro go_tx_ok) simp_all
  then show ?thesis by (auto simp: publishCore_def)
qed

text \<open>The quota signal reports no error, writes no message and, without failures, finds none.\<close>

definition quiet :: "world \<Rightarrow> world \<Rightarrow> bool" where
  "quiet w w' \<longleftrightarrow> messages (store w') = messages (store w) \<and> messages_seq (store w') = messages_seq (store w) \<and>
     now w' = now w \<and> knobs w' = knobs w \<and> (faults w = [] \<longrightarrow> faults w' = [])"

interpretation quiet: run_relation quiet
  by unfold_locales (auto simp: quiet_def)

lemma quiet_basic [keeps_rules]:
  "keeps quiet (go_upd k f)" "keeps quiet (count n l i)" "keeps quiet (ConnFor cid)"
  "keeps quiet (go_modify (\<lambda>w. w\<lparr>conns := g w\<rparr>))"
  by (auto simp: keeps_def quiet_def ConnFor_def go_ask_def)

lemma quiet_notify [keeps_rules]: "keeps quiet (sql (pg_notify cs msg))"
  by (rule quiet.keeps_sql) (auto simp: quiet_def pg_notify_def split: if_splits)

lemma quiet_dispatchQuotaExceeded: "keeps quiet (dispatchQuotaExceeded X cids)"
  unfolding dispatchQuotaExceeded_def NotifyQuota_def QuotaExceededLocallyForToken_def kickForQuota_def
    send_disconnect_def conn_write_def shutdown_def unregisterConnIfSame_def
  by (intro keeps_rules)

lemma total_dispatchQuotaExceeded [total_rules]: "never_fails (dispatchQuotaExceeded X cids)"
  unfolding dispatchQuotaExceeded_def QuotaExceededLocallyForToken_def kickForQuota_def
    send_disconnect_def shutdown_def unregisterConnIfSame_def ConnFor_def
  by (intro total_rules)

definition publishable :: "ext \<Rightarrow> session_row \<Rightarrow> bool" where
  "publishable X s \<longleftrightarrow> s_will_topic s \<noteq> None \<and> s_will_qos s \<noteq> None \<and> s_will_retain s \<noteq> None \<and>
     s_will_payload s \<noteq> None \<and>
     (\<exists>me. me_seconds (json_me X)
        (jsonOrNil X (case s_will_properties s of None \<Rightarrow> [] | Some p \<Rightarrow> p)) = Inr me)"

definition will_message :: "session_row \<Rightarrow> string \<times> bytes" where
  "will_message s = (the (s_will_topic s), the (s_will_payload s))"

abbreviation message_view :: "message_row \<Rightarrow> string \<times> bytes" where
  "message_view m \<equiv> (m_topic m, m_payload m)"

lemma fire_due_publishes:
  assumes "scan_will s = Inr wr" "publishable X s" "faults w = []" "messages_seq (store w) < 10 ^ 100"
    and "0 \<le> maxQueued (knobs w)"
  shows "\<exists>w'. fire_due X wr w = (Inr (), w') \<and> faults w' = [] \<and>
    map message_view (messages (store w')) = map message_view (messages (store w)) @ [will_message s] \<and>
    messages_seq (store w') = messages_seq (store w) + 1 \<and> knobs w' = knobs w"
proof -
  let ?p = "\<lparr>pc_Topic = wr_topic wr, pc_Payload = wr_payload wr, pc_QoS = wr_qos wr mod 256,
    pc_Retain = wr_retain wr, pc_Properties = wr_props wr, pc_Publisher = [], pc_QoS2DedupKey = None\<rparr>"
  from assms(1,2) obtain payload me where wr: "wr_payload wr = Some payload"
    "will_message s = (wr_topic wr, payload)"
    and me: "me_seconds (json_me X) (jsonOrNil X (wr_props wr)) = Inr me"
    by (auto simp: scan_will_def publishable_def will_message_def split: option.splits prod.splits)
  then obtain res d' where db: "publish_db X ?p (now w) (maxQueued (knobs w)) (store w) = Inr (res, d')"
    using publish_db_ok [of ?p payload X me "store w" "maxQueued (knobs w)" "now w"] assms(4,5) by auto
  obtain cs where pc: "publishCore X ?p w = (Inr res, w\<lparr>store := d', counters := cs\<rparr>)"
    using publishCore_ok [OF assms(3) db] by blast
  let ?w1 = "w\<lparr>store := d', counters := cs\<rparr>"
  have m: "map message_view (messages d') = map message_view (messages (store w)) @ [will_message s]"
    "messages_seq d' = messages_seq (store w) + 1"
    using publish_db_effect [OF db] publish_db_seq [OF db] wr by auto
  let ?signal = "go_when (OverflowClients res \<noteq> []) (dispatchQuotaExceeded X (OverflowClients res))"
  have "never_fails ?signal" by (intro total_rules)
  then obtain u w2 where q: "?signal ?w1 = (Inr u, w2)" by (rule never_failsE)
  have "keeps quiet ?signal" by (intro keeps_rules quiet_dispatchQuotaExceeded)
  then have "quiet ?w1 w2" using q by (rule keepsD)
  then have "fire_due X wr w = (Inr (), w2\<lparr>counters := (counters w2)((''WillsFiredTotal'', '''') :=
      counters w2 (''WillsFiredTotal'', '''') + 1)\<rparr>)"
    using pc q by (simp add: fire_due_def publish_will_row_def PublishWill_def go_bind_def go_attempt_def)
  with \<open>quiet ?w1 w2\<close> m assms(3) show ?thesis by (auto simp: quiet_def)
qed

lemma fire_wills_publish:
  assumes "scan_wills rows = Inr ws" "\<forall>s \<in> set rows. publishable X s" "faults w = []"
    and "messages_seq (store w) + length rows < 10 ^ 100" "0 \<le> maxQueued (knobs w)"
  shows "\<exists>w'. go_each (fire_due X) ws w = (Inr (), w') \<and> faults w' = [] \<and>
    map message_view (messages (store w')) = map message_view (messages (store w)) @ map will_message rows"
  using assms
proof (induction rows arbitrary: ws w)
  case (Cons s rows)
  from Cons.prems(1) obtain wr ws' where ws: "scan_will s = Inr wr" "scan_wills rows = Inr ws'" "ws = wr # ws'"
    by (auto simp: and_then_Inr)
  obtain w1 where w1: "fire_due X wr w = (Inr (), w1)" "faults w1 = []" "knobs w1 = knobs w"
    "map message_view (messages (store w1)) = map message_view (messages (store w)) @ [will_message s]"
    "messages_seq (store w1) = messages_seq (store w) + 1"
    using fire_due_publishes [OF ws(1) _ Cons.prems(3)] Cons.prems by auto
  from Cons.IH [OF ws(2) _ w1(2)] Cons.prems w1 ws(3) show ?case by auto
qed simp

lemma scan_wills_publishable:
  "\<forall>s \<in> set rows. publishable X s \<Longrightarrow> \<exists>ws. scan_wills rows = Inr ws"
  by (induction rows) (auto simp: scan_will_def publishable_def)

text \<open>C22: due wills are published. When nothing fails, a tick's will job publishes, in order,
  one message for every session whose will is due (and whose row no other transaction has
  locked), with the will's topic and payload, publishes nothing else, and clears exactly
  those wills.\<close>

theorem due_wills_published:
  assumes "faults w = []" "db_wf (store w)" "0 \<le> maxQueued (knobs w)"
    and "messages_seq (store w) + length (sessions (store w)) < 10 ^ 100"
    and "\<forall>s \<in> set (sessions (store w)). due E (now w) s \<longrightarrow> publishable X s"
  shows "\<exists>w'. fireDueWills X E w = (Inr (), w') \<and>
    map message_view (messages (store w')) = map message_view (messages (store w)) @
      map will_message (filter (due E (now w)) (sessions (store w))) \<and>
    sessions (store w') = map (\<lambda>s. if due E (now w) s then fired s else s) (sessions (store w))"
proof -
  let ?rows = "filter (due E (now w)) (sessions (store w))"
  have pub: "\<forall>s \<in> set ?rows. publishable X s" using assms(5) by auto
  then obtain ws where ws: "scan_wills ?rows = Inr ws" using scan_wills_publishable by blast
  have len: "messages_seq (store w) + length ?rows < 10 ^ 100"
    using assms(4) length_filter_le [of "due E (now w)" "sessions (store w)"] by linarith
  obtain w1 where w1: "go_each (fire_due X) ws w = (Inr (), w1)" "faults w1 = []"
    "map message_view (messages (store w1)) = map message_view (messages (store w)) @ map will_message ?rows"
    using fire_wills_publish [OF ws pub assms(1) len assms(3)] by blast
  have "\<exists>w'. fireDueWills X E w = (Inr (), w') \<and> messages (store w') = messages (store w1)"
    using assms(1) ws w1(1,2) query_ok [OF assms(1), of "sel_due_wills (row_locked E) (now w)"]
    by (cases "ws = []")
       (auto simp: fireDueWills_def sel_due_wills_due go_lift_def tx_rest_def execute_ok upd_clear_wills_def
         swept_def)
  then obtain w' where w': "fireDueWills X E w = (Inr (), w')" "messages (store w') = messages (store w1)"
    by blast
  have "distinct_key s_client_id (sessions (store w))"
    using assms(2) by (simp add: db_wf_def sessions_wf_def)
  from fireDueWills_sessions [OF w'(1) this] w' w1(3) show ?thesis by auto
qed

text \<open>C23: a will is consumed only by a successful job. Under every schedule of failures, a will
  job that reports an error leaves every session row, so every pending will, as it was; one
  that succeeds clears exactly the due wills and leaves none due.\<close>

theorem fireDueWills_atomic:
  assumes "fireDueWills X E w = (r, w')" "db_wf (store w)"
  shows "case r of
      Inl e \<Rightarrow> sessions (store w') = sessions (store w)
    | Inr _ \<Rightarrow> sessions (store w') = map (\<lambda>s. if due E (now w) s then fired s else s) (sessions (store w)) \<and>
        sel_due_wills (row_locked E) (now w) (store w') = []"
proof -
  have "distinct_key s_client_id (sessions (store w))"
    using assms(2) by (simp add: db_wf_def sessions_wf_def)
  from fireDueWills_sessions [OF assms(1) this] show ?thesis
    by (auto simp: sel_due_wills_due due_def fired_def clear_will_def filter_empty_conv split: sum.splits)
qed

end
