(* ===== verification/JanitorFacts.thy ===== *)
theory JanitorFacts
  imports WillFacts
begin

text \<open>
  What the rest of the janitor guarantees: the takeover of a dead Pod's sessions, session
  expiry, the orphan sweeps, and the schedule of the jobs.
\<close>

section \<open>Taking over a dead Pod's sessions\<close>

definition dead_row :: "uuid \<Rightarrow> instant \<Rightarrow> session_row \<Rightarrow> session_row" where
  "dead_row b t s =
     (if s_broker_id s \<noteq> Some b then s
      else if s_will_topic s \<noteq> None \<and> has_delay s then detach_delayed t s else detach_cleared t s)"

lemma dead_updates:
  "sessions (snd (upd_dead_rest b t (upd_dead_delayed b t d))) = map (dead_row b t) (sessions d)"
  by (auto simp: upd_dead_rest_def upd_dead_delayed_def dead_row_def detach_delayed_def)

lemma dead_rest_count:
  "0 < fst (upd_dead_rest b t (upd_dead_delayed b t d)) \<longleftrightarrow>
     (\<exists>s \<in> set (sessions d). s_broker_id s = Some b \<and> \<not> (s_will_topic s \<noteq> None \<and> has_delay s))"
  by (auto simp: upd_dead_rest_def upd_dead_delayed_def detach_delayed_def filter_empty_conv)

text \<open>Rows of other Pods are never touched.\<close>

definition others_kept :: "uuid \<Rightarrow> world \<Rightarrow> world \<Rightarrow> bool" where
  "others_kept b w w' \<longleftrightarrow>
     list_all2 (\<lambda>s s'. s_broker_id s \<noteq> Some b \<longrightarrow> s' = s) (sessions (store w)) (sessions (store w'))"

interpretation others: run_relation "others_kept b"
proof
  show "others_kept b w1 w3" if "others_kept b w1 w2" "others_kept b w2 w3" for w1 w2 w3
    using that unfolding others_kept_def by (rule list_all2_trans [rotated]) auto
qed (simp_all add: others_kept_def list_all2_refl)

lemma steady_others: "keeps steady m \<Longrightarrow> keeps (others_kept b) m"
  by (simp add: keeps_def steady_def others_kept_def list_all2_refl)

lemma others_statements [keeps_rules]:
  "keeps (others_kept b) (execute (upd_dead_delayed b t))"
  "keeps (others_kept b) (exec (upd_dead_rest b t))"
  by (rule others.keeps_execute others.keeps_exec,
      auto simp: others_kept_def upd_dead_delayed_def upd_dead_rest_def list_all2_map2 list_all2_same)+

lemma others_handleDeadBroker: "keeps (others_kept b) (handleDeadBroker X E b)"
  unfolding handleDeadBroker_def dead_broker_work_def
  by (intro keeps_rules steady_others [OF steady_will_rows(2)] steady_others [OF steady_lift])

lemma dead_broker_work_Inr:
  assumes "dead_broker_work X b w = (Inr claimed, w')"
  shows "sessions (store w') = map (dead_row b (now w)) (sessions (store w)) \<and>
    (claimed \<longleftrightarrow> (\<exists>s \<in> set (sessions (store w)). s_broker_id s = Some b \<and>
       \<not> (s_will_topic s \<noteq> None \<and> has_delay s)))"
proof -
  from assms obtain rows w1 ws w2 u w3 w4 n where
    q: "query (sel_broker_wills b) w = (Inr rows, w1)"
    and l: "go_lift (scan_wills rows) w1 = (Inr ws, w2)"
    and f: "go_each (fire_undelayed X) ws w2 = (Inr u, w3)"
    and e: "execute (upd_dead_delayed b (now w)) w3 = (Inr (), w4)"
    and x: "exec (upd_dead_rest b (now w)) w4 = (Inr n, w')" and c: "claimed = (n > 0)"
    by (auto simp: dead_broker_work_def go_bind_Inr)
  have "steady w w3"
    using keepsD [OF steady.keeps_query q] keepsD [OF steady_lift l] keepsD [OF steady_will_rows(2) f]
    by (auto simp: steady_def)
  moreover obtain fs where "w4 = w3\<lparr>faults := fs, store := upd_dead_delayed b (now w) (store w3)\<rparr>"
    using e by (rule execute_Inr)
  moreover obtain fs' where "n = fst (upd_dead_rest b (now w) (store w4))"
    "w' = w4\<lparr>faults := fs', store := snd (upd_dead_rest b (now w) (store w4))\<rparr>"
    using x by (rule exec_Inr)
  ultimately show ?thesis
    using c dead_updates [of b "now w" "store w3"] dead_rest_count [of b "now w" "store w3"]
    by (simp add: steady_def)
qed

lemma handleDeadBroker_Inr:
  assumes "handleDeadBroker X E b w = (Inr claimed, w')" "\<not> lock_held E b"
  shows "sessions (store w') = map (dead_row b (now w)) (sessions (store w)) \<and>
    (claimed \<longleftrightarrow> (\<exists>s \<in> set (sessions (store w)). s_broker_id s = Some b \<and>
       \<not> (s_will_topic s \<noteq> None \<and> has_delay s)))"
proof -
  from assms(1) obtain u w0 got w1 r w2 w3 where c: "call w = (Inr u, w0)"
    and q: "query (\<lambda>d. \<not> lock_held E b) w0 = (Inr got, w1)"
    and rest: "(if \<not> got then go_return False
       else go_bind (go_attempt (dead_broker_work X b)) (\<lambda>r. go_then (go_ignore call) (go_lift r))) w1
       = (Inr claimed, w')"
    by (auto simp: handleDeadBroker_def go_bind_Inr)
  have got: "got" using q assms(2) by (auto elim: query_Inr)
  have s1: "steady w w1"
    using keepsD [OF steady.keeps_call c] keepsD [OF steady.keeps_query q] by (simp add: steady_def)
  obtain r2 w2 where d0: "dead_broker_work X b w1 = (r2, w2)" by fastforce
  with rest got have d: "dead_broker_work X b w1 = (Inr claimed, w2)" and w': "w' = snd (call w2)"
    by (cases r2; simp add: go_bind_def go_attempt_def go_ignore_eq go_lift_def)+
  have "sessions (store w') = sessions (store w2)"
    using call_world [of w2 "fst (call w2)" w'] w' by (auto simp: prod_eq_iff)
  with dead_broker_work_Inr [OF d] s1 show ?thesis by (simp add: steady_def)
qed

text \<open>C21: taking over a dead Pod. While the Pod's advisory lock is held elsewhere nothing is
  touched. Whatever fails, no session of another Pod is changed. On success every session of
  the dead Pod is detached: one with a delayed will keeps the will, due after the delay but
  not after the session's end; every other one has its will cleared.\<close>

theorem dead_broker_takeover:
  assumes "handleDeadBroker X E b w = (r, w')"
  shows "(lock_held E b \<longrightarrow> store w' = store w) \<and>
    list_all2 (\<lambda>s s'. s_broker_id s \<noteq> Some b \<longrightarrow> s' = s) (sessions (store w)) (sessions (store w')) \<and>
    (\<not> lock_held E b \<longrightarrow> (\<forall>claimed. r = Inr claimed \<longrightarrow>
       sessions (store w') = map (dead_row b (now w)) (sessions (store w)) \<and>
       (\<forall>s \<in> set (sessions (store w')). s_broker_id s \<noteq> Some b)))"
proof (intro conjI impI allI)
  show "store w' = store w" if held: "lock_held E b"
  proof -
    obtain r0 w0 where c: "call w = (r0, w0)" by fastforce
    obtain rq w1 where q: "query (\<lambda>d. \<not> lock_held E b) w0 = (rq, w1)" by fastforce
    have "w' = w0 \<or> w' = w1"
      using assms c q held
      by (cases r0; cases rq) (auto simp: handleDeadBroker_def go_bind_def elim!: query_Inr split: if_splits)
    with call_world [OF c] query_world [OF q] show ?thesis by auto
  qed
  show "list_all2 (\<lambda>s s'. s_broker_id s \<noteq> Some b \<longrightarrow> s' = s) (sessions (store w)) (sessions (store w'))"
    using keepsD [OF others_handleDeadBroker assms] by (simp add: others_kept_def)
  fix claimed
  assume "\<not> lock_held E b" "r = Inr claimed"
  with handleDeadBroker_Inr [of X E b w claimed w'] assms
  show "sessions (store w') = map (dead_row b (now w)) (sessions (store w))"
    and "\<forall>s \<in> set (sessions (store w')). s_broker_id s \<noteq> Some b"
    by (auto simp: dead_row_def detach_delayed_def detach_cleared_def clear_will_def)
qed

section \<open>Expiring sessions\<close>

definition expired :: "instant \<Rightarrow> session_row \<Rightarrow> bool" where
  "expired t s \<longleftrightarrow> \<not> s_connected s \<and> (\<exists>e. s_session_expires_at s = Some e \<and> e \<le> t)"

definition expired_client :: "instant \<Rightarrow> db \<Rightarrow> string \<Rightarrow> bool" where
  "expired_client t d c \<longleftrightarrow> (\<exists>s \<in> set (sessions d). s_client_id s = c \<and> expired t s)"

lemma sel_expired_sessions_set:
  "set (sel_expired_sessions t d) = {c. expired_client t d c}"
  by (auto simp: sel_expired_sessions_def expired_client_def expired_def split: option.splits)

lemma expire_effect:
  assumes "distinct_key s_client_id (sessions d)" "ids = sel_expired_sessions t d"
  shows "del_sessions_of ids (del_deliveries_of ids d) =
    d\<lparr>sessions := filter (\<lambda>s. \<not> expired t s) (sessions d),
      subscriptions := filter (\<lambda>r. \<not> expired_client t d (sub_client_id r)) (subscriptions d),
      deliveries := filter (\<lambda>r. \<not> expired_client t d (d_client_id r)) (deliveries d),
      inbound_qos2 := filter (\<lambda>r. \<not> expired_client t d (q_client_id r)) (inbound_qos2 d)\<rparr>"
proof -
  have ids: "c \<in> set ids \<longleftrightarrow> expired_client t d c" for c
    using assms(2) sel_expired_sessions_set by auto
  have ex: "expired_client t d (s_client_id s) \<longleftrightarrow> expired t s" if "s \<in> set (sessions d)" for s
    using assms(1) that by (auto simp: expired_client_def distinct_map inj_on_def)
  have gone: "expired_client t d c \<longleftrightarrow> c \<in> s_client_id ` {s \<in> set (sessions d). expired_client t d (s_client_id s)}"
    for c using ex by (auto simp: expired_client_def)
  have ss: "filter (\<lambda>s. \<not> expired_client t d (s_client_id s)) (sessions d) = filter (\<lambda>s. \<not> expired t s) (sessions d)"
    using ex by (intro filter_cong) auto
  show ?thesis
    by (simp add: del_sessions_of_def del_sessions_where_def del_deliveries_of_def del_deliveries_where_def Let_def
        ids ss gone [symmetric])
qed

lemma expireSessions_Inr:
  assumes "expireSessions w = (Inr u, w')"
  shows "store w' = del_sessions_of (sel_expired_sessions (now w) (store w))
     (del_deliveries_of (sel_expired_sessions (now w) (store w)) (store w))"
proof -
  let ?ids = "sel_expired_sessions (now w) (store w)"
  let ?body = "go_bind (query (sel_expired_sessions (now w))) (\<lambda>ids. if ids = [] then go_return 0
     else go_then (execute (del_deliveries_of ids))
       (go_then (execute (del_sessions_of ids)) (go_return (length ids))))"
  from assms obtain n w1 where t: "go_tx ?body w = (Inr n, w1)" and w': "store w' = store w1"
    by (auto simp: expireSessions_def go_bind_Inr go_when_def swept_def split: if_splits)
  from t obtain fs w2 fs' where b: "?body (w\<lparr>faults := fs\<rparr>) = (Inr n, w2)" "w1 = w2\<lparr>faults := fs'\<rparr>"
    by (rule go_tx_Inr)
  show ?thesis
  proof (cases "?ids = []")
    case True
    with b have "store w2 = store w" by (auto simp: go_bind_Inr elim!: query_Inr)
    with True w' b(2) show ?thesis
      by (simp add: del_sessions_of_def del_sessions_where_def del_deliveries_of_def del_deliveries_where_def)
  next
    case False
    from b(1) obtain ids w3 where q: "query (sel_expired_sessions (now w)) (w\<lparr>faults := fs\<rparr>) = (Inr ids, w3)"
      and rest: "(if ids = [] then go_return 0 else go_then (execute (del_deliveries_of ids))
        (go_then (execute (del_sessions_of ids)) (go_return (length ids)))) w3 = (Inr n, w2)"
      by (auto simp: go_bind_Inr)
    from q have ids: "ids = ?ids" "store w3 = store w" by (auto elim: query_Inr)
    with rest False obtain w4 where "execute (del_deliveries_of ?ids) w3 = (Inr (), w4)"
      "execute (del_sessions_of ?ids) w4 = (Inr (), w2)"
      by (auto simp: go_bind_Inr)
    with w' b(2) ids show ?thesis by (auto elim!: execute_Inr)
  qed
qed

text \<open>C24: session expiry. A successful run removes exactly the disconnected sessions whose
  expiry instant has passed, with their subscriptions, deliveries and inbound QoS 2 rows, and
  nothing else; a failed run changes no table.\<close>

theorem expireSessions_exact:
  assumes "expireSessions w = (r, w')" "db_wf (store w)"
  shows "case r of
      Inl e \<Rightarrow> tables.truncate (store w') = tables.truncate (store w)
    | Inr _ \<Rightarrow> store w' = (store w)\<lparr>
        sessions := filter (\<lambda>s. \<not> expired (now w) s) (sessions (store w)),
        subscriptions := filter (\<lambda>r. \<not> expired_client (now w) (store w) (sub_client_id r)) (subscriptions (store w)),
        deliveries := filter (\<lambda>r. \<not> expired_client (now w) (store w) (d_client_id r)) (deliveries (store w)),
        inbound_qos2 := filter (\<lambda>r. \<not> expired_client (now w) (store w) (q_client_id r)) (inbound_qos2 (store w))\<rparr>"
proof (cases r)
  case (Inl e)
  with assms(1) obtain w1 where "go_tx (go_bind (query (sel_expired_sessions (now w))) (\<lambda>ids.
      if ids = [] then go_return 0 else go_then (execute (del_deliveries_of ids))
        (go_then (execute (del_sessions_of ids)) (go_return (length ids))))) w = (Inl e, w')"
    by (auto simp: expireSessions_def go_bind_Inl go_when_def swept_def split: if_splits)
  with Inl show ?thesis by (auto dest: go_tx_Inl)
next
  case (Inr u)
  have "distinct_key s_client_id (sessions (store w))"
    using assms(2) by (simp add: db_wf_def sessions_wf_def)
  from expire_effect [OF this refl] expireSessions_Inr [of w u w'] assms(1) Inr show ?thesis by simp
qed

section \<open>Sweeping orphans\<close>

definition keeps_queue :: "instant \<Rightarrow> db \<Rightarrow> string \<Rightarrow> bool" where
  "keeps_queue cutoff d c \<longleftrightarrow> (\<exists>s \<in> set (sessions d). s_client_id s = c \<and>
     (s_connected s \<or> \<not> s_clean_start s \<or> cutoff \<le> s_last_seen s))"

lemma del_orphan_deliveries_kept:
  assumes "distinct_key s_client_id (sessions d)"
  shows "snd (del_orphan_deliveries cutoff d) =
    d\<lparr>deliveries := filter (\<lambda>r. keeps_queue cutoff d (d_client_id r)) (deliveries d)\<rparr>"
proof -
  have eq: "s = s'" if "s \<in> set (sessions d)" "s' \<in> set (sessions d)" "s_client_id s = s_client_id s'" for s s'
    using assms that by (simp add: distinct_map inj_on_def)
  have "(\<not> (\<exists>s \<in> set (sessions d). s_client_id s = c) \<or>
      (\<exists>s \<in> set (sessions d). s_client_id s = c \<and> \<not> s_connected s \<and> s_clean_start s \<and> s_last_seen s < cutoff))
      \<longleftrightarrow> \<not> keeps_queue cutoff d c" for c
    unfolding keeps_queue_def using eq by (metis not_le)
  then show ?thesis
    by (simp add: del_orphan_deliveries_def del_deliveries_where_def)
qed

lemma sweepOrphanDeliveries_Inr:
  assumes "sweepOrphanDeliveries g w = (Inr u, w')"
  shows "store w' = snd (del_orphan_deliveries (now w - g) (store w))" "now w' = now w"
  using assms by (auto simp: sweepOrphanDeliveries_def go_bind_Inr swept_def elim!: exec_Inr)

lemma sweepOrphanMessages_Inr:
  assumes "sweepOrphanMessages g w = (Inr u, w')"
  shows "store w' = snd (del_orphan_messages (now w - g) (store w))"
  using assms
  by (auto simp: sweepOrphanMessages_def go_bind_Inr swept_def elim!: go_tx_Inr exec_Inr)

text \<open>The orphan sweeps. In the order in which a tick runs them, the two sweeps keep exactly
  the deliveries of sessions that can still fetch them (connected, not clean-start, or seen
  within the grace period) and exactly the messages that are recent or still have a delivery;
  no session is touched.\<close>

theorem orphan_sweeps_exact:
  assumes "sweepOrphanDeliveries g w = (Inr u, w1)" "sweepOrphanMessages g w1 = (Inr u', w')"
    and "db_wf (store w)"
  shows "deliveries (store w') =
      filter (\<lambda>r. keeps_queue (now w - g) (store w) (d_client_id r)) (deliveries (store w)) \<and>
    messages (store w') = filter (\<lambda>m. now w - g \<le> m_created_at m \<or>
      (\<exists>r \<in> set (deliveries (store w')). d_message_id r = m_id m)) (messages (store w)) \<and>
    sessions (store w') = sessions (store w)"
proof -
  have "distinct_key s_client_id (sessions (store w))"
    using assms(3) by (simp add: db_wf_def sessions_wf_def)
  note d = sweepOrphanDeliveries_Inr [OF assms(1)] del_orphan_deliveries_kept [OF this, of "now w - g"]
  have w': "store w' = snd (del_orphan_messages (now w - g) (store w1))"
    using sweepOrphanMessages_Inr [OF assms(2)] d(2) by simp
  with d show ?thesis by (auto simp: del_orphan_messages_def Let_def intro!: filter_cong)
qed

section \<open>The schedule\<close>

lemma total_timed: "never_fails (go_attempt (timed b m))"
  by (intro total_rules)

lemma tick_each_runs:
  assumes "distinct bs"
  shows "\<exists>j' e' w'. tick_each X E t bs j e w = (Inr (j', e'), w') \<and> jobIntervals j' = jobIntervals j \<and>
    (\<forall>b. lastRun j' b = (if b \<in> set bs \<and> shouldRun j b t then Some t else lastRun j b))"
  using assms
proof (induction bs arbitrary: j e w)
  case (Cons b bs)
  show ?case
  proof (cases "shouldRun j b t")
    case False
    with Cons.IH [of j e w] Cons.prems show ?thesis by fastforce
  next
    case True
    obtain r w1 where r: "timed b (run_job X E j b) w = (r, w1)" by fastforce
    define e1 where "e1 = (case e of Some e \<Rightarrow> Some e | None \<Rightarrow> (case r of Inl e \<Rightarrow> Some e | Inr _ \<Rightarrow> None))"
    have other: "shouldRun (markRun b t j) b' t = shouldRun j b' t" if "b' \<noteq> b" for b'
      using that by (simp add: shouldRun_def markRun_def split: option.split)
    obtain j' e' w' where
      "tick_each X E t bs (markRun b t j) e1 w1 = (Inr (j', e'), w')" "jobIntervals j' = jobIntervals j"
      and l: "\<forall>b'. lastRun j' b' = (if b' \<in> set bs \<and> shouldRun (markRun b t j) b' t then Some t
              else lastRun (markRun b t j) b')"
      using Cons.IH [of "markRun b t j" e1 w1] Cons.prems by (auto simp: markRun_def)
    moreover have "lastRun j' b' = (if b' \<in> set (b # bs) \<and> shouldRun j b' t then Some t else lastRun j b')" for b'
      using l other [of b'] True Cons.prems by (cases "b' = b") (auto simp: markRun_def)
    ultimately show ?thesis
      using True r e1_def by (auto simp: go_bind_def go_attempt_def)
  qed
qed simp

lemma tick_dead_runs:
  "\<exists>j' e w'. tick_dead X E t j w = (Inr (j', e), w') \<and> jobIntervals j' = jobIntervals j \<and>
     (\<forall>b. b \<noteq> JobFindDeadBrokers \<longrightarrow> lastRun j' b = lastRun j b) \<and>
     (e \<noteq> None \<longrightarrow> shouldRun j JobFindDeadBrokers t \<and> lastRun j' JobFindDeadBrokers = Some t)"
proof (cases "shouldRun j JobFindDeadBrokers t")
  case True
  obtain r w1 where r: "timed JobFindDeadBrokers findDeadBrokerCandidates w = (r, w1)" by fastforce
  have tot: "never_fails (go_each (tick_dead_broker X E) cs)" for cs
    unfolding tick_dead_broker_def by (intro total_rules)
  show ?thesis
  proof (cases r)
    case (Inl e)
    with True r show ?thesis by (simp add: tick_dead_def markRun_def go_bind_def go_attempt_def)
  next
    case (Inr cs)
    obtain u w2 where "go_each (tick_dead_broker X E) cs w1 = (Inr u, w2)"
      using tot by (rule never_failsE)
    with True r Inr show ?thesis by (simp add: tick_dead_def markRun_def go_bind_def go_attempt_def)
  qed
qed (simp add: tick_dead_def)

lemma Tick_runs:
  assumes "b \<in> set tick_jobs"
  shows "\<exists>j' e w'. Tick X E j w = (Inr (j', e), w') \<and> jobIntervals j' = jobIntervals j \<and>
    (lastRun j' b = lastRun j b \<or> lastRun j' b = Some (now w)) \<and>
    (\<not> shouldRun j b (now w) \<longrightarrow> lastRun j' b = lastRun j b) \<and>
    (shouldRun j b (now w) \<longrightarrow> lastRun j' b = Some (now w) \<or>
       e \<noteq> None \<and> shouldRun j JobFindDeadBrokers (now w) \<and>
       lastRun j' JobFindDeadBrokers = Some (now w) \<and> lastRun j' b = lastRun j b)"
proof -
  have b: "b \<noteq> JobFindDeadBrokers" "distinct tick_jobs" using assms by (auto simp: tick_jobs_def)
  obtain j1 e w1 where d: "tick_dead X E (now w) j w = (Inr (j1, e), w1)" "jobIntervals j1 = jobIntervals j"
    "lastRun j1 b = lastRun j b"
    "e \<noteq> None \<longrightarrow> shouldRun j JobFindDeadBrokers (now w) \<and> lastRun j1 JobFindDeadBrokers = Some (now w)"
    using tick_dead_runs [of X E "now w" j w] b(1) by auto
  show ?thesis
  proof (cases e)
    case (Some e')
    with d show ?thesis by (simp add: Tick_def)
  next
    case None
    obtain j2 e2 w2 where "tick_each X E (now w) tick_jobs j1 None w1 = (Inr (j2, e2), w2)"
      "jobIntervals j2 = jobIntervals j1"
      "lastRun j2 b = (if shouldRun j1 b (now w) then Some (now w) else lastRun j1 b)"
      using tick_each_runs [OF b(2)] assms by metis
    moreover have "shouldRun j1 b (now w) = shouldRun j b (now w)"
      using d(2,3) by (simp add: shouldRun_def split: option.split)
    ultimately show ?thesis using None d by (simp add: Tick_def)
  qed
qed

text \<open>The cadence of a tick. Under every schedule of failures a tick finishes; it never runs
  a job before its interval has elapsed; and it runs every job that is due, except when the
  dead-Pod scan of this very tick failed, which is then recorded as run.\<close>

theorem tick_cadence:
  assumes "b \<in> set tick_jobs"
  shows "\<exists>j' e w'. Tick X E j w = (Inr (j', e), w') \<and>
    (\<not> shouldRun j b (now w) \<longrightarrow> lastRun j' b = lastRun j b) \<and>
    (shouldRun j b (now w) \<longrightarrow> lastRun j' b = Some (now w) \<or>
       e \<noteq> None \<and> lastRun j' JobFindDeadBrokers = Some (now w))"
  using Tick_runs [OF assms, of X E j w] by blast

text \<open>C25: no job starves. A failing dead-Pod scan cuts a tick short, but not two in a row: of two
  ticks less than the scan's interval apart, one runs every job that was due at the first.\<close>

theorem jobs_not_starved:
  assumes "Tick X E j w1 = (Inr (j1, e1), w1')" "Tick X E' j1 w2 = (Inr (j2, e2), w2')"
    and "b \<in> set tick_jobs" "shouldRun j b (now w1)"
    and "now w1 \<le> now w2" "now w2 - now w1 < jobIntervals j JobFindDeadBrokers"
  shows "lastRun j2 b = Some (now w1) \<or> lastRun j2 b = Some (now w2)"
proof -
  have 1: "jobIntervals j1 = jobIntervals j"
    "lastRun j1 b = Some (now w1) \<or>
       lastRun j1 JobFindDeadBrokers = Some (now w1) \<and> lastRun j1 b = lastRun j b"
    using Tick_runs [OF assms(3), of X E j w1] assms(1,4) by auto
  have 2: "lastRun j2 b = lastRun j1 b \<or> lastRun j2 b = Some (now w2)"
    "shouldRun j1 b (now w2) \<Longrightarrow> lastRun j2 b = Some (now w2) \<or> shouldRun j1 JobFindDeadBrokers (now w2)"
    using Tick_runs [OF assms(3), of X E' j1 w2] assms(2) by auto
  show ?thesis
  proof (cases "lastRun j1 b = Some (now w1)")
    case True
    with 2(1) show ?thesis by auto
  next
    case False
    with 1(2) have "lastRun j1 JobFindDeadBrokers = Some (now w1)" "lastRun j1 b = lastRun j b" by auto
    with 1(1) assms(4-6) have "shouldRun j1 b (now w2)" "\<not> shouldRun j1 JobFindDeadBrokers (now w2)"
      by (auto simp: shouldRun_def split: option.splits if_splits)
    with 2(2) show ?thesis by blast
  qed
qed

section \<open>Concrete runs\<close>

definition sample_env :: pg_env where
  "sample_env = \<lparr>lock_held = (\<lambda>b. b \<noteq> UUID 2), row_locked = (\<lambda>_. False), notification_queue_usage = 0\<rparr>"

definition sample_will :: "session_row \<Rightarrow> session_row" where
  "sample_will s = s\<lparr>s_will_topic := Some ''a/b'', s_will_payload := Some [7], s_will_qos := Some 1,
     s_will_retain := Some False, s_will_fire_at := Some 500, s_session_expires_at := Some 900\<rparr>"

definition sample_will_db :: db where
  "sample_will_db = sample_db\<lparr>sessions := [sample_session ''c'' (Some (UUID 1)),
     sample_will (sample_session ''e'' None), sample_session ''f'' (Some (UUID 2))]\<rparr>"

lemma sample_will_db_wf: "db_wf sample_will_db"
  using sample_db_wf
  by (simp add: db_wf_def sessions_wf_def messages_wf_def deliveries_wf_def sample_will_db_def sample_db_def
      empty_db_def sample_session_def sample_sub_def sample_will_def sub_key_def packet_ids_unique_def)

abbreviation sample_janitor_world :: "fault option list \<Rightarrow> world" where
  "sample_janitor_world fs \<equiv> (sample_world sample_will_db (sample_conn ''c'' 5))\<lparr>faults := fs\<rparr>"

theorem due_wills_published_witness:
  "\<exists>w'. fireDueWills sample_ext sample_env (sample_janitor_world []) = (Inr (), w') \<and>
     map message_view (messages (store w')) = [(''a/b'', [7])]"
proof -
  let ?w = "sample_janitor_world []"
  have j: "jsonOrNil sample_ext [] = None" by (simp add: jsonOrNil_def)
  have d: "filter (due sample_env (now ?w)) (sessions (store ?w)) = [sample_will (sample_session ''e'' None)]"
    by (simp add: sample_world_def sample_will_db_def sample_session_def sample_will_def due_def sample_env_def)
  have p: "\<forall>s \<in> set (sessions (store ?w)). due sample_env (now ?w) s \<longrightarrow> publishable sample_ext s"
    by (auto simp: sample_world_def sample_will_db_def sample_session_def sample_will_def due_def publishable_def
        j me_seconds_def)
  have "messages (store ?w) = []" "messages_seq (store ?w) = 1" "length (sessions (store ?w)) = 3"
    "0 \<le> maxQueued (knobs ?w)" "faults ?w = []"
    by (simp_all add: sample_world_def sample_will_db_def sample_db_def empty_db_def sample_knobs_def)
  with due_wills_published [of ?w sample_env sample_ext] p d sample_will_db_wf show ?thesis
    by (auto simp: sample_world_def will_message_def sample_will_def)
qed

theorem fireDueWills_atomic_witness:
  "\<exists>e w'. fireDueWills sample_ext sample_env (sample_janitor_world [Some FaultDeadline]) = (Inl e, w') \<and>
     sessions (store w') = sessions sample_will_db"
proof -
  let ?w = "sample_janitor_world [Some FaultDeadline]"
  have "fst (fireDueWills sample_ext sample_env ?w) = Inl ErrDeadlineExceeded" by code_simp
  then obtain w' where r: "fireDueWills sample_ext sample_env ?w = (Inl ErrDeadlineExceeded, w')"
    by (metis prod.collapse)
  from fireDueWills_atomic [OF r] sample_will_db_wf r show ?thesis by (simp add: sample_world_def)
qed

theorem dead_broker_takeover_witness:
  "\<exists>w'. handleDeadBroker sample_ext sample_env (UUID 2) (sample_janitor_world []) = (Inr True, w') \<and>
     (\<forall>s \<in> set (sessions (store w')). s_broker_id s \<noteq> Some (UUID 2))"
proof -
  let ?w = "sample_janitor_world []"
  have "fst (handleDeadBroker sample_ext sample_env (UUID 2) ?w) = Inr True" by code_simp
  then obtain w' where r: "handleDeadBroker sample_ext sample_env (UUID 2) ?w = (Inr True, w')"
    by (metis prod.collapse)
  moreover have "\<not> lock_held sample_env (UUID 2)" by (simp add: sample_env_def)
  ultimately show ?thesis using dead_broker_takeover [OF r] by blast
qed

theorem expireSessions_exact_witness:
  "\<exists>w'. expireSessions (sample_janitor_world []) = (Inr (), w') \<and>
     map s_client_id (sessions (store w')) = [''c'', ''f''] \<and>
     map sub_client_id (subscriptions (store w')) = [''c'', ''c'']"
proof -
  let ?w = "sample_janitor_world []"
  have "fst (expireSessions ?w) = Inr ()" by code_simp
  then obtain w' where r: "expireSessions ?w = (Inr (), w')" by (metis prod.collapse)
  from expireSessions_exact [OF r] sample_will_db_wf r show ?thesis
    by (simp add: sample_world_def sample_will_db_def sample_db_def sample_session_def sample_will_def
        sample_sub_def expired_def expired_client_def)
qed

theorem orphan_sweeps_exact_witness:
  "\<exists>w1 w'. sweepOrphanDeliveries 0 (sample_world (sample_queue 1) (sample_conn ''c'' 5)) = (Inr (), w1) \<and>
     sweepOrphanMessages 0 w1 = (Inr (), w') \<and> length (messages (store w')) = 1"
proof -
  let ?w = "sample_world (sample_queue 1) (sample_conn ''c'' 5)"
  have "fst (sweepOrphanDeliveries 0 ?w) = Inr ()" by code_simp
  then obtain w1 where r: "sweepOrphanDeliveries 0 ?w = (Inr (), w1)" by (metis prod.collapse)
  have "fst (sweepOrphanMessages 0 (snd (sweepOrphanDeliveries 0 ?w))) = Inr ()" by code_simp
  with r obtain w' where r': "sweepOrphanMessages 0 w1 = (Inr (), w')" by (metis prod.collapse snd_conv)
  from orphan_sweeps_exact [OF r r'] sample_queue_wf [of 1] r r' show ?thesis
    by (simp add: sample_world_def sample_queue_def sample_db_def sample_session_def keeps_queue_def)
qed

theorem tick_cadence_witness:
  "\<exists>j' e w'. Tick sample_ext sample_env new_janitor (sample_janitor_world []) = (Inr (j', e), w') \<and>
     (lastRun j' JobExpireSessions = Some 1000 \<or> e \<noteq> None)"
  using tick_cadence [of JobExpireSessions sample_ext sample_env new_janitor "sample_janitor_world []"]
  by (auto simp: tick_jobs_def shouldRun_def new_janitor_def sample_world_def)

theorem jobs_not_starved_witness:
  "\<exists>j1 e1 w1' j2 e2 w2'. Tick sample_ext sample_env new_janitor (sample_janitor_world []) = (Inr (j1, e1), w1') \<and>
     Tick sample_ext sample_env j1 ((sample_janitor_world [])\<lparr>now := 2000\<rparr>) = (Inr (j2, e2), w2') \<and>
     lastRun j2 JobFireDueWills \<noteq> None"
proof -
  have m: "JobFireDueWills \<in> set tick_jobs" by (simp add: tick_jobs_def)
  obtain j1 e1 w1' where t1: "Tick sample_ext sample_env new_janitor (sample_janitor_world []) = (Inr (j1, e1), w1')"
    using Tick_runs [OF m] by metis
  obtain j2 e2 w2' where t2: "Tick sample_ext sample_env j1 ((sample_janitor_world [])\<lparr>now := 2000\<rparr>) = (Inr (j2, e2), w2')"
    using Tick_runs [OF m] by metis
  from jobs_not_starved [OF t1 t2 m] t1 t2 show ?thesis
    by (auto simp: shouldRun_def new_janitor_def sample_world_def)
qed

section \<open>Where the janitor loses a will\<close>

text \<open>A publish that fails is only logged, and the will is cleared with the others: after this
  run, which reports success, the will is gone and no message was ever stored.\<close>

lemma will_lost_on_publish_error:
  "let w' = snd (fireDueWills sample_ext sample_env (sample_janitor_world [None, None, Some FaultDeadline])) in
     fst (fireDueWills sample_ext sample_env (sample_janitor_world [None, None, Some FaultDeadline])) = Inr () \<and>
     messages (store w') = [] \<and> map s_will_topic (sessions (store w')) = [None, None, None]"
  by code_simp

text \<open>The same happens when the will has an empty payload, which reaches the database as
  \<open>NULL\<close>.\<close>

lemma empty_will_lost:
  "let w = (sample_world (sample_will_db\<lparr>sessions := [(sample_will (sample_session ''e'' None))
         \<lparr>s_will_payload := None\<rparr>]\<rparr>) (sample_conn ''c'' 5));
       w' = snd (fireDueWills sample_ext sample_env w) in
     fst (fireDueWills sample_ext sample_env w) = Inr () \<and>
     messages (store w') = [] \<and> map s_will_topic (sessions (store w')) = [None]"
  by code_simp

text \<open>A dead Pod whose sessions all have delayed wills is taken over but not counted.\<close>

lemma delayed_takeover_unclaimed:
  assumes "handleDeadBroker X E b w = (Inr claimed, w')" "\<not> lock_held E b"
    and "\<forall>s \<in> set (sessions (store w)). s_broker_id s = Some b \<longrightarrow> s_will_topic s \<noteq> None \<and> has_delay s"
  shows "\<not> claimed"
  using handleDeadBroker_Inr [OF assms(1,2)] assms(3) by auto

text \<open>Taking over a dead Pod never sets a session's end.\<close>

lemma dead_row_expiry: "s_session_expires_at (dead_row b t s) = s_session_expires_at s"
  by (simp add: dead_row_def detach_delayed_def detach_cleared_def clear_will_def)

end
