(* ===== verification/ListenerFacts.thy ===== *)
theory ListenerFacts
  imports JanitorFacts
begin

text \<open>
  What the listener guarantees: signals between Pods reach exactly the connection they are
  meant for, reconnecting is bounded, and a Pod that reconnects reclaims its clients.
\<close>

section \<open>Payloads and channels\<close>

lemma parseTakeoverPayload_print:
  assumes "uuid_text_ok X"
  shows "parseTakeoverPayload X (uuid_string X t @ cid) = (t, cid, True)"
proof -
  have "length (uuid_string X t) = 36" "uuid_parse X (uuid_string X t) = Some t"
    using assms by (auto simp: uuid_text_ok_def)
  then show ?thesis by (simp add: parseTakeoverPayload_def)
qed

text \<open>The three channels of a Pod, and those of different Pods, are all different: the texts of
  the identifiers have equal length and the prefixes do not.\<close>

lemma uuid_string_inj:
  assumes "uuid_text_ok X"
  shows "uuid_string X a = uuid_string X b \<longleftrightarrow> a = b"
  using assms by (metis option.inject uuid_text_ok_def)

lemma channels_distinct:
  assumes "uuid_text_ok X"
  shows "unquotedPub X a \<noteq> unquotedTakeover X b" "unquotedPub X a \<noteq> unquotedQuota X b"
    "unquotedTakeover X a \<noteq> unquotedQuota X b"
    "unquotedPub X a = unquotedPub X b \<longleftrightarrow> a = b"
    "unquotedTakeover X a = unquotedTakeover X b \<longleftrightarrow> a = b"
    "unquotedQuota X a = unquotedQuota X b \<longleftrightarrow> a = b"
proof -
  have len: "length (uuid_string X u) = 36" for u using assms by (simp add: uuid_text_ok_def)
  have "length (unquotedPub X a) = 43" "length (unquotedTakeover X c) = 52" "length (unquotedQuota X c) = 49"
    for a c by (simp_all add: unquotedPub_def unquotedTakeover_def unquotedQuota_def len)
  then show "unquotedPub X a \<noteq> unquotedTakeover X b" "unquotedPub X a \<noteq> unquotedQuota X b"
    "unquotedTakeover X a \<noteq> unquotedQuota X b" by (metis numeral_eq_iff semiring_norm(86,87,88,89,90))+
  show "unquotedPub X a = unquotedPub X b \<longleftrightarrow> a = b"
    "unquotedTakeover X a = unquotedTakeover X b \<longleftrightarrow> a = b" "unquotedQuota X a = unquotedQuota X b \<longleftrightarrow> a = b"
    by (simp_all add: unquotedPub_def unquotedTakeover_def unquotedQuota_def uuid_string_inj [OF assms])
qed

lemma publish_channel_pub: "publish_channel X b = unquotedPub X b"
  by (simp add: publish_channel_def unquotedPub_def)

section \<open>Signals reach the connection they are meant for\<close>

text \<open>What closing a connection for a takeover does to the Pod.\<close>

lemma ShutdownForTakeover_open:
  assumes "\<not> closing (heap w k)" "map_of (conns w) (clientID (heap w k)) = Some k" "clientID (heap w k) \<noteq> []"
  shows "\<exists>cs. ShutdownForTakeover k w = (Inr (), (upd_conn k (\<lambda>c. c\<lparr>takenOver := True, closing := True\<rparr>) w)
     \<lparr>conns := AList.delete (clientID (heap w k)) (conns w), counters := cs\<rparr>)"
  using assms
  by (auto simp: ShutdownForTakeover_def shutdown_def unregisterConnIfSame_def ConnFor_def upd_conn_def
      fun_upd_def cong: if_cong)

lemma NotifyTakeover_Inr:
  assumes "NotifyTakeover X b cid token w = (Inr u, w')"
  shows "notifications (store w') = notifications (store w) @
    [(unquotedTakeover X b, uuid_string X token @ cid)]"
  using assms unfolding NotifyTakeover_def
  by (elim sql_Inr) (auto simp: pg_notify_def unquotedTakeover_def split: if_splits)

lemma dispatch_takeover:
  assumes "uuid_text_ok X"
  shows "dispatchNotification X b (unquotedTakeover X b, uuid_string X token @ cid) =
    go_bind (ConnFor cid) (\<lambda>r. case r of None \<Rightarrow> go_return ()
      | Some k \<Rightarrow> go_bind (go_conn k) (\<lambda>c. if sessionToken c \<noteq> token then go_return () else ShutdownForTakeover k))"
  using channels_distinct [OF assms, of b b]
  by (simp add: dispatchNotification_def parseTakeoverPayload_print [OF assms])

text \<open>C27: a takeover signal closes the superseded connection and no other. The notification one
  Pod sends for the previous owner, dispatched there, closes that owner's connection of the
  client, marked as taken over so that no will fires, and unregisters it, if the connection
  still has the superseded token; a connection with another token, and every other
  connection, is left alone. A Pod the signal is not for ignores it.\<close>

theorem takeover_signal:
  assumes "uuid_text_ok X" "NotifyTakeover X b cid token w = (Inr u, w')"
    and "map_of (conns v) cid = Some k" "clientID (heap v k) = cid" "cid \<noteq> []" "\<not> closing (heap v k)"
  shows "\<exists>n. notifications (store w') = notifications (store w) @ [n] \<and>
    (self \<noteq> b \<longrightarrow> dispatchNotification X self n v = (Inr (), v)) \<and>
    (sessionToken (heap v k) \<noteq> token \<longrightarrow> dispatchNotification X b n v = (Inr (), v)) \<and>
    (sessionToken (heap v k) = token \<longrightarrow> (\<exists>v'. dispatchNotification X b n v = (Inr (), v') \<and>
       store v' = store v \<and> closing (heap v' k) \<and> takenOver (heap v' k) \<and>
       map_of (conns v') = (map_of (conns v))(cid := None) \<and> (\<forall>j. j \<noteq> k \<longrightarrow> heap v' j = heap v j)))"
proof (intro exI conjI)
  let ?n = "(unquotedTakeover X b, uuid_string X token @ cid)"
  show "notifications (store w') = notifications (store w) @ [?n]"
    by (rule NotifyTakeover_Inr [OF assms(2)])
  show "self \<noteq> b \<longrightarrow> dispatchNotification X self ?n v = (Inr (), v)"
    using channels_distinct [OF assms(1)] by (auto simp: dispatchNotification_def dest: sym)
  show "sessionToken (heap v k) \<noteq> token \<longrightarrow> dispatchNotification X b ?n v = (Inr (), v)"
    using assms(3) by (simp add: dispatch_takeover [OF assms(1)] ConnFor_def)
  obtain cs where "ShutdownForTakeover k v = (Inr (), (upd_conn k (\<lambda>c. c\<lparr>takenOver := True, closing := True\<rparr>) v)
     \<lparr>conns := AList.delete cid (conns v), counters := cs\<rparr>)"
    using ShutdownForTakeover_open [of v k] assms(3-6) by auto
  with assms(3) show "sessionToken (heap v k) = token \<longrightarrow> (\<exists>v'. dispatchNotification X b ?n v = (Inr (), v') \<and>
       store v' = store v \<and> closing (heap v' k) \<and> takenOver (heap v' k) \<and>
       map_of (conns v') = (map_of (conns v))(cid := None) \<and> (\<forall>j. j \<noteq> k \<longrightarrow> heap v' j = heap v j))"
    by (simp add: dispatch_takeover [OF assms(1)] ConnFor_def delete_conv')
qed

text \<open>A publish wakes exactly the Pods it notifies. A publish adds one notification for each
  Pod that owns a new delivery; on that Pod the listener turns it into a call of \<open>Deliver\<close> for
  the new message, and on every other Pod into nothing.\<close>

theorem publish_signal:
  assumes "uuid_text_ok X" "publishCore X p w = (Inr res, w')" "messages_seq (store w) < 2 ^ 63"
  shows "\<exists>ns. notifications (store w') = notifications (store w) @ ns \<and>
    list_all2 (\<lambda>b n. dispatchNotification X b n = go_ignore (Deliver X (MessageID res)) \<and>
       (\<forall>self. self \<noteq> b \<longrightarrow> dispatchNotification X self n = go_return ())) (BrokerIDs res) ns"
proof -
  let ?ns = "map (\<lambda>b. (publish_channel X b, itoa (messages_seq (store w)))) (BrokerIDs res)"
  from publish_db_effect [OF publishCore_Inr [OF assms(2)]]
  have n: "notifications (store w') = notifications (store w) @ ?ns" and i: "MessageID res = messages_seq (store w)"
    by auto
  have hit: "dispatchNotification X b (publish_channel X b, itoa (MessageID res)) = go_ignore (Deliver X (MessageID res))" for b
    using parse_int64_itoa [of "MessageID res"] assms(3) i
    by (simp add: dispatchNotification_def publish_channel_pub deliver_id_def)
  have miss: "dispatchNotification X self (publish_channel X b, pl) = go_return ()" if "self \<noteq> b" for self b pl
    using channels_distinct [OF assms(1)] that
    by (simp add: dispatchNotification_def publish_channel_pub)
  have "list_all2 (\<lambda>b n. dispatchNotification X b n = go_ignore (Deliver X (MessageID res)) \<and>
      (\<forall>self. self \<noteq> b \<longrightarrow> dispatchNotification X self n = go_return ())) (BrokerIDs res) ?ns"
    using hit miss i by (simp add: list_all2_map2 list.rel_refl)
  with n show ?thesis by blast
qed

section \<open>Reconnecting\<close>

fun backoffs :: "nat \<Rightarrow> duration \<Rightarrow> duration" where
  "backoffs 0 b = 0"
| "backoffs (Suc n) b = (if n = 0 then 0 else b + backoffs n (next_backoff b))"

lemma next_backoff_pos: "0 \<le> b \<Longrightarrow> 0 \<le> next_backoff b"
  by (simp add: next_backoff_def reconnectMaxBackoff_def)

lemma backoffs_pos: "0 \<le> b \<Longrightarrow> 0 \<le> backoffs n b"
  by (induction n arbitrary: b) (auto simp: next_backoff_pos)

definition only_faults :: "world \<Rightarrow> world \<Rightarrow> bool" where
  "only_faults w w' \<longleftrightarrow> (\<exists>fs. w' = w\<lparr>faults := fs\<rparr>)"

interpretation only_faults: run_relation only_faults
proof
  show "only_faults w w" for w
    unfolding only_faults_def by (intro exI [of _ "faults w"]) simp
qed (auto simp: only_faults_def)

lemma dial_world: "keeps only_faults dialAndRegister"
  unfolding dialAndRegister_def acquireBrokerLock_def by (intro keeps_rules)

lemma reconnect_loop_ends:
  assumes "0 \<le> b"
  shows "\<exists>ok w'. reconnect_loop ctx_done n b w = (Inr ok, w') \<and> store w' = store w \<and>
    now w \<le> now w' \<and> now w' \<le> now w + backoffs n b \<and>
    (\<not> ok \<longrightarrow> (\<forall>t. \<not> ctx_done t) \<longrightarrow> now w' = now w + backoffs n b)"
  using assms
proof (induction n arbitrary: b w)
  case (Suc n)
  obtain r w1 where d: "dialAndRegister w = (r, w1)" by fastforce
  obtain fs where w1: "w1 = w\<lparr>faults := fs\<rparr>"
    using keepsD [OF dial_world d] by (auto simp: only_faults_def)
  let ?w2 = "w1\<lparr>now := now w1 + b\<rparr>"
  obtain ok w' where ih: "reconnect_loop ctx_done n (next_backoff b) ?w2 = (Inr ok, w')" "store w' = store ?w2"
    "now ?w2 \<le> now w'" "now w' \<le> now ?w2 + backoffs n (next_backoff b)"
    "\<not> ok \<longrightarrow> (\<forall>t. \<not> ctx_done t) \<longrightarrow> now w' = now ?w2 + backoffs n (next_backoff b)"
    using Suc.IH [OF next_backoff_pos [OF Suc.prems]] by blast
  have pos: "0 \<le> backoffs (Suc n) b" using Suc.prems by (rule backoffs_pos)
  show ?case
  proof (cases "ctx_done (now w)")
    case True
    with pos show ?thesis by auto
  next
    case False
    show ?thesis
    proof (cases r)
      case (Inr u)
      with False d w1 pos show ?thesis by (auto simp: go_bind_def go_attempt_def)
    next
      case (Inl e)
      with False d w1 ih Suc.prems show ?thesis
        by (cases "n = 0") (auto simp: go_bind_def go_attempt_def go_sleep_def)
    qed
  qed
qed auto

text \<open>Reconnecting is bounded. Reconnecting always ends, touches no table, and takes at most
  15 seconds of back-off; the first attempt is immediate, and giving up while the Pod is not
  being stopped takes all five attempts.\<close>

theorem reconnect_bounded:
  "\<exists>ok w'. reconnect ctx_done w = (Inr ok, w') \<and> store w' = store w \<and>
     now w \<le> now w' \<and> now w' \<le> now w + seconds 15 \<and>
     (\<not> ctx_done (now w) \<longrightarrow> (\<forall>w1. dialAndRegister w = (Inr (), w1) \<longrightarrow> ok \<and> w' = w1)) \<and>
     (\<not> ok \<longrightarrow> (\<forall>t. \<not> ctx_done t) \<longrightarrow> now w' = now w + seconds 15)"
proof -
  have total: "backoffs reconnectMaxAttempts reconnectInitialBackoff = seconds 15"
    by (simp add: reconnectMaxAttempts_def reconnectInitialBackoff_def eval_nat_numeral next_backoff_def
        reconnectMaxBackoff_def)
  obtain ok w' where "reconnect ctx_done w = (Inr ok, w')" "store w' = store w" "now w \<le> now w'"
    "now w' \<le> now w + seconds 15" "\<not> ok \<longrightarrow> (\<forall>t. \<not> ctx_done t) \<longrightarrow> now w' = now w + seconds 15"
    using reconnect_loop_ends [of reconnectInitialBackoff ctx_done reconnectMaxAttempts w] total
    by (auto simp: reconnect_def reconnectInitialBackoff_def)
  moreover have "ok \<and> w' = w1" if "\<not> ctx_done (now w)" "dialAndRegister w = (Inr (), w1)" for w1
    using that calculation(1)
    by (simp add: reconnect_def reconnectMaxAttempts_def eval_nat_numeral go_bind_def go_attempt_def)
  ultimately show ?thesis by blast
qed

section \<open>After a reconnect\<close>

definition owns :: "world \<Rightarrow> session_row \<Rightarrow> bool" where
  "owns w s \<longleftrightarrow> (\<exists>k \<in> snd ` set (conns w). clientID (heap w k) = s_client_id s \<and>
     sessionToken (heap w k) = s_session_token s)"

definition attested :: "world \<Rightarrow> session_row \<Rightarrow> session_row" where
  "attested w s = (if owns w s
     then s\<lparr>s_broker_id := Some (brokerID w), s_connected := True, s_last_seen := now w\<rparr> else s)"

lemma AttestOwnedSessions_ok:
  assumes "faults w = []"
  shows "AttestOwnedSessions w = (Inr (), w\<lparr>store := (store w)\<lparr>sessions := map (attested w) (sessions (store w))\<rparr>\<rparr>)"
proof -
  let ?owned = "map (\<lambda>(_, k). (clientID (heap w k), sessionToken (heap w k))) (conns w)"
  have o: "(s_client_id s, s_session_token s) \<in> set ?owned \<longleftrightarrow> owns w s" for s
    unfolding owns_def by force
  show ?thesis
  proof (cases "conns w = []")
    case True
    then have "map (attested w) (sessions (store w)) = sessions (store w)"
      by (auto simp: attested_def owns_def intro: map_idI)
    with True show ?thesis by (simp add: AttestOwnedSessions_def)
  next
    case False
    have "upd_sessions_attest (brokerID w) ?owned (now w) (store w) =
        (store w)\<lparr>sessions := map (attested w) (sessions (store w))\<rparr>"
      unfolding upd_sessions_attest_def o attested_def ..
    with False assms show ?thesis
      by (simp add: AttestOwnedSessions_def go_ignore_eq execute_ok)
  qed
qed

lemma kick_kick [simp]: "kick (kick c) = kick c"
  by (simp add: kick_def split: option.split)

lemma each_KickDrain:
  "\<exists>w'. go_each KickDrain ks w = (Inr (), w') \<and> store w' = store w \<and>
     (\<forall>j. heap w' j = (if j \<in> set ks then kick (heap w j) else heap w j))"
proof (induction ks arbitrary: w)
  case (Cons k ks)
  from Cons [of "upd_conn k kick w"] obtain w' where
    "go_each KickDrain ks (upd_conn k kick w) = (Inr (), w')" "store w' = store w"
    "\<forall>j. heap w' j = (if j \<in> set ks then kick (heap (upd_conn k kick w) j) else heap (upd_conn k kick w) j)"
    by auto
  moreover have "KickDrain k w = (Inr (), upd_conn k kick w)" by (simp add: KickDrain_def)
  ultimately show ?case by auto
qed simp

text \<open>C28: a Pod that reconnects reclaims its clients. When a listener's connection breaks and the
  first reconnect succeeds, every session whose row still carries the token of a connection
  this Pod holds is owned by the Pod and connected again, whatever a peer did to it in the
  meantime; a session taken over by another connection has another token and is left alone;
  and every connection's drain loop is woken.\<close>

theorem reconnect_reclaims:
  assumes "faults w = []" "\<not> ctx_done (now w)"
  shows "\<exists>w'. listener_step X ctx_done WaitFailed w = (Inr LoopOn, w') \<and>
    sessions (store w') = map (attested w) (sessions (store w)) \<and>
    (\<forall>k \<in> snd ` set (conns w). drainKick (heap w k) \<noteq> None \<longrightarrow> drainKick (heap w' k) = Some True)"
proof -
  let ?w1 = "w\<lparr>counters := (counters w)((''ListenerRestartsTotal'', ''wait_error'') :=
      counters w (''ListenerRestartsTotal'', ''wait_error'') + 1)\<rparr>"
  let ?w2 = "?w1\<lparr>store := (store w)\<lparr>sessions := map (attested w) (sessions (store w))\<rparr>\<rparr>"
  have rc: "reconnect ctx_done ?w1 = (Inr True, ?w1)"
    using assms by (simp add: reconnect_def reconnectMaxAttempts_def eval_nat_numeral dialAndRegister_def
        acquireBrokerLock_def go_bind_def go_attempt_def)
  have "attested ?w1 = attested w" by (simp add: attested_def [abs_def] owns_def cong: if_cong)
  then have at: "AttestOwnedSessions ?w1 = (Inr (), ?w2)"
    using AttestOwnedSessions_ok [of ?w1] assms(1) by simp
  obtain w' where kd: "go_each KickDrain (map snd (conns w)) ?w2 = (Inr (), w')" "store w' = store ?w2"
    "\<forall>j. heap w' j = (if j \<in> set (map snd (conns w)) then kick (heap ?w2 j) else heap ?w2 j)"
    using each_KickDrain by blast
  have "listener_step X ctx_done WaitFailed w = (Inr LoopOn, w')"
    using assms(2) rc at kd(1) by (simp add: listener_step_def KickAllDrains_def)
  with kd(2,3) show ?thesis
    by (auto simp: kick_def split: option.splits)
qed

text \<open>The rows a peer detached while the Pod was cut off are among those it reclaims, but a
  delayed will the peer scheduled for one of them stays scheduled: the janitor will publish it
  although the client never left.\<close>

lemma attested_keeps_schedule: "s_will_fire_at (attested w s) = s_will_fire_at s"
  "s_will_topic (attested w s) = s_will_topic s"
  by (simp_all add: attested_def)

lemma reclaimed_will_still_due:
  assumes "s_broker_id s = Some b" "s_will_topic s \<noteq> None" "s_will_delay s = Some (int n)" "0 < n"
    and "s_session_expires_at s = None" "owns w s" "t + seconds (int n) \<le> t'" "\<not> row_locked E (s_client_id s)"
  shows "s_connected (attested w (dead_row b t s)) \<and> due E t' (attested w (dead_row b t s))"
proof -
  have "owns w (dead_row b t s)"
    using assms(6) by (simp add: owns_def dead_row_def detach_delayed_def detach_cleared_def clear_will_def)
  with assms show ?thesis
    by (simp add: attested_def due_def dead_row_def has_delay_def detach_delayed_def delayed_fire_at_def)
qed

section \<open>Concrete runs\<close>

theorem takeover_signal_witness:
  "\<exists>n v'. dispatchNotification sample_ext (UUID 1) n (sample_world sample_db (sample_conn ''c'' 5)) = (Inr (), v') \<and>
     closing (heap v' 0) \<and> takenOver (heap v' 0)"
proof -
  let ?v = "sample_world sample_db (sample_conn ''c'' 5)"
  have "fst (NotifyTakeover sample_ext (UUID 1) ''c'' (UUID 7) ?v) = Inr ()" by code_simp
  then obtain w' where r: "NotifyTakeover sample_ext (UUID 1) ''c'' (UUID 7) ?v = (Inr (), w')"
    by (metis prod.collapse)
  have "map_of (conns ?v) ''c'' = Some 0" "clientID (heap ?v 0) = ''c''" "\<not> closing (heap ?v 0)"
    "sessionToken (heap ?v 0) = UUID 7"
    by (simp_all add: sample_world_def sample_conn_def newConn_def)
  with takeover_signal [OF sample_ext_ok(1) r, of ?v 0 "UUID 1"] show ?thesis by auto
qed

theorem publish_signal_witness:
  "\<exists>n. dispatchNotification sample_ext (UUID 1) n = go_ignore (Deliver sample_ext 1) \<and>
     dispatchNotification sample_ext (UUID 2) n = go_return ()"
proof -
  let ?w = "sample_world sample_db (sample_conn ''c'' 5)"
  let ?res = "\<lparr>MessageID = 1, BrokerIDs = [UUID 1], OverflowClients = []\<rparr>"
  obtain w' where r: "publishCore sample_ext (sample_publish 1) ?w = (Inr ?res, w')"
    using sample_run [of 1] by auto
  have "messages_seq (store ?w) < 2 ^ 63" by (simp add: sample_db_def empty_db_def)
  then obtain n where "dispatchNotification sample_ext (UUID 1) n = go_ignore (Deliver sample_ext 1)"
    "\<forall>self. self \<noteq> UUID 1 \<longrightarrow> dispatchNotification sample_ext self n = go_return ()"
    using publish_signal [OF sample_ext_ok(1) r] by (auto simp: list_all2_Cons1)
  then show ?thesis by (intro exI [of _ n]) simp
qed

theorem reconnect_bounded_witness:
  "\<exists>ok w'. reconnect (\<lambda>t. False) (sample_world sample_db (sample_conn ''c'' 5)) = (Inr ok, w') \<and>
     now w' \<le> 1000 + seconds 15"
  using reconnect_bounded [of "\<lambda>t. False" "sample_world sample_db (sample_conn ''c'' 5)"]
  by (auto simp: sample_world_def)

theorem reconnect_reclaims_witness:
  "\<exists>w'. listener_step sample_ext (\<lambda>t. False) WaitFailed (sample_world sample_db (sample_conn ''c'' 5)) = (Inr LoopOn, w') \<and>
     map s_connected (sessions (store w')) = [True, False]"
  using reconnect_reclaims [of "sample_world sample_db (sample_conn ''c'' 5)" "\<lambda>t. False" sample_ext]
  by (auto simp: sample_world_def sample_db_def sample_session_def sample_conn_def attested_def owns_def newConn_def)

end
