(* ===== verification/SessionFacts.thy ===== *)
theory SessionFacts
  imports ListenerFacts
begin

text \<open>
  What the life of a connection guarantees: a CONNECT without valid credentials touches nothing,
  a successful one owns its session, a stale disconnect leaves the new owner's session alone,
  and the read loop ends.
\<close>

section \<open>Admission touches neither the database nor the connection map\<close>

definition untouched :: "world \<Rightarrow> world \<Rightarrow> bool" where
  "untouched w w' \<longleftrightarrow> store w' = store w \<and> conns w' = conns w \<and> knobs w' = knobs w \<and>
     brokerID w' = brokerID w \<and> now w' = now w"

interpretation untouched: run_relation untouched
  by unfold_locales (auto simp: untouched_def)

lemma untouched_basic [keeps_rules]:
  "keeps untouched (go_upd k f)" "keeps untouched (count n l i)"
  "keeps untouched (go_modify (\<lambda>w. w\<lparr>iplimit := h w\<rparr>))"
  by (auto simp: keeps_def untouched_def)

lemma untouched_reject [keeps_rules]:
  "keeps untouched (conn_write X k pk)" "keeps untouched (reject X k pv r e)" "keeps untouched (dropConnectOnInfraError s)"
  unfolding conn_write_def reject_def writeConnackReject_def dropConnectOnInfraError_def by (intro keeps_rules)+

lemma untouched_admission [keeps_rules]: "keeps untouched (connect_admission X k pk auto)"
  "keeps untouched (authenticate_connect X k pk)" "keeps untouched (resolve_client_id X k pk auto)"
  unfolding connect_admission_def resolve_client_id_def authenticate_connect_def Authenticate_def v5_params_def
  by (intro keeps_rules)+

section \<open>Credentials\<close>

definition credentials_valid :: "ext \<Rightarrow> db \<Rightarrow> string \<Rightarrow> string \<Rightarrow> bool" where
  "credentials_valid X d u p \<longleftrightarrow> u \<noteq> [] \<and> (\<exists>h. sel_password_hash u d = Some h \<and> bcrypt_match X h p)"

lemma Authenticate_valid:
  assumes "Authenticate X u p w = (Inr (), w')"
  shows "credentials_valid X (store w) u p"
proof -
  from assms obtain row w1 where u: "u \<noteq> []" and q: "query (sel_password_hash u) w = (Inr row, w1)"
    and c: "(case row of None \<Rightarrow> go_fail ErrAuthFailed
      | Some h \<Rightarrow> if bcrypt_match X h p then go_return () else go_fail ErrAuthFailed) w1 = (Inr (), w')"
    by (auto simp: Authenticate_def go_bind_Inr split: if_splits)
  from q have "row = sel_password_hash u (store w)" by (auto elim: query_Inr)
  with u c show ?thesis by (auto simp: credentials_valid_def split: option.splits if_splits)
qed

lemma reject_fails: "reject X k pv r e w \<noteq> (Inr x, w')" "dropConnectOnInfraError s w \<noteq> (Inr y, w')"
  by (auto simp: reject_def dropConnectOnInfraError_def go_bind_Inr)

lemma authenticate_connect_valid:
  assumes "authenticate_connect X k pk w = (Inr (), w')"
    and "Username (ConnectParams pk) \<noteq> [] \<or> \<not> allowAnonymous (knobs w)"
  shows "credentials_valid X (store w) (Username (ConnectParams pk)) (Password (ConnectParams pk))"
proof -
  from assms obtain w1 where "Authenticate X (Username (ConnectParams pk)) (Password (ConnectParams pk)) w = (Inr (), w1)"
    by (auto simp: authenticate_connect_def Let_def go_try_Inr reject_fails split: if_splits)
  then show ?thesis by (rule Authenticate_valid)
qed

lemma admission_valid:
  assumes "connect_admission X k pk auto w = (Inr kao, w')"
    and "Username (ConnectParams pk) \<noteq> [] \<or> \<not> allowAnonymous (knobs w)"
  shows "credentials_valid X (store w) (Username (ConnectParams pk)) (Password (ConnectParams pk))"
proof -
  from assms(1) obtain w1 w2 w3 w4 cid ka ov where
    1: "go_upd k (\<lambda>c. c\<lparr>protocol := pkProtocol pk\<rparr>) w = (Inr (), w1)"
    and 2: "resolve_client_id X k pk auto w1 = (Inr cid, w2)"
    and 3: "go_upd k (\<lambda>c. c\<lparr>clientID := cid, cleanStart := Clean (ConnectParams pk), keepalive := ka\<rparr>) w2 = (Inr (), w3)"
    and 4: "authenticate_connect X k pk w3 = (Inr (), w4)"
    by (auto simp: connect_admission_def Let_def go_bind_Inr reject_fails case_prod_beta split: option.splits if_splits)
  have "untouched w w1" "untouched w1 w2" "untouched w2 w3"
    by (rule keepsD [OF untouched_basic(1) 1], rule keepsD [OF untouched_admission(3) 2],
        rule keepsD [OF untouched_basic(1) 3])
  then have "store w3 = store w" "knobs w3 = knobs w" by (simp_all add: untouched_def)
  with authenticate_connect_valid [OF 4] assms(2) show ?thesis by simp
qed

text \<open>C7: no access without a password. A CONNECT whose credentials do not match a row of the table
  (unless the server admits anonymous clients and it names no user) fails, and leaves the
  database and the connection map as they were, whatever else the packet says and however the
  calls fail.\<close>

theorem connect_needs_password:
  assumes "handleConnect X k pk auto token w = (r, w')"
    and "Username (ConnectParams pk) \<noteq> [] \<or> \<not> allowAnonymous (knobs w)"
    and "\<not> credentials_valid X (store w) (Username (ConnectParams pk)) (Password (ConnectParams pk))"
  shows "(\<exists>e. r = Inl e) \<and> store w' = store w \<and> conns w' = conns w"
  using assms(1) unfolding handleConnect_def
proof (cases rule: go_bind_keeps [OF _ untouched_admission(1), consumes 1, case_names fails goes])
  case (goes kao w1)
  with admission_valid assms(2,3) show ?thesis by blast
qed (auto simp: untouched_def)

definition sample_intruder :: packet where
  "sample_intruder = (new_packet Connect)\<lparr>pkProtocol := 4, ConnectParams := (ConnectParams (new_packet Connect))\<lparr>
     ClientIdentifier := ''c'', Clean := True, Username := ''alice'', Password := ''guess''\<rparr>\<rparr>"

theorem connect_needs_password_witness:
  "\<exists>e. fst (handleConnect sample_ext 0 sample_intruder ''x'' (UUID 9) (sample_world sample_db (sample_conn [] 4))) = Inl e"
proof -
  let ?w = "sample_world sample_db (sample_conn [] 4)"
  have "Username (ConnectParams sample_intruder) \<noteq> [] \<or> \<not> allowAnonymous (knobs ?w)"
    by (simp add: sample_intruder_def)
  moreover have "\<not> credentials_valid sample_ext (store ?w) (Username (ConnectParams sample_intruder))
      (Password (ConnectParams sample_intruder))"
    by (simp add: credentials_valid_def sample_world_def sample_db_def empty_db_def sel_password_hash_def)
  ultimately show ?thesis
    using connect_needs_password [of sample_ext 0 sample_intruder "''x''" "UUID 9" ?w] by (metis prod.collapse)
qed

section \<open>Stale disconnects\<close>

definition superseded :: "conn \<Rightarrow> db \<Rightarrow> bool" where
  "superseded c d \<longleftrightarrow> (\<forall>s \<in> set (sessions d). s_client_id s = clientID c \<longrightarrow> s_session_token s \<noteq> sessionToken c)"

lemma superseded_delete: "superseded c d \<Longrightarrow> fst (del_session_token (clientID c) (sessionToken c) d) = 0"
  by (auto simp: superseded_def del_session_token_def del_sessions_where_def Let_def filter_empty_conv)

lemma superseded_update:
  "superseded c d \<Longrightarrow> snd (upd_session_disconnected (clientID c) (sessionToken c) f e b t d) = d"
proof -
  assume "superseded c d"
  then have "map (\<lambda>s. if s_client_id s = clientID c \<and> s_session_token s = sessionToken c then g s else s) (sessions d)
      = sessions d" for g
    by (intro map_idI) (auto simp: superseded_def)
  then show ?thesis by (simp add: upd_session_disconnected_def Let_def)
qed

lemma steady_fireWill [keeps_rules]: "keeps steady (fireWill X k)"
  unfolding fireWill_def by (intro keeps_rules)


lemma delete_superseded:
  assumes "delete_clean_session (clientID c) (sessionToken c) w = (r, w')" "superseded c (store w)"
  shows "tables.truncate (store w') = tables.truncate (store w)"
proof -
  let ?body = "go_bind (exec (del_session_token (clientID c) (sessionToken c))) (\<lambda>n.
        if n = 0 then go_fail (ErrProtocol ''takeover detected'') else execute (del_deliveries_client (clientID c)))"
  have no: "?body w0 \<noteq> (Inr x, w1)" if "call w = (Inr (), w0)" for w0 x w1
  proof
    assume "?body w0 = (Inr x, w1)"
    then obtain n w2 where n: "exec (del_session_token (clientID c) (sessionToken c)) w0 = (Inr n, w2)" "n \<noteq> 0"
      by (auto simp: go_bind_Inr split: if_splits)
    from call_world [OF that] have "store w0 = store w" by auto
    with n superseded_delete [OF assms(2)] show False
      by (auto simp: exec_def elim!: sql_Inr dest: arg_cong [of _ _ fst])
  qed
  obtain e where "r = Inl e"
    using assms(1) unfolding delete_clean_session_def by (cases rule: go_tx_cases) (use no in blast)+
  with assms(1) go_tx_Inl show ?thesis by (auto simp: delete_clean_session_def)
qed

lemma update_superseded:
  assumes "exec (upd_session_disconnected (clientID c) (sessionToken c) f e b t) w = (r, w')" "superseded c (store w)"
  shows "store w' = store w"
proof (cases r)
  case (Inl x)
  with assms(1) show ?thesis by (auto simp: exec_def elim: sql_Inl)
next
  case (Inr n)
  with assms superseded_update [OF assms(2), of f e b t] show ?thesis
    by (auto simp: exec_def elim!: sql_Inr dest: arg_cong [of _ _ snd])
qed

text \<open>C9: a stale disconnect is harmless. When a connection ends whose session another connection has
  taken over meanwhile (the token in the database is not its own), no session changes; and if the
  connection was told of the takeover, no table changes at all: the will is not published and
  the new owner's queue is not deleted. This holds whatever calls fail.\<close>

theorem stale_disconnect_harmless:
  assumes "handleDisconnect X k w = (r, w')" "superseded (heap w k) (store w)"
  shows "sessions (store w') = sessions (store w) \<and>
    (takenOver (heap w k) \<longrightarrow> tables.truncate (store w') = tables.truncate (store w))"
proof (cases "closing (heap w k) \<or> clientID (heap w k) = []")
  case True
  with assms(1) show ?thesis by (auto simp: handleDisconnect_def)
next
  case False
  let ?c = "heap w k"
  let ?will = "if will_timing ?c (now w) = WillNow
        then go_bind (go_attempt (fireWill X k)) (\<lambda>r. go_return (r = Inr ())) else go_return False"
  let ?fin = "\<lambda>fired. case session_fate_of ?c (now w) of
       SessionDelete \<Rightarrow> go_ignore (delete_clean_session (clientID ?c) (sessionToken ?c))
     | SessionKeep expiresAt \<Rightarrow> go_ignore (exec (upd_session_disconnected (clientID ?c) (sessionToken ?c)
            (case will_timing ?c (now w) of WillAt u \<Rightarrow> Some u | _ \<Rightarrow> None) expiresAt fired (now w)))"
  obtain r0 w0 where "fireWill X k w = (r0, w0)" by fastforce
  then obtain fired w1 where will: "?will w = (Inr fired, w1)"
    by (cases "will_timing ?c (now w) = WillNow") (auto simp: go_bind_def go_attempt_def)
  have "keeps steady ?will" by (intro keeps_rules)
  from keepsD [OF this will] have s1: "sessions (store w1) = sessions (store w)" by (simp add: steady_def)
  have t1: "store w1 = store w" if "takenOver ?c" using that will by (auto simp: will_timing_def)
  from False assms(1) will have "?fin fired w1 = (r, w')" by (auto simp: handleDisconnect_def)
  moreover have "superseded ?c (store w1)" using assms(2) s1 by (simp add: superseded_def)
  ultimately have "tables.truncate (store w') = tables.truncate (store w1)"
    by (auto simp: go_ignore_eq split: session_fate.splits)
      (metis delete_superseded prod.collapse, metis update_superseded prod.collapse)
  moreover from this have "sessions (store w') = sessions (store w1)"
    by (metis tables.select_convs(2) tables.surjective tables.truncate_def)
  ultimately show ?thesis using s1 t1 by auto
qed

theorem stale_disconnect_harmless_witness:
  "sessions (store (snd (handleDisconnect sample_ext 0
     (sample_world sample_db ((sample_conn ''c'' 4)\<lparr>sessionToken := UUID 99, willTopic := ''bye''\<rparr>))))) = sessions sample_db"
proof -
  let ?w = "sample_world sample_db ((sample_conn ''c'' 4)\<lparr>sessionToken := UUID 99, willTopic := ''bye''\<rparr>)"
  have "superseded (heap ?w 0) (store ?w)"
    by (simp add: superseded_def sample_world_def sample_db_def empty_db_def sample_session_def sample_conn_def)
  then show ?thesis
    using stale_disconnect_harmless [of sample_ext 0 ?w] by (metis prod.collapse sample_world_def world.select_convs(1))
qed

section \<open>A client that is let in owns its session\<close>

text \<open>Delivering and notifying leave the owners, the subscriptions and the connections alone.\<close>

definition same_owner :: "conn \<Rightarrow> conn \<Rightarrow> bool" where
  "same_owner c c' \<longleftrightarrow> clientID c' = clientID c \<and> sessionToken c' = sessionToken c \<and> cleanStart c' = cleanStart c"

definition owners_kept :: "world \<Rightarrow> world \<Rightarrow> bool" where
  "owners_kept w w' \<longleftrightarrow> sessions (store w') = sessions (store w) \<and> brokerID w' = brokerID w \<and>
     conns w' = conns w \<and> (\<forall>j. same_owner (heap w j) (heap w' j))"

interpretation owners: run_relation owners_kept
  by unfold_locales (auto simp: owners_kept_def same_owner_def)

lemma owners_upd [keeps_rules]: "(\<And>c. same_owner c (f c)) \<Longrightarrow> keeps owners_kept (go_upd k f)"
  by (auto simp: keeps_def owners_kept_def same_owner_def)

lemma owners_sql:
  "(\<And>d x d'. s d = Inr (x, d') \<Longrightarrow> sessions d' = sessions d) \<Longrightarrow> keeps owners_kept (sql s)"
  by (rule owners.keeps_sql) (auto simp: owners_kept_def same_owner_def)

lemma owners_exec: "(\<And>d. sessions (snd (f d)) = sessions d) \<Longrightarrow> keeps owners_kept (exec f)"
  by (rule owners.keeps_exec) (auto simp: owners_kept_def same_owner_def)

lemma owners_statements [keeps_rules]:
  "keeps owners_kept (sql (claim_delivery pid i))" "keeps owners_kept (sql (pg_notify cs msg))"
  "keeps owners_kept (exec (del_delivery i))"
  by (auto intro!: owners_sql owners_exec simp: claim_delivery_def claim_deliveries_where_def Let_def
      pg_notify_def del_delivery_def del_deliveries_where_def split: if_splits option.splits sum.splits)

lemma owners_basic [keeps_rules]:
  "keeps owners_kept (count n l i)" "keeps owners_kept (nextPacketIDCandidate k)"
  "keeps owners_kept (resolveAliasForOutbound k topic)" "keeps owners_kept (ConnFor cid)"
  by (auto simp: keeps_def owners_kept_def same_owner_def nextPacketIDCandidate_def Let_def ConnFor_def go_ask_def
      resolveAliasForOutbound_def resolve_alias_def split: prod.splits option.splits if_splits)

lemma owners_flow [keeps_rules]:
  "keeps owners_kept (conn_write X k pk)" "keeps owners_kept (tryAcquireInflight k)"
  "keeps owners_kept (KickDrain k)" "keeps owners_kept (returnInflight k)"
  unfolding conn_write_def tryAcquireInflight_def returnInflight_def KickDrain_def
  by (intro keeps_rules; auto simp: same_owner_def kick_def split: option.splits)+

lemma owners_alloc [keeps_rules]: "keeps owners_kept (AllocPacketID k)"
proof -
  have "keeps owners_kept (alloc_loop k n)" for n
    by (induction n) (auto simp only: alloc_loop.simps packetIDInUse_def intro!: keeps_rules)
  then show ?thesis
    unfolding AllocPacketID_def ensurePacketIDSeeded_def by (intro keeps_rules; simp add: same_owner_def)
qed

lemma owners_replay [keeps_rules]: "keeps owners_kept (replay_queue X k)"
  unfolding replay_queue_def drainSessionQueue_def resend_def deliverOneTracked_def deliver_to_def send_outgoing_def
    alias_outgoing_def claim_packet_id_def
  by (intro keeps_rules)

lemma owners_notify [keeps_rules]: "keeps owners_kept (NotifyTakeover X b cid token)"
  unfolding NotifyTakeover_def by (intro keeps_rules)

definition holds_session :: "string \<Rightarrow> uuid \<Rightarrow> uuid \<Rightarrow> session_row list \<Rightarrow> bool" where
  "holds_session cid b token ss \<longleftrightarrow> (\<exists>s. find (\<lambda>s. s_client_id s = cid) ss = Some s \<and>
     s_broker_id s = Some b \<and> s_connected s \<and> s_session_token s = token)"

lemma find_map_key:
  "(\<And>s. key (f s) = key s) \<Longrightarrow> find (\<lambda>s. key s = c) (map f xs) = map_option f (find (\<lambda>s. key s = c) xs)"
  by (induction xs) auto

lemma find_append_new: "find P xs = None \<Longrightarrow> P y \<Longrightarrow> find P (xs @ [y]) = Some y"
  by (induction xs) auto

lemma owns_takeover:
  "upd_session_takeover cid v token t d = Inr (x, d') \<Longrightarrow> holds_session cid (v_broker v) token (sessions d')"
  "ins_session cid v token t d = Inr (x, d') \<Longrightarrow> holds_session cid (v_broker v) token (sessions d')"
proof -
  assume u: "upd_session_takeover cid v token t d = Inr (x, d')"
  then have "find (\<lambda>s. s_client_id s = cid) (sessions d) \<noteq> None"
    by (auto simp: upd_session_takeover_def find_None_iff split: if_splits)
  then obtain s where s: "find (\<lambda>s. s_client_id s = cid) (sessions d) = Some s" "s_client_id s = cid"
    by (auto simp: find_Some_iff)
  with u show "holds_session cid (v_broker v) token (sessions d')"
    by (auto simp: upd_session_takeover_def holds_session_def find_map_key set_session_values_def split: if_splits)
next
  assume u: "ins_session cid v token t d = Inr (x, d')"
  then have "find (\<lambda>s. s_client_id s = cid) (sessions d) = None"
    by (auto simp: ins_session_def find_None_iff split: if_splits)
  with u show "holds_session cid (v_broker v) token (sessions d')"
    by (auto simp: ins_session_def holds_session_def find_append_new split: if_splits)
qed

lemma takeOwnership_owns:
  assumes "takeOwnership k pk token w = (Inr r, w')"
  shows "holds_session (clientID (heap w k)) (brokerID w) token (sessions (store w'))" "sessionToken (heap w' k) = token"
    "clientID (heap w' k) = clientID (heap w k)" "cleanStart (heap w' k) = cleanStart (heap w k)"
    "brokerID w' = brokerID w" "conns w' = conns w"
proof -
  let ?c = "heap w k"
  let ?v = "session_values_of (brokerID w) ?c pk"
  let ?stmt = "\<lambda>prev. case prev of Some s \<Rightarrow> sql (upd_session_takeover (clientID ?c) ?v token (now w))
     | None \<Rightarrow> sql (ins_session (clientID ?c) ?v token (now w))"
  from assms obtain w1 where tx: "go_tx (go_bind (go_ask (\<lambda>w. (heap w k, brokerID w, now w))) (\<lambda>(c, self, t).
       go_bind (query (session_of (clientID c))) (\<lambda>prev.
       go_then (case prev of
          Some s \<Rightarrow> sql (upd_session_takeover (clientID c) (session_values_of self c pk) token t)
        | None \<Rightarrow> sql (ins_session (clientID c) (session_values_of self c pk) token t))
       (go_return (case prev of
          None \<Rightarrow> (uuid_Nil, uuid_Nil, True)
        | Some s \<Rightarrow> (case s_broker_id s of None \<Rightarrow> uuid_Nil | Some b \<Rightarrow> b,
                     s_session_token s, False)))))) w = (Inr r, w1)"
    and w': "w' = upd_conn k (\<lambda>c. c\<lparr>sessionToken := token\<rparr>) w1"
    by (auto simp: takeOwnership_def go_bind_Inr)
  from tx obtain prev fs w2 fs2 u w3 where q: "query (session_of (clientID ?c)) (w\<lparr>faults := fs\<rparr>) = (Inr prev, w2)"
    and st: "?stmt prev w2 = (Inr u, w3)" and w1: "w1 = w3\<lparr>faults := fs2\<rparr>"
    by (rule go_tx_Inr) (auto simp: go_bind_Inr)
  from q obtain fs1 where w2: "w2 = w\<lparr>faults := fs1\<rparr>" by (auto elim: query_Inr)
  have vb: "v_broker ?v = brokerID w" by (simp add: session_values_of_def Let_def)
  from st have "holds_session (clientID ?c) (v_broker ?v) token (sessions (store w3)) \<and> heap w3 = heap w \<and> brokerID w3 = brokerID w \<and> conns w3 = conns w"
    by (cases prev) (auto simp: w2 elim!: sql_Inr intro: owns_takeover)
  with vb show "holds_session (clientID (heap w k)) (brokerID w) token (sessions (store w'))" "sessionToken (heap w' k) = token"
    "clientID (heap w' k) = clientID (heap w k)" "cleanStart (heap w' k) = cleanStart (heap w k)"
    "brokerID w' = brokerID w" "conns w' = conns w"
    by (auto simp: w' w1)
qed

text \<open>Closing another connection does not take a client's registration away.\<close>

definition registered :: "string \<Rightarrow> conn_ref \<Rightarrow> world \<Rightarrow> world \<Rightarrow> bool" where
  "registered cid k w w' \<longleftrightarrow> sessions (store w') = sessions (store w) \<and> brokerID w' = brokerID w \<and>
     (\<forall>j. same_owner (heap w j) (heap w' j)) \<and> (map_of (conns w) cid = Some k \<longrightarrow> map_of (conns w') cid = Some k)"

interpretation registered: run_relation "registered cid k" for cid k
  by unfold_locales (auto simp: registered_def same_owner_def)

lemma registered_ShutdownForTakeover: "p \<noteq> k \<Longrightarrow> keeps (registered cid k) (ShutdownForTakeover p)"
proof -
  assume p: "p \<noteq> k"
  have upd: "keeps (registered cid k) (go_upd p f)" if "\<And>c. same_owner c (f c)" for f
    using that by (auto simp: keeps_def registered_def same_owner_def)
  have un: "keeps (registered cid k) (unregisterConnIfSame c p)" for c
    using p by (auto simp: keeps_def registered_def same_owner_def unregisterConnIfSame_def ConnFor_def go_ask_def
        go_bind_def go_modify_def delete_conv' split: if_splits)
  show ?thesis
    unfolding ShutdownForTakeover_def shutdown_def
    by (intro keeps_rules upd un; simp add: same_owner_def)
qed

lemma evict_previous_registers:
  assumes "evict_previous X k b t w = (r, w')" "map_of (conns w) (clientID (heap w k)) \<noteq> Some k"
  shows "sessions (store w') = sessions (store w)" "brokerID w' = brokerID w"
    "map_of (conns w') (clientID (heap w k)) = Some k" "same_owner (heap w k) (heap w' k)"
proof -
  let ?notify = "go_when (b \<noteq> uuid_Nil \<and> b \<noteq> brokerID w) (go_ignore (NotifyTakeover X b (clientID (heap w k)) t))"
  have "keeps owners_kept ?notify" by (intro keeps_rules)
  moreover obtain w1 where n: "?notify w = (Inr (), w1)"
    by (cases "b \<noteq> uuid_Nil \<and> b \<noteq> brokerID w") (auto simp: go_when_def go_ignore_eq)
  ultimately have k1: "owners_kept w w1" by (rule keepsD)
  with assms(2) have c1: "clientID (heap w1 k) = clientID (heap w k)" "map_of (conns w1) (clientID (heap w k)) \<noteq> Some k"
    by (auto simp: owners_kept_def same_owner_def)
  obtain w3 where reg: "registerConn (clientID (heap w k)) k w1 = (Inr (map_of (conns w1) (clientID (heap w k))), w3)"
    and k2: "sessions (store w3) = sessions (store w)" "brokerID w3 = brokerID w"
      "map_of (conns w3) (clientID (heap w k)) = Some k" "\<forall>j. same_owner (heap w j) (heap w3 j)"
    using k1 by (cases "map_of (conns w1) (clientID (heap w k)) = None")
      (auto simp: registerConn_def ConnFor_def owners_kept_def update_conv')
  from assms(1) n reg have rest: "(case map_of (conns w1) (clientID (heap w k)) of None \<Rightarrow> go_return ()
      | Some p \<Rightarrow> ShutdownForTakeover p) w3 = (r, w')"
    by (auto simp: evict_previous_def)
  have "registered (clientID (heap w k)) k w3 w'"
  proof (cases "map_of (conns w1) (clientID (heap w k))")
    case None
    with rest show ?thesis using registered.R_refl by simp
  next
    case (Some p)
    with rest c1(2) keepsD [OF registered_ShutdownForTakeover] show ?thesis by auto
  qed
  with k2 show "sessions (store w') = sessions (store w)" "brokerID w' = brokerID w"
    "map_of (conns w') (clientID (heap w k)) = Some k" "same_owner (heap w k) (heap w' k)"
    by (auto simp: registered_def same_owner_def)
qed

lemma session_cleanup_effect:
  assumes "session_cleanup cid clean w = (Inr (), w')"
  shows "\<exists>fs. w' = w\<lparr>store := upd_session_timers_null cid
     (if clean then del_inbound_qos2_client cid (del_deliveries_client cid (del_subscriptions_client cid (store w)))
      else store w), faults := fs\<rparr>"
  using assms unfolding session_cleanup_def
  by (elim go_tx_Inr) (auto simp: go_bind_Inr go_when_def elim!: execute_Inr split: if_splits)

lemma owns_timers: "holds_session cid b token (sessions d) \<Longrightarrow> holds_session cid b token (sessions (upd_session_timers_null cid d))"
  by (auto simp: holds_session_def upd_session_timers_null_def find_map_key simp del: map_option_eq_Some)

lemma or_drop_Inr: "or_drop s m w = (Inr x, w') \<longleftrightarrow> m w = (Inr x, w')"
  by (cases "m w") (auto simp: or_drop_def go_attempt_def go_bind_def reject_fails
      dropConnectOnInfraError_def split: sum.splits prod.splits)

lemma owners_reject [keeps_rules]: "keeps owners_kept (reject X k pv r e)" "keeps owners_kept (dropConnectOnInfraError s)"
  unfolding reject_def writeConnackReject_def dropConnectOnInfraError_def by (intro keeps_rules; simp add: same_owner_def)+

lemma owners_auth: "keeps owners_kept (authenticate_connect X k pk)" "keeps owners_kept (v5_params X k pk)"
  "keeps owners_kept (go_upd k (capture_will X pk))" "keeps owners_kept (go_upd k (\<lambda>c. raise_read_cap K (setup_channels c)))"
proof -
  have m: "keeps owners_kept (go_modify (\<lambda>w. w\<lparr>iplimit := h w\<rparr>))" for h
    by (simp add: keeps_def owners_kept_def same_owner_def)
  show "keeps owners_kept (authenticate_connect X k pk)"
    unfolding authenticate_connect_def Authenticate_def by (intro keeps_rules m)
  show "keeps owners_kept (v5_params X k pk)"
    unfolding v5_params_def by (intro keeps_rules; simp add: same_owner_def)
qed (intro keeps_rules; simp add: same_owner_def capture_will_def raise_read_cap_def setup_channels_def Let_def)+

lemma admission_clean:
  assumes "connect_admission X k pk auto w = (Inr kao, w')"
  shows "cleanStart (heap w' k) = Clean (ConnectParams pk)"
proof -
  from assms obtain w2 w3 w4 w5 w6 cid ka K where
    1: "go_upd k (\<lambda>c. c\<lparr>clientID := cid, cleanStart := Clean (ConnectParams pk), keepalive := ka\<rparr>) w2 = (Inr (), w3)"
    and 2: "authenticate_connect X k pk w3 = (Inr (), w4)" and 3: "go_upd k (capture_will X pk) w4 = (Inr (), w5)"
    and 4: "v5_params X k pk w5 = (Inr (), w6)"
    and 5: "go_upd k (\<lambda>c. raise_read_cap K (setup_channels c)) w6 = (Inr (), w')"
    by (auto simp: connect_admission_def Let_def go_bind_Inr reject_fails case_prod_beta split: option.splits if_splits)
  from 1 have "cleanStart (heap w3 k) = Clean (ConnectParams pk)" by auto
  with keepsD [OF owners_auth(1) 2] keepsD [OF owners_auth(3) 3] keepsD [OF owners_auth(2) 4] keepsD [OF owners_auth(4) 5]
  show ?thesis by (simp add: owners_kept_def same_owner_def)
qed

lemma cleanup_sessions: "sessions (del_inbound_qos2_client c (del_deliveries_client c (del_subscriptions_client c d))) = sessions d"
  by (simp add: del_inbound_qos2_client_def del_deliveries_client_def del_deliveries_where_def del_subscriptions_client_def)

lemma cleanup_clears:
  "cid \<notin> sub_client_id ` set (subscriptions (upd_session_timers_null c (del_inbound_qos2_client cid
     (del_deliveries_client cid (del_subscriptions_client cid d)))))"
  "cid \<notin> d_client_id ` set (deliveries (upd_session_timers_null c (del_inbound_qos2_client cid
     (del_deliveries_client cid (del_subscriptions_client cid d)))))"
  "cid \<notin> q_client_id ` set (inbound_qos2 (upd_session_timers_null c (del_inbound_qos2_client cid
     (del_deliveries_client cid (del_subscriptions_client cid d)))))"
  by (auto simp: upd_session_timers_null_def del_inbound_qos2_client_def del_deliveries_client_def
      del_deliveries_where_def del_subscriptions_client_def)

text \<open>C8: a client that is let in owns its session. When \<open>handleConnect\<close> succeeds, the client's session
  row names this Pod as its broker, is connected and carries the token of this connection, the
  Pod's connection map leads to this connection, and after a clean start nothing of the previous session
  is left: no subscription, no queued delivery, no half-received QoS 2 message.\<close>

theorem connect_owns_session:
  assumes "handleConnect X k pk auto token w = (Inr (), w')" "k \<notin> ran (map_of (conns w))"
  defines "cid \<equiv> clientID (heap w' k)"
  shows "(\<exists>s. session_of cid (store w') = Some s \<and> s_broker_id s = Some (brokerID w) \<and> s_connected s \<and>
      s_session_token s = token) \<and> sessionToken (heap w' k) = token \<and> map_of (conns w') cid = Some k \<and>
    (Clean (ConnectParams pk) \<longrightarrow> cid \<notin> sub_client_id ` set (subscriptions (store w')) \<and>
       cid \<notin> d_client_id ` set (deliveries (store w')) \<and> cid \<notin> q_client_id ` set (inbound_qos2 (store w')))"
proof -
  from assms(1) obtain kao w1 where adm: "connect_admission X k pk auto w = (Inr kao, w1)"
    and cs: "connect_session X k pk token kao w1 = (Inr (), w')" by (auto simp: handleConnect_def go_bind_Inr)
  from keepsD [OF untouched_admission(1) adm] assms(2)
  have u: "conns w1 = conns w" "brokerID w1 = brokerID w" by (auto simp: untouched_def)
  have cl: "cleanStart (heap w1 k) = Clean (ConnectParams pk)" by (rule admission_clean [OF adm])
  from cs obtain b t n w2 w3 w4 w5 kk where own: "takeOwnership k pk token w1 = (Inr (b, t, n), w2)"
    and ev: "evict_previous X k b t w2 = (Inr (), w3)"
    and cu: "session_cleanup (clientID (heap w3 k)) (cleanStart (heap w3 k)) w3 = (Inr (), w4)"
    and wr: "conn_write X k kk w4 = (Inr (), w5)"
    and rp: "go_when (\<not> cleanStart (heap w3 k)) (replay_queue X k) w5 = (Inr (), w')"
    by (auto simp: connect_session_def go_bind_Inr or_drop_Inr)
  note o = takeOwnership_owns [OF own]
  have "map_of (conns w2) (clientID (heap w2 k)) \<noteq> Some k"
    using assms(2) by (simp add: o(6) u(1) ran_def)
  note e = evict_previous_registers [OF ev this]
  let ?cid = "clientID (heap w2 k)"
  from session_cleanup_effect [OF cu] obtain fs where w4: "w4 = w3\<lparr>store := upd_session_timers_null (clientID (heap w3 k))
     (if cleanStart (heap w3 k) then del_inbound_qos2_client (clientID (heap w3 k)) (del_deliveries_client (clientID (heap w3 k))
       (del_subscriptions_client (clientID (heap w3 k)) (store w3))) else store w3), faults := fs\<rparr>" by blast
  have c3: "clientID (heap w3 k) = ?cid" "cleanStart (heap w3 k) = Clean (ConnectParams pk)" "sessionToken (heap w3 k) = token"
    using e(4) o cl by (auto simp: same_owner_def)
  have "keeps owners_kept (go_when (\<not> cleanStart (heap w3 k)) (replay_queue X k))" by (intro keeps_rules)
  from owners.R_trans [OF keepsD [OF owners_flow(1) wr] keepsD [OF this rp]] have k5: "owners_kept w4 w'" .
  have s4: "holds_session ?cid (brokerID w) token (sessions (store w4))"
    using o(1,3) e(1) u(2) by (auto simp: w4 c3(1) cleanup_sessions intro!: owns_timers)
  have cid: "cid = ?cid" using k5 by (simp add: cid_def owners_kept_def same_owner_def w4 c3(1))
  have clean: "store w' = store w4" if "Clean (ConnectParams pk)"
    using that rp conn_write_Inr(1) [OF wr] by (auto simp: c3(2))
  show ?thesis
    using k5 s4 e(3) c3 clean
    by (auto simp: cid owners_kept_def same_owner_def w4 holds_session_def session_of_def cleanup_clears)
qed

text \<open>Without faults nothing stops a version 3.1.1 client with a clean start.\<close>

definition calm :: "conn_ref \<Rightarrow> world \<Rightarrow> bool" where
  "calm k w \<longleftrightarrow> faults w = [] \<and> \<not> closing (heap w k) \<and> maxPacketSize (heap w k) = 0 \<and> cleanStart (heap w k) \<and>
     brokerID w = UUID 1 \<and> k \<notin> ran (map_of (conns w))"

definition sample_guest :: packet where
  "sample_guest = (new_packet Connect)\<lparr>pkProtocol := 4, ConnectParams := (ConnectParams (new_packet Connect))\<lparr>
     ClientIdentifier := ''c'', Clean := True\<rparr>\<rparr>"

lemma calm_takeOwnership:
  assumes "calm k w"
  shows "\<exists>x w'. takeOwnership k pk token w = (Inr x, w') \<and> calm k w'"
proof (cases "find (\<lambda>s. s_client_id s = clientID (heap w k)) (sessions (store w))")
  case None
  then have "\<not> (\<exists>s \<in> set (sessions (store w)). s_client_id s = clientID (heap w k))"
    by (simp add: find_None_iff)
  with None assms show ?thesis
    by (auto simp: takeOwnership_def go_eval Let_def calm_def session_of_def ins_session_def)
next
  case (Some s)
  then have "\<exists>s \<in> set (sessions (store w)). s_client_id s = clientID (heap w k)"
    by (auto simp: find_Some_iff)
  with Some assms show ?thesis
    by (auto simp: takeOwnership_def go_eval Let_def calm_def session_of_def upd_session_takeover_def)
qed

lemma calm_evict:
  assumes "calm k w"
  shows "\<exists>w'. evict_previous sample_ext k b t w = (Inr (), w') \<and> faults w' = [] \<and> heap w' k = heap w k"
proof -
  from assms have *: "map_of (conns w) (clientID (heap w k)) \<noteq> Some k" by (auto simp: calm_def ran_def)
  have "\<exists>d. snd (NotifyTakeover sample_ext b (clientID (heap w k)) t w) = w\<lparr>store := d\<rparr>"
    using assms by (auto simp: calm_def NotifyTakeover_def go_eval split: sum.splits intro: exI [of _ "store w"])
  then obtain d where n: "go_when (b \<noteq> uuid_Nil \<and> b \<noteq> brokerID w)
      (go_ignore (NotifyTakeover sample_ext b (clientID (heap w k)) t)) w = (Inr (), w\<lparr>store := d\<rparr>)"
    by (cases "b \<noteq> uuid_Nil \<and> b \<noteq> brokerID w") (auto simp: go_when_def go_ignore_eq intro: that [of "store w"])
  with assms * show ?thesis
    by (cases "map_of (conns w) (clientID (heap w k))")
      (auto simp: evict_previous_def registerConn_def ConnFor_def ShutdownForTakeover_def shutdown_def
        unregisterConnIfSame_def calm_def go_bind_def go_when_def split: if_splits)
qed

lemma calm_write: "faults w = [] \<Longrightarrow> \<not> closing (heap w k) \<Longrightarrow> maxPacketSize (heap w k) = 0 \<Longrightarrow>
   ptype pk = Connack \<Longrightarrow> \<exists>w'. conn_write sample_ext k pk w = (Inr (), w')"
  by (auto simp: calm_def conn_write_def go_eval Let_def sample_ext_def sample_mochi_def Encode_def)

lemma calm_cleanup:
  "faults w = [] \<Longrightarrow> \<exists>w'. session_cleanup cid clean w = (Inr (), w') \<and> faults w' = [] \<and> heap w' = heap w"
  by (auto simp: session_cleanup_def go_eval go_when_def)


lemma guest: "pkProtocol sample_guest = 4" "ClientIdentifier (ConnectParams sample_guest) = ''c''"
  "Clean (ConnectParams sample_guest)" "Username (ConnectParams sample_guest) = []" "\<not> WillFlag (ConnectParams sample_guest)"
  "Keepalive (ConnectParams sample_guest) = 0"
  by (simp_all add: sample_guest_def new_packet_def no_connect_def)

lemma calm_admission: "\<exists>kao w'. connect_admission sample_ext k sample_guest a w = (Inr kao, w') \<and> calm k w'"
  if "allowAnonymous (knobs w)" "faults w = []" "\<not> closing (heap w k)" "maxPacketSize (heap w k) = 0" "brokerID w = UUID 1" "k \<notin> ran (map_of (conns w))"
  using that
  by (simp add: connect_admission_def resolve_client_id_def authenticate_connect_def guest Let_def calm_def
     v5_params_def ProtocolMQTT311_def ProtocolMQTT5_def sample_ext_def sample_mochi_def case_prod_beta capture_will_def raise_read_cap_def setup_channels_def)

lemma calm_session:
  assumes "calm k w"
  shows "\<exists>w'. connect_session sample_ext k sample_guest token kao w = (Inr (), w')"
proof -
  from calm_takeOwnership [OF assms] obtain b t n w1 where
    1: "takeOwnership k sample_guest token w = (Inr (b, t, n), w1)" "calm k w1" by (metis prod_cases3)
  from calm_evict [OF 1(2)] obtain w2 where
    2: "evict_previous sample_ext k b t w1 = (Inr (), w2)" "faults w2 = []" "heap w2 k = heap w1 k" by blast
  from calm_cleanup [OF 2(2)] obtain w3 where
    3: "session_cleanup (clientID (heap w2 k)) (cleanStart (heap w2 k)) w2 = (Inr (), w3)" "faults w3 = []" "heap w3 = heap w2" by blast
  have "ptype (connack K sample_guest c ka o' p) = Connack" for K c ka o' p
    by (simp add: connack_def Let_def new_packet_def)
  with calm_write 1(2) 2(3) 3(2,3) obtain w4 where
    4: "conn_write sample_ext k (connack (knobs w3) sample_guest (clientID (heap w2 k)) (fst kao) (snd kao)
       (\<not> cleanStart (heap w2 k) \<and> \<not> n)) w3 = (Inr (), w4)" by (metis calm_def)
  from 1(2) 2(3) have "cleanStart (heap w2 k)" by (simp add: calm_def)
  with 1 2 3 4 show ?thesis
    by (simp add: connect_session_def or_drop_def go_bind_def go_attempt_def go_when_def)
qed

lemma sample_guest_enters:
  "\<exists>w'. handleConnect sample_ext 3 sample_guest ''x'' (UUID 9) (sample_world sample_db (sample_conn ''c'' 4)) = (Inr (), w')"
proof -
  let ?w = "sample_world sample_db (sample_conn ''c'' 4)"
  have "\<exists>kao w'. connect_admission sample_ext 3 sample_guest ''x'' ?w = (Inr kao, w') \<and> calm 3 w'"
    by (rule calm_admission) (simp_all add: sample_world_def sample_knobs_def sample_conn_def newConn_def)
  then obtain kao w' where 1: "connect_admission sample_ext 3 sample_guest ''x'' ?w = (Inr kao, w')" "calm 3 w'" by blast
  from calm_session [OF this(2)] 1(1) show ?thesis by (simp add: handleConnect_def)
qed

theorem connect_owns_session_witness:
  "\<exists>w'. handleConnect sample_ext 3 sample_guest ''x'' (UUID 9) (sample_world sample_db (sample_conn ''c'' 4)) = (Inr (), w') \<and>
     map_of (conns w') (clientID (heap w' 3)) = Some 3"
proof -
  let ?w = "sample_world sample_db (sample_conn ''c'' 4)"
  have "3 \<notin> ran (map_of (conns ?w))" by (simp add: sample_world_def)
  with connect_owns_session sample_guest_enters show ?thesis by blast
qed

section \<open>The read loop ends\<close>

text \<open>No handler touches the bytes the client has sent but the loop has not read.\<close>

definition unread :: "conn \<Rightarrow> bytes" where
  "unread c = br (reader_of c)"

definition input_kept :: "world \<Rightarrow> world \<Rightarrow> bool" where
  "input_kept w w' \<longleftrightarrow> (\<forall>j. unread (heap w' j) = unread (heap w j))"

interpretation input: run_relation input_kept
  by unfold_locales (auto simp: input_kept_def)

lemma input_sql [keeps_rules]:
  "keeps input_kept (sql s)" "keeps input_kept (exec f)" "keeps input_kept (execute g)"
  by (rule input.keeps_sql input.keeps_exec input.keeps_execute, simp add: input_kept_def)+

lemma input_tx [keeps_rules]: "keeps input_kept body \<Longrightarrow> keeps input_kept (go_tx body)"
  by (erule input.keeps_tx) (simp add: input_kept_def)

lemma input_modify [keeps_rules]:
  "(\<And>c. unread (f c) = unread c) \<Longrightarrow> keeps input_kept (go_upd k f)"
  "(\<And>w. heap (h w) = heap w) \<Longrightarrow> keeps input_kept (go_modify h)"
  "keeps input_kept (count n l i)"
  by (auto simp: keeps_def input_kept_def)

lemma input_lift [keeps_rules]: "keeps input_kept (go_lift r)" "keeps input_kept (go_check o')"
  unfolding go_lift_def go_check_def by (intro keeps_rules)+

lemma reader_kick [simp]: "reader_of (kick c) = reader_of c"
  by (simp add: kick_def split: option.splits)

lemma input_conn [keeps_rules]:
  "keeps input_kept (tryConsumeRateToken k)" "keeps input_kept (resolveAliasForOutbound k topic)"
  "keeps input_kept (nextPacketIDCandidate k)" "keeps input_kept (ConnFor cid)"
  by (auto simp: keeps_def input_kept_def unread_def tryConsumeRateToken_def consume_token_def refill_def
      resolveAliasForOutbound_def resolve_alias_def nextPacketIDCandidate_def ConnFor_def go_ask_def Let_def
      split: prod.splits option.splits if_splits)

lemma input_flow [keeps_rules]:
  "keeps input_kept (conn_write X k pk)" "keeps input_kept (send_disconnect X k r)"
  "keeps input_kept (tryAcquireInflight k)" "keeps input_kept (KickDrain k)" "keeps input_kept (returnInflight k)"
  "keeps input_kept (unregisterConnIfSame cid k)" "keeps input_kept (shutdown k)" "keeps input_kept (gracefulClose X k)"
  "keeps input_kept (add_inbound k n)"
  unfolding conn_write_def send_disconnect_def tryAcquireInflight_def returnInflight_def KickDrain_def
    unregisterConnIfSame_def shutdown_def gracefulClose_def add_inbound_def
  by (intro keeps_rules; simp add: unread_def)+

lemma input_alloc [keeps_rules]: "keeps input_kept (AllocPacketID k)"
proof -
  have "keeps input_kept (alloc_loop k n)" for n
    by (induction n) (auto simp only: alloc_loop.simps packetIDInUse_def intro!: keeps_rules)
  then show ?thesis
    unfolding AllocPacketID_def ensurePacketIDSeeded_def by (intro keeps_rules; simp add: unread_def)
qed

lemma input_publishCore [keeps_rules]: "keeps input_kept (publishCore X p)"
  unfolding publishCore_def publish_body_def publish_dedup_def publish_retain_def
  by (intro keeps_rules)

lemma input_kickForQuota [keeps_rules]: "keeps input_kept (kickForQuota X k)"
  unfolding kickForQuota_def by (intro keeps_rules; simp add: unread_def)

lemma input_dispatchQuotaExceeded [keeps_rules]: "keeps input_kept (dispatchQuotaExceeded X cids)"
  unfolding dispatchQuotaExceeded_def QuotaExceededLocallyForToken_def NotifyQuota_def
  by (intro keeps_rules)

lemma input_handlePublish [keeps_rules]: "keeps input_kept (handlePublish X k pk)"
  unfolding handlePublish_def publish_steps_def acquire_inbound_def check_publish_def disconnectForPublishError_def
  by (intro keeps_rules)

lemma input_deliver [keeps_rules]: "keeps input_kept (deliverOneTracked X it ret dup)"
  unfolding deliverOneTracked_def deliver_to_def send_outgoing_def alias_outgoing_def claim_packet_id_def
  by (intro keeps_rules)

lemma input_acks [keeps_rules]:
  "keeps input_kept (handlePuback k pk)" "keeps input_kept (handlePubrec X k pk)"
  "keeps input_kept (handlePubrel X k pk)" "keeps input_kept (handlePubcomp k pk)"
  unfolding handlePuback_def handlePubrec_def handlePubrel_def handlePubcomp_def
  by (intro keeps_rules)+

lemma input_subscribe [keeps_rules]: "keeps input_kept (handleSubscribe X k pk)"
proof -
  have "keeps input_kept (subscribe_filters cid subID fs)" for cid subID fs
    by (induction fs) (auto simp only: subscribe_filters.simps subscribe_filter_def intro!: keeps_rules)
  then show ?thesis
    unfolding handleSubscribe_def subscribe_tx_def dispatchRetainedForFilter_def dispatch_retained_row_def
      persistRetainedDispatch_def allocPacketID_def
    by (intro keeps_rules)
qed

lemma input_unsubscribe [keeps_rules]: "keeps input_kept (handleUnsubscribe X k pk)"
proof -
  have "keeps input_kept (unsubscribe_filters cid fs)" for cid fs
    by (induction fs) (auto simp only: unsubscribe_filters.simps unsubscribe_filter_def intro!: keeps_rules)
  then show ?thesis
    unfolding handleUnsubscribe_def by (intro keeps_rules)
qed

lemma input_dispatch: "keeps input_kept (dispatch X k pk)"
  unfolding dispatch_def handleGracefulDisconnect_def
  by (cases "ptype pk"; simp only: ptype.simps ptype.distinct simp_thms if_True if_False;
      intro keeps_rules; simp add: unread_def)

text \<open>The codec takes bytes from the front of the stream: what is left after a length is no
  longer than what was there.\<close>

definition length_consumes :: "mochi \<Rightarrow> bool" where
  "length_consumes m \<longleftrightarrow> (\<forall>s e. length (snd (mochi_decodeLength m s e)) \<le> length s)"

lemma Read_consumes:
  assumes "Read m r = (Inr pk, r')" "length_consumes m"
  shows "length (br r') < length (br r)"
proof -
  from assms(1) obtain hb s1 n s2 where s: "br r = hb # s1" and d: "mochi_decodeLength m s1 (br_end r) = (Inr n, s2)"
    and "br r' = drop (nat n) s2"
    by (auto simp: Read_def Let_def split: list.splits sum.splits prod.splits option.splits if_splits)
  moreover from assms(2) d have "length s2 \<le> length s1"
    unfolding length_consumes_def by (metis snd_conv)
  ultimately show ?thesis by simp
qed

lemma conn_read_consumes:
  assumes "conn_read X k w = (Inr pk, w')" "length_consumes (codec X)"
  shows "length (unread (heap w' k)) < length (unread (heap w k))"
proof -
  obtain r rd where rd: "Read (codec X) (reader_of (heap w k)) = (r, rd)" by fastforce
  with assms(1) have "w' = upd_conn k (\<lambda>c. c\<lparr>reader_of := rd\<rparr>) w" "r = Inr pk"
    by (auto simp: conn_read_def go_lift_def split: sum.splits)
  with Read_consumes [OF _ assms(2)] rd show ?thesis by (auto simp: unread_def)
qed

lemma read_loop_fuel:
  assumes "length_consumes (codec X)" "length (unread (heap w k)) < n" "length (unread (heap w k)) < m"
  shows "read_loop X k n w = read_loop X k m w \<and> fst (read_loop X k n w) \<noteq> Inr None"
  using assms(2,3)
proof (induction n arbitrary: m w)
  case (Suc n)
  then obtain m' where m: "m = Suc m'" by (cases m) auto
  obtain r w1 where rd: "conn_read X k w = (r, w1)" by fastforce
  show ?case
  proof (cases r)
    case (Inl e)
    with rd show ?thesis
      by (auto simp: m go_bind_def go_attempt_def go_return_def split: prod.splits sum.splits)
  next
    case (Inr pk)
    obtain r2 w2 where di: "dispatch X k pk w1 = (r2, w2)" by fastforce
    have "length (unread (heap w1 k)) < length (unread (heap w k))"
      using conn_read_consumes rd Inr assms(1) by blast
    with keepsD [OF input_dispatch di] Suc.prems m
    have "length (unread (heap w2 k)) < n" "length (unread (heap w2 k)) < m'" by (auto simp: input_kept_def)
    from Suc.IH [OF this] rd Inr di show ?thesis
      by (auto simp: m go_bind_def go_attempt_def go_return_def split: prod.splits sum.splits)
  qed
qed simp

text \<open>C10: the read loop of a connection ends. Whatever a client sends and whatever fails, the loop
  stops after at most one turn per byte it was sent: the fuel the connection starts it with is
  enough, and more changes nothing. The codec library is only supposed to consume its input.\<close>

theorem read_loop_ends:
  assumes "length_consumes (codec X)" "length (br (reader_of (heap w k))) + 2 \<le> n"
  shows "read_loop X k n w = read_loop X k (length (br (reader_of (heap w k))) + 2) w \<and>
    fst (read_loop X k n w) \<noteq> Inr None"
  by (rule read_loop_fuel [OF assms(1)]) (use assms(2) in \<open>simp_all add: unread_def\<close>)

lemma sample_consumes: "length_consumes (codec sample_ext)"
  by (simp add: length_consumes_def sample_ext_def sample_mochi_def split: sum.splits prod.splits)

definition sample_talker :: world where
  "sample_talker = sample_world sample_db ((sample_conn ''c'' 4)\<lparr>reader_of := NewReader [0x30, 2, 7, 8] ErrEOF\<rparr>)"

theorem read_loop_ends_witness: "fst (read_loop sample_ext 0 9 sample_talker) \<noteq> Inr None"
proof -
  have "length (br (reader_of (heap sample_talker 0))) + 2 \<le> 9"
    by (simp add: sample_talker_def sample_world_def NewReader_def)
  from read_loop_ends [OF sample_consumes this] show ?thesis by blast
qed

section \<open>What a kicked connection leaves behind\<close>

definition same_store :: "world \<Rightarrow> world \<Rightarrow> bool" where
  "same_store w w' \<longleftrightarrow> store w' = store w"

interpretation same_store: run_relation same_store
  by unfold_locales (auto simp: same_store_def)

lemma same_store_basic [keeps_rules]:
  "keeps same_store (go_upd k f)" "keeps same_store (count n l i)" "keeps same_store (go_modify (\<lambda>w. w\<lparr>conns := g w\<rparr>))"
  "keeps same_store (ConnFor cid)"
  by (auto simp: keeps_def same_store_def ConnFor_def go_ask_def)

lemma same_store_kick: "keeps same_store (kickForQuota X k)"
  unfolding kickForQuota_def send_disconnect_def conn_write_def shutdown_def unregisterConnIfSame_def
  by (intro keeps_rules)

lemma shutdown_closes: "shutdown k w = (r, w') \<Longrightarrow> closing (heap w' k)"
  by (auto simp: shutdown_def unregisterConnIfSame_def ConnFor_def go_bind_def go_when_def go_ask_def go_modify_def
      split: if_splits)

text \<open>A connection that is kicked over its quota leaves its session as it was: the end of the read
  loop finds it closing and does nothing, so its will is not published, its session stays
  connected to this Pod and nothing expires it.\<close>

lemma quota_kick_skips_disconnect:
  assumes "kickForQuota X k w = (r, w1)" "\<not> quotaDone (heap w k)" "handleDisconnect X k w1 = (r', w2)"
  shows "store w2 = store w"
proof -
  have "closing (heap w1 k)"
    using assms(1,2)
    by (cases "protocol (heap w k) = ProtocolMQTT5")
      (auto simp: kickForQuota_def go_when_def send_disconnect_def go_ignore_eq dest!: shutdown_closes)
  with assms(3) have "w2 = w1" by (auto simp: handleDisconnect_def)
  with keepsD [OF same_store_kick assms(1)] show ?thesis by (simp add: same_store_def)
qed

text \<open>The inbound window can underflow. PUBRELs for messages this connection did not count (they were
  received on an earlier one) still give slots back; the counter wraps, and the next QoS 1 or 2
  publish is refused for exceeding the receive maximum.\<close>

definition sample_resumed :: db where
  "sample_resumed = sample_db\<lparr>inbound_qos2 :=
     [\<lparr>q_client_id = ''c'', q_packet_id = 4, q_received_at = 0\<rparr>, \<lparr>q_client_id = ''c'', q_packet_id = 5, q_received_at = 0\<rparr>]\<rparr>"

lemma pubrel_underflows:
  "(case go_then (handlePubrel sample_ext 0 ((new_packet Pubrel)\<lparr>PacketID := 4\<rparr>))
       (go_then (handlePubrel sample_ext 0 ((new_packet Pubrel)\<lparr>PacketID := 5\<rparr>))
        (acquire_inbound sample_ext 0 ((new_packet Publish)\<lparr>Qos := 1\<rparr>))) (sample_world sample_resumed (sample_conn ''c'' 5)) of
     (r, w') \<Rightarrow> (r, map (\<lambda>p. (ptype p, ReasonCode p)) (wire (heap w' 0))))
   = (Inl (ErrProtocol ''receive maximum exceeded''), [(Pubcomp, 0), (Pubcomp, 0), (Disconnect, 0x93)])"
  by code_simp

end
