(* ===== verification/Resumption.thy ===== *)
theory Resumption
  imports Main
begin

text \<open>
  Programs whose calls to shared services interleave with those of other processes. A program
  has finished with a result, or its next call is a function from the shared state to the rest
  of the program and the new state; between two calls anything may happen to the state. The
  section on interleaving proves, once, the rely-guarantee rule the operator's proofs use.
\<close>

section \<open>Programs\<close>

datatype ('s, 'r) resumption = Done 'r | Act "'s \<Rightarrow> ('s, 'r) resumption \<times> 's"

primrec res_bind :: "('s, 'a) resumption \<Rightarrow> ('a \<Rightarrow> ('s, 'b) resumption) \<Rightarrow> ('s, 'b) resumption" where
  "res_bind (Done x) k = k x"
| "res_bind (Act f) k = Act (\<lambda>s. map_prod (\<lambda>p. res_bind p k) id (f s))"

text \<open>Running alone to the end.\<close>

primrec res_run :: "('s, 'r) resumption \<Rightarrow> 's \<Rightarrow> 'r \<times> 's" where
  "res_run (Done x) s = (x, s)"
| "res_run (Act f) s = (case map_prod res_run id (f s) of (g, s') \<Rightarrow> g s')"

lemma resumption_cases [case_names Done Act, induct type: resumption]:
  assumes "\<And>x. P (Done x)" "\<And>f. (\<And>s. P (fst (f s))) \<Longrightarrow> P (Act f)"
  shows "P p"
proof (induction p)
  case (Act f)
  have "P (fst (f s))" for s
    by (rule Act [of "f s"]) (auto simp: prod_set_defs)
  then show ?case by (rule assms(2))
qed (rule assms(1))

lemma res_run_Act: "res_run (Act f) s = res_run (fst (f s)) (snd (f s))"
  by (cases "f s") simp

lemma res_run_bind: "res_run (res_bind p k) s = (case res_run p s of (x, s') \<Rightarrow> res_run (k x) s')"
proof (induction p arbitrary: s)
  case (Act f)
  from Act [of s "snd (f s)"] show ?case by (cases "f s") (simp add: res_run_Act del: res_run.simps(2))
qed simp

section \<open>Interleaving\<close>

text \<open>Any number of processes; a step is one call of one of them, or a process that has finished
  starting another program of the given set.\<close>

inductive interleave :: "('s, 'r) resumption set \<Rightarrow> (nat \<Rightarrow> ('s, 'r) resumption) \<times> 's
    \<Rightarrow> (nat \<Rightarrow> ('s, 'r) resumption) \<times> 's \<Rightarrow> bool" for P where
  calls: "ps i = Act f \<Longrightarrow> f s = (p, s') \<Longrightarrow> interleave P (ps, s) (ps(i := p), s')"
| starts: "ps i = Done r \<Longrightarrow> p \<in> P \<Longrightarrow> interleave P (ps, s) (ps(i := p), s)"

text \<open>In particular a process may run to the end undisturbed.\<close>

lemma run_interleaves:
  "res_run p s = (r, s') \<Longrightarrow> (interleave P)\<^sup>*\<^sup>* (ps(i := p), s) (ps(i := Done r), s')"
proof (induction p arbitrary: s)
  case (Act f)
  have "interleave P (ps(i := Act f), s) ((ps(i := Act f))(i := fst (f s)), snd (f s))"
    by (rule calls [where f = f]) simp_all
  moreover have "(interleave P)\<^sup>*\<^sup>* (ps(i := fst (f s)), snd (f s)) (ps(i := Done r), s')"
    by (rule Act.IH) (use Act.prems in \<open>simp only: res_run_Act\<close>)
  ultimately show ?case unfolding fun_upd_upd by (rule converse_rtranclp_into_rtranclp)
qed simp

text \<open>An invariant \<open>I\<close> and a guarantee \<open>G\<close> every call gives, on which the knowledge of the other
  processes rests: a predicate is stable if no such call falsifies it.\<close>

locale rely_guarantee =
  fixes I :: "'s \<Rightarrow> bool" and G :: "'s \<Rightarrow> 's \<Rightarrow> bool"
  assumes G_refl: "G s s"
begin

definition stable :: "('s \<Rightarrow> bool) \<Rightarrow> bool" where
  "stable K \<longleftrightarrow> (\<forall>s s'. I s \<and> K s \<and> I s' \<and> G s s' \<longrightarrow> K s')"

text \<open>A program is safe from a state where \<open>K\<close> is known: every call keeps the invariant, gives the
  guarantee and leaves stable knowledge with which the rest is safe; at the end the result is
  as \<open>Q\<close> says.\<close>

inductive safe :: "('r \<Rightarrow> 's \<Rightarrow> bool) \<Rightarrow> ('s \<Rightarrow> bool) \<Rightarrow> ('s, 'r) resumption \<Rightarrow> bool" for Q where
  safe_Done: "(\<And>s. I s \<Longrightarrow> K s \<Longrightarrow> Q r s) \<Longrightarrow> safe Q K (Done r)"
| safe_Act: "(\<And>s. I s \<Longrightarrow> K s \<Longrightarrow> I (snd (f s)) \<and> G s (snd (f s)) \<and>
     (\<exists>K'. stable K' \<and> K' (snd (f s)) \<and> safe Q K' (fst (f s)))) \<Longrightarrow> safe Q K (Act f)"

lemma safe_mono:
  assumes "safe Q K p" "\<And>s. I s \<Longrightarrow> K' s \<Longrightarrow> K s"
  shows "safe Q K' p"
  using assms(1)
proof cases
  case (safe_Done r)
  then show ?thesis using assms(2) by (auto intro: safe.safe_Done)
next
  case (safe_Act f)
  show ?thesis unfolding safe_Act(1) by (rule safe.safe_Act) (use safe_Act(2) assms(2) in blast)
qed

lemma safe_bind:
  assumes "safe Q K p" and k: "\<And>r. safe R (Q r) (k r)"
  shows "safe R K (res_bind p k)"
  using assms(1)
proof (induction rule: safe.induct)
  case (safe_Done K r)
  then show ?case using safe_mono [OF k] by simp
next
  case (safe_Act K f)
  show ?case
    unfolding res_bind.simps
  proof (rule safe.safe_Act)
    fix s assume "I s" "K s"
    from safe_Act.IH [OF this] show "I (snd (map_prod (\<lambda>p. res_bind p k) id (f s))) \<and>
      G s (snd (map_prod (\<lambda>p. res_bind p k) id (f s))) \<and>
      (\<exists>K'. stable K' \<and> K' (snd (map_prod (\<lambda>p. res_bind p k) id (f s))) \<and>
         safe R K' (fst (map_prod (\<lambda>p. res_bind p k) id (f s))))"
      by (cases "f s") auto
  qed
qed

text \<open>Stable knowledge survives a program that does not use it.\<close>

lemma stable_conj: "stable K \<Longrightarrow> stable J \<Longrightarrow> stable (\<lambda>s. K s \<and> J s)"
  unfolding stable_def by blast

lemma safe_frame:
  assumes "safe Q K p" "stable J"
  shows "safe (\<lambda>r s. Q r s \<and> J s) (\<lambda>s. K s \<and> J s) p"
  using assms(1)
proof (induction rule: safe.induct)
  case (safe_Act K f)
  show ?case
  proof (rule safe.safe_Act)
    fix s assume s: "I s" "K s \<and> J s"
    with safe_Act.IH [of s] obtain K' where f: "I (snd (f s))" "G s (snd (f s))"
      and K': "stable K'" "K' (snd (f s))" "safe (\<lambda>r s. Q r s \<and> J s) (\<lambda>s. K' s \<and> J s) (fst (f s))" by blast
    from f s assms(2) have "J (snd (f s))" unfolding stable_def by blast
    with f K' stable_conj [OF K'(1) assms(2)] show "I (snd (f s)) \<and> G s (snd (f s)) \<and>
      (\<exists>K'. stable K' \<and> K' (snd (f s)) \<and> safe (\<lambda>r s. Q r s \<and> J s) K' (fst (f s)))" by blast
  qed
qed (auto intro: safe.safe_Done)

text \<open>What is known of a process: with stable knowledge its rest is safe, and the results it may
  return are described by \<open>Q\<close>, of which \<open>Q r\<close> stays true of a result \<open>r\<close> once returned.\<close>

definition knows :: "('r \<Rightarrow> 's \<Rightarrow> bool) \<Rightarrow> (nat \<Rightarrow> ('s, 'r) resumption) \<times> 's \<Rightarrow> bool" where
  "knows Q c \<longleftrightarrow> (\<forall>i. \<exists>K. stable K \<and> K (snd c) \<and> safe Q K (fst c i))"

lemma interleave_keeps:
  assumes "interleave P c c'" "I (snd c)" "knows Q c" "\<And>p. p \<in> P \<Longrightarrow> safe Q (\<lambda>_. True) p"
  shows "I (snd c') \<and> knows Q c'"
  using assms
proof (induction rule: interleave.induct)
  case (calls ps i f s p s')
  from calls.prems(2) obtain K where K: "stable K" "K s" "safe Q K (ps i)" unfolding knows_def by auto
  from K(3) calls.hyps(1) have "safe Q K (Act f)" by simp
  then have s: "I s'" "G s s'" and p: "\<exists>K'. stable K' \<and> K' s' \<and> safe Q K' p"
    using calls.hyps(2) calls.prems(1) K(2) by (auto elim!: safe.cases [of _ K "Act f"] dest!: spec)
  have "\<exists>K. stable K \<and> K s' \<and> safe Q K ((ps(i := p)) j)" for j
  proof (cases "j = i")
    case False
    from calls.prems(2) obtain K where "stable K" "K s" "safe Q K (ps j)" unfolding knows_def by auto
    with s calls.prems(1) False show ?thesis unfolding stable_def by auto
  qed (use p in simp)
  with s show ?case by (simp add: knows_def)
next
  case (starts ps i r p s)
  have "stable (\<lambda>_. True)" by (simp add: stable_def)
  with starts.prems(3) [OF starts.hyps(2)]
  have p: "\<exists>K. stable K \<and> K s \<and> safe Q K p" by blast
  with starts.prems show ?case by (auto simp: knows_def)
qed

text \<open>The rule with results: whoever has returned, what \<open>Q\<close> says of its result holds.\<close>

lemma interleaving_results:
  assumes "(interleave P)\<^sup>*\<^sup>* (ps, s) (ps', s')" "I s" "\<And>i. \<exists>r. ps i = Done r \<and> stable (Q r) \<and> Q r s"
    and "\<And>p. p \<in> P \<Longrightarrow> safe Q (\<lambda>_. True) p"
  shows "I s' \<and> (\<forall>i r. ps' i = Done r \<longrightarrow> Q r s')"
proof -
  have "\<exists>K. stable K \<and> K s \<and> safe Q K (ps i)" for i
    using assms(3) [of i] by (metis safe_Done)
  then have "knows Q (ps, s)" by (simp add: knows_def)
  have "I (snd c') \<and> knows Q c'" if "(interleave P)\<^sup>*\<^sup>* c c'" "I (snd c)" "knows Q c" for c c'
    using that by (induction rule: rtranclp_induct) (use interleave_keeps [OF _ _ _ assms(4)] in blast)+
  from this [OF assms(1)] assms(2) \<open>knows Q (ps, s)\<close> have fin: "I s'" "knows Q (ps', s')" by simp_all
  have "Q r s'" if "ps' i = Done r" for i r
  proof -
    from fin(2) obtain K where K: "K s'" "safe Q K (ps' i)" unfolding knows_def by auto
    from K(2) [unfolded that] show ?thesis by cases (use fin(1) K(1) in simp_all)
  qed
  with fin(1) show ?thesis by blast
qed

lemma interleaving_invariant:
  assumes "(interleave P)\<^sup>*\<^sup>* (ps, s) (ps', s')" "I s" "\<And>i. \<exists>r. ps i = Done r"
    and "\<And>p. p \<in> P \<Longrightarrow> safe (\<lambda>_ _. True) (\<lambda>_. True) p"
  shows "I s'"
  using interleaving_results [OF assms(1,2), of "\<lambda>_ _. True"] assms(3,4) by (simp add: stable_def)

end

end
