(* ===== verification/Config.thy ===== *)
theory Config
  imports Prelude
begin

text \<open>
  The configuration (\<open>src/internal/config/config.go\<close>): the environment is a partial function,
  \<open>FromEnv\<close> reads it into the configuration record or reports what is wrong with it. Durations
  are nanoseconds in an \<open>int64\<close>, so a product with a unit wraps around.
\<close>

type_synonym environment = "string \<Rightarrow> string option"

record Config =
  DatabaseURL :: string
  TCPAddr :: string
  WSAddr :: string
  PodName :: string
  PodNamespace :: string
  AllowAnonymous :: bool
  ServiceHost :: string
  ServicePort :: int
  WSPort :: int
  V5ReceiveMaximum :: "16 word"
  V5KeepaliveMax :: duration
  BcryptCost :: int
  MaxQueuedDeliveriesPerClient :: int
  MaxConnections :: int
  MaxInboundMsgsPerSec :: int
  MaxConnectsPerIPPerSec :: int
  MaxAuthFailuresPerIPPerMin :: int
  MaxPacketSize :: int
  MetricsAddr :: string
  PGStatementTimeout :: duration
  LogFormat :: string
  WSAllowedOrigins :: "string list"
  JanitorInterval :: duration
  SlowStageLogMs :: int

section \<open>Reading the environment\<close>

text \<open>\<open>os.Getenv\<close>.\<close>

definition os_Getenv :: "environment \<Rightarrow> string \<Rightarrow> string" where
  "os_Getenv env key = (case env key of None \<Rightarrow> [] | Some v \<Rightarrow> v)"

definition getenv :: "environment \<Rightarrow> string \<Rightarrow> string \<Rightarrow> string" where
  "getenv env key def = (case env key of Some v \<Rightarrow> v | None \<Rightarrow> def)"

definition getenvDefaultEmpty :: "environment \<Rightarrow> string \<Rightarrow> string \<Rightarrow> string" where
  "getenvDefaultEmpty env key def = (let v = os_Getenv env key in if v \<noteq> [] then v else def)"

text \<open>\<open>strconv.Atoi\<close> on a 64-bit machine is \<open>ParseInt(s, 10, 64)\<close>; a value it refuses is logged and
  the default is used.\<close>

definition getenvInt :: "environment \<Rightarrow> string \<Rightarrow> int \<Rightarrow> int" where
  "getenvInt env key def =
     (let v = os_Getenv env key in
      if v = [] then def else case parse_int64 v of Some n \<Rightarrow> n | None \<Rightarrow> def)"

text \<open>\<open>strings.TrimSpace\<close> on ASCII text.\<close>

definition is_space :: "char \<Rightarrow> bool" where
  "is_space c \<longleftrightarrow> (of_char c :: nat) \<in> {9, 10, 11, 12, 13, 32}"

definition TrimSpace :: "string \<Rightarrow> string" where
  "TrimSpace s = rev (dropWhile is_space (rev (dropWhile is_space s)))"

definition splitTrimmed :: "string \<Rightarrow> char \<Rightarrow> string list" where
  "splitTrimmed s sep =
     (if s = [] then [] else filter (\<lambda>p. p \<noteq> []) (map TrimSpace (split_on sep s)))"

definition read_env :: "environment \<Rightarrow> Config" where
  "read_env env = \<lparr>
     DatabaseURL = os_Getenv env ''PGMQTT_DATABASE_URL'',
     TCPAddr = getenv env ''PGMQTT_TCP_ADDR'' '':1883'',
     WSAddr = getenv env ''PGMQTT_WS_ADDR'' '':8083'',
     PodName = os_Getenv env ''POD_NAME'',
     PodNamespace = os_Getenv env ''POD_NAMESPACE'',
     AllowAnonymous = (os_Getenv env ''PGMQTT_ALLOW_ANONYMOUS'' = ''true''),
     ServiceHost = os_Getenv env ''PGMQTT_SERVICE_HOST'',
     ServicePort = getenvInt env ''PGMQTT_SERVICE_PORT'' 1883,
     WSPort = getenvInt env ''PGMQTT_SERVICE_WS_PORT'' 8083,
     V5ReceiveMaximum = word_of_int (getenvInt env ''PGMQTT_RECEIVE_MAXIMUM'' 100),
     V5KeepaliveMax = int64 (getenvInt env ''PGMQTT_KEEPALIVE_MAX_SEC'' 60 * 1000000000),
     BcryptCost = getenvInt env ''PGMQTT_BCRYPT_COST'' 10,
     MaxQueuedDeliveriesPerClient = getenvInt env ''PGMQTT_MAX_QUEUED_DELIVERIES_PER_CLIENT'' 10000,
     MaxConnections = getenvInt env ''PGMQTT_MAX_CONNECTIONS'' 5000,
     MaxInboundMsgsPerSec = getenvInt env ''PGMQTT_MAX_INBOUND_MSGS_PER_SEC'' 1000,
     MaxConnectsPerIPPerSec = getenvInt env ''PGMQTT_MAX_CONNECTS_PER_IP_PER_SEC'' 5,
     MaxAuthFailuresPerIPPerMin = getenvInt env ''PGMQTT_MAX_AUTH_FAILURES_PER_IP_PER_MIN'' 30,
     MaxPacketSize = getenvInt env ''PGMQTT_MAX_PACKET_SIZE'' (16 * 1024 * 1024),
     MetricsAddr = getenv env ''PGMQTT_METRICS_ADDR'' '':9090'',
     PGStatementTimeout = int64 (getenvInt env ''PGMQTT_PG_STATEMENT_TIMEOUT_MS'' 30000 * 1000000),
     LogFormat = getenvDefaultEmpty env ''PGMQTT_LOG_FORMAT'' ''text'',
     WSAllowedOrigins = splitTrimmed (os_Getenv env ''PGMQTT_WS_ALLOWED_ORIGINS'') CHR '','',
     JanitorInterval = int64 (getenvInt env ''PGMQTT_JANITOR_INTERVAL_MS'' 1000 * 1000000),
     SlowStageLogMs = getenvInt env ''PGMQTT_SLOW_STAGE_LOG_MS'' 0\<rparr>"

definition FromEnv :: "environment \<Rightarrow> err + Config" where
  "FromEnv env =
     (let c = read_env env in
      if DatabaseURL c = [] then Inl (ErrConfig ''PGMQTT_DATABASE_URL is required'')
      else if TCPAddr c = [] \<and> WSAddr c = []
      then Inl (ErrConfig ''at least one of PGMQTT_TCP_ADDR or PGMQTT_WS_ADDR must be set'')
      else if V5KeepaliveMax c \<le> 0 then Inl (ErrConfig ''PGMQTT_KEEPALIVE_MAX_SEC must be > 0'')
      else if BcryptCost c < 4 \<or> BcryptCost c > 31
      then Inl (ErrConfig ''PGMQTT_BCRYPT_COST must be between 4 and 31'')
      else if PGStatementTimeout c < 0
      then Inl (ErrConfig ''PGMQTT_PG_STATEMENT_TIMEOUT_MS must be >= 0'')
      else if MaxPacketSize c < 0 \<or> MaxPacketSize c > 268435455
      then Inl (ErrConfig ''PGMQTT_MAX_PACKET_SIZE must be in [0, 268435455]'')
      else if MaxConnectsPerIPPerSec c < 0
      then Inl (ErrConfig ''PGMQTT_MAX_CONNECTS_PER_IP_PER_SEC must be >= 0'')
      else if MaxAuthFailuresPerIPPerMin c < 0
      then Inl (ErrConfig ''PGMQTT_MAX_AUTH_FAILURES_PER_IP_PER_MIN must be >= 0'')
      else if LogFormat c \<noteq> ''text'' \<and> LogFormat c \<noteq> ''json''
      then Inl (ErrConfig ''PGMQTT_LOG_FORMAT must be text or json'')
      else Inr c)"

section \<open>Integers in the environment\<close>

text \<open>Integer settings round trip. A natural number below 2^63 written in decimal is read
  back exactly; a text that is not a whole decimal integer in range (such as a number in
  scientific notation) never contributes a prefix of itself but leaves the default.\<close>

theorem getenvInt_reads:
  "(n < 2 ^ 63 \<longrightarrow> getenvInt (env(key := Some (itoa n))) key def = int n) \<and>
   (parse_int64 v = None \<longrightarrow> getenvInt (env(key := Some v)) key def = def) \<and>
   getenvInt (env(key := None)) key def = def"
  by (simp add: getenvInt_def os_Getenv_def parse_int64_itoa)

theorem getenvInt_reads_witness:
  "getenvInt (Map.empty(''K'' := Some ''1.6777216e+07'')) ''K'' 16777216 = 16777216 \<and>
   getenvInt (Map.empty(''K'' := Some (itoa 42))) ''K'' 7 = 42"
proof -
  have "parse_int64 ''1.6777216e+07'' = None" by code_simp
  with getenvInt_reads [of 0 Map.empty "''K''" 16777216 "''1.6777216e+07''"]
    getenvInt_reads [of 42 Map.empty "''K''" 7 "[]"]
  show ?thesis by simp
qed

section \<open>Lists in the environment\<close>

lemma dropWhile_hd: "\<not> P (hd xs) \<Longrightarrow> dropWhile P xs = xs"
  by (cases xs) auto

lemma TrimSpace_plain: "\<not> is_space (hd p) \<Longrightarrow> \<not> is_space (last p) \<Longrightarrow> TrimSpace p = p"
  by (simp add: TrimSpace_def dropWhile_hd hd_rev)

text \<open>Origins round trip. A list of origins, each without commas and without surrounding
  blanks, written with commas between them, is read back as it was.\<close>

theorem splitTrimmed_join:
  assumes "\<forall>p \<in> set ps. p \<noteq> [] \<and> sep \<notin> set p \<and> \<not> is_space (hd p) \<and> \<not> is_space (last p)"
  shows "splitTrimmed (join_on sep ps) sep = ps"
proof (cases ps)
  case (Cons p qs)
  then have "split_on sep (join_on sep ps) = ps" using assms by (simp add: split_join)
  moreover have "map TrimSpace ps = ps" using assms TrimSpace_plain by (auto intro: map_idI)
  moreover have "filter (\<lambda>p. p \<noteq> []) ps = ps" using assms by (auto simp: filter_id_conv)
  moreover have "join_on sep ps \<noteq> []" using Cons assms by (cases qs) auto
  ultimately show ?thesis by (simp add: splitTrimmed_def)
qed (simp add: splitTrimmed_def)

theorem splitTrimmed_join_witness:
  "splitTrimmed (join_on CHR '','' [''a.example'', ''*'']) CHR '','' = [''a.example'', ''*'']"
  using splitTrimmed_join [of "[''a.example'', ''*'']" "CHR '',''"] by (simp add: is_space_def)

end
