(* ===== verification/Operator.thy ===== *)
theory Operator
  imports Connect Resumption Config
begin

text \<open>
  The operator (\<open>src/internal/operator/user_controller.go\<close>, \<open>manager.go\<close>): the reconciler that
  turns \<open>User\<close> objects into rows of the \<open>users\<close> table and generates their credential Secrets.

  The Kubernetes API is a service the code calls: the record \<open>kube\<close>, over a state type of its
  own; every operation may fail and may change that state. The hypotheses theorems make about
  it are the predicate \<open>kube_ok\<close> below. Packages the code calls (bcrypt, SHA-256, controller
  references, the text of errors) are the record \<open>op_ext\<close>. What a run draws from
  \<open>crypto/rand\<close> is an argument. A run is a resumption whose calls are the API calls and the
  SQL statements, so that runs of several managers interleave.
\<close>

section \<open>Objects\<close>

text \<open>\<open>src/api/v1alpha1/user_types.go\<close>; \<open>deleting\<close> tells that the deletion timestamp is set.\<close>

record SecretKeySelector =
  ref_name :: string
  ref_key :: string

record Condition =
  cond_type :: string
  cond_status :: bool
  cond_reason :: string
  cond_message :: string
  cond_generation :: int
  cond_time :: instant

record UserSpec =
  Username_spec :: string
  PasswordSecretRef :: "SecretKeySelector option"

record UserStatus =
  Conditions :: "Condition list"
  CredentialsSecretRef :: "string option"
  ObservedSecretHash :: string
  ObservedUsername :: string

record User =
  user_namespace :: string
  user_name :: string
  generation :: int
  finalizers :: "string list"
  deleting :: bool
  Spec :: UserSpec
  Status :: UserStatus

record Secret =
  secret_namespace :: string
  secret_name :: string
  owners :: "string list"
  data :: "string \<Rightarrow> string option"

type_synonym object_key = "string \<times> string"

record 'k kube =
  api_get_user :: "object_key \<Rightarrow> 'k \<Rightarrow> (err + User) \<times> 'k"
  api_patch_user :: "User \<Rightarrow> User \<Rightarrow> 'k \<Rightarrow> (err + unit) \<times> 'k"
  api_patch_status :: "User \<Rightarrow> User \<Rightarrow> 'k \<Rightarrow> (err + unit) \<times> 'k"
  api_list_users :: "string \<Rightarrow> 'k \<Rightarrow> (err + User list) \<times> 'k"
  api_get_secret :: "object_key \<Rightarrow> 'k \<Rightarrow> (err + Secret) \<times> 'k"
  api_create_or_update :: "object_key \<Rightarrow> (Secret \<Rightarrow> err + Secret) \<Rightarrow> 'k \<Rightarrow> (err + unit) \<times> 'k"

definition NotFound :: err where
  "NotFound = ErrKube ''NotFound''"

record op_ext =
  sha256 :: "string \<Rightarrow> string"
  bcrypt_generate :: "nat \<Rightarrow> string \<Rightarrow> int \<Rightarrow> err + string"
  bcrypt_cost :: "string \<Rightarrow> int option"
  set_controller :: "User \<Rightarrow> Secret \<Rightarrow> err + Secret"
  err_text :: "err \<Rightarrow> string"

text \<open>\<open>UserReconciler\<close>, without the client, the scheme, the pool and the logger.\<close>

record UserReconciler =
  rec_ServiceHost :: string
  rec_ServicePort :: int
  rec_WSPort :: int
  rec_TLSHost :: string
  rec_TLSPort :: int
  rec_WSSPort :: int
  rec_BcryptCost :: int

text \<open>What a run draws: the 24 random bytes of a candidate password or the failure to read them,
  and the salt of the hash.\<close>

record draws =
  raw_password :: "err + bytes"
  salt :: nat

section \<open>Calls\<close>

record 'k op_state =
  kube_state :: 'k
  pg :: world

type_synonym ('k, 'a) op = "('k op_state, err + 'a) resumption"

definition op_return :: "'a \<Rightarrow> ('k, 'a) op" where
  "op_return x = Done (Inr x)"

definition op_fail :: "err \<Rightarrow> ('k, 'a) op" where
  "op_fail e = Done (Inl e)"

definition op_bind :: "('k, 'a) op \<Rightarrow> ('a \<Rightarrow> ('k, 'b) op) \<Rightarrow> ('k, 'b) op" where
  "op_bind m k = res_bind m (\<lambda>r. case r of Inl e \<Rightarrow> Done (Inl e) | Inr x \<Rightarrow> k x)"

text \<open>A call with its error looked at.\<close>

definition op_try :: "('k, 'a) op \<Rightarrow> (err + 'a \<Rightarrow> ('k, 'b) op) \<Rightarrow> ('k, 'b) op" where
  "op_try m k = res_bind m k"

abbreviation op_then :: "('k, 'a) op \<Rightarrow> ('k, 'b) op \<Rightarrow> ('k, 'b) op" where
  "op_then m k \<equiv> op_bind m (\<lambda>_. k)"

definition op_lift :: "err + 'a \<Rightarrow> ('k, 'a) op" where
  "op_lift r = Done r"

definition api :: "('k \<Rightarrow> (err + 'a) \<times> 'k) \<Rightarrow> ('k, 'a) op" where
  "api f = Act (\<lambda>s. case f (kube_state s) of (r, k) \<Rightarrow> (Done r, s\<lparr>kube_state := k\<rparr>))"

definition on_pg :: "'a go \<Rightarrow> ('k, 'a) op" where
  "on_pg m = Act (\<lambda>s. case m (pg s) of (r, w) \<Rightarrow> (Done r, s\<lparr>pg := w\<rparr>))"

section \<open>Statements\<close>

definition del_user :: "string \<Rightarrow> db \<Rightarrow> nat \<times> db" where
  "del_user u d =
     (length (filter (\<lambda>r. u_username r = u) (users d)),
      d\<lparr>users := filter (\<lambda>r. u_username r \<noteq> u) (users d)\<rparr>)"

definition upsert_user :: "string \<Rightarrow> string \<Rightarrow> db \<Rightarrow> db" where
  "upsert_user u h d =
     d\<lparr>users := (if \<exists>r \<in> set (users d). u_username r = u
        then map (\<lambda>r. if u_username r = u then r\<lparr>u_password_hash := h\<rparr> else r) (users d)
        else users d @ [\<lparr>u_username = u, u_password_hash = h\<rparr>])\<rparr>"

section \<open>Helpers\<close>

definition finalizerName :: string where "finalizerName = ''pgmqtt.io/user''"
definition credentialsSuffix :: string where "credentialsSuffix = ''-mqtt-credentials''"

definition DefaultCost :: int where "DefaultCost = 10"

definition sha256Hex :: "op_ext \<Rightarrow> string \<Rightarrow> string" where
  "sha256Hex Y s = sha256 Y s"

text \<open>\<open>base64.RawURLEncoding\<close>: three bytes are four characters; a rest of one or two bytes is two
  or three characters, without padding.\<close>

definition b64char :: "nat \<Rightarrow> char" where
  "b64char v = ''ABCDEFGHIJKLMNOPQRSTUVWXYZabcdefghijklmnopqrstuvwxyz0123456789-_'' ! (v mod 64)"

fun b64url :: "bytes \<Rightarrow> string" where
  "b64url [] = []"
| "b64url [a] = (let v = unat a * 16 in [b64char (v div 64), b64char v])"
| "b64url [a, b] = (let v = (unat a * 256 + unat b) * 4 in
     [b64char (v div 4096), b64char (v div 64), b64char v])"
| "b64url (a # b # c # bs) = (let v = (unat a * 256 + unat b) * 256 + unat c in
     [b64char (v div 262144), b64char (v div 4096), b64char (v div 64), b64char v] @ b64url bs)"

definition generatePassword :: "draws \<Rightarrow> err + string" where
  "generatePassword D = and_then (raw_password D) (\<lambda>raw. Inr (b64url raw))"

text \<open>\<open>url.PathEscape\<close>: letters, digits and \<open>-_.~$&+=:@\<close> stay, every other byte is escaped.\<close>

definition path_safe :: "char \<Rightarrow> bool" where
  "path_safe c \<longleftrightarrow> c \<in> set ''ABCDEFGHIJKLMNOPQRSTUVWXYZabcdefghijklmnopqrstuvwxyz0123456789-_.~$&+=:@''"

definition hexdigit :: "nat \<Rightarrow> char" where
  "hexdigit v = ''0123456789ABCDEF'' ! (v mod 16)"

definition PathEscape :: "string \<Rightarrow> string" where
  "PathEscape s = concat (map (\<lambda>c. if path_safe c then [c]
     else [CHR ''%'', hexdigit (of_char c div 16), hexdigit (of_char c)]) s)"

definition fmt_d :: "int \<Rightarrow> string" where
  "fmt_d i = (if i < 0 then CHR ''-'' # itoa (nat (- i)) else itoa (nat i))"

fun contains_sub :: "string \<Rightarrow> string \<Rightarrow> bool" where
  "contains_sub [] sub \<longleftrightarrow> sub = []"
| "contains_sub (c # s) sub \<longleftrightarrow> take (length sub) (c # s) = sub \<or> contains_sub s sub"

definition scrubReason :: "op_ext \<Rightarrow> err \<Rightarrow> string" where
  "scrubReason Y e =
     (let s = err_text Y e in
      if contains_sub s ''no rows'' then ''not found''
      else if contains_sub s ''duplicate key'' \<or> contains_sub s ''23505'' then ''duplicate''
      else if contains_sub s ''23502'' then ''constraint violation''
      else if contains_sub s ''context deadline exceeded'' \<or> contains_sub s ''i/o timeout''
        \<or> contains_sub s ''connection refused'' \<or> contains_sub s ''connection reset''
        \<or> contains_sub s ''EOF'' then ''transient connectivity''
      else if contains_sub s ''permission denied'' \<or> contains_sub s ''42501'' then ''permission denied''
      else ''internal error'')"

text \<open>\<open>setReady\<close>: the loop over the conditions stops at the first one of type \<open>Ready\<close>.\<close>

definition ready_condition :: "instant \<Rightarrow> int \<Rightarrow> bool \<Rightarrow> string \<Rightarrow> string \<Rightarrow> Condition" where
  "ready_condition t gen ready reason msg = \<lparr>cond_type = ''Ready'', cond_status = ready,
     cond_reason = reason, cond_message = msg, cond_generation = gen, cond_time = t\<rparr>"

fun put_condition :: "Condition \<Rightarrow> Condition list \<Rightarrow> Condition list" where
  "put_condition cond [] = [cond]"
| "put_condition cond (c # cs) =
     (if cond_type c = ''Ready'' then
        (if cond_status c = cond_status cond \<and> cond_reason c = cond_reason cond \<and>
            cond_message c = cond_message cond \<and> cond_generation c = cond_generation cond
         then c # cs else cond # cs)
      else c # put_condition cond cs)"

definition setReady :: "instant \<Rightarrow> bool \<Rightarrow> string \<Rightarrow> string \<Rightarrow> User \<Rightarrow> User" where
  "setReady t ready reason msg user = user\<lparr>Status := (Status user)\<lparr>Conditions :=
     put_condition (ready_condition t (generation user) ready reason msg) (Conditions (Status user))\<rparr>\<rparr>"

definition effective_username :: "User \<Rightarrow> string" where
  "effective_username user =
     (if Username_spec (Spec user) = [] then user_name user else Username_spec (Spec user))"

section \<open>Credentials\<close>

text \<open>The function \<open>CreateOrUpdate\<close> applies to the Secret it found or is about to create.\<close>

definition credential_uri :: "string \<Rightarrow> string \<Rightarrow> string \<Rightarrow> string \<Rightarrow> int \<Rightarrow> string" where
  "credential_uri scheme username password host port =
     scheme @ ''://'' @ PathEscape username @ '':'' @ PathEscape password @ ''@'' @ host @ '':'' @ fmt_d port"

definition secret_values :: "UserReconciler \<Rightarrow> string \<Rightarrow> string \<Rightarrow> (string \<times> string) list" where
  "secret_values R username password =
     (let host = (if rec_ServiceHost R = [] then ''pgmqtt'' else rec_ServiceHost R);
          port = (if rec_ServicePort R = 0 then 1883 else rec_ServicePort R);
          wsPort = (if rec_WSPort R = 0 then 8083 else rec_WSPort R);
          tlsPort = (if rec_TLSPort R = 0 then 8883 else rec_TLSPort R) in
      [(''username'', username), (''password'', password), (''host'', host), (''port'', fmt_d port),
       (''ws-port'', fmt_d wsPort), (''uri'', credential_uri ''mqtt'' username password host port),
       (''ws-uri'', credential_uri ''ws'' username password host wsPort @ ''/mqtt'')] @
      (if rec_TLSHost R = [] then [] else
       [(''tls-host'', rec_TLSHost R), (''tls-port'', fmt_d tlsPort),
        (''mqtts-uri'', credential_uri ''mqtts'' username password (rec_TLSHost R) tlsPort)] @
       (if rec_WSSPort R > 0 then
        [(''wss-port'', fmt_d (rec_WSSPort R)),
         (''wss-uri'', credential_uri ''wss'' username password (rec_TLSHost R) (rec_WSSPort R) @ ''/mqtt'')]
        else [])))"

definition mutate_secret ::
    "op_ext \<Rightarrow> UserReconciler \<Rightarrow> User \<Rightarrow> string \<Rightarrow> string \<Rightarrow> Secret \<Rightarrow> err + Secret" where
  "mutate_secret Y R user username cand desired =
     (let password = (case data desired ''password'' of
            None \<Rightarrow> cand | Some p \<Rightarrow> if p = [] then cand else p) in
      set_controller Y user (desired\<lparr>data := data desired ++ map_of (secret_values R username password)\<rparr>))"

definition resolveCredentialSecret ::
    "'k kube \<Rightarrow> op_ext \<Rightarrow> UserReconciler \<Rightarrow> draws \<Rightarrow> User \<Rightarrow> string \<Rightarrow> ('k, Secret \<times> string) op" where
  "resolveCredentialSecret K Y R D user username =
     (case PasswordSecretRef (Spec user) of
        Some ref \<Rightarrow>
          op_bind (api (api_get_secret K (user_namespace user, ref_name ref))) (\<lambda>sec.
            let key = (if ref_key ref = [] then ''password'' else ref_key ref) in
            case data sec key of
              None \<Rightarrow> op_fail (ErrKube ''secret missing key'')
            | Some password \<Rightarrow> op_return (sec, password))
      | None \<Rightarrow>
          (let key = (user_namespace user, user_name user @ credentialsSuffix) in
           op_bind (op_lift (generatePassword D)) (\<lambda>cand.
           op_then (api (api_create_or_update K key (mutate_secret Y R user username cand)))
           (op_bind (api (api_get_secret K key)) (\<lambda>resolved.
             case data resolved ''password'' of
               None \<Rightarrow> op_fail (ErrKube ''secret missing password after reconcile'')
             | Some pw \<Rightarrow>
                 if pw = [] then op_fail (ErrKube ''secret missing password after reconcile'')
                 else op_return (resolved, pw))))))"

section \<open>Reconcile\<close>

definition storedBcryptCost :: "op_ext \<Rightarrow> string \<Rightarrow> ('k, int) op" where
  "storedBcryptCost Y username = op_bind (on_pg (query (sel_password_hash username))) (\<lambda>stored.
     op_return (case stored of None \<Rightarrow> 0 | Some h \<Rightarrow>
       (case bcrypt_cost Y h of None \<Rightarrow> 0 | Some c \<Rightarrow> c)))"

text \<open>A status update whose failure is only logged, then the original error.\<close>

definition fail_with_status :: "'k kube \<Rightarrow> op_ext \<Rightarrow> User \<Rightarrow> string \<Rightarrow> err \<Rightarrow> ('k, 'a) op" where
  "fail_with_status K Y user reason e =
     op_bind (on_pg (go_ask now)) (\<lambda>t.
     op_try (api (api_patch_status K user (setReady t False reason (scrubReason Y e) user)))
       (\<lambda>_. op_fail e))"

text \<open>The result is whether the request is queued again.\<close>

definition reconcileDelete :: "'k kube \<Rightarrow> User \<Rightarrow> ('k, bool) op" where
  "reconcileDelete K user =
     (if finalizerName \<notin> set (finalizers user) then op_return False
      else op_then (on_pg (exec (del_user (effective_username user))))
        (op_then (api (api_patch_user K user
            (user\<lparr>finalizers := filter (\<lambda>f. f \<noteq> finalizerName) (finalizers user)\<rparr>)))
          (op_return False)))"

text \<open>Writing the hash of the password, and the status that says so.\<close>

definition write_hash ::
    "'k kube \<Rightarrow> op_ext \<Rightarrow> draws \<Rightarrow> User \<Rightarrow> string \<Rightarrow> Secret \<Rightarrow> string \<Rightarrow> int \<Rightarrow> string \<Rightarrow> ('k, bool) op" where
  "write_hash K Y D user username secret password cost rehashReason =
     op_bind (op_lift (bcrypt_generate Y (salt D) password cost)) (\<lambda>hash.
     op_try (on_pg (execute (upsert_user username hash))) (\<lambda>r. case r of
       Inl e \<Rightarrow> fail_with_status K Y user ''DBError'' e
     | Inr _ \<Rightarrow>
        op_then (on_pg (count ''userRehashTotal'' rehashReason 1))
        (op_bind (on_pg (go_ask now)) (\<lambda>t.
         op_then (api (api_patch_status K user
            (setReady t True ''Reconciled'' '''' (user\<lparr>Status := (Status user)\<lparr>
               ObservedSecretHash := sha256Hex Y password, ObservedUsername := username,
               CredentialsSecretRef := Some (secret_name secret)\<rparr>\<rparr>))))
           (op_return False)))))"

definition observed :: "op_ext \<Rightarrow> User \<Rightarrow> string \<Rightarrow> Secret \<Rightarrow> string \<Rightarrow> bool" where
  "observed Y user username secret password \<longleftrightarrow>
     ObservedUsername (Status user) = username \<and>
     ObservedSecretHash (Status user) = sha256Hex Y password \<and>
     CredentialsSecretRef (Status user) = Some (secret_name secret)"

definition reconcile_hash ::
    "'k kube \<Rightarrow> op_ext \<Rightarrow> UserReconciler \<Rightarrow> draws \<Rightarrow> User \<Rightarrow> string \<Rightarrow> Secret \<Rightarrow> string \<Rightarrow> ('k, bool) op" where
  "reconcile_hash K Y R D user username secret password =
     (let cost = (if rec_BcryptCost R = 0 then DefaultCost else rec_BcryptCost R) in
      if observed Y user username secret password
      then op_bind (storedBcryptCost Y username) (\<lambda>storedCost.
        if storedCost \<ge> cost
        then op_bind (on_pg (go_ask now)) (\<lambda>t.
          op_then (api (api_patch_status K user (setReady t True ''Reconciled'' '''' user))) (op_return False))
        else write_hash K Y D user username secret password cost ''cost_bump'')
      else write_hash K Y D user username secret password cost ''rotation'')"

definition renamed :: "User \<Rightarrow> bool" where
  "renamed user \<longleftrightarrow> ObservedUsername (Status user) \<noteq> [] \<and>
     ObservedUsername (Status user) \<noteq> effective_username user"

definition rename_cleanup :: "'k kube \<Rightarrow> op_ext \<Rightarrow> User \<Rightarrow> ('k, unit) op" where
  "rename_cleanup K Y user =
     (if renamed user
      then op_try (on_pg (exec (del_user (ObservedUsername (Status user))))) (\<lambda>r. case r of
         Inl e \<Rightarrow> fail_with_status K Y user ''DBError'' e
       | Inr _ \<Rightarrow> op_return ())
      else op_return ())"

definition reconcile_user ::
    "'k kube \<Rightarrow> op_ext \<Rightarrow> UserReconciler \<Rightarrow> draws \<Rightarrow> User \<Rightarrow> ('k, bool) op" where
  "reconcile_user K Y R D user =
     (let username = effective_username user in
      op_then (rename_cleanup K Y user)
      (op_try (resolveCredentialSecret K Y R D user username) (\<lambda>r. case r of
         Inl e \<Rightarrow> fail_with_status K Y user ''SecretError'' e
       | Inr (secret, password) \<Rightarrow> reconcile_hash K Y R D user username secret password)))"

definition Reconcile ::
    "'k kube \<Rightarrow> op_ext \<Rightarrow> UserReconciler \<Rightarrow> draws \<Rightarrow> object_key \<Rightarrow> ('k, bool) op" where
  "Reconcile K Y R D req =
     op_try (api (api_get_user K req)) (\<lambda>r. case r of
       Inl e \<Rightarrow> if e = NotFound then op_return False else op_fail e
     | Inr user \<Rightarrow>
         if deleting user then reconcileDelete K user
         else if finalizerName \<notin> set (finalizers user)
         then op_then (api (api_patch_user K user
                (user\<lparr>finalizers := finalizers user @ [finalizerName]\<rparr>))) (op_return True)
         else reconcile_user K Y R D user)"

section \<open>Secret changes\<close>

definition usersForSecret :: "'k kube \<Rightarrow> Secret \<Rightarrow> ('k, object_key list) op" where
  "usersForSecret K secret =
     op_try (api (api_list_users K (secret_namespace secret))) (\<lambda>r. case r of
       Inl e \<Rightarrow> op_return []
     | Inr us \<Rightarrow> op_return (map (\<lambda>u. (user_namespace u, user_name u))
         (filter (\<lambda>u. case PasswordSecretRef (Spec u) of None \<Rightarrow> False
            | Some ref \<Rightarrow> ref_name ref = secret_name secret) us)))"

section \<open>The manager\<close>

text \<open>\<open>manager.go\<close>. The service-account file is its contents, or nothing when it cannot be read. What
  the Kubernetes packages answer while the manager is set up are the arguments \<open>get_config\<close>,
  \<open>discovery\<close>, \<open>resources\<close> (the number of registered resources), \<open>new_manager\<close> and \<open>setup\<close>;
  \<open>manager_ends\<close> is how \<open>mgr.Start\<close> returns.\<close>

record Options =
  opt_ServiceHost :: string
  opt_ServicePort :: int
  opt_WSPort :: int
  opt_BcryptCost :: int
  opt_LeaderElectionNamespace :: string

definition resolveLeaderElectionNamespace :: "string option \<Rightarrow> string \<Rightarrow> string" where
  "resolveLeaderElectionNamespace file explicit =
     (if explicit \<noteq> [] then explicit else case file of None \<Rightarrow> [] | Some b \<Rightarrow> TrimSpace b)"

record kube_setup =
  get_config :: "err + unit"
  discovery :: "err + unit"
  resources :: "err + nat"
  new_manager :: "err + unit"
  setup_manager :: "err + unit"
  manager_ends :: "err + unit"

definition reconciler_of :: "Options \<Rightarrow> UserReconciler" where
  "reconciler_of opts = \<lparr>rec_ServiceHost = opt_ServiceHost opts, rec_ServicePort = opt_ServicePort opts,
     rec_WSPort = opt_WSPort opts, rec_TLSHost = [], rec_TLSPort = 0, rec_WSSPort = 0,
     rec_BcryptCost = opt_BcryptCost opts\<rparr>"

text \<open>How \<open>Run\<close> ends, and the lease namespace and reconciler of a manager it started.\<close>

definition operator_Run :: "kube_setup \<Rightarrow> string option \<Rightarrow> Options \<Rightarrow>
    (err + unit) \<times> (string \<times> UserReconciler) option" where
  "operator_Run S file opts =
     (case get_config S of Inl e \<Rightarrow> (Inr (), None) | Inr _ \<Rightarrow>
     (case discovery S of Inl e \<Rightarrow> (Inr (), None) | Inr _ \<Rightarrow>
     (case resources S of Inl e \<Rightarrow> (Inr (), None) | Inr n \<Rightarrow>
      if n = 0 then (Inr (), None)
      else let ns = resolveLeaderElectionNamespace file (opt_LeaderElectionNamespace opts) in
        if ns = [] then (Inr (), None)
        else (case new_manager S of Inl e \<Rightarrow> (Inl e, None) | Inr _ \<Rightarrow>
          (case setup_manager S of Inl e \<Rightarrow> (Inl e, None) | Inr _ \<Rightarrow>
             (manager_ends S, Some (ns, reconciler_of opts)))))))"

end
