(* ===== verification/OperatorFacts.thy ===== *)
theory OperatorFacts
  imports Operator
begin

text \<open>
  The operator: what it relies on of the Kubernetes API and the packages it calls, that managers
  running at the same time keep the Secret and the table in agreement, and what a successful run
  for a live, a renamed and a deleted user achieves.
\<close>

section \<open>What the services promise\<close>

text \<open>Kubernetes keeps versions of an object and refuses a write that is not based on the current
  one. \<open>ver\<close> gives the versions a Secret has had, \<open>cur\<close> the current one. A read, perhaps from a
  cache, returns one of the versions; \<open>CreateOrUpdate\<close> does nothing, or replaces the current
  Secret, or a new one, by what the function makes of it.\<close>

definition new_secret :: "object_key \<Rightarrow> Secret" where
  "new_secret key = \<lparr>secret_namespace = fst key, secret_name = snd key, owners = [], data = Map.empty\<rparr>"

definition same_secrets :: "('k \<Rightarrow> object_key \<Rightarrow> Secret set) \<Rightarrow> ('k \<Rightarrow> object_key \<Rightarrow> Secret option) \<Rightarrow>
    ('k \<Rightarrow> 'r \<times> 'k) \<Rightarrow> bool" where
  "same_secrets ver cur f \<longleftrightarrow> (\<forall>k. ver (snd (f k)) = ver k \<and> cur (snd (f k)) = cur k)"

definition kube_ok :: "'k kube \<Rightarrow> ('k \<Rightarrow> object_key \<Rightarrow> Secret set) \<Rightarrow>
    ('k \<Rightarrow> object_key \<Rightarrow> Secret option) \<Rightarrow> bool" where
  "kube_ok K ver cur \<longleftrightarrow>
     (\<forall>k key. case cur k key of None \<Rightarrow> ver k key = {} | Some s \<Rightarrow> s \<in> ver k key) \<and>
     (\<forall>key. same_secrets ver cur (api_get_user K key)) \<and>
     (\<forall>a b. same_secrets ver cur (api_patch_user K a b)) \<and>
     (\<forall>a b. same_secrets ver cur (api_patch_status K a b)) \<and>
     (\<forall>key. same_secrets ver cur (api_get_secret K key)) \<and>
     (\<forall>key k k' s. api_get_secret K key k = (Inr s, k') \<longrightarrow> s \<in> ver k key) \<and>
     (\<forall>key f k r k'. api_create_or_update K key f k = (r, k') \<longrightarrow>
        ver k' = ver k \<and> cur k' = cur k \<or>
        (\<exists>s. f (case cur k key of None \<Rightarrow> new_secret key | Some c \<Rightarrow> c) = Inr s \<and>
           cur k' = (cur k)(key := Some s) \<and> ver k' = (ver k)(key := insert s (ver k key))))"

text \<open>A hash bcrypt generates matches its password; a controller reference is no data.\<close>

definition op_ext_ok :: "ext \<Rightarrow> op_ext \<Rightarrow> bool" where
  "op_ext_ok X Y \<longleftrightarrow>
     (\<forall>n p c h. bcrypt_generate Y n p c = Inr h \<longrightarrow> bcrypt_match X h p) \<and>
     (\<forall>u s s'. set_controller Y u s = Inr s' \<longrightarrow> data s' = data s)"

definition draws_ok :: "draws \<Rightarrow> bool" where
  "draws_ok D \<longleftrightarrow> (case raw_password D of Inl e \<Rightarrow> True | Inr raw \<Rightarrow> length raw = 24)"

lemma kube_okD:
  assumes "kube_ok K ver cur"
  shows "same_secrets ver cur (api_get_user K key)" "same_secrets ver cur (api_patch_user K a b)"
    "same_secrets ver cur (api_patch_status K c d)" "same_secrets ver cur (api_get_secret K key')"
    "cur k key1 = None \<Longrightarrow> ver k key1 = {}" "cur k1 key2 = Some s \<Longrightarrow> s \<in> ver k1 key2"
    "api_get_secret K key3 k2 = (Inr s2, k3) \<Longrightarrow> s2 \<in> ver k2 key3"
    "api_create_or_update K key4 f k4 = (r, k5) \<Longrightarrow> ver k5 = ver k4 \<and> cur k5 = cur k4 \<or>
        (\<exists>s. f (case cur k4 key4 of None \<Rightarrow> new_secret key4 | Some c \<Rightarrow> c) = Inr s \<and>
           cur k5 = (cur k4)(key4 := Some s) \<and> ver k5 = (ver k4)(key4 := insert s (ver k4 key4)))"
proof -
  note K = assms [unfolded kube_ok_def]
  show "same_secrets ver cur (api_get_user K key)" "same_secrets ver cur (api_patch_user K a b)"
    "same_secrets ver cur (api_patch_status K c d)" "same_secrets ver cur (api_get_secret K key')"
    using K by blast+
  show "cur k key1 = None \<Longrightarrow> ver k key1 = {}" "cur k1 key2 = Some s \<Longrightarrow> s \<in> ver k1 key2"
    using conjunct1 [OF K] by (metis option.simps(4), metis option.simps(5))
  show "api_get_secret K key3 k2 = (Inr s2, k3) \<Longrightarrow> s2 \<in> ver k2 key3" using K by blast
  show "api_create_or_update K key4 f k4 = (r, k5) \<Longrightarrow> ver k5 = ver k4 \<and> cur k5 = cur k4 \<or>
        (\<exists>s. f (case cur k4 key4 of None \<Rightarrow> new_secret key4 | Some c \<Rightarrow> c) = Inr s \<and>
           cur k5 = (cur k4)(key4 := Some s) \<and> ver k5 = (ver k4)(key4 := insert s (ver k4 key4)))"
    using K by blast
qed

section \<open>Statements\<close>

lemma find_filter_neq: "find (\<lambda>r. f r = a) (filter (\<lambda>r. f r \<noteq> b) xs) =
    (if a = b then None else find (\<lambda>r. f r = a) xs)"
  by (induction xs) auto

lemma sel_password_del: "sel_password_hash u (snd (del_user v d)) = (if u = v then None else sel_password_hash u d)"
  by (simp add: sel_password_hash_def del_user_def find_filter_neq)

lemma find_updated: "map_option u_password_hash (find (\<lambda>r. u_username r = a)
      (map (\<lambda>r. if u_username r = b then r\<lparr>u_password_hash := h\<rparr> else r) xs)) =
    (if a = b \<and> (\<exists>r \<in> set xs. u_username r = b) then Some h
     else map_option u_password_hash (find (\<lambda>r. u_username r = a) xs))"
  by (induction xs) (auto simp del: map_option_eq_Some split: if_splits)

lemma find_append: "find P (xs @ ys) = (case find P xs of None \<Rightarrow> find P ys | Some x \<Rightarrow> Some x)"
  by (induction xs) auto

lemma sel_password_upsert:
  "sel_password_hash u (upsert_user v h d) = (if u = v then Some h else sel_password_hash u d)"
proof (cases "\<exists>r \<in> set (users d). u_username r = v")
  case True
  then show ?thesis by (simp add: sel_password_hash_def upsert_user_def find_updated)
next
  case False
  then have "find (\<lambda>r. u_username r = v) (users d) = None" by (auto simp: find_None_iff)
  with False show ?thesis
    by (auto simp: sel_password_hash_def upsert_user_def find_append split: option.splits)
qed

section \<open>Runs alone\<close>

lemma run_op [simp]:
  "res_run (op_return x) s = (Inr x, s)"
  "res_run (op_fail e) s = (Inl e, s)"
  "res_run (op_lift r) s = (r, s)"
  "res_run (api f) s = (fst (f (kube_state s)), s\<lparr>kube_state := snd (f (kube_state s))\<rparr>)"
  "res_run (on_pg m) s = (fst (m (pg s)), s\<lparr>pg := snd (m (pg s))\<rparr>)"
  by (simp_all add: op_return_def op_fail_def op_lift_def api_def on_pg_def split: prod.splits)

lemma run_try: "res_run (op_try m k) s = (case res_run m s of (r, s') \<Rightarrow> res_run (k r) s')"
  by (simp add: op_try_def res_run_bind)

lemma run_bind: "res_run (op_bind m k) s =
    (case res_run m s of (Inl e, s') \<Rightarrow> (Inl e, s') | (Inr x, s') \<Rightarrow> res_run (k x) s')"
  by (auto simp: op_bind_def res_run_bind split: prod.splits sum.splits)

lemma run_bind_Inr: "res_run (op_bind m k) s = (Inr y, s') \<longleftrightarrow>
    (\<exists>x s1. res_run m s = (Inr x, s1) \<and> res_run (k x) s1 = (Inr y, s'))"
  by (auto simp: run_bind split: prod.splits sum.splits)

lemma run_try_Inr: "res_run (op_try m (\<lambda>r. case r of Inl e \<Rightarrow> h e | Inr x \<Rightarrow> k x)) s = (Inr y, s') \<longleftrightarrow>
    (\<exists>e s1. res_run m s = (Inl e, s1) \<and> res_run (h e) s1 = (Inr y, s')) \<or>
    (\<exists>x s1. res_run m s = (Inr x, s1) \<and> res_run (k x) s1 = (Inr y, s'))"
  by (cases "res_run m s"; cases "fst (res_run m s)") (auto simp: run_try)

lemma fail_with_status_fails: "res_run (fail_with_status K Y user reason e) s \<noteq> (Inr y, s')"
  by (auto simp: fail_with_status_def run_bind_Inr run_try)

lemma Authenticate_row:
  assumes "faults w = []" "u \<noteq> []"
  shows "Authenticate X u pw w = (case sel_password_hash u (store w) of
     None \<Rightarrow> (Inl ErrAuthFailed, w)
   | Some h \<Rightarrow> (if bcrypt_match X h pw then Inr () else Inl ErrAuthFailed, w))"
  using assms by (auto simp: Authenticate_def split: option.splits)


section \<open>Interleaved runs\<close>

text \<open>For one \<open>User\<close> with a generated Secret: while the Secret does not exist the table has no row
  for the username; once it does, all its versions hold one password, and the row, if there is
  one, is a hash of it.\<close>

definition row_matches :: "ext \<Rightarrow> string \<Rightarrow> 'k op_state \<Rightarrow> string \<Rightarrow> bool" where
  "row_matches X u s p \<longleftrightarrow> (case sel_password_hash u (store (pg s)) of None \<Rightarrow> True | Some h \<Rightarrow> bcrypt_match X h p)"

definition holds_password :: "Secret set \<Rightarrow> string \<Rightarrow> bool" where
  "holds_password ss p \<longleftrightarrow> ss \<noteq> {} \<and> p \<noteq> [] \<and> (\<forall>s \<in> ss. data s ''password'' = Some p)"

definition credentials_agree :: "ext \<Rightarrow> ('k \<Rightarrow> object_key \<Rightarrow> Secret set) \<Rightarrow> object_key \<Rightarrow> string \<Rightarrow> 'k op_state \<Rightarrow> bool" where
  "credentials_agree X ver key u s \<longleftrightarrow>
     ver (kube_state s) key = {} \<and> sel_password_hash u (store (pg s)) = None \<or>
     (\<exists>p. holds_password (ver (kube_state s) key) p \<and> row_matches X u s p)"

definition versions_grow :: "('k \<Rightarrow> object_key \<Rightarrow> Secret set) \<Rightarrow> object_key \<Rightarrow> 'k op_state \<Rightarrow> 'k op_state \<Rightarrow> bool" where
  "versions_grow ver key s s' \<longleftrightarrow> ver (kube_state s) key \<subseteq> ver (kube_state s') key"

interpretation managers: rely_guarantee "credentials_agree X ver key u" "versions_grow ver key"
  for X ver key u
  by unfold_locales (simp add: versions_grow_def)

definition has_read :: "('k \<Rightarrow> object_key \<Rightarrow> Secret set) \<Rightarrow> object_key \<Rightarrow> Secret \<Rightarrow> 'k op_state \<Rightarrow> bool" where
  "has_read ver key sec s \<longleftrightarrow> sec \<in> ver (kube_state s) key"

lemma stable_True [simp]: "managers.stable X ver key u (\<lambda>_. True)"
  by (simp add: managers.stable_def)

lemma stable_has_read [simp]: "managers.stable X ver key u (has_read ver key sec)"
  by (auto simp: managers.stable_def has_read_def versions_grow_def)

lemma safe_end [simp]:
  "managers.safe X ver key u (\<lambda>_ _. True) J (op_return x)"
  "managers.safe X ver key u (\<lambda>_ _. True) J (op_fail e)"
  "managers.safe X ver key u (\<lambda>_ _. True) J (Done r)"
  "managers.safe X ver key u (\<lambda>_ _. True) J (op_lift r')"
  by (auto simp: op_return_def op_fail_def op_lift_def intro: managers.safe_Done)

lemma safe_call:
  assumes "\<And>s. credentials_agree X ver key u s \<Longrightarrow> J s \<Longrightarrow>
      credentials_agree X ver key u (snd (f s)) \<and> versions_grow ver key s (snd (f s)) \<and> Q (fst (f s)) (snd (f s))"
    and "\<And>r. managers.stable X ver key u (Q r)"
  shows "managers.safe X ver key u Q J (Act (\<lambda>s. (Done (fst (f s)), snd (f s))))"
  by (rule managers.safe_Act) (use assms in \<open>auto intro!: managers.safe_Done exI [of _ "Q _"]\<close>)

lemma api_call: "api f = Act (\<lambda>s. (Done (fst (f (kube_state s))), s\<lparr>kube_state := snd (f (kube_state s))\<rparr>))"
  by (simp add: api_def case_prod_beta)

lemma on_pg_call: "on_pg m = Act (\<lambda>s. (Done (fst (m (pg s))), s\<lparr>pg := snd (m (pg s))\<rparr>))"
  by (simp add: on_pg_def case_prod_beta)

lemma agree_kube: "ver k' key = ver (kube_state s) key \<Longrightarrow>
    credentials_agree X ver key u (s\<lparr>kube_state := k'\<rparr>) = credentials_agree X ver key u s"
  by (simp add: credentials_agree_def row_matches_def)

text \<open>Calls that leave the Secrets and the row alone.\<close>

lemma safe_api:
  assumes "same_secrets ver cur f"
  shows "managers.safe X ver key u (\<lambda>_ _. True) J (api f)"
proof -
  have v: "ver (snd (f k)) = ver k" for k using assms by (auto simp: same_secrets_def)
  show ?thesis unfolding api_call
    by (rule safe_call [where f = "\<lambda>s. (fst (f (kube_state s)), s\<lparr>kube_state := snd (f (kube_state s))\<rparr>)", simplified])
      (simp_all add: agree_kube v versions_grow_def)
qed

lemma safe_get_secret:
  assumes "kube_ok K ver cur"
  shows "managers.safe X ver key u (\<lambda>r s. case r of Inl e \<Rightarrow> True | Inr sec \<Rightarrow> has_read ver key sec s) J
    (api (api_get_secret K key))"
proof -
  have v: "ver (snd (api_get_secret K key k)) = ver k" for k
    using kube_okD(4) [OF assms, of key] by (simp add: same_secrets_def)
  have r: "sec \<in> ver k key" if "fst (api_get_secret K key k) = Inr sec" for k sec
    using kube_okD(7) [OF assms] that by (metis prod.collapse)
  have "managers.stable X ver key u (\<lambda>s. case r of Inl e \<Rightarrow> True | Inr sec \<Rightarrow> has_read ver key sec s)"
    for r :: "err + Secret" by (cases r) simp_all
  then show ?thesis unfolding api_call
    by (intro safe_call [where f = "\<lambda>s. (fst (api_get_secret K key (kube_state s)), s\<lparr>kube_state := snd (api_get_secret K key (kube_state s))\<rparr>)", simplified])
      (auto simp: agree_kube v versions_grow_def has_read_def r split: sum.splits)
qed

text \<open>Statements: what they may do to the row is delete it or write a hash of the Secret's password.\<close>

lemma safe_pg:
  assumes "\<And>s. credentials_agree X ver key u s \<Longrightarrow> J s \<Longrightarrow> credentials_agree X ver key u (s\<lparr>pg := snd (m (pg s))\<rparr>)"
  shows "managers.safe X ver key u (\<lambda>_ _. True) J (on_pg m)"
  unfolding on_pg_call
  by (rule safe_call [where f = "\<lambda>s. (fst (m (pg s)), s\<lparr>pg := snd (m (pg s))\<rparr>)", simplified])
    (use assms in \<open>auto simp: versions_grow_def\<close>)

lemma agree_row:
  assumes "credentials_agree X ver key u s"
    and "sel_password_hash u (store w) = None \<or> sel_password_hash u (store w) = sel_password_hash u (store (pg s))"
  shows "credentials_agree X ver key u (s\<lparr>pg := w\<rparr>)"
  using assms by (auto simp: credentials_agree_def row_matches_def)


lemma agree_create:
  assumes K: "kube_ok K ver cur" and Y: "op_ext_ok X Y" and "cand \<noteq> []"
    and a: "credentials_agree X ver key u s"
    and c: "api_create_or_update K key (mutate_secret Y R user username cand) (kube_state s) = (r, k')"
  shows "credentials_agree X ver key u (s\<lparr>kube_state := k'\<rparr>) \<and> versions_grow ver key s (s\<lparr>kube_state := k'\<rparr>)"
proof (cases "ver k' = ver (kube_state s)")
  case True
  then show ?thesis using a by (simp add: agree_kube versions_grow_def)
next
  case False
  let ?old = "case cur (kube_state s) key of None \<Rightarrow> new_secret key | Some c \<Rightarrow> c"
  from kube_okD(8) [OF K c] False obtain sec
    where sec: "mutate_secret Y R user username cand ?old = Inr sec"
      and v: "ver k' = (ver (kube_state s))(key := insert sec (ver (kube_state s) key))" by auto
  have pw: "data sec ''password'' = Some (case data ?old ''password'' of
      None \<Rightarrow> cand | Some p \<Rightarrow> if p = [] then cand else p)"
    using sec Y by (auto simp: mutate_secret_def op_ext_ok_def Let_def secret_values_def map_add_def)
  from a consider "ver (kube_state s) key = {}" "sel_password_hash u (store (pg s)) = None"
    | p where "holds_password (ver (kube_state s) key) p" "row_matches X u s p"
    by (auto simp: credentials_agree_def)
  then show ?thesis
  proof cases
    case 1
    then have "cur (kube_state s) key = None" using kube_okD(6) [OF K, of "kube_state s" key]
      by (cases "cur (kube_state s) key") auto
    with pw have "data sec ''password'' = Some cand" by (simp add: new_secret_def)
    with 1 v assms(3) show ?thesis
      by (auto simp: credentials_agree_def versions_grow_def holds_password_def row_matches_def)
  next
    case 2
    then obtain c where "cur (kube_state s) key = Some c" "c \<in> ver (kube_state s) key"
      using kube_okD(5,6) [OF K] by (metis holds_password_def not_Some_eq)
    with pw 2(1) have "data sec ''password'' = Some p" by (auto simp: holds_password_def)
    with 2 v show ?thesis
      by (auto simp: credentials_agree_def versions_grow_def holds_password_def row_matches_def)
  qed
qed

lemma safe_create:
  assumes "kube_ok K ver cur" "op_ext_ok X Y" "cand \<noteq> []"
  shows "managers.safe X ver key u (\<lambda>_ _. True) J
    (api (api_create_or_update K key (mutate_secret Y R user username cand)))"
proof -
  let ?f = "\<lambda>s. api_create_or_update K key (mutate_secret Y R user username cand) (kube_state s)"
  have "credentials_agree X ver key u (s\<lparr>kube_state := snd (?f s)\<rparr>) \<and>
      versions_grow ver key s (s\<lparr>kube_state := snd (?f s)\<rparr>)" if "credentials_agree X ver key u s" for s
    by (rule agree_create [OF assms that, where r = "fst (?f s)"]) simp
  then show ?thesis unfolding api_call
    by (intro safe_call [where f = "\<lambda>s. (fst (?f s), s\<lparr>kube_state := snd (?f s)\<rparr>)", simplified]) simp_all
qed

lemma safe_seq:
  assumes "managers.safe X ver key u (\<lambda>_ _. True) J m"
  shows "(\<And>x. managers.safe X ver key u Q (\<lambda>_. True) (k x)) \<Longrightarrow> (\<And>e. managers.safe X ver key u Q (\<lambda>_. True) (Done (Inl e))) \<Longrightarrow>
      managers.safe X ver key u Q J (op_bind m k)"
    and "(\<And>r. managers.safe X ver key u Q (\<lambda>_. True) (k' r)) \<Longrightarrow> managers.safe X ver key u Q J (op_try m k')"
  unfolding op_bind_def op_try_def by (rule managers.safe_bind [OF assms]; simp split: sum.split)+


lemmas safe_then = safe_seq(1) [OF _ _ safe_end(3)]

lemma sql_row:
  "store (snd (sql st w)) = store w \<or> (\<exists>x. st (store w) = Inr (x, store (snd (sql st w))))"
proof (cases "sql st w")
  case (Pair r w')
  show ?thesis
  proof (cases r)
    case (Inl e)
    with Pair have "store w' = store w" by (auto elim: sql_Inl)
    with Pair show ?thesis by simp
  next
    case (Inr x)
    with Pair obtain d fs where "st (store w) = Inr (x, d)" "w' = w\<lparr>faults := fs, store := d\<rparr>"
      by (auto elim: sql_Inr)
    with Pair show ?thesis by simp
  qed
qed

lemma safe_pg_reads:
  assumes "\<And>w. store (snd (m w)) = store w"
  shows "managers.safe X ver key u (\<lambda>_ _. True) J (on_pg m)"
  by (rule safe_pg) (use assms in \<open>auto intro: agree_row\<close>)

lemma safe_pg_delete: "managers.safe X ver key u (\<lambda>_ _. True) J (on_pg (exec (del_user v)))"
proof (rule safe_pg)
  fix s assume a: "credentials_agree X ver key u s"
  have "sel_password_hash u (store (snd (exec (del_user v) (pg s)))) = None \<or>
      sel_password_hash u (store (snd (exec (del_user v) (pg s)))) = sel_password_hash u (store (pg s))"
    using sql_row [of "\<lambda>d. Inr (del_user v d)" "pg s"] sel_password_del [of u v "store (pg s)"]
    by (auto simp: exec_def split: if_splits)
  then show "credentials_agree X ver key u (s\<lparr>pg := snd (exec (del_user v) (pg s))\<rparr>)" by (rule agree_row [OF a])
qed

lemma safe_pg_upsert:
  assumes "bcrypt_match X h pw" "data sec ''password'' = Some pw"
  shows "managers.safe X ver key u (\<lambda>_ _. True) (has_read ver key sec) (on_pg (execute (upsert_user u h)))"
proof (rule safe_pg)
  fix s assume a: "credentials_agree X ver key u s" and r: "has_read ver key sec s"
  then obtain p where p: "holds_password (ver (kube_state s) key) p" "row_matches X u s p"
    by (auto simp: credentials_agree_def has_read_def)
  with r assms have "bcrypt_match X h p" by (auto simp: holds_password_def has_read_def)
  have "row_matches X u (s\<lparr>pg := snd (execute (upsert_user u h) (pg s))\<rparr>) p"
    using sql_row [of "\<lambda>d. Inr ((), upsert_user u h d)" "pg s"]
  proof
    assume "\<exists>x. Inr ((), upsert_user u h (store (pg s))) =
      Inr (x, store (snd (sql (\<lambda>d. Inr ((), upsert_user u h d)) (pg s))))"
    then have "store (snd (execute (upsert_user u h) (pg s))) = upsert_user u h (store (pg s))"
      by (simp add: execute_def)
    with \<open>bcrypt_match X h p\<close> show ?thesis by (simp add: row_matches_def sel_password_upsert)
  qed (use p in \<open>simp add: row_matches_def execute_def\<close>)
  with p show "credentials_agree X ver key u (s\<lparr>pg := snd (execute (upsert_user u h) (pg s))\<rparr>)"
    by (auto simp: credentials_agree_def)
qed

lemma safe_fail_with_status:
  assumes "kube_ok K ver cur"
  shows "managers.safe X ver key u (\<lambda>_ _. True) J (fail_with_status K Y user reason e)"
  unfolding fail_with_status_def
  by (intro safe_then safe_seq(2) safe_pg_reads safe_api [OF kube_okD(3) [OF assms]] safe_end) simp

lemma op_bind_lift [simp]:
  "op_bind (op_lift (Inr x)) k = k x" "op_bind (op_lift (Inl e)) k = op_fail e"
  by (simp_all add: op_bind_def op_lift_def op_fail_def)

lemma safe_write_hash:
  assumes K: "kube_ok K ver cur" and Y: "op_ext_ok X Y" and pw: "data sec ''password'' = Some pw"
  shows "managers.safe X ver key u (\<lambda>_ _. True) (has_read ver key sec)
    (write_hash K Y D user u secret pw cost why)"
proof (cases "bcrypt_generate Y (salt D) pw cost")
  case (Inr h)
  with Y have "bcrypt_match X h pw" by (auto simp: op_ext_ok_def)
  note up = safe_pg_upsert [OF this pw]
  have "managers.safe X ver key u (\<lambda>_ _. True) (\<lambda>_. True) (op_then (on_pg (count ''userRehashTotal'' why 1))
        (op_bind (on_pg (go_ask now)) (\<lambda>t. op_then (api (api_patch_status K user (st t))) (op_return False))))" for st
    by (intro safe_then safe_pg_reads safe_api [OF kube_okD(3) [OF K]] safe_end) simp_all
  with Inr show ?thesis
    by (auto simp: write_hash_def safe_fail_with_status [OF K] intro!: safe_seq(2) [OF up] split: sum.split)
qed (simp add: write_hash_def)

lemma query_store: "store (snd (query f w)) = store w"
proof -
  obtain fs where "snd (query f w) = w\<lparr>faults := fs\<rparr>" using query_world [of f w] by (metis prod.collapse)
  then show ?thesis by simp
qed

lemma safe_knows:
  assumes "managers.safe X ver key u (\<lambda>_. J) J m" "\<And>x. managers.safe X ver key u Q J (k x)"
    and "\<And>e. managers.safe X ver key u Q J (Done (Inl e))"
  shows "managers.safe X ver key u Q J (op_bind m k)"
  unfolding op_bind_def by (rule managers.safe_bind [OF assms(1)]) (simp add: assms(2,3) split: sum.split)

lemma safe_reconcile_hash:
  assumes K: "kube_ok K ver cur" and Y: "op_ext_ok X Y" and pw: "data sec ''password'' = Some pw"
  shows "managers.safe X ver key u (\<lambda>_ _. True) (has_read ver key sec)
    (reconcile_hash K Y R D user u secret pw)"
proof -
  let ?J = "has_read ver key sec"
  have rd: "managers.safe X ver key u (\<lambda>_. ?J) ?J (on_pg (query f))" for f :: "db \<Rightarrow> string option"
    using managers.safe_frame [OF safe_pg_reads [OF query_store [of f]] stable_has_read, where K = "\<lambda>_. True"]
    by simp
  have "managers.safe X ver key u (\<lambda>_. ?J) ?J (storedBcryptCost Y u)"
    unfolding storedBcryptCost_def op_return_def
    by (rule safe_knows [OF rd]) (auto intro: managers.safe_Done)
  moreover have "managers.safe X ver key u (\<lambda>_ _. True) ?J (op_bind (on_pg (go_ask now)) (\<lambda>t.
      op_then (api (api_patch_status K user (st t))) (op_return False)))" for st
    by (intro safe_then safe_pg_reads safe_api [OF kube_okD(3) [OF K]] safe_end) simp_all
  ultimately show ?thesis unfolding reconcile_hash_def Let_def
    by (auto intro!: safe_knows safe_write_hash [OF K Y pw] simp del: fun_upd_apply)
qed

lemma b64url_not_Nil: "raw \<noteq> [] \<Longrightarrow> b64url raw \<noteq> []"
  by (cases raw rule: b64url.cases) (auto simp: Let_def)

lemma generatePassword_not_Nil:
  "draws_ok D \<Longrightarrow> generatePassword D = Inr cand \<Longrightarrow> cand \<noteq> []"
proof (cases "raw_password D")
  case (Inr raw)
  moreover assume "draws_ok D" "generatePassword D = Inr cand"
  ultimately show "cand \<noteq> []" using b64url_not_Nil [of raw]
    by (cases raw) (auto simp: generatePassword_def draws_ok_def)
qed (simp add: generatePassword_def)

lemma safe_resolve:
  assumes K: "kube_ok K ver cur" and Y: "op_ext_ok X Y" and D: "draws_ok D"
    and user: "PasswordSecretRef (Spec user) = None" "key = (user_namespace user, user_name user @ credentialsSuffix)"
  shows "managers.safe X ver key u (\<lambda>r s. case r of Inl e \<Rightarrow> True
      | Inr (sec, pw) \<Rightarrow> has_read ver key sec s \<and> data sec ''password'' = Some pw) J
    (resolveCredentialSecret K Y R D user username)"
proof (cases "generatePassword D")
  case (Inl e)
  with user show ?thesis by (auto simp: resolveCredentialSecret_def Let_def op_fail_def intro: managers.safe_Done)
next
  case (Inr cand)
  note c = safe_create [OF K Y generatePassword_not_Nil [OF D Inr]]
  have g: "managers.safe X ver key u (\<lambda>r s. case r of Inl e \<Rightarrow> True
      | Inr (sec, pw) \<Rightarrow> has_read ver key sec s \<and> data sec ''password'' = Some pw) (\<lambda>_. True)
    (op_bind (api (api_get_secret K key)) (\<lambda>resolved. case data resolved ''password'' of
        None \<Rightarrow> op_fail (ErrKube e1)
      | Some pw \<Rightarrow> if pw = [] then op_fail (ErrKube e2) else op_return (resolved, pw)))" for e1 e2
    unfolding op_bind_def
    by (rule managers.safe_bind [OF safe_get_secret [OF K]])
      (auto simp: op_fail_def op_return_def split: sum.split option.split intro: managers.safe_Done)
  show ?thesis
    unfolding resolveCredentialSecret_def Let_def user(1) option.case Inr op_bind_lift user(2) [symmetric]
    by (rule safe_seq(1) [OF c g]) (auto intro: managers.safe_Done)
qed

lemma safe_False: "managers.safe X ver key u Q (\<lambda>_. False) p"
  by (cases p) (auto intro: managers.safe_Done managers.safe_Act)

lemma safe_if: "(P \<Longrightarrow> managers.safe X ver key u Q J p) \<Longrightarrow> managers.safe X ver key u Q (\<lambda>s. P \<and> J s) p"
  by (cases P) (simp_all add: safe_False)

lemma safe_const: "(P \<Longrightarrow> managers.safe X ver key u Q (\<lambda>_. True) p) \<Longrightarrow> managers.safe X ver key u Q (\<lambda>_. P) p"
  by (cases P) (simp_all add: safe_False)

lemma safe_reconcileDelete:
  assumes "kube_ok K ver cur"
  shows "managers.safe X ver key u (\<lambda>_ _. True) J (reconcileDelete K user)"
  unfolding reconcileDelete_def
  by (auto intro!: safe_then safe_pg_delete safe_api [OF kube_okD(2) [OF assms]])

lemma safe_reconcile_user:
  assumes K: "kube_ok K ver cur" and Y: "op_ext_ok X Y" and D: "draws_ok D"
    and user: "PasswordSecretRef (Spec user) = None" "key = (user_namespace user, user_name user @ credentialsSuffix)"
  shows "managers.safe X ver key (effective_username user) (\<lambda>_ _. True) J (reconcile_user K Y R D user)"
proof -
  let ?safe = "managers.safe X ver key (effective_username user) (\<lambda>_ _. True)"
  have "?safe J (rename_cleanup K Y user)"
    by (auto simp: rename_cleanup_def intro!: safe_seq(2) safe_pg_delete split: sum.split)
      (rule safe_fail_with_status [OF K])
  moreover have "?safe (\<lambda>_. True) (op_try (resolveCredentialSecret K Y R D user (effective_username user)) (\<lambda>r. case r of
         Inl e \<Rightarrow> fail_with_status K Y user ''SecretError'' e
       | Inr (secret, password) \<Rightarrow> reconcile_hash K Y R D user (effective_username user) secret password))"
    unfolding op_try_def
  proof (rule managers.safe_bind [OF safe_resolve [OF K Y D user]])
    fix r :: "err + Secret \<times> string"
    show "?safe (\<lambda>s. case r of Inl e \<Rightarrow> True
        | Inr (sec, pw) \<Rightarrow> has_read ver key sec s \<and> data sec ''password'' = Some pw)
      (case r of Inl e \<Rightarrow> fail_with_status K Y user ''SecretError'' e
       | Inr (secret, password) \<Rightarrow> reconcile_hash K Y R D user (effective_username user) secret password)"
    proof (cases r)
      case (Inl e)
      then show ?thesis by (simp add: safe_fail_with_status [OF K])
    next
      case (Inr sp)
      obtain sec pw where sp: "sp = (sec, pw)" by fastforce
      then show ?thesis using Inr
        by (auto simp: conj_commute [of "has_read _ _ _ _"] intro!: safe_if safe_reconcile_hash [OF K Y])
    qed
  qed
  ultimately show ?thesis unfolding reconcile_user_def Let_def by (rule safe_then)
qed

lemma safe_Reconcile:
  assumes K: "kube_ok K ver cur" and Y: "op_ext_ok X Y" and D: "draws_ok D"
    and spec: "\<And>k user k'. api_get_user K req k = (Inr user, k') \<Longrightarrow>
      (user_namespace user, user_name user) = req \<and> PasswordSecretRef (Spec user) = None \<and> effective_username user = u"
  shows "managers.safe X ver (fst req, snd req @ credentialsSuffix) u (\<lambda>_ _. True) J (Reconcile K Y R D req)"
proof -
  let ?key = "(fst req, snd req @ credentialsSuffix)"
  let ?Q = "\<lambda>(r :: err + User) (s :: 'a op_state). case r of Inl e \<Rightarrow> True
    | Inr user \<Rightarrow> (user_namespace user, user_name user) = req \<and> PasswordSecretRef (Spec user) = None \<and> effective_username user = u"
  have v: "ver (snd (api_get_user K req k)) = ver k" for k
    using kube_okD(1) [OF K, of req] by (simp add: same_secrets_def)
  have Q: "?Q (fst (api_get_user K req k)) s" for k s
    using spec [of k] by (cases "api_get_user K req k"; cases "fst (api_get_user K req k)") auto
  have "managers.safe X ver ?key u ?Q J (api (api_get_user K req))" unfolding api_call
    by (rule safe_call [where f = "\<lambda>s. (fst (api_get_user K req (kube_state s)), s\<lparr>kube_state := snd (api_get_user K req (kube_state s))\<rparr>)", simplified])
      (use Q in \<open>simp_all add: agree_kube v versions_grow_def managers.stable_def\<close>)
  then show ?thesis unfolding Reconcile_def op_try_def
  proof (rule managers.safe_bind)
    fix r :: "err + User"
    show "managers.safe X ver ?key u (\<lambda>_ _. True) (?Q r) (case r of
        Inl e \<Rightarrow> if e = NotFound then op_return False else op_fail e
      | Inr user \<Rightarrow> if deleting user then reconcileDelete K user
         else if finalizerName \<notin> set (finalizers user)
         then op_then (api (api_patch_user K user (user\<lparr>finalizers := finalizers user @ [finalizerName]\<rparr>))) (op_return True)
         else reconcile_user K Y R D user)"
    proof (cases r)
      case (Inr user)
      have "managers.safe X ver ?key u (\<lambda>_ _. True) (\<lambda>_. True) (if deleting user then reconcileDelete K user
         else if finalizerName \<notin> set (finalizers user)
         then op_then (api (api_patch_user K user (user\<lparr>finalizers := finalizers user @ [finalizerName]\<rparr>))) (op_return True)
         else reconcile_user K Y R D user)"
        if "(user_namespace user, user_name user) = req \<and> PasswordSecretRef (Spec user) = None \<and> effective_username user = u"
        using that safe_reconcile_user [OF K Y D, of user ?key "\<lambda>_. True" R] safe_reconcileDelete [OF K]
        by (auto intro!: safe_then safe_api [OF kube_okD(2) [OF K]])
      from safe_const [OF this] Inr show ?thesis by simp
    qed simp
  qed
qed

text \<open>C16: the Secret and the table agree. Any number of managers, each believing to be the leader,
  reconcile one \<open>User\<close> whose Secret is generated, again and again, their API calls and SQL
  statements interleaved in any order and failing at will, and each with a candidate password
  of its own. At every moment all versions of the Secret hold one password and the \<open>users\<close>
  row, if there is one, is a hash of it.\<close>

theorem managers_agree:
  assumes "kube_ok K ver cur" "op_ext_ok X Y"
    and "\<forall>k user k'. api_get_user K req k = (Inr user, k') \<longrightarrow>
      (user_namespace user, user_name user) = req \<and> PasswordSecretRef (Spec user) = None \<and> effective_username user = u"
    and "key = (fst req, snd req @ credentialsSuffix)"
    and "ver (kube_state s) key = {}" "sel_password_hash u (store (pg s)) = None"
    and "(interleave {Reconcile K Y R D req |R D. draws_ok D})\<^sup>*\<^sup>* (\<lambda>_. Done r, s) (ps, s')"
  shows "\<exists>p. (\<forall>sec \<in> ver (kube_state s') key. data sec ''password'' = Some p) \<and>
    (case sel_password_hash u (store (pg s')) of None \<Rightarrow> True
     | Some h \<Rightarrow> ver (kube_state s') key \<noteq> {} \<and> bcrypt_match X h p)"
proof -
  have "credentials_agree X ver key u s'"
  proof (rule managers.interleaving_invariant [OF assms(7)])
    show "credentials_agree X ver key u s" using assms(5,6) by (simp add: credentials_agree_def)
    show "managers.safe X ver key u (\<lambda>_ _. True) (\<lambda>_. True) p"
      if "p \<in> {Reconcile K Y R D req |R D. draws_ok D}" for p
      using that safe_Reconcile [OF assms(1,2)] assms(3,4) by blast
  qed simp
  then show ?thesis by (auto simp: credentials_agree_def holds_password_def row_matches_def split: option.splits)
qed


section \<open>What a successful run achieves\<close>

definition cred_key :: "User \<Rightarrow> object_key" where
  "cred_key user = (user_namespace user, case PasswordSecretRef (Spec user) of
     None \<Rightarrow> user_name user @ credentialsSuffix | Some ref \<Rightarrow> ref_name ref)"

definition cred_field :: "User \<Rightarrow> string" where
  "cred_field user = (case PasswordSecretRef (Spec user) of None \<Rightarrow> ''password''
     | Some ref \<Rightarrow> if ref_key ref = [] then ''password'' else ref_key ref)"

lemma get_secret_run:
  assumes "kube_ok K ver cur" "res_run (api (api_get_secret K key)) s = (Inr sec, s1)"
  shows "sec \<in> ver (kube_state s1) key" "pg s1 = pg s" "ver (kube_state s1) = ver (kube_state s)"
proof -
  let ?r = "api_get_secret K key (kube_state s)"
  have "?r = (Inr sec, kube_state s1)" "pg s1 = pg s" using assms(2) by (cases ?r; auto)+
  moreover from this kube_okD(4) [OF assms(1), of key] have "ver (kube_state s1) = ver (kube_state s)"
    by (auto simp: same_secrets_def dest: spec [of _ "kube_state s"])
  ultimately show "sec \<in> ver (kube_state s1) key" "pg s1 = pg s" "ver (kube_state s1) = ver (kube_state s)"
    using kube_okD(7) [OF assms(1), of key "kube_state s"] by auto
qed

lemma resolve_run:
  assumes K: "kube_ok K ver cur"
    and run: "res_run (resolveCredentialSecret K Y R D user username) s = (Inr (sec, pw), s1)"
  shows "sec \<in> ver (kube_state s1) (cred_key user) \<and> data sec (cred_field user) = Some pw \<and> pg s1 = pg s"
proof (cases "PasswordSecretRef (Spec user)")
  case (Some ref)
  with run obtain sec' s2 where g: "res_run (api (api_get_secret K (user_namespace user, ref_name ref))) s = (Inr sec', s2)"
    and "res_run (case data sec' (cred_field user) of None \<Rightarrow> op_fail (ErrKube ''secret missing key'')
      | Some password \<Rightarrow> op_return (sec', password)) s2 = (Inr (sec, pw), s1)"
    by (auto simp: resolveCredentialSecret_def Let_def cred_field_def run_bind_Inr simp del: run_op(4))
  then have "sec' = sec" "s2 = s1" "data sec (cred_field user) = Some pw" by (auto split: option.splits)
  with get_secret_run [OF K g] Some show ?thesis by (simp add: cred_key_def)
next
  case None
  let ?key = "(user_namespace user, user_name user @ credentialsSuffix)"
  from None run obtain cand s2 s3 sec' where
    c: "res_run (api (api_create_or_update K ?key (mutate_secret Y R user username cand))) s = (Inr (), s2)"
    and g: "res_run (api (api_get_secret K ?key)) s2 = (Inr sec', s3)"
    and e: "res_run (case data sec' ''password'' of None \<Rightarrow> op_fail (ErrKube ''secret missing password after reconcile'')
      | Some pw \<Rightarrow> if pw = [] then op_fail (ErrKube ''secret missing password after reconcile'')
          else op_return (sec', pw)) s3 = (Inr (sec, pw), s1)"
    by (auto simp: resolveCredentialSecret_def Let_def run_bind_Inr simp del: run_op(4))
  from e have "sec' = sec" "s3 = s1" "data sec ''password'' = Some pw" by (auto split: option.splits if_splits)
  moreover from c have "pg s2 = pg s" by auto
  ultimately show ?thesis using get_secret_run [OF K g] None by (simp add: cred_key_def cred_field_def)
qed

lemma api_run: "same_secrets ver cur f \<Longrightarrow> res_run (api f) s = (r, s1) \<Longrightarrow> pg s1 = pg s \<and> ver (kube_state s1) = ver (kube_state s)"
  by (auto simp: same_secrets_def)

lemma pg_run: "res_run (on_pg m) s = (r, s1) \<Longrightarrow> kube_state s1 = kube_state s \<and> m (pg s) = (r, pg s1)"
  by auto

lemma write_hash_run:
  assumes K: "kube_ok K ver cur" and Y: "op_ext_ok X Y"
    and run: "res_run (write_hash K Y D user u secret pw cost why) s = (Inr b, s')"
  shows "ver (kube_state s') = ver (kube_state s) \<and>
    (\<exists>h. bcrypt_match X h pw \<and> store (pg s') = upsert_user u h (store (pg s)))"
proof -
  from run obtain h s1 s2 s3 t st where h: "bcrypt_generate Y (salt D) pw cost = Inr h"
    and 1: "res_run (on_pg (execute (upsert_user u h))) s = (Inr (), s1)"
    and 2: "res_run (on_pg (count ''userRehashTotal'' why 1)) s1 = (Inr (), s2)"
    and 3: "res_run (on_pg (go_ask now)) s2 = (Inr t, s3)"
    and 4: "res_run (api (api_patch_status K user st)) s3 = (Inr (), s')"
    by (auto simp: write_hash_def run_bind_Inr run_try_Inr fail_with_status_fails simp del: run_op(4,5))
  have "store (pg s1) = upsert_user u h (store (pg s))"
    using pg_run [OF 1] by (auto simp: execute_def elim!: sql_Inr)
  moreover have "bcrypt_match X h pw" using Y h by (auto simp: op_ext_ok_def)
  moreover have "pg s2 = snd (count ''userRehashTotal'' why 1 (pg s1))" using pg_run [OF 2] by (metis snd_conv)
  then have "store (pg s2) = store (pg s1)" by simp
  ultimately show ?thesis
    using pg_run [OF 1] pg_run [OF 2] pg_run [OF 3] api_run [OF kube_okD(3) [OF K] 4] by auto
qed


lemma storedBcryptCost_run:
  assumes "res_run (storedBcryptCost Y u) s = (Inr c, s1)"
  shows "kube_state s1 = kube_state s \<and> store (pg s1) = store (pg s) \<and>
    (0 < c \<longrightarrow> sel_password_hash u (store (pg s)) \<noteq> None)"
proof -
  from assms(1) obtain row where q: "res_run (on_pg (query (sel_password_hash u))) s = (Inr row, s1)"
    and c: "c = (case row of None \<Rightarrow> 0 | Some h \<Rightarrow> (case bcrypt_cost Y h of None \<Rightarrow> 0 | Some c \<Rightarrow> c))"
    by (auto simp: storedBcryptCost_def run_bind_Inr simp del: run_op(5))
  from pg_run [OF q] have "query (sel_password_hash u) (pg s) = (Inr row, pg s1)" by simp
  then have "row = sel_password_hash u (store (pg s))" "store (pg s1) = store (pg s)"
    by (auto elim: query_Inr)
  with c pg_run [OF q] show ?thesis by (auto split: option.splits)
qed

lemma reconcile_hash_run:
  assumes K: "kube_ok K ver cur" and Y: "op_ext_ok X Y" and "0 \<le> rec_BcryptCost R"
    and run: "res_run (reconcile_hash K Y R D user u secret pw) s = (Inr b, s')"
  shows "ver (kube_state s') = ver (kube_state s) \<and>
    ((\<exists>h. bcrypt_match X h pw \<and> store (pg s') = upsert_user u h (store (pg s))) \<or>
     observed Y user u secret pw \<and> store (pg s') = store (pg s) \<and> sel_password_hash u (store (pg s)) \<noteq> None)"
proof -
  let ?cost = "if rec_BcryptCost R = 0 then DefaultCost else rec_BcryptCost R"
  have pos: "0 < ?cost" using assms(3) by (simp add: DefaultCost_def)
  consider why where "res_run (write_hash K Y D user u secret pw ?cost why) s = (Inr b, s')"
    | c s1 where "observed Y user u secret pw" "res_run (storedBcryptCost Y u) s = (Inr c, s1)"
        "res_run (if c \<ge> ?cost then op_bind (on_pg (go_ask now)) (\<lambda>t. op_then
           (api (api_patch_status K user (setReady t True ''Reconciled'' [] user))) (op_return False))
         else write_hash K Y D user u secret pw ?cost ''cost_bump'') s1 = (Inr b, s')"
    using run unfolding reconcile_hash_def Let_def
    by (cases "observed Y user u secret pw") (auto simp: run_bind_Inr simp del: run_op(4,5))
  then show ?thesis
  proof cases
    case 1
    with write_hash_run [OF K Y] show ?thesis by blast
  next
    case (2 c s1)
    note sc = storedBcryptCost_run [OF 2(2)]
    show ?thesis
    proof (cases "c \<ge> ?cost")
      case True
      from 2(3) True obtain t s2 where 1: "res_run (on_pg (go_ask now)) s1 = (Inr t, s2)"
        and 3: "res_run (api (api_patch_status K user (setReady t True ''Reconciled'' [] user))) s2 = (Inr (), s')"
        unfolding if_P [OF True] by (auto simp: run_bind_Inr simp del: run_op(4,5))
      from True pos sc pg_run [OF 1] api_run [OF kube_okD(3) [OF K] 3] 2(1) show ?thesis by auto
    next
      case False
      from 2(3) have "res_run (write_hash K Y D user u secret pw ?cost ''cost_bump'') s1 = (Inr b, s')"
        unfolding if_not_P [OF False] .
      from write_hash_run [OF K Y this] sc show ?thesis by auto
    qed
  qed
qed

lemma rename_cleanup_run:
  assumes K: "kube_ok K ver cur" and run: "res_run (rename_cleanup K Y user) s = (Inr (), s')"
  shows "kube_state s' = kube_state s \<and>
    store (pg s') = (if renamed user then snd (del_user (ObservedUsername (Status user)) (store (pg s))) else store (pg s))"
proof (cases "renamed user")
  case True
  with run obtain n where "res_run (on_pg (exec (del_user (ObservedUsername (Status user))))) s = (Inr n, s')"
    by (auto simp: rename_cleanup_def run_try_Inr fail_with_status_fails simp del: run_op(5))
  from pg_run [OF this] True show ?thesis by (auto simp: exec_def elim!: sql_Inr)
qed (use run in \<open>simp add: rename_cleanup_def\<close>)

text \<open>C17: a reconciled user can log in. When the status tells the truth about the row last written
  and the hash of the Secret's password meets no collision, a run that ends well (and is not
  queued again) has read a version of the credential Secret whose password the broker now
  accepts for the username, whether the row was written now or found up to date; and a
  username the \<open>User\<close> had before is gone from the table.\<close>

theorem reconciled_user_authenticates:
  assumes "kube_ok K ver cur" "op_ext_ok X Y" "0 \<le> rec_BcryptCost R"
    and "api_get_user K req (kube_state s) = (Inr user, k1)" "\<not> deleting user"
    and "finalizerName \<in> set (finalizers user)" "effective_username user \<noteq> []"
    and "\<forall>h q. ObservedUsername (Status user) = effective_username user \<and>
      ObservedSecretHash (Status user) = sha256 Y q \<and>
      sel_password_hash (effective_username user) (store (pg s)) = Some h \<longrightarrow> bcrypt_match X h q"
    and "res_run (Reconcile K Y R D req) s = (Inr again, s')"
  shows "(\<exists>sec \<in> ver (kube_state s') (cred_key user). \<exists>pw. data sec (cred_field user) = Some pw \<and>
      (\<forall>w. store w = store (pg s') \<and> faults w = [] \<longrightarrow>
         fst (Authenticate X (effective_username user) pw w) = Inr ())) \<and>
    (renamed user \<longrightarrow> (\<forall>pw w. store w = store (pg s') \<and> faults w = [] \<longrightarrow>
         fst (Authenticate X (ObservedUsername (Status user)) pw w) = Inl ErrAuthFailed))"
proof -
  let ?u = "effective_username user"
  let ?s1 = "s\<lparr>kube_state := k1\<rparr>"
  from assms(4-6,9) have "res_run (reconcile_user K Y R D user) ?s1 = (Inr again, s')"
    by (simp add: Reconcile_def run_try)
  then obtain s2 sec pw s3 where 1: "res_run (rename_cleanup K Y user) ?s1 = (Inr (), s2)"
    and 2: "res_run (resolveCredentialSecret K Y R D user ?u) s2 = (Inr (sec, pw), s3)"
    and 3: "res_run (reconcile_hash K Y R D user ?u sec pw) s3 = (Inr again, s')"
    by (auto simp: reconcile_user_def Let_def run_bind_Inr run_try_Inr fail_with_status_fails)
  note r1 = rename_cleanup_run [OF assms(1) 1] and r2 = resolve_run [OF assms(1) 2]
    and r3 = reconcile_hash_run [OF assms(1-3) 3]
  have row: "\<exists>h. sel_password_hash ?u (store (pg s')) = Some h \<and> bcrypt_match X h pw"
    using r3
  proof (elim conjE disjE exE)
    fix h assume "bcrypt_match X h pw" "store (pg s') = upsert_user ?u h (store (pg s3))"
    then show ?thesis by (simp add: sel_password_upsert)
  next
    assume "observed Y user ?u sec pw" "store (pg s') = store (pg s3)"
      "sel_password_hash ?u (store (pg s3)) \<noteq> None"
    with r1 r2 assms(8) show ?thesis
      by (auto simp: observed_def sha256Hex_def renamed_def)
  qed
  have old: "sel_password_hash (ObservedUsername (Status user)) (store (pg s')) = None" if "renamed user"
    using that r1 r2 r3 by (auto simp: sel_password_upsert sel_password_del renamed_def observed_def)
  from r2 r3 have "sec \<in> ver (kube_state s') (cred_key user)" "data sec (cred_field user) = Some pw" by auto
  moreover have "fst (Authenticate X ?u pw w) = Inr ()" if "store w = store (pg s')" "faults w = []" for w
    using row that assms(7) by (auto simp: Authenticate_row)
  moreover have "fst (Authenticate X (ObservedUsername (Status user)) q w) = Inl ErrAuthFailed"
    if "renamed user" "store w = store (pg s')" "faults w = []" for q w
    using old that by (simp add: Authenticate_row renamed_def)
  ultimately show ?thesis by blast
qed

text \<open>C18: a deleted user cannot log in. A run for a \<open>User\<close> being deleted that ends well leaves no row
  for its username: no password is accepted.\<close>

theorem deleted_user_rejected:
  assumes "api_get_user K req (kube_state s) = (Inr user, k1)" "deleting user"
    and "finalizerName \<in> set (finalizers user)" "res_run (Reconcile K Y R D req) s = (Inr again, s')"
  shows "\<not> again \<and> (\<forall>pw w. store w = store (pg s') \<and> faults w = [] \<longrightarrow>
     fst (Authenticate X (effective_username user) pw w) = Inl ErrAuthFailed)"
proof -
  let ?s1 = "s\<lparr>kube_state := k1\<rparr>"
  from assms have "res_run (reconcileDelete K user) ?s1 = (Inr again, s')"
    by (simp add: Reconcile_def run_try)
  with assms(3) obtain n s1 where 1: "res_run (on_pg (exec (del_user (effective_username user)))) ?s1 = (Inr n, s1)"
    and 2: "res_run (op_then (api (api_patch_user K user
        (user\<lparr>finalizers := filter (\<lambda>f. f \<noteq> finalizerName) (finalizers user)\<rparr>))) (op_return False)) s1 = (Inr again, s')"
    by (auto simp: reconcileDelete_def run_bind_Inr simp del: run_op(4,5))
  from 2 have "\<not> again" "pg s' = pg s1" by (auto simp: run_bind_Inr)
  moreover have "store (pg s1) = snd (del_user (effective_username user) (store (pg s)))"
    using pg_run [OF 1] by (auto simp: exec_def elim!: sql_Inr)
  ultimately have row: "sel_password_hash (effective_username user) (store (pg s')) = None"
    by (simp add: sel_password_del)
  have "fst (Authenticate X (effective_username user) pw w) = Inl ErrAuthFailed"
    if "store w = store (pg s')" "faults w = []" for pw w
  proof (cases "effective_username user = []")
    case True
    then show ?thesis by (simp add: Authenticate_def)
  qed (use row that in \<open>simp add: Authenticate_row\<close>)
  with \<open>\<not> again\<close> show ?thesis by blast
qed


section \<open>A concrete service\<close>

text \<open>A cluster with one \<open>User\<close>, in which a Secret is the list of its versions.\<close>

definition sample_kube :: "User \<Rightarrow> (object_key \<Rightarrow> Secret list) kube" where
  "sample_kube user = \<lparr>
     api_get_user = (\<lambda>key k. (if key = (user_namespace user, user_name user) then Inr user else Inl NotFound, k)),
     api_patch_user = (\<lambda>a b k. (Inr (), k)),
     api_patch_status = (\<lambda>a b k. (Inr (), k)),
     api_list_users = (\<lambda>ns k. (Inr (if ns = user_namespace user then [user] else []), k)),
     api_get_secret = (\<lambda>key k. (case k key of [] \<Rightarrow> Inl NotFound | s # _ \<Rightarrow> Inr s, k)),
     api_create_or_update = (\<lambda>key f k.
        case f (case k key of [] \<Rightarrow> new_secret key | s # _ \<Rightarrow> s) of
          Inl e \<Rightarrow> (Inl e, k)
        | Inr s \<Rightarrow> (Inr (), k(key := s # k key)))\<rparr>"

definition sample_ver :: "(object_key \<Rightarrow> Secret list) \<Rightarrow> object_key \<Rightarrow> Secret set" where
  "sample_ver k key = set (k key)"

definition sample_cur :: "(object_key \<Rightarrow> Secret list) \<Rightarrow> object_key \<Rightarrow> Secret option" where
  "sample_cur k key = (case k key of [] \<Rightarrow> None | s # _ \<Rightarrow> Some s)"

lemma sample_put:
  "sample_cur (k(key := s # l)) = (sample_cur k)(key := Some s)"
  "sample_ver (k(key := s # l)) = (sample_ver k)(key := insert s (set l))"
  by (simp_all add: fun_eq_iff sample_cur_def sample_ver_def)

lemma sample_kube_ok: "kube_ok (sample_kube user) sample_ver sample_cur"
  unfolding kube_ok_def same_secrets_def
proof (intro conjI allI impI)
  fix k :: "object_key \<Rightarrow> Secret list" and key
  show "case sample_cur k key of None \<Rightarrow> sample_ver k key = {} | Some s \<Rightarrow> s \<in> sample_ver k key"
    by (cases "k key") (simp_all add: sample_ver_def sample_cur_def)
next
  fix key f k r k' assume "api_create_or_update (sample_kube user) key f k = (r, k')"
  then show "sample_ver k' = sample_ver k \<and> sample_cur k' = sample_cur k \<or>
    (\<exists>s. f (case sample_cur k key of None \<Rightarrow> new_secret key | Some c \<Rightarrow> c) = Inr s \<and>
       sample_cur k' = (sample_cur k)(key := Some s) \<and> sample_ver k' = (sample_ver k)(key := insert s (sample_ver k key)))"
    by (cases "k key"; cases "f (case k key of [] \<Rightarrow> new_secret key | s # _ \<Rightarrow> s)")
      (auto simp: sample_kube_def sample_put sample_cur_def [of k] sample_ver_def [of k])
qed (auto simp: sample_kube_def sample_ver_def split: list.splits)

definition sample_op_ext :: op_ext where
  "sample_op_ext = \<lparr>sha256 = (\<lambda>s. s),
     bcrypt_generate = (\<lambda>n p c. if length p \<le> 72 then Inr p else Inl (ErrIO ''password too long'')),
     bcrypt_cost = (\<lambda>h. Some 10), set_controller = (\<lambda>u s. Inr (s\<lparr>owners := [user_name u]\<rparr>)),
     err_text = (\<lambda>e. ''EOF'')\<rparr>"

lemma sample_op_ext_ok: "op_ext_ok sample_ext sample_op_ext"
  by (auto simp: op_ext_ok_def sample_op_ext_def sample_ext_def split: if_splits)

definition sample_user :: "bool \<Rightarrow> string \<Rightarrow> string \<Rightarrow> User" where
  "sample_user del uname seen = \<lparr>user_namespace = ''home'', user_name = ''alice'', generation = 1,
     finalizers = [finalizerName], deleting = del,
     Spec = \<lparr>Username_spec = uname, PasswordSecretRef = None\<rparr>,
     Status = \<lparr>Conditions = [], CredentialsSecretRef = None, ObservedSecretHash = [], ObservedUsername = seen\<rparr>\<rparr>"

definition sample_reconciler :: UserReconciler where
  "sample_reconciler = reconciler_of \<lparr>opt_ServiceHost = ''mqtt'', opt_ServicePort = 1883, opt_WSPort = 8083,
     opt_BcryptCost = 10, opt_LeaderElectionNamespace = ''home''\<rparr>"

definition sample_draws :: draws where
  "sample_draws = \<lparr>raw_password = Inr [77, 77, 77, 77, 77, 77, 77, 77, 77, 77, 77, 77, 77, 77, 77, 77, 77, 77, 77, 77, 77, 77, 77, 77], salt = 0\<rparr>"

definition sample_op_state :: "user_row list \<Rightarrow> (object_key \<Rightarrow> Secret list) op_state" where
  "sample_op_state us = \<lparr>kube_state = (\<lambda>_. []),
     pg = sample_world (empty_db\<lparr>users := us\<rparr>) (sample_conn ''c'' 5)\<rparr>"

abbreviation sample_reconcile :: "User \<Rightarrow> ((object_key \<Rightarrow> Secret list), bool) op" where
  "sample_reconcile user \<equiv>
     Reconcile (sample_kube user) sample_op_ext sample_reconciler sample_draws (''home'', ''alice'')"

abbreviation sample_end :: "User \<Rightarrow> user_row list \<Rightarrow> (object_key \<Rightarrow> Secret list) op_state" where
  "sample_end user us \<equiv> snd (res_run (sample_reconcile user) (sample_op_state us))"

lemma sample_password: "generatePassword sample_draws = Inr ''TU1NTU1NTU1NTU1NTU1NTU1NTU1NTU1N''"
  by (simp add: generatePassword_def sample_draws_def b64char_def Let_def)

lemma secret_password [simp]: "map_of (secret_values R u p) ''password'' = Some p"
  by (simp add: secret_values_def Let_def)

lemmas sample_defs = sample_kube_def sample_op_ext_def sample_user_def sample_reconciler_def sample_op_state_def
  sample_password sample_world_def finalizerName_def credentialsSuffix_def

lemmas run_defs = Reconcile_def reconcile_user_def rename_cleanup_def resolveCredentialSecret_def reconcile_hash_def
  write_hash_def storedBcryptCost_def reconcileDelete_def renamed_def observed_def effective_username_def
  mutate_secret_def run_try run_bind

lemma pg_ok:
  "faults w = [] \<Longrightarrow> execute f w = (Inr (), w\<lparr>store := f (store w)\<rparr>)"
  by (simp add: execute_def sql_ok)

lemma sample_runs:
  "fst (res_run (sample_reconcile (sample_user False [] [])) (sample_op_state [])) = Inr False"
  "fst (res_run (sample_reconcile (sample_user True u v)) (sample_op_state us)) = Inr False"
  by (simp_all add: run_defs sample_defs new_secret_def Let_def pg_ok exec_ok)

theorem managers_agree_witness:
  "\<exists>p. (\<forall>sec \<in> set (kube_state (sample_end (sample_user False [] []) []) (''home'', ''alice-mqtt-credentials'')).
      data sec ''password'' = Some p) \<and>
    (case sel_password_hash ''alice'' (store (pg (sample_end (sample_user False [] []) []))) of None \<Rightarrow> True
     | Some h \<Rightarrow> set (kube_state (sample_end (sample_user False [] []) []) (''home'', ''alice-mqtt-credentials'')) \<noteq> {} \<and>
         bcrypt_match sample_ext h p)"
proof -
  let ?user = "sample_user False [] []" and ?req = "(''home'', ''alice'')"
  let ?P = "{Reconcile (sample_kube ?user) sample_op_ext R D ?req |R D. draws_ok D}"
  let ?ps = "\<lambda>_ :: nat. Done (Inr True) :: (object_key \<Rightarrow> Secret list, bool) op"
  have "draws_ok sample_draws" by (simp add: draws_ok_def sample_draws_def)
  then have "sample_reconcile ?user \<in> ?P" by blast
  then have "interleave ?P (?ps, sample_op_state []) (?ps(0 := sample_reconcile ?user), sample_op_state [])"
    by (rule starts [of ?ps 0 "Inr True", OF refl])
  moreover have "(interleave ?P)\<^sup>*\<^sup>* (?ps(0 := sample_reconcile ?user), sample_op_state [])
      (?ps(0 := Done (fst (res_run (sample_reconcile ?user) (sample_op_state [])))), sample_end ?user [])"
    by (rule run_interleaves) simp
  ultimately have "(interleave ?P)\<^sup>*\<^sup>* (?ps, sample_op_state [])
      (?ps(0 := Done (fst (res_run (sample_reconcile ?user) (sample_op_state [])))), sample_end ?user [])"
    by (rule converse_rtranclp_into_rtranclp)
  note run = this
  have spec: "\<forall>k user k'. api_get_user (sample_kube ?user) ?req k = (Inr user, k') \<longrightarrow>
      (user_namespace user, user_name user) = ?req \<and> PasswordSecretRef (Spec user) = None \<and>
      effective_username user = ''alice''"
    by (simp add: sample_kube_def sample_user_def effective_username_def)
  have key: "(''home'', ''alice-mqtt-credentials'') = (fst ?req, snd ?req @ credentialsSuffix)"
    by (simp add: credentialsSuffix_def)
  have "sample_ver (kube_state (sample_op_state [])) (''home'', ''alice-mqtt-credentials'') = {}"
    "sel_password_hash ''alice'' (store (pg (sample_op_state []))) = None"
    by (simp_all add: sample_ver_def sample_op_state_def sel_password_hash_def sample_world_def)
  from managers_agree [OF sample_kube_ok sample_op_ext_ok spec key this run]
  show ?thesis unfolding sample_ver_def .
qed

theorem reconciled_user_authenticates_witness:
  "\<exists>pw. fst (Authenticate sample_ext ''alice'' pw
     ((pg (sample_end (sample_user False [] []) []))\<lparr>faults := []\<rparr>)) = Inr ()"
proof -
  let ?user = "sample_user False [] []"
  have run: "res_run (sample_reconcile ?user) (sample_op_state []) = (Inr False, sample_end ?user [])"
    using sample_runs(1) by (metis prod.collapse)
  have "\<exists>pw. \<forall>w. store w = store (pg (sample_end ?user [])) \<and> faults w = [] \<longrightarrow>
     fst (Authenticate sample_ext ''alice'' pw w) = Inr ()"
    using reconciled_user_authenticates [OF sample_kube_ok sample_op_ext_ok _ _ _ _ _ _ run, of ?user "kube_state (sample_op_state [])"]
    by (auto simp: sample_user_def sample_kube_def sample_reconciler_def reconciler_of_def effective_username_def
        finalizerName_def)
  then obtain pw where "\<forall>w. store w = store (pg (sample_end ?user [])) \<and> faults w = [] \<longrightarrow>
     fst (Authenticate sample_ext ''alice'' pw w) = Inr ()" by blast
  then show ?thesis by (intro exI [of _ pw]) simp
qed

theorem deleted_user_rejected_witness:
  "fst (Authenticate sample_ext ''alice'' ''h''
     ((pg (sample_end (sample_user True [] []) [\<lparr>u_username = ''alice'', u_password_hash = ''h''\<rparr>]))\<lparr>faults := []\<rparr>))
   = Inl ErrAuthFailed"
proof -
  let ?user = "sample_user True [] []" and ?us = "[\<lparr>u_username = ''alice'', u_password_hash = ''h''\<rparr>]"
  have run: "res_run (sample_reconcile ?user) (sample_op_state ?us) = (Inr False, sample_end ?user ?us)"
    using sample_runs(2) by (metis prod.collapse)
  show ?thesis
    using deleted_user_rejected [OF _ _ _ run, of ?user "kube_state (sample_op_state ?us)" sample_ext]
    by (auto simp: sample_user_def sample_kube_def effective_username_def finalizerName_def)
qed

section \<open>Divergences\<close>

text \<open>Deleting a \<open>User\<close> whose rename has not been reconciled yet removes the row of the new username
  only: the old credentials keep working after the object is gone.\<close>

lemma delete_before_rename:
  "res_run (sample_reconcile (sample_user True ''new'' ''old'')) (sample_op_state [\<lparr>u_username = ''old'', u_password_hash = ''pw''\<rparr>])
     = (Inr False, sample_end (sample_user True ''new'' ''old'') [\<lparr>u_username = ''old'', u_password_hash = ''pw''\<rparr>]) \<and>
   fst (Authenticate sample_ext ''old'' ''pw''
     (pg (sample_end (sample_user True ''new'' ''old'') [\<lparr>u_username = ''old'', u_password_hash = ''pw''\<rparr>]))) = Inr ()"
proof (intro conjI)
  let ?us = "[\<lparr>u_username = ''old'', u_password_hash = ''pw''\<rparr>]"
  show "res_run (sample_reconcile (sample_user True ''new'' ''old'')) (sample_op_state ?us)
      = (Inr False, sample_end (sample_user True ''new'' ''old'') ?us)"
    using sample_runs(2) by (metis prod.collapse)
  have "pg (sample_end (sample_user True ''new'' ''old'') ?us) = snd (exec (del_user ''new'') (pg (sample_op_state ?us)))"
    by (simp add: run_defs sample_defs Let_def exec_ok sample_world_def)
  then show "fst (Authenticate sample_ext ''old'' ''pw'' (pg (sample_end (sample_user True ''new'' ''old'') ?us))) = Inr ()"
    by (simp add: sample_op_state_def exec_ok sample_world_def Authenticate_def sel_password_hash_def del_user_def
        sample_ext_def)
qed

text \<open>\<open>PathEscape\<close> leaves \<open>:\<close> and \<open>@\<close> as they are, so the URIs of different credentials coincide.\<close>

lemma uri_ambiguous:
  "credential_uri ''mqtt'' ''a:b'' ''c'' host port = credential_uri ''mqtt'' ''a'' ''b:c'' host port"
  by (simp add: credential_uri_def PathEscape_def path_safe_def)

text \<open>The manager never sets the TLS fields of the reconciler, so no Secret gets a TLS endpoint.\<close>

lemma no_tls_endpoint: "map_of (secret_values (reconciler_of opts) u p) ''mqtts-uri'' = None"
  by (simp add: secret_values_def reconciler_of_def Let_def)

end
