(* ===== verification/Migrate.thy ===== *)
theory Migrate
  imports Resumption Prelude "HOL-Library.Char_ord" "HOL-Library.List_Lexorder"
begin

text \<open>
  Migrations (\<open>src/internal/db/migrate.go\<close>). The state is the table \<open>schema_migrations\<close> (its
  versions in the order of their insertion), everything else in the database (of any type), and
  the schedule of failing calls. What the text of a migration does to the database is the
  argument \<open>run_sql\<close>. Every Pod runs \<open>Migrate\<close>; the calls of different Pods interleave. The
  advisory lock only waits, so it is a call without effect: what is proved of interleaved runs
  does not rest on it. A transaction is one call.
\<close>

record migration =
  version :: string
  body :: string

record dir_entry =
  entry_name :: string
  is_dir :: bool
  entry_body :: "err + string"

record 'd mig_state =
  applied :: "string list"
  rest_of_db :: 'd
  mig_faults :: "err option list"

type_synonym ('d, 'a) mig = "('d mig_state, err + 'a) resumption"

definition mig_bind :: "('d, 'a) mig \<Rightarrow> ('a \<Rightarrow> ('d, 'b) mig) \<Rightarrow> ('d, 'b) mig" where
  "mig_bind m k = res_bind m (\<lambda>r. case r of Inl e \<Rightarrow> Done (Inl e) | Inr x \<Rightarrow> k x)"

text \<open>A call: the schedule's next entry makes it fail, otherwise it does what it does.\<close>

definition mig_step :: "('d mig_state \<Rightarrow> (err + 'a) \<times> 'd mig_state) \<Rightarrow> 'd mig_state \<Rightarrow> (err + 'a) \<times> 'd mig_state" where
  "mig_step f s = (case mig_faults s of
       Some e # fs \<Rightarrow> (Inl e, s\<lparr>mig_faults := fs\<rparr>)
     | _ \<Rightarrow> f (s\<lparr>mig_faults := tl (mig_faults s)\<rparr>))"

definition mig_call :: "('d mig_state \<Rightarrow> (err + 'a) \<times> 'd mig_state) \<Rightarrow> ('d, 'a) mig" where
  "mig_call f = Act (\<lambda>s. (Done (fst (mig_step f s)), snd (mig_step f s)))"

section \<open>Reading the migrations\<close>

definition has_suffix :: "string \<Rightarrow> string \<Rightarrow> bool" where
  "has_suffix s suf \<longleftrightarrow> length suf \<le> length s \<and> drop (length s - length suf) s = suf"

definition trim_suffix :: "string \<Rightarrow> string \<Rightarrow> string" where
  "trim_suffix s suf = (if has_suffix s suf then take (length s - length suf) s else s)"

fun collect :: "dir_entry list \<Rightarrow> err + migration list" where
  "collect [] = Inr []"
| "collect (e # es) =
     (if is_dir e \<or> \<not> has_suffix (entry_name e) ''.sql'' then collect es
      else and_then (entry_body e) (\<lambda>b. and_then (collect es) (\<lambda>ms.
        Inr (\<lparr>version = trim_suffix (entry_name e) ''.sql'', body = b\<rparr> # ms))))"

definition readMigrations :: "err + dir_entry list \<Rightarrow> err + migration list" where
  "readMigrations entries = and_then entries (\<lambda>es. and_then (collect es) (\<lambda>ms. Inr (sort_key version ms)))"

section \<open>Applying them\<close>

text \<open>The transaction: the migration's text and the row that records it; the primary key refuses a
  version that is there already.\<close>

definition applyMigrationOnConn :: "(string \<Rightarrow> 'd \<Rightarrow> err + 'd) \<Rightarrow> migration \<Rightarrow> ('d, unit) mig" where
  "applyMigrationOnConn run_sql m = mig_call (\<lambda>s. case run_sql (body m) (rest_of_db s) of
       Inl e \<Rightarrow> (Inl e, s)
     | Inr d \<Rightarrow> if version m \<in> set (applied s) then (Inl (PgError ''23505''), s)
         else (Inr (), s\<lparr>rest_of_db := d, applied := applied s @ [version m]\<rparr>))"

fun apply_all :: "(string \<Rightarrow> 'd \<Rightarrow> err + 'd) \<Rightarrow> migration list \<Rightarrow> ('d, unit) mig" where
  "apply_all run_sql [] = Done (Inr ())"
| "apply_all run_sql (m # ms) =
     mig_bind (mig_call (\<lambda>s. (Inr (version m \<in> set (applied s)), s))) (\<lambda>there.
     if there then apply_all run_sql ms
     else mig_bind (applyMigrationOnConn run_sql m) (\<lambda>_. apply_all run_sql ms))"

definition Migrate :: "(string \<Rightarrow> 'd \<Rightarrow> err + 'd) \<Rightarrow> err + dir_entry list \<Rightarrow> ('d, unit) mig" where
  "Migrate run_sql entries =
     mig_bind (mig_call (\<lambda>s. (Inr (), s))) (\<lambda>_.
     mig_bind (mig_call (\<lambda>s. (Inr (), s))) (\<lambda>_.
     mig_bind (mig_call (\<lambda>s. (Inr (), s))) (\<lambda>_.
     case readMigrations entries of
       Inl e \<Rightarrow> Done (Inl e)
     | Inr files \<Rightarrow> apply_all run_sql files)))"

section \<open>Interleaved runs\<close>

text \<open>What the texts of the migrations \<open>ms\<close>, in this order, make of a database.\<close>

fun run_migrations :: "(string \<Rightarrow> 'd \<Rightarrow> err + 'd) \<Rightarrow> migration list \<Rightarrow> 'd \<Rightarrow> err + 'd" where
  "run_migrations run_sql [] d = Inr d"
| "run_migrations run_sql (m # ms) d = and_then (run_sql (body m) d) (run_migrations run_sql ms)"

text \<open>The migrations that the versions \<open>A\<close> do not record yet.\<close>

definition unapplied :: "string list \<Rightarrow> migration list \<Rightarrow> migration list" where
  "unapplied A files = filter (\<lambda>m. version m \<notin> set A) files"

text \<open>From the recorded versions \<open>A\<close> and the database \<open>d0\<close> the first migrations of \<open>todo\<close> have
  been applied.\<close>

definition migrated_to :: "(string \<Rightarrow> 'd \<Rightarrow> err + 'd) \<Rightarrow> string list \<Rightarrow> migration list \<Rightarrow> 'd \<Rightarrow> 'd mig_state \<Rightarrow> bool" where
  "migrated_to run_sql A todo d0 s \<longleftrightarrow> (\<exists>n \<le> length todo. applied s = A @ map version (take n todo) \<and>
     run_migrations run_sql (take n todo) d0 = Inr (rest_of_db s))"

definition applied_grows :: "'d mig_state \<Rightarrow> 'd mig_state \<Rightarrow> bool" where
  "applied_grows s s' \<longleftrightarrow> set (applied s) \<subseteq> set (applied s')"

interpretation pods: rely_guarantee "migrated_to run_sql A todo d0" applied_grows for run_sql A todo d0
  by unfold_locales (simp add: applied_grows_def)

definition has_applied :: "migration list \<Rightarrow> 'd mig_state \<Rightarrow> bool" where
  "has_applied ms s \<longleftrightarrow> version ` set ms \<subseteq> set (applied s)"

lemma stable_has_applied [simp]: "pods.stable run_sql A todo d0 (has_applied ms)"
  unfolding pods.stable_def has_applied_def applied_grows_def by blast

text \<open>A run that returns without error knows that all files are applied.\<close>

definition returned :: "migration list \<Rightarrow> err + unit \<Rightarrow> 'd mig_state \<Rightarrow> bool" where
  "returned files r s \<longleftrightarrow> (case r of Inl e \<Rightarrow> True | Inr u \<Rightarrow> has_applied files s)"

lemma returned_simps [simp]: "returned files (Inl e) s" "returned files (Inr u) s = has_applied files s"
  by (simp_all add: returned_def)

lemma stable_returned [simp]: "pods.stable run_sql A todo d0 (returned files r)"
  using stable_has_applied [of run_sql A todo d0 files] by (cases r) (auto simp: pods.stable_def)

lemma run_migrations_snoc:
  "run_migrations run_sql (ms @ [m]) d = and_then (run_migrations run_sql ms d) (run_sql (body m))"
  by (induction ms arbitrary: d) (auto simp: and_then_def split: sum.splits)

lemma prefix_is_done:
  assumes "files = done @ m # ms" "distinct (map version files)" "n \<le> length files"
    and "version ` set done \<subseteq> version ` set (take n files)" "version m \<notin> version ` set (take n files)"
  shows "n = length done"
proof (rule ccontr)
  assume "n \<noteq> length done"
  then consider "n < length done" | "length done < n" by linarith
  then show False
  proof cases
    case 1
    then have "done ! n \<in> set done" by simp
    with assms(1,4) 1 have "version (done ! n) \<in> set (map version (take n done))" by auto
    moreover have "version (done ! n) \<in> set (map version (drop n done))"
      using 1 by (simp add: Cons_nth_drop_Suc [symmetric])
    moreover have "distinct (map version (take n done) @ map version (drop n done))"
      using assms(1,2) by (simp add: map_append [symmetric] del: map_append) simp
    ultimately show False by auto
  next
    case 2
    then have "m \<in> set (take n files)"
      using assms(1) by (auto simp: in_set_conv_nth take_Cons' intro!: exI [of _ "length done"])
    with assms(5) show False by auto
  qed
qed

lemma taken_all:
  assumes "distinct (map f xs)" "f ` set xs \<subseteq> f ` set (take n xs)" "n \<le> length xs"
  shows "n = length xs"
proof -
  have "card (f ` set xs) = length xs" using distinct_card [OF assms(1)] by simp
  moreover have "card (f ` set (take n xs)) \<le> n"
    using card_image_le [of "set (take n xs)" f] card_length [of "take n xs"] assms(3) by simp
  ultimately show ?thesis using card_mono [OF _ assms(2)] assms(3) by simp
qed

lemma apply_next:
  assumes "migrated_to run_sql A (unapplied A files) d0 s" "files = done @ m # ms" "distinct (map version files)"
    and "has_applied done s" "version m \<notin> set (applied s)" "run_sql (body m) (rest_of_db s) = Inr d"
  shows "migrated_to run_sql A (unapplied A files) d0 (s\<lparr>rest_of_db := d, applied := applied s @ [version m]\<rparr>)"
proof -
  let ?todo = "unapplied A files"
  from assms(1) obtain n where n: "n \<le> length ?todo" "applied s = A @ map version (take n ?todo)"
    "run_migrations run_sql (take n ?todo) d0 = Inr (rest_of_db s)" by (auto simp: migrated_to_def)
  from assms(5) n(2) have new: "version m \<notin> set A" "version m \<notin> version ` set (take n ?todo)" by auto
  have todo: "?todo = unapplied A done @ m # unapplied A ms"
    using assms(2) new(1) by (simp add: unapplied_def)
  have "n = length (unapplied A done)"
  proof (rule prefix_is_done [OF todo _ n(1) _ new(2)])
    show "distinct (map version ?todo)" using assms(3) by (simp add: unapplied_def distinct_map_filter)
    show "version ` set (unapplied A done) \<subseteq> version ` set (take n ?todo)"
      using assms(4) n(2) by (auto simp: has_applied_def unapplied_def)
  qed
  with todo n assms(6) show ?thesis
    unfolding migrated_to_def by (intro exI [of _ "Suc n"]) (simp add: run_migrations_snoc)
qed

lemma migrated_faults [simp]:
  "migrated_to run_sql A todo d0 (s\<lparr>mig_faults := fs\<rparr>) = migrated_to run_sql A todo d0 s"
  "applied_grows s (s\<lparr>mig_faults := fs\<rparr>)"
  "has_applied ms (s\<lparr>mig_faults := fs\<rparr>) = has_applied ms s"
  by (simp_all add: migrated_to_def applied_grows_def has_applied_def)

text \<open>A call is safe if its effect is, whatever the schedule.\<close>

lemma safe_mig_call:
  assumes f: "\<And>s r s'. f s = (r, s') \<Longrightarrow> migrated_to run_sql A todo d0 s \<Longrightarrow> K s \<Longrightarrow>
      migrated_to run_sql A todo d0 s' \<and> applied_grows s s' \<and> Q r s'"
    and K: "\<And>s fs. K (s\<lparr>mig_faults := fs\<rparr>) = K s" and Q: "\<And>r. pods.stable run_sql A todo d0 (Q r)"
    and e: "\<And>e s. migrated_to run_sql A todo d0 s \<Longrightarrow> K s \<Longrightarrow> Q (Inl e) s"
  shows "pods.safe run_sql A todo d0 Q K (mig_call f)"
  unfolding mig_call_def
proof (rule pods.safe_Act, unfold fst_conv snd_conv)
  fix s assume s: "migrated_to run_sql A todo d0 s" "K s"
  obtain r s' where g: "mig_step f s = (r, s')" by fastforce
  have "migrated_to run_sql A todo d0 s' \<and> applied_grows s s' \<and> Q r s'"
  proof (cases "\<exists>e fs. mig_faults s = Some e # fs")
    case True
    with g e s K show ?thesis by (auto simp: mig_step_def)
  next
    case False
    with g have "f (s\<lparr>mig_faults := tl (mig_faults s)\<rparr>) = (r, s')"
      by (auto simp: mig_step_def split: list.splits option.splits)
    from f [OF this] s K show ?thesis by (simp add: applied_grows_def)
  qed
  with g Q show "migrated_to run_sql A todo d0 (snd (mig_step f s)) \<and> applied_grows s (snd (mig_step f s)) \<and>
      (\<exists>K'. pods.stable run_sql A todo d0 K' \<and> K' (snd (mig_step f s)) \<and>
         pods.safe run_sql A todo d0 Q K' (Done (fst (mig_step f s))))"
    by (auto intro!: exI [of _ "Q r"] pods.safe_Done)
qed

lemma safe_apply_all:
  assumes "files = done @ ms" "distinct (map version files)" and todo: "todo = unapplied A files"
  shows "pods.safe run_sql A todo d0 (returned files) (has_applied done) (apply_all run_sql ms)"
  using assms(1)
proof (induction ms arbitrary: "done")
  case Nil
  then show ?case by (simp add: pods.safe_Done)
next
  case (Cons m ms)
  let ?safe = "pods.safe run_sql A todo d0"
  have next_safe: "?safe (returned files) (has_applied (done @ [m])) (apply_all run_sql ms)"
    using Cons.IH [of "done @ [m]"] Cons.prems by simp
  let ?Q = "\<lambda>r s. case r of Inl e \<Rightarrow> True
      | Inr there \<Rightarrow> has_applied done s \<and> (there \<longrightarrow> has_applied (done @ [m]) s)"
  have look: "?safe ?Q (has_applied done) (mig_call (\<lambda>s. (Inr (version m \<in> set (applied s)), s)))"
  proof (rule safe_mig_call)
    show "pods.stable run_sql A todo d0 (?Q r)" for r
      using stable_has_applied [of run_sql A todo d0]
      by (auto simp: pods.stable_def split: sum.splits)
  qed (auto simp: applied_grows_def has_applied_def)
  have app: "?safe (\<lambda>r s. case r of Inl e \<Rightarrow> True | Inr _ \<Rightarrow> has_applied (done @ [m]) s) (has_applied done)
      (applyMigrationOnConn run_sql m)" unfolding applyMigrationOnConn_def
  proof (rule safe_mig_call)
    fix s r s' assume f: "(case run_sql (body m) (rest_of_db s) of Inl e \<Rightarrow> (Inl e, s)
       | Inr d \<Rightarrow> if version m \<in> set (applied s) then (Inl (PgError ''23505''), s)
         else (Inr (), s\<lparr>rest_of_db := d, applied := applied s @ [version m]\<rparr>)) = (r, s')"
      and s: "migrated_to run_sql A todo d0 s" "has_applied done s"
    then show "migrated_to run_sql A todo d0 s' \<and> applied_grows s s' \<and>
        (case r of Inl e \<Rightarrow> True | Inr _ \<Rightarrow> has_applied (done @ [m]) s')"
      using apply_next [OF s(1) [unfolded todo] Cons.prems assms(2) s(2)] unfolding todo
      by (auto simp: applied_grows_def has_applied_def split: sum.splits if_splits)
  next
    show "pods.stable run_sql A todo d0 (\<lambda>s. case r of Inl e \<Rightarrow> True | Inr _ \<Rightarrow> has_applied (done @ [m]) s)"
      for r :: "err + unit"
      using stable_has_applied [of run_sql A todo d0] by (auto simp: pods.stable_def split: sum.splits)
  qed simp_all
  have step: "?safe (returned files) (has_applied done) (mig_bind (applyMigrationOnConn run_sql m) (\<lambda>_. apply_all run_sql ms))"
    unfolding mig_bind_def
    by (rule pods.safe_bind [OF app]) (auto simp: next_safe pods.safe_Done split: sum.split)
  show ?case unfolding apply_all.simps mig_bind_def [of "mig_call _"]
  proof (rule pods.safe_bind [OF look])
    fix r :: "err + bool"
    show "?safe (returned files) (?Q r) (case r of Inl e \<Rightarrow> Done (Inl e) | Inr there \<Rightarrow>
        if there then apply_all run_sql ms
        else mig_bind (applyMigrationOnConn run_sql m) (\<lambda>_. apply_all run_sql ms))"
      by (auto simp: pods.safe_Done intro: pods.safe_mono [OF next_safe] pods.safe_mono [OF step] split: sum.split)
  qed
qed


lemma safe_Migrate:
  assumes "readMigrations entries = Inr files" "distinct (map version files)" "todo = unapplied A files"
  shows "pods.safe run_sql A todo d0 (returned files) (\<lambda>_. True) (Migrate run_sql entries)"
proof -
  have skip: "pods.safe run_sql A todo d0 (\<lambda>_ _. True) (\<lambda>_. True) (mig_call (\<lambda>s. (Inr (), s)))"
    by (rule safe_mig_call) (auto simp: applied_grows_def pods.stable_def)
  have "pods.safe run_sql A todo d0 (returned files) (\<lambda>_. True) (apply_all run_sql files)"
    by (rule pods.safe_mono [OF safe_apply_all [of files "[]", OF _ assms(2,3)]]) (simp_all add: has_applied_def)
  then show ?thesis unfolding Migrate_def mig_bind_def assms(1)
    by (auto intro!: pods.safe_bind [OF skip] simp: pods.safe_Done split: sum.split)
qed

text \<open>C19: migrations are applied once and in order, and whoever returns without error finds all of
  them applied. Whatever versions the database records at first, any number of Pods run \<open>Migrate\<close>
  at the same time, over and over, with any interleaving of their calls and any failures (the
  versions of the files, which are their names, are distinct). Then
  the recorded versions are the old ones followed by the first \<open>n\<close> of the missing migrations in
  the order of their versions, the rest of the database is what exactly these migrations, in
  this order, make of the old one, and if one of the Pods has returned without an error, all of
  the missing ones are applied.\<close>

theorem migrations_once_in_order:
  assumes "readMigrations entries = Inr files" "distinct (map version files)"
    and "(interleave {Migrate run_sql entries})\<^sup>*\<^sup>* (\<lambda>_. Done (Inl e), s) (ps, s')"
  shows "sorted (map version (unapplied (applied s) files)) \<and>
    (\<exists>n \<le> length (unapplied (applied s) files).
      applied s' = applied s @ map version (take n (unapplied (applied s) files)) \<and>
      run_migrations run_sql (take n (unapplied (applied s) files)) (rest_of_db s) = Inr (rest_of_db s') \<and>
      ((\<exists>i. ps i = Done (Inr ())) \<longrightarrow> n = length (unapplied (applied s) files)))"
proof -
  let ?todo = "unapplied (applied s) files"
  have "sorted (map version files)"
    using assms(1) by (auto simp: readMigrations_def and_then_Inr)
  then have sorted: "sorted (map version ?todo)" by (simp add: unapplied_def sorted_filter)
  have inv: "migrated_to run_sql (applied s) ?todo (rest_of_db s) s' \<and> (\<forall>i r. ps i = Done r \<longrightarrow> returned files r s')"
  proof (rule pods.interleaving_results [OF assms(3)])
    show "migrated_to run_sql (applied s) ?todo (rest_of_db s) s"
      by (auto simp: migrated_to_def intro!: exI [of _ 0])
    show "pods.safe run_sql (applied s) ?todo (rest_of_db s) (returned files) (\<lambda>_. True) p"
      if "p \<in> {Migrate run_sql entries}" for p
      using that safe_Migrate [OF assms(1,2) refl] by simp
  qed simp
  then obtain n where n: "n \<le> length ?todo" "applied s' = applied s @ map version (take n ?todo)"
    "run_migrations run_sql (take n ?todo) (rest_of_db s) = Inr (rest_of_db s')" by (auto simp: migrated_to_def)
  have "n = length ?todo" if "ps i = Done (Inr ())" for i
  proof -
    from inv that have "returned files (Inr ()) s'" by blast
    then have "version ` set files \<subseteq> set (applied s')" by (simp add: has_applied_def)
    then have "version ` set ?todo \<subseteq> version ` set (take n ?todo)"
      unfolding n(2) by (auto simp: unapplied_def)
    moreover have "distinct (map version ?todo)"
      using assms(2) by (simp add: unapplied_def distinct_map_filter)
    ultimately show ?thesis using n(1) by (intro taken_all)
  qed
  with sorted n show ?thesis by blast
qed

section \<open>Runs alone\<close>

lemma run_mig_bind: "res_run (mig_bind m k) s =
    (case res_run m s of (Inl e, s') \<Rightarrow> (Inl e, s') | (Inr x, s') \<Rightarrow> res_run (k x) s')"
  by (auto simp: mig_bind_def res_run_bind split: prod.splits sum.splits)

lemma run_mig_call: "mig_faults s = [] \<Longrightarrow> res_run (mig_call f) s = f s"
  by (cases s) (simp add: mig_call_def mig_step_def)

lemma unapplied_Cons:
  "unapplied A (m # ms) = (if version m \<in> set A then unapplied A ms else m # unapplied A ms)"
  by (simp add: unapplied_def)

lemma unapplied_snoc: "version m \<notin> version ` set ms \<Longrightarrow> unapplied (A @ [version m]) ms = unapplied A ms"
  unfolding unapplied_def by (rule filter_cong) (auto simp: image_iff eq_commute)

lemma apply_all_run:
  assumes "mig_faults s = []" "distinct (map version ms)"
    and "run_migrations run_sql (unapplied (applied s) ms) (rest_of_db s) = Inr d"
  shows "res_run (apply_all run_sql ms) s =
    (Inr (), s\<lparr>applied := applied s @ map version (unapplied (applied s) ms), rest_of_db := d\<rparr>)"
  using assms
proof (induction ms arbitrary: s)
  case (Cons m ms)
  show ?case
  proof (cases "version m \<in> set (applied s)")
    case True
    with Cons show ?thesis by (simp add: run_mig_bind run_mig_call unapplied_Cons)
  next
    case False
    with Cons.prems obtain d1 where "run_sql (body m) (rest_of_db s) = Inr d1"
      "run_migrations run_sql (unapplied (applied s) ms) d1 = Inr d"
      by (cases "run_sql (body m) (rest_of_db s)") (auto simp: unapplied_Cons)
    with False Cons.prems Cons.IH [of "s\<lparr>rest_of_db := d1, applied := applied s @ [version m]\<rparr>"] show ?thesis
      by (simp add: run_mig_bind run_mig_call applyMigrationOnConn_def unapplied_Cons unapplied_snoc)
  qed
qed (simp add: unapplied_def)

lemma apply_all_skips:
  "mig_faults s = [] \<Longrightarrow> set (map version ms) \<subseteq> set (applied s) \<Longrightarrow> res_run (apply_all run_sql ms) s = (Inr (), s)"
  by (induction ms) (auto simp: run_mig_bind run_mig_call)

text \<open>C20: a migration run completes and is idempotent, on a fresh database and on one that records
  some migrations already. When no call fails and the missing migrations run, one \<open>Migrate\<close>
  applies exactly these, in order, whichever versions are recorded, and a second one changes
  nothing.\<close>

theorem Migrate_completes:
  assumes "mig_faults s = []" "readMigrations entries = Inr files" "distinct (map version files)"
    and "run_migrations run_sql (unapplied (applied s) files) (rest_of_db s) = Inr d"
  shows "\<exists>s'. res_run (Migrate run_sql entries) s = (Inr (), s') \<and>
    applied s' = applied s @ map version (unapplied (applied s) files) \<and> rest_of_db s' = d \<and>
    version ` set files \<subseteq> set (applied s') \<and> res_run (Migrate run_sql entries) s' = (Inr (), s')"
proof -
  let ?s = "s\<lparr>applied := applied s @ map version (unapplied (applied s) files), rest_of_db := d\<rparr>"
  have all: "version ` set files \<subseteq> set (applied ?s)" by (auto simp: unapplied_def)
  have "res_run (Migrate run_sql entries) s = (Inr (), ?s)" "res_run (Migrate run_sql entries) ?s = (Inr (), ?s)"
    using apply_all_run [of s files run_sql d] apply_all_skips [of ?s files run_sql] assms all
    by (simp_all add: Migrate_def run_mig_bind run_mig_call)
  with all show ?thesis by (intro exI [of _ ?s]) simp
qed

section \<open>Examples\<close>

definition sample_entries :: "err + dir_entry list" where
  "sample_entries = Inr [\<lparr>entry_name = ''0002_b.sql'', is_dir = False, entry_body = Inr ''B''\<rparr>,
     \<lparr>entry_name = ''README.md'', is_dir = False, entry_body = Inr ''''\<rparr>,
     \<lparr>entry_name = ''0001_a.sql'', is_dir = False, entry_body = Inr ''A''\<rparr>]"

definition sample_sql :: "string \<Rightarrow> string \<Rightarrow> err + string" where
  "sample_sql b d = Inr (d @ b)"

definition sample_files :: "migration list" where
  "sample_files = [\<lparr>version = ''0001_a'', body = ''A''\<rparr>, \<lparr>version = ''0002_b'', body = ''B''\<rparr>]"

definition fresh_db :: "string mig_state" where
  "fresh_db = \<lparr>applied = [], rest_of_db = [], mig_faults = []\<rparr>"

text \<open>A database an earlier release has migrated.\<close>

definition old_db :: "string mig_state" where
  "old_db = \<lparr>applied = [''0000_z'', ''0001_a''], rest_of_db = ''ZA'', mig_faults = []\<rparr>"

lemma sample_files: "readMigrations sample_entries = Inr sample_files" "distinct (map version sample_files)"
  by (simp_all add: readMigrations_def sample_entries_def sample_files_def has_suffix_def trim_suffix_def
      less_char_def less_eq_char_def)

lemma sample_unapplied:
  "unapplied [''0000_z'', ''0001_a''] sample_files = [\<lparr>version = ''0002_b'', body = ''B''\<rparr>]"
  by (simp add: unapplied_def sample_files_def)

lemma sample_upgrade:
  "res_run (Migrate sample_sql sample_entries) old_db =
     (Inr (), old_db\<lparr>applied := [''0000_z'', ''0001_a'', ''0002_b''], rest_of_db := ''ZAB''\<rparr>)"
  using apply_all_run [of old_db sample_files sample_sql "''ZAB''"] sample_files sample_unapplied
  by (simp add: Migrate_def run_mig_bind run_mig_call old_db_def sample_sql_def)

theorem migrations_once_in_order_witness:
  "\<exists>ps s'. (interleave {Migrate sample_sql sample_entries})\<^sup>*\<^sup>* (\<lambda>_. Done (Inl ErrDeadlineExceeded), old_db) (ps, s') \<and>
     ps 0 = Done (Inr ()) \<and> applied s' = [''0000_z'', ''0001_a'', ''0002_b''] \<and> rest_of_db s' = ''ZAB''"
proof -
  let ?ps = "\<lambda>_ :: nat. Done (Inl ErrDeadlineExceeded) :: (string, unit) mig"
  let ?s' = "old_db\<lparr>applied := [''0000_z'', ''0001_a'', ''0002_b''], rest_of_db := ''ZAB''\<rparr>"
  let ?P = "{Migrate sample_sql sample_entries}"
  have "interleave ?P (?ps, old_db) (?ps(0 := Migrate sample_sql sample_entries), old_db)"
    by (rule starts [of ?ps 0 "Inl ErrDeadlineExceeded", OF refl]) simp
  moreover have "(interleave ?P)\<^sup>*\<^sup>* (?ps(0 := Migrate sample_sql sample_entries), old_db) (?ps(0 := Done (Inr ())), ?s')"
    by (rule run_interleaves [OF sample_upgrade])
  ultimately have run: "(interleave ?P)\<^sup>*\<^sup>* (?ps, old_db) (?ps(0 := Done (Inr ())), ?s')"
    by (rule converse_rtranclp_into_rtranclp)
  from migrations_once_in_order [OF sample_files run]
  have "applied ?s' = [''0000_z'', ''0001_a'', ''0002_b''] \<and> rest_of_db ?s' = ''ZAB''"
    by (auto simp: old_db_def sample_unapplied sample_sql_def)
  with run show ?thesis by (intro exI [of _ "?ps(0 := Done (Inr ()))"] exI [of _ ?s']) simp
qed

theorem Migrate_completes_witness:
  "(\<exists>s'. res_run (Migrate sample_sql sample_entries) fresh_db = (Inr (), s') \<and> rest_of_db s' = ''AB'') \<and>
   (\<exists>s'. res_run (Migrate sample_sql sample_entries) old_db = (Inr (), s') \<and> rest_of_db s' = ''ZAB'' \<and>
      applied s' = [''0000_z'', ''0001_a'', ''0002_b''])"
proof -
  have fresh: "run_migrations sample_sql (unapplied (applied fresh_db) sample_files) (rest_of_db fresh_db) = Inr ''AB''"
    by (simp add: sample_sql_def sample_files_def fresh_db_def unapplied_def)
  have old: "run_migrations sample_sql (unapplied (applied old_db) sample_files) (rest_of_db old_db) = Inr ''ZAB''"
    by (simp add: sample_sql_def sample_unapplied old_db_def)
  from Migrate_completes [OF _ sample_files fresh] Migrate_completes [OF _ sample_files old]
  show ?thesis by (auto simp: fresh_db_def old_db_def sample_unapplied)
qed

end
