(* ===== verification/WsConn.thy ===== *)
theory WsConn
  imports Packet
begin

text \<open>
  The adapter that presents a websocket as a byte stream (\<open>src/internal/engine/wsconn.go\<close>).
  What \<open>ReadMessage\<close> of the websocket package returns, call by call, is a list of events; a
  list that has run out stands for a peer that has sent nothing more yet.
\<close>

datatype ws_event = BinaryMessage bytes | OtherMessage bytes | ReadError err | CloseError

record wsConnAdapter =
  ws_events :: "ws_event list"
  readBuf :: bytes
  readErr :: "err option"
  readPos :: nat

definition new_adapter :: "ws_event list \<Rightarrow> wsConnAdapter" where
  "new_adapter evs = \<lparr>ws_events = evs, readBuf = [], readErr = None, readPos = 0\<rparr>"

text \<open>What one \<open>Read\<close> does: it returns bytes, or fails, or blocks.\<close>

datatype ws_result = WsBytes bytes | WsErr err | WsBlocked

definition isWSClose :: "ws_event \<Rightarrow> bool" where
  "isWSClose e \<longleftrightarrow> e = ReadError ErrEOF \<or> e = CloseError"

text \<open>The loop that fills the buffer: it ends when the buffer has unread bytes, with an error, or
  blocked on the next message.\<close>

fun fill :: "ws_event list \<Rightarrow> wsConnAdapter \<Rightarrow> ws_result option \<times> wsConnAdapter" where
  "fill evs a =
     (if readPos a < length (readBuf a) then (None, a\<lparr>ws_events := evs\<rparr>)
      else case readErr a of
        Some e \<Rightarrow> (Some (WsErr e), a\<lparr>ws_events := evs\<rparr>)
      | None \<Rightarrow> (case evs of
          [] \<Rightarrow> (Some WsBlocked, a\<lparr>ws_events := []\<rparr>)
        | BinaryMessage d # evs' \<Rightarrow> fill evs' (a\<lparr>readBuf := d, readPos := 0\<rparr>)
        | OtherMessage d # evs' \<Rightarrow> fill evs' a
        | e # evs' \<Rightarrow>
            (let er = (if isWSClose e then ErrEOF else case e of ReadError x \<Rightarrow> x | _ \<Rightarrow> ErrEOF) in
             (Some (WsErr er), a\<lparr>ws_events := evs', readErr := Some er\<rparr>))))"

declare fill.simps [simp del]

definition ws_Read :: "nat \<Rightarrow> wsConnAdapter \<Rightarrow> ws_result \<times> wsConnAdapter" where
  "ws_Read n a =
     (case fill (ws_events a) a of
        (Some r, a') \<Rightarrow> (r, a')
      | (None, a') \<Rightarrow>
          (let p = take n (drop (readPos a') (readBuf a')) in
           (WsBytes p, a'\<lparr>readPos := readPos a' + length p\<rparr>)))"

text \<open>\<open>Write\<close> sends one binary message.\<close>

definition ws_Write :: "bytes \<Rightarrow> ws_event list \<Rightarrow> err option \<Rightarrow> (err + nat) \<times> ws_event list" where
  "ws_Write p sent failure =
     (case failure of Some e \<Rightarrow> (Inl e, sent) | None \<Rightarrow> (Inr (length p), sent @ [BinaryMessage p]))"

section \<open>The stream\<close>

text \<open>The bytes the adapter has still to give out: the unread part of the buffer, then the payloads
  of the binary messages up to the first failure.\<close>

fun payload :: "ws_event list \<Rightarrow> bytes" where
  "payload [] = []"
| "payload (BinaryMessage d # evs) = d @ payload evs"
| "payload (OtherMessage d # evs) = payload evs"
| "payload (e # evs) = []"

definition pending :: "wsConnAdapter \<Rightarrow> bytes" where
  "pending a = drop (readPos a) (readBuf a) @ (if readErr a = None then payload (ws_events a) else [])"

lemma fill_pending:
  "fill evs a = (r, a') \<Longrightarrow>
     pending a' = drop (readPos a) (readBuf a) @ (if readErr a = None then payload evs else []) \<and>
     (case r of None \<Rightarrow> readPos a' < length (readBuf a')
      | Some x \<Rightarrow> (\<forall>b. x \<noteq> WsBytes b) \<and> pending a' = [])"
proof (induction evs a rule: fill.induct)
  case (1 evs a)
  show ?case
  proof (cases "readPos a < length (readBuf a) \<or> readErr a \<noteq> None")
    case True
    with "1.prems" show ?thesis by (subst (asm) fill.simps) (auto simp: pending_def split: if_splits)
  next
    case False
    then have f: "\<not> readPos a < length (readBuf a)" "readErr a = None" by auto
    show ?thesis
    proof (cases evs)
      case Nil
      with f "1.prems" show ?thesis by (subst (asm) fill.simps) (auto simp: pending_def)
    next
      case (Cons e evs')
      note IH = "1.IH" [OF f(1) f(2) Cons]
      show ?thesis
      proof (cases e)
        case (BinaryMessage d)
        with f Cons "1.prems" have "fill evs' (a\<lparr>readBuf := d, readPos := 0\<rparr>) = (r, a')"
          by (subst (asm) fill.simps) simp
        from IH(1) [OF BinaryMessage this] f Cons BinaryMessage show ?thesis by simp
      next
        case (OtherMessage d)
        with f Cons "1.prems" have "fill evs' a = (r, a')" by (subst (asm) fill.simps) simp
        from IH(2) [OF OtherMessage this] f Cons OtherMessage show ?thesis by simp
      qed (use f Cons "1.prems" in \<open>subst (asm) fill.simps, auto simp: pending_def Let_def\<close>)+
    qed
  qed
qed

text \<open>Reading with buffers of the given sizes until a read gives no bytes.\<close>

fun read_all :: "nat list \<Rightarrow> wsConnAdapter \<Rightarrow> bytes \<times> ws_result option \<times> wsConnAdapter" where
  "read_all [] a = ([], None, a)"
| "read_all (n # ns) a =
     (case ws_Read n a of
        (WsBytes p, a') \<Rightarrow> (case read_all ns a' of (q, r, a'') \<Rightarrow> (p @ q, r, a''))
      | (r, a') \<Rightarrow> ([], Some r, a'))"

lemma ws_Read_pending:
  assumes "ws_Read n a = (r, a')"
  shows "case r of WsBytes p \<Rightarrow> pending a = p @ pending a' \<and> length p \<le> n \<and> (0 < n \<longrightarrow> p \<noteq> [])
    | _ \<Rightarrow> pending a = [] \<and> pending a' = []"
proof (cases "fill (ws_events a) a")
  case (Pair x b)
  have fp: "pending b = pending a" "case x of None \<Rightarrow> readPos b < length (readBuf b)
      | Some y \<Rightarrow> (\<forall>c. y \<noteq> WsBytes c) \<and> pending b = []"
    using fill_pending [OF Pair] by (simp_all add: pending_def)
  show ?thesis
  proof (cases x)
    case None
    let ?p = "take n (drop (readPos b) (readBuf b))"
    from None Pair assms have "r = WsBytes ?p" "a' = b\<lparr>readPos := readPos b + length ?p\<rparr>"
      by (auto simp: ws_Read_def Let_def)
    moreover have "pending b = ?p @ pending (b\<lparr>readPos := readPos b + length ?p\<rparr>)"
      unfolding pending_def by (simp add: min_def) (metis append_take_drop_id drop_drop add.commute append_Nil2 drop_all)
    ultimately show ?thesis using fp None by auto
  next
    case (Some y)
    with Pair assms fp show ?thesis by (auto simp: ws_Read_def split: ws_result.splits)
  qed
qed

text \<open>C38: the stream is the concatenation of the binary messages. However the peer cuts its bytes
  into messages, whatever other messages it sends between them, and with whatever buffer sizes
  the codec reads, the bytes come out complete and in order: what was read is a prefix of the
  payloads, and all of them once a read fails or has to wait.\<close>

theorem ws_stream:
  assumes "read_all ns (new_adapter evs) = (q, r, a')"
  shows "\<exists>rest. payload evs = q @ rest \<and> (r \<noteq> None \<longrightarrow> rest = [])"
proof -
  have "read_all ns a = (q, r, a') \<Longrightarrow> \<exists>rest. pending a = q @ rest \<and> (r \<noteq> None \<longrightarrow> rest = [])" for ns a q r a'
  proof (induction ns arbitrary: a q)
    case (Cons n ns)
    obtain x b where x: "ws_Read n a = (x, b)" by fastforce
    show ?case
    proof (cases x)
      case (WsBytes p)
      with Cons.prems x obtain q' where q: "read_all ns b = (q', r, a')" "q = p @ q'"
        by (auto split: prod.splits)
      with Cons.IH [OF q(1)] ws_Read_pending [OF x] WsBytes show ?thesis by auto
    qed (use Cons.prems ws_Read_pending [OF x] x in auto)
  qed auto
  from this [OF assms] show ?thesis by (simp add: pending_def new_adapter_def)
qed

theorem ws_stream_witness:
  "\<exists>rest. payload [BinaryMessage [1, 2, 3], OtherMessage [9], BinaryMessage [], BinaryMessage [4], CloseError]
     = [1, 2, 3, 4] @ rest \<and> rest = []"
proof -
  let ?evs = "[BinaryMessage [1, 2, 3], OtherMessage [9], BinaryMessage [], BinaryMessage [4], CloseError]"
  have "fst (read_all [2, 2, 5, 5] (new_adapter ?evs)) = [1, 2, 3, 4]"
    "fst (snd (read_all [2, 2, 5, 5] (new_adapter ?evs))) = Some (WsErr ErrEOF)"
    by (simp_all add: new_adapter_def ws_Read_def fill.simps isWSClose_def Let_def)
  with ws_stream [of "[2, 2, 5, 5]" ?evs] show ?thesis by (metis option.distinct(1) prod.collapse)
qed

end
