(* ===== verification/Custody.thy ===== *)
theory Custody
  imports SessionFacts
begin

text \<open>
  No silent loss. A QoS 1 or 2 delivery of a persistent session, once in the database, stays
  there, with its message, whatever the Pods of the cluster do to each other's work: publish,
  deliver, drain, take over, sweep, expire, restart. It goes away only by what its own client
  does on a connection, by the end of its session, or by a drop that is counted.
\<close>

section \<open>The statements that leave a client's deliveries alone\<close>

text \<open>The steps of the database a handler takes on behalf of the client \<open>cid\<close> or of nobody.
  Missing against \<open>db_step\<close> are the removal of deliveries and sessions other than by
  naming \<open>cid\<close>.\<close>

inductive custody_step :: "string \<Rightarrow> db \<Rightarrow> db \<Rightarrow> bool" for cid :: string where
  cs_takeover: "upd_session_takeover cid v token t d = Inr (x, d') \<Longrightarrow> custody_step cid d d'"
| cs_ins_session: "ins_session cid v token t d = Inr (x, d') \<Longrightarrow> custody_step cid d d'"
| cs_timers: "custody_step cid d (upd_session_timers_null c d)"
| cs_del_session: "custody_step cid d (snd (del_session_token cid token d))"
| cs_disconnected: "custody_step cid d (snd (upd_session_disconnected cid token f e b t d))"
| cs_detach: "custody_step cid d (upd_sessions_detach self d)"
| cs_attest: "custody_step cid d (upd_sessions_attest self owned t d)"
| cs_upsert_sub: "upsert_subscription r d = Inr (x, d') \<Longrightarrow> custody_step cid d d'"
| cs_del_sub: "custody_step cid d (snd (del_subscription c f d))"
| cs_del_subs: "custody_step cid d (del_subscriptions_client c d)"
| cs_del_retained: "custody_step cid d (del_retained topic d)"
| cs_retained: "upsert_retained jm topic p q props t d = Inr (x, d') \<Longrightarrow> custody_step cid d d'"
| cs_ins_message: "ins_message topic po q ret props publ e t d = Inr (x, d') \<Longrightarrow> custody_step cid d d'"
| cs_ins_delivery: "ins_delivery c i q d = Inr (x, d') \<Longrightarrow> custody_step cid d d'"
| cs_publish: "mqtt_publish jm topic po q ret props publ maxq t d = Inr (r, d') \<Longrightarrow> custody_step cid d d'"
| cs_claim: "claim_deliveries_where Q pid d = Inr (n, d') \<Longrightarrow> custody_step cid d d'"
| cs_del_client: "custody_step cid d (del_deliveries_client cid d)"
| cs_acked: "custody_step cid d (snd (del_delivery_acked cid pid q d))"
| cs_pubrec: "custody_step cid d (upd_delivery_pubrec c pid d)"
| cs_ins_inbound: "ins_inbound_qos2 c pid t d = Inr (x, d') \<Longrightarrow> custody_step cid d d'"
| cs_del_inbound: "custody_step cid d (snd (del_inbound_qos2 c pid d))"
| cs_del_inbound_client: "custody_step cid d (del_inbound_qos2_client c d)"
| cs_clear_wills: "custody_step cid d (upd_clear_wills cs d)"
| cs_dead_delayed: "custody_step cid d (upd_dead_delayed b t d)"
| cs_dead_rest: "custody_step cid d (snd (upd_dead_rest b t d))"
| cs_retained_expired: "custody_step cid d (snd (del_retained_expired t d))"
| cs_inbound_stale: "custody_step cid d (snd (del_inbound_stale t d))"
| cs_orphan_deliveries: "custody_step cid d (snd (del_orphan_deliveries t d))"
| cs_orphan_messages: "custody_step cid d (snd (del_orphan_messages t d))"
| cs_notify: "pg_notify cs msg d = Inr (x, d') \<Longrightarrow> custody_step cid d d'"

section \<open>What is kept\<close>

text \<open>Delivery \<open>i\<close> of message \<open>m\<close> waits for client \<open>c\<close> with QoS \<open>q\<close>: row and message are there,
  and the client's session is one that lasts: not a clean start, and not over by \<open>T\<close>.\<close>

definition lasting :: "instant \<Rightarrow> session_row \<Rightarrow> bool" where
  "lasting T s \<longleftrightarrow> \<not> s_clean_start s \<and>
     (case s_session_expires_at s of None \<Rightarrow> True | Some e \<Rightarrow> T < e)"

definition awaits :: "nat \<Rightarrow> string \<Rightarrow> nat \<Rightarrow> nat \<Rightarrow> instant \<Rightarrow> db \<Rightarrow> bool" where
  "awaits i c q m T d \<longleftrightarrow>
     0 < q \<and> i < deliveries_seq d \<and>
     (\<exists>r \<in> set (deliveries d). d_id r = i) \<and>
     (\<forall>r \<in> set (deliveries d). d_id r = i \<longrightarrow> d_client_id r = c \<and> d_qos r = q \<and> d_message_id r = m) \<and>
     (\<exists>x \<in> set (messages d). m_id x = m) \<and>
     (\<exists>s \<in> set (sessions d). s_client_id s = c) \<and>
     (\<forall>s \<in> set (sessions d). s_client_id s = c \<longrightarrow> lasting T s)"

text \<open>\<open>awaits\<close> splits into what the deliveries, the messages and the sessions say, and each
  statement changes one of them.\<close>

definition row_waits :: "nat \<Rightarrow> string \<Rightarrow> nat \<Rightarrow> nat \<Rightarrow> delivery_row list \<Rightarrow> bool" where
  "row_waits i c q m ds \<longleftrightarrow> (\<exists>r \<in> set ds. d_id r = i) \<and>
     (\<forall>r \<in> set ds. d_id r = i \<longrightarrow> d_client_id r = c \<and> d_qos r = q \<and> d_message_id r = m)"

definition session_lasts :: "string \<Rightarrow> instant \<Rightarrow> session_row list \<Rightarrow> bool" where
  "session_lasts c T ss \<longleftrightarrow> (\<exists>s \<in> set ss. s_client_id s = c) \<and>
     (\<forall>s \<in> set ss. s_client_id s = c \<longrightarrow> lasting T s)"

lemma awaits_split:
  "awaits i c q m T d \<longleftrightarrow> 0 < q \<and> i < deliveries_seq d \<and> row_waits i c q m (deliveries d)
     \<and> m \<in> m_id ` set (messages d) \<and> session_lasts c T (sessions d)"
  by (auto simp: awaits_def row_waits_def session_lasts_def)

lemma session_lasts_map:
  assumes "session_lasts c T ss"
    and "\<And>s. s \<in> set ss \<Longrightarrow> s_client_id (f s) = s_client_id s"
    and "\<And>s. s \<in> set ss \<Longrightarrow> s_client_id s = c \<Longrightarrow> lasting T s \<Longrightarrow> lasting T (f s)"
  shows "session_lasts c T (map f ss)"
  using assms by (force simp: session_lasts_def)

lemma session_lasts_filter:
  assumes "session_lasts c T ss" "\<And>s. s_client_id s = c \<Longrightarrow> s \<in> set ss \<Longrightarrow> Q s"
  shows "session_lasts c T (filter Q ss)"
  using assms by (auto simp: session_lasts_def)

lemma row_waits_map:
  assumes "row_waits i c q m ds"
    and "\<And>r. d_id (f r) = d_id r \<and> d_client_id (f r) = d_client_id r \<and> d_qos (f r) = d_qos r \<and>
      d_message_id (f r) = d_message_id r"
  shows "row_waits i c q m (map f ds)"
  using assms by (auto simp: row_waits_def)

lemma row_waits_filter:
  assumes "row_waits i c q m ds" "\<And>r. r \<in> set ds \<Longrightarrow> d_id r = i \<Longrightarrow> d_client_id r = c \<Longrightarrow> Q r"
  shows "row_waits i c q m (filter Q ds)"
  using assms by (auto simp: row_waits_def)

lemma row_waits_append:
  assumes "row_waits i c q m ds" "\<And>r. r \<in> set ds' \<Longrightarrow> d_id r \<noteq> i"
  shows "row_waits i c q m (ds @ ds')"
  using assms by (auto simp: row_waits_def)

lemma new_rows_ids: "r \<in> set (new_rows i s ms) \<Longrightarrow> s \<le> d_id r"
  by (induction i s ms rule: new_rows.induct) fastforce+

lemma ins_deliveries_frame:
  "messages (ins_deliveries i ms d) = messages d" "sessions (ins_deliveries i ms d) = sessions d"
  "deliveries_seq d \<le> deliveries_seq (ins_deliveries i ms d)"
proof -
  have "messages (ins_deliveries i ms d) = messages d \<and> sessions (ins_deliveries i ms d) = sessions d \<and>
      deliveries_seq d \<le> deliveries_seq (ins_deliveries i ms d)"
  proof (induction ms arbitrary: d)
    case (Cons m ms)
    let ?d1 = "d\<lparr>deliveries := deliveries d @ [\<lparr>d_id = deliveries_seq d, d_client_id = mt_client m,
            d_message_id = i, d_qos = mt_qos m, d_packet_id = None, d_state = 0\<rparr>],
          deliveries_seq := deliveries_seq d + 1\<rparr>"
    from Cons [of ?d1] show ?case by simp
  qed simp
  then show "messages (ins_deliveries i ms d) = messages d" "sessions (ins_deliveries i ms d) = sessions d"
    "deliveries_seq d \<le> deliveries_seq (ins_deliveries i ms d)" by simp_all
qed

lemma awaits_publish:
  assumes "awaits i c q m T d" "mqtt_publish jm topic po qos ret props publ maxq t d = Inr (r, d')"
  shows "awaits i c q m T d'"
  using assms(2)
proof (rule mqtt_publish_Inr)
  fix me d1
  assume ins: "ins_message topic po qos ret props publ
        (if me > 0 then Some (t + seconds me) else None) t d = Inr (messages_seq d, d1)"
    and d': "d' = ins_deliveries (messages_seq d) (inserted maxq d1 (matches topic publ qos d1)) d1"
  let ?ms = "inserted maxq d1 (matches topic publ qos d1)"
  have d1: "deliveries d1 = deliveries d" "sessions d1 = sessions d" "deliveries_seq d1 = deliveries_seq d"
    "set (messages d) \<subseteq> set (messages d1)"
    using ins by (auto simp: ins_message_def split: option.splits)
  have new: "d_id r \<noteq> i" if "r \<in> set (new_rows (messages_seq d) (deliveries_seq d) ?ms)" for r
    using new_rows_ids [OF that] assms(1) by (auto simp: awaits_def)
  have "row_waits i c q m (deliveries d')"
    using assms(1) d1 new unfolding awaits_split d' deliveries_ins_deliveries
    by (intro row_waits_append) simp_all
  moreover have "i < deliveries_seq d'"
    using assms(1) d1 ins_deliveries_frame(3) [of d1 "messages_seq d" ?ms] unfolding awaits_split d' by simp
  ultimately show ?thesis
    using assms(1) d1 unfolding awaits_split d' by (auto simp: ins_deliveries_frame)
qed

lemma awaits_session_statements:
  assumes "awaits i c q m T d"
  shows "cid \<noteq> c \<Longrightarrow> upd_session_takeover cid v token t d = Inr (x, d1) \<Longrightarrow> awaits i c q m T d1"
    "cid \<noteq> c \<Longrightarrow> ins_session cid v token t d = Inr (x, d2) \<Longrightarrow> awaits i c q m T d2"
    "awaits i c q m T (upd_session_timers_null c' d)"
    "cid \<noteq> c \<Longrightarrow> awaits i c q m T (snd (del_session_token cid token d))"
    "cid \<noteq> c \<Longrightarrow> awaits i c q m T (snd (upd_session_disconnected cid token f e b t d))"
    "awaits i c q m T (upd_sessions_detach self d)"
    "awaits i c q m T (upd_sessions_attest self owned t d)"
    "awaits i c q m T (upd_clear_wills cs d)"
    "awaits i c q m T (upd_dead_delayed b' t d)"
    "awaits i c q m T (snd (upd_dead_rest b' t d))"
  using assms
  by (auto simp: awaits_split upd_session_takeover_def ins_session_def upd_session_timers_null_def
      del_session_token_def del_sessions_where_def upd_session_disconnected_def Let_def
      upd_sessions_detach_def upd_sessions_attest_def upd_clear_wills_def clear_will_def
      upd_dead_delayed_def detach_delayed_def upd_dead_rest_def detach_cleared_def
      set_session_values_def lasting_def
      intro!: session_lasts_map session_lasts_filter split: if_splits)
     (auto simp: session_lasts_def)

lemma awaits_other_statements:
  assumes "awaits i c q m T d"
  shows "upsert_subscription r d = Inr (y, d1) \<Longrightarrow> awaits i c q m T d1"
    "awaits i c q m T (snd (del_subscription c' filt d))"
    "awaits i c q m T (del_subscriptions_client c' d)"
    "awaits i c q m T (del_retained topic d)"
    "upsert_retained jm topic p qos props t d = Inr (u, d2) \<Longrightarrow> awaits i c q m T d2"
    "ins_message topic po qos ret props publ e t d = Inr (n, d3) \<Longrightarrow> awaits i c q m T d3"
    "ins_inbound_qos2 c' pid t d = Inr (n', d4) \<Longrightarrow> awaits i c q m T d4"
    "awaits i c q m T (snd (del_inbound_qos2 c' pid d))"
    "awaits i c q m T (del_inbound_qos2_client c' d)"
    "awaits i c q m T (snd (del_retained_expired t d))"
    "awaits i c q m T (snd (del_inbound_stale t d))"
    "pg_notify chans msg d = Inr (u, d5) \<Longrightarrow> awaits i c q m T d5"
  using assms
  by (auto simp: awaits_split upsert_subscription_def del_subscription_def del_subscriptions_client_def
      del_retained_def upsert_retained_def and_then_Inr put_retained_def ins_message_def
      ins_inbound_qos2_def del_inbound_qos2_def del_inbound_qos2_client_def del_retained_expired_def
      del_inbound_stale_def pg_notify_def Let_def split: if_splits option.splits)

lemma awaits_delivery_statements:
  assumes "awaits i c q m T d"
  shows "ins_delivery c' mi qos d = Inr (u, d1) \<Longrightarrow> awaits i c q m T d1"
    "claim_deliveries_where Q pid d = Inr (n, d2) \<Longrightarrow> awaits i c q m T d2"
    "cid \<noteq> c \<Longrightarrow> awaits i c q m T (del_deliveries_client cid d)"
    "cid \<noteq> c \<Longrightarrow> awaits i c q m T (snd (del_delivery_acked cid pid qos d))"
    "awaits i c q m T (upd_delivery_pubrec c' pid d)"
    "i' \<noteq> i \<Longrightarrow> awaits i c q m T (snd (del_delivery i' d))"
    "awaits i c q m T (snd (del_orphan_deliveries t d))"
    "awaits i c q m T (snd (del_orphan_messages t d))"
proof -
  from assms have l: "\<And>s. s \<in> set (sessions d) \<Longrightarrow> s_client_id s = c \<Longrightarrow> \<not> s_clean_start s"
    "\<exists>s \<in> set (sessions d). s_client_id s = c" "i < deliveries_seq d"
    by (auto simp: awaits_def lasting_def)
  show "ins_delivery c' mi qos d = Inr (u, d1) \<Longrightarrow> awaits i c q m T d1"
    using assms by (auto simp: awaits_split ins_delivery_def intro!: row_waits_append split: if_splits)
  show "claim_deliveries_where Q pid d = Inr (n, d2) \<Longrightarrow> awaits i c q m T d2"
    using assms by (auto simp: awaits_split claim_deliveries_where_def Let_def intro!: row_waits_map split: if_splits)
  show "cid \<noteq> c \<Longrightarrow> awaits i c q m T (del_deliveries_client cid d)"
    "cid \<noteq> c \<Longrightarrow> awaits i c q m T (snd (del_delivery_acked cid pid qos d))"
    "i' \<noteq> i \<Longrightarrow> awaits i c q m T (snd (del_delivery i' d))"
    using assms by (auto simp: awaits_split del_deliveries_client_def del_delivery_acked_def del_delivery_def
        del_deliveries_where_def intro!: row_waits_filter)
  show "awaits i c q m T (upd_delivery_pubrec c' pid d)"
    using assms by (auto simp: awaits_split upd_delivery_pubrec_def intro!: row_waits_map)
  show "awaits i c q m T (snd (del_orphan_deliveries t d))"
    using assms l(2) by (auto simp: awaits_split del_orphan_deliveries_def del_deliveries_where_def
        intro!: row_waits_filter dest: l(1))
  show "awaits i c q m T (snd (del_orphan_messages t d))"
    using assms by (auto simp: awaits_def del_orphan_messages_def Let_def)
qed

lemma awaits_step: "custody_step cid d d' \<Longrightarrow> awaits i c q m T d \<Longrightarrow> cid \<noteq> c \<Longrightarrow> awaits i c q m T d'"
  by (induction rule: custody_step.induct)
     (auto intro: awaits_session_statements awaits_other_statements awaits_delivery_statements awaits_publish)

lemma awaits_rollback: "awaits i c q m T d \<Longrightarrow> awaits i c q m T d' \<Longrightarrow> awaits i c q m T (rollback d d')"
  by (simp add: awaits_def rollback_def)

lemma awaits_expire:
  assumes "awaits i c q m T d" "t \<le> T" "awaits i c q m T d'"
  shows "awaits i c q m T (del_deliveries_of (sel_expired_sessions t d) d') \<and>
    awaits i c q m T (del_sessions_of (sel_expired_sessions t d) d')"
proof -
  have "c \<notin> set (sel_expired_sessions t d)"
    using assms(1,2) by (auto simp: awaits_def sel_expired_sessions_def lasting_def split: option.splits)
  with assms(3) show ?thesis
    by (auto simp: awaits_split del_sessions_of_def del_sessions_where_def del_deliveries_of_def
        del_deliveries_where_def Let_def intro!: row_waits_filter session_lasts_filter)
qed

section \<open>Runs that keep it\<close>

text \<open>The deliveries a Pod has dropped and counted.\<close>

definition drops :: "'a pod_scheme \<Rightarrow> int" where
  "drops w = counters w (''DeliveriesDroppedTotal'', ''oversized'') + counters w (''DeliveriesDroppedTotal'', ''expired'')"

text \<open>A run on behalf of the client \<open>cid\<close>, whose connection is \<open>served\<close>, or of nobody, keeps
  \<open>P\<close> up to time \<open>T\<close>, or it counts a drop.\<close>

definition named :: "conn_ref option \<Rightarrow> string \<Rightarrow> world \<Rightarrow> bool" where
  "named served cid w \<longleftrightarrow> (case served of None \<Rightarrow> True | Some k \<Rightarrow> clientID (heap w k) = cid)"

definition custody_kept ::
  "conn_ref option \<Rightarrow> string \<Rightarrow> instant \<Rightarrow> (db \<Rightarrow> bool) \<Rightarrow> world \<Rightarrow> world \<Rightarrow> bool" where
  "custody_kept served cid T P w w' \<longleftrightarrow>
     (named served cid w \<longrightarrow>
       named served cid w' \<and> now w \<le> now w' \<and> drops w \<le> drops w' \<and>
       (now w' \<le> T \<and> P (store w) \<longrightarrow> P (store w') \<or> drops w < drops w'))"

text \<open>What the runs below need of \<open>P\<close>: the statements of \<open>custody_step\<close>, a rollback, the expiry
  of sessions and the removal of a QoS 0 delivery keep it.\<close>

locale custody =
  fixes served :: "conn_ref option" and cid :: string and T :: instant and P :: "db \<Rightarrow> bool"
  assumes P_step: "custody_step cid d d' \<Longrightarrow> P d \<Longrightarrow> P d'"
    and P_rollback: "P d \<Longrightarrow> P d' \<Longrightarrow> P (rollback d d')"
    and P_expire: "P d \<Longrightarrow> t \<le> T \<Longrightarrow> P d' \<Longrightarrow>
      P (del_deliveries_of (sel_expired_sessions t d) d') \<and> P (del_sessions_of (sel_expired_sessions t d) d')"
    and P_qos0: "P d \<Longrightarrow> r \<in> set (deliveries d) \<Longrightarrow> d_qos r = 0 \<Longrightarrow> P d' \<Longrightarrow>
      P (snd (del_delivery (d_id r) d'))"

sublocale custody \<subseteq> run_relation "custody_kept served cid T P"
  by unfold_locales (auto simp: custody_kept_def named_def drops_def split: option.splits)

context custody
begin

abbreviation kept :: "world \<Rightarrow> world \<Rightarrow> bool" where
  "kept \<equiv> custody_kept served cid T P"

lemma kept_store: "(P (store w) \<Longrightarrow> P d) \<Longrightarrow> kept w (w\<lparr>store := d\<rparr>)"
  by (auto simp: custody_kept_def named_def drops_def split: option.splits)

lemma kept_sql: "(\<And>d x d'. s d = Inr (x, d') \<Longrightarrow> custody_step cid d d') \<Longrightarrow> keeps kept (sql s)"
  by (rule keeps_sql) (blast intro: kept_store P_step)

lemma kept_exec: "(\<And>d. custody_step cid d (snd (f d))) \<Longrightarrow> keeps kept (exec f)"
  by (rule keeps_exec) (blast intro: kept_store P_step)

lemma kept_execute: "(\<And>d. custody_step cid d (f d)) \<Longrightarrow> keeps kept (execute f)"
  by (rule keeps_execute) (blast intro: kept_store P_step)

lemma kept_roll: "kept w w' \<Longrightarrow> kept w (w'\<lparr>store := rollback (store w) (store w')\<rparr>)"
  by (auto simp: custody_kept_def named_def drops_def intro: P_rollback split: option.splits)

lemma kept_tx [keeps_rules]: "keeps kept body \<Longrightarrow> keeps kept (go_tx body)"
  by (erule keeps_tx) (rule kept_roll)

lemma kept_tx_rest [keeps_rules]: "keeps kept body \<Longrightarrow> keeps kept (tx_rest body)"
  by (erule keeps_tx_rest) (rule kept_roll)

lemma kept_upd [keeps_rules]: "(\<And>c. clientID (f c) = clientID c) \<Longrightarrow> keeps kept (go_upd j f)"
  by (rule keeps_upd) (auto simp: custody_kept_def named_def drops_def split: option.splits)

lemma kept_modify:
  "(\<And>w. heap (g w) = heap w \<and> store (g w) = store w \<and> counters (g w) = counters w \<and> now w \<le> now (g w)) \<Longrightarrow>
   keeps kept (go_modify g)"
  by (rule keeps_modify) (auto simp: custody_kept_def named_def drops_def split: option.splits)

lemma kept_count [keeps_rules]: "n \<noteq> ''DeliveriesDroppedTotal'' \<or> 0 \<le> v \<Longrightarrow> keeps kept (count n l v)"
  by (auto simp: keeps_def custody_kept_def named_def drops_def split: option.splits)

section \<open>Statements\<close>

lemma kept_statements [keeps_rules]:
  "cid' = cid \<Longrightarrow> keeps kept (sql (upd_session_takeover cid' v token t))"
  "cid' = cid \<Longrightarrow> keeps kept (sql (ins_session cid' v token t))"
  "keeps kept (execute (upd_session_timers_null c))"
  "cid' = cid \<Longrightarrow> keeps kept (exec (del_session_token cid' token))"
  "cid' = cid \<Longrightarrow> keeps kept (exec (upd_session_disconnected cid' token f e b t))"
  "keeps kept (execute (upd_sessions_detach self))"
  "keeps kept (execute (upd_sessions_attest self owned t))"
  "keeps kept (sql (upsert_subscription r))"
  "keeps kept (exec (del_subscription c filt))"
  "keeps kept (execute (del_subscriptions_client c))"
  "keeps kept (execute (del_retained topic))"
  "keeps kept (sql (upsert_retained jm topic p q props t))"
  "keeps kept (sql (ins_message topic po q ret props publ ex t))"
  "keeps kept (sql (ins_delivery c i q))"
  "keeps kept (sql (mqtt_publish jm topic po q ret props publ maxq t))"
  "cid' = cid \<Longrightarrow> keeps kept (exec (del_delivery_acked cid' pid q))"
  "cid' = cid \<Longrightarrow> keeps kept (execute (del_deliveries_client cid'))"
  "keeps kept (execute (upd_delivery_pubrec c pid))"
  "keeps kept (sql (ins_inbound_qos2 c pid t))"
  "keeps kept (exec (del_inbound_qos2 c pid))"
  "keeps kept (execute (del_inbound_qos2_client c))"
  "keeps kept (sql (pg_notify cs msg))"
  "keeps kept (sql (claim_delivery pid i))" "keeps kept (sql (claim_delivery_msg pid c i))"
  by (auto intro!: kept_sql kept_exec kept_execute intro: custody_step.intros
      simp: claim_delivery_def claim_delivery_msg_def)

lemma kept_janitor_statements [keeps_rules]:
  "keeps kept (execute (upd_clear_wills cs))"
  "keeps kept (execute (upd_dead_delayed b t))"
  "keeps kept (exec (upd_dead_rest b t))"
  "keeps kept (exec (del_retained_expired t))"
  "keeps kept (exec (del_inbound_stale t))"
  "keeps kept (exec (del_orphan_messages t))"
  "keeps kept (exec (del_orphan_deliveries t))"
  by (auto intro!: kept_exec kept_execute intro: custody_step.intros)

section \<open>Connections\<close>

lemma clientID_kick [simp]: "clientID (kick c) = clientID c"
  by (simp add: kick_def split: option.splits)

lemma kept_conn [keeps_rules]:
  "keeps kept (tryConsumeRateToken k)"
  "keeps kept (resolveAliasForOutbound k topic)"
  "keeps kept (nextPacketIDCandidate k)"
  "keeps kept (ConnFor c)"
  "keeps kept releaseConn"
  "keeps kept tryReserveConn"
  "keeps kept (checkIPLimits_go X addr)"
  by (auto simp: keeps_def custody_kept_def named_def drops_def tryConsumeRateToken_def consume_token_def refill_def
      resolveAliasForOutbound_def resolve_alias_def nextPacketIDCandidate_def ConnFor_def go_ask_def
      releaseConn_def tryReserveConn_def checkIPLimits_go_def Let_def
      split: prod.splits option.splits if_splits)

lemma kept_pod_maps [keeps_rules]:
  "keeps kept (go_modify (\<lambda>w. w\<lparr>conns := g w\<rparr>))"
  "keeps kept (go_modify (\<lambda>w. w\<lparr>iplimit := h w\<rparr>))"
  by (rule kept_modify, simp)+

lemma kept_write [keeps_rules]:
  "keeps kept (conn_write X k pk)" "keeps kept (send_disconnect X k r)"
  unfolding send_disconnect_def conn_write_def by (intro keeps_rules; simp)+

lemma kept_alloc [keeps_rules]: "keeps kept (AllocPacketID k)"
proof -
  have "keeps kept (alloc_loop k n)" for n
    by (induction n) (auto simp only: alloc_loop.simps packetIDInUse_def intro!: keeps_rules)
  then show ?thesis
    unfolding AllocPacketID_def ensurePacketIDSeeded_def by (intro keeps_rules; simp)
qed

lemma kept_flow [keeps_rules]:
  "keeps kept (tryAcquireInflight k)" "keeps kept (KickDrain k)" "keeps kept (returnInflight k)"
  unfolding tryAcquireInflight_def KickDrain_def returnInflight_def by (intro keeps_rules; simp)+

lemma kept_registry [keeps_rules]:
  "keeps kept (registerConn c k)" "keeps kept (unregisterConnIfSame c k)" "keeps kept (shutdown k)"
  "keeps kept (ShutdownForTakeover k)" "keeps kept (gracefulClose X k)"
  unfolding registerConn_def unregisterConnIfSame_def shutdown_def ShutdownForTakeover_def gracefulClose_def
  by (intro keeps_rules; simp)+

section \<open>Publishing\<close>

lemma kept_lift [keeps_rules]: "keeps kept (go_lift r)" "keeps kept (go_check v)"
  unfolding go_lift_def go_check_def by (intro keeps_rules)+

lemma kept_publish [keeps_rules]:
  "keeps kept (publishCore X p)" "keeps kept (kickForQuota X k)"
  "keeps kept (NotifyQuota X b c token)" "keeps kept (NotifyTakeover X b c token)"
  unfolding publishCore_def publish_body_def publish_dedup_def publish_retain_def kickForQuota_def
    NotifyQuota_def NotifyTakeover_def
  by (intro keeps_rules; simp)+

lemma kept_quota [keeps_rules]:
  "keeps kept (QuotaExceededLocallyForToken X c token)" "keeps kept (QuotaExceededLocally X c)"
  unfolding QuotaExceededLocallyForToken_def QuotaExceededLocally_def by (intro keeps_rules)+

lemma kept_dispatchQuotaExceeded [keeps_rules]: "keeps kept (dispatchQuotaExceeded X cs)"
  unfolding dispatchQuotaExceeded_def by (intro keeps_rules)

lemma kept_will [keeps_rules]: "keeps kept (PublishWill X t p q r pr)" "keeps kept (fireWill X k)"
  unfolding fireWill_def PublishWill_def by (intro keeps_rules)+

lemma kept_publish_parts [keeps_rules]:
  "keeps kept (add_inbound k n)" "keeps kept (acquire_inbound X k pk)" "keeps kept (check_publish X k pk)"
  "keeps kept (disconnectForPublishError X k e)"
  unfolding add_inbound_def acquire_inbound_def check_publish_def disconnectForPublishError_def
  by (intro keeps_rules; simp)+

lemma kept_handlePublish [keeps_rules]: "keeps kept (handlePublish X k pk)"
  unfolding handlePublish_def publish_steps_def by (intro keeps_rules; simp)

section \<open>Delivering\<close>

text \<open>A delivery given up is counted.\<close>

lemma kept_counted:
  assumes "reason = ''oversized'' \<or> reason = ''expired''"
  shows "keeps kept (go_then (go_ignore (exec (del_delivery i)))
     (go_then (count ''DeliveriesDroppedTotal'' reason 1) (go_return x)))"
  unfolding keeps_def
proof
  fix w
  obtain r w1 where e: "exec (del_delivery i) w = (r, w1)" by fastforce
  have "\<exists>fs d. w1 = w\<lparr>faults := fs, store := d\<rparr>"
  proof (cases r)
    case (Inl a)
    with e obtain fs where "w1 = w\<lparr>faults := fs\<rparr>" unfolding exec_def by (auto elim: sql_Inl)
    then show ?thesis by (intro exI [of _ fs] exI [of _ "store w"]) simp
  next
    case (Inr a)
    with e obtain fs where "w1 = w\<lparr>faults := fs, store := snd (del_delivery i (store w))\<rparr>"
      by (auto elim: exec_Inr)
    then show ?thesis by blast
  qed
  then show "kept w (snd (go_then (go_ignore (exec (del_delivery i)))
     (go_then (count ''DeliveriesDroppedTotal'' reason 1) (go_return x)) w))"
    using assms by (auto simp: go_ignore_eq e custody_kept_def named_def drops_def split: option.splits)
qed

lemma kept_del_qos0:
  "(\<And>d. P d \<Longrightarrow> P (snd (del_delivery i d))) \<Longrightarrow> keeps kept (exec (del_delivery i))"
  by (rule keeps_exec) (blast intro: kept_store)

lemma kept_claim_packet_id [keeps_rules]: "keeps kept (claim_packet_id k it)"
  unfolding claim_packet_id_def by (intro keeps_rules)

lemma kept_send_outgoing:
  assumes "it_qos it = 0 \<Longrightarrow> (\<And>d. P d \<Longrightarrow> P (snd (del_delivery (it_deliveryID it) d)))"
  shows "keeps kept (send_outgoing X k it pk)"
  unfolding send_outgoing_def by (intro keeps_rules kept_del_qos0; simp add: assms)

lemma kept_alias [keeps_rules]: "keeps kept (alias_outgoing k it pk)"
  unfolding alias_outgoing_def by (intro keeps_rules)

lemma kept_deliver_to:
  assumes "it_qos it = 0 \<Longrightarrow> (\<And>d. P d \<Longrightarrow> P (snd (del_delivery (it_deliveryID it) d)))"
  shows "keeps kept (deliver_to X k it ret dup)"
proof -
  note send = kept_send_outgoing [of it, OF assms]
  show ?thesis
    unfolding deliver_to_def
    by (intro keeps_bind [OF keeps_ask] keeps_case_prod keeps_if kept_counted keeps_bind [OF kept_alias])
       ((simp; fail) | (intro keeps_rules send; assumption))+
qed

lemma kept_deliver:
  assumes "it_qos it = 0 \<Longrightarrow> (\<And>d. P d \<Longrightarrow> P (snd (del_delivery (it_deliveryID it) d)))"
  shows "keeps kept (deliverOneTracked X it ret dup)"
  unfolding deliverOneTracked_def by (intro keeps_rules kept_deliver_to; simp add: assms)

end

text \<open>Whether drops are counted does not depend on \<open>P\<close>. The instance with no \<open>P\<close> to keep
  covers the runs that start from a database where \<open>P\<close> does not hold.\<close>

interpretation counting: custody served cid T "\<lambda>d. False" for served cid T
  by unfold_locales auto

text \<open>Acting on the rows of a query: what is known of them may be used where \<open>P\<close> holds.\<close>

lemma custody_query:
  assumes "\<And>d. P d \<Longrightarrow> keeps (custody_kept served cid T P) (h (f d))"
    and "\<And>x. keeps (custody_kept served cid T (\<lambda>d. False)) (h x)"
  shows "keeps (custody_kept served cid T P) (go_bind (query f) h)"
  unfolding keeps_def
proof
  fix w
  obtain r w1 where q: "query f w = (r, w1)" by fastforce
  then obtain fs where w1: "w1 = w\<lparr>faults := fs\<rparr>" using query_world by blast
  show "custody_kept served cid T P w (snd (go_bind (query f) h w))"
  proof (cases r)
    case (Inl e)
    with q w1 show ?thesis by (auto simp: custody_kept_def named_def drops_def split: option.splits)
  next
    case (Inr x)
    with q have x: "x = f (store w)" by (auto elim: query_Inr)
    show ?thesis
    proof (cases "P (store w)")
      case True
      with assms(1) [of "store w"] x q Inr w1 show ?thesis
        by (auto simp: keeps_def custody_kept_def named_def drops_def split: option.splits dest!: spec [of _ w1])
    next
      case False
      with assms(2) [of x] q Inr w1 show ?thesis
        by (auto simp: keeps_def custody_kept_def named_def drops_def split: option.splits dest!: spec [of _ w1])
    qed
  qed
qed

text \<open>Acting at the present instant: it is not after \<open>T\<close>, or nothing has to be kept.\<close>

lemma custody_now:
  assumes "\<And>t. t \<le> T \<Longrightarrow> keeps (custody_kept served cid T P) (h t)"
    and "\<And>t. keeps (custody_kept served cid T (\<lambda>d. False)) (h t)"
  shows "keeps (custody_kept served cid T P) (go_bind (go_ask now) h)"
  unfolding keeps_def
proof
  fix w
  show "custody_kept served cid T P w (snd (go_bind (go_ask now) h w))"
    using assms(1) [of "now w"] assms(2) [of "now w"]
    by (cases "now w \<le> T") (auto simp: keeps_def custody_kept_def dest!: spec [of _ w])
qed

text \<open>The rows a Pod delivers from.\<close>

lemma delivery_items_row:
  "it \<in> set (delivery_items Q t d) \<Longrightarrow>
   \<exists>r \<in> set (deliveries d). Q r \<and> d_id r = it_deliveryID it \<and> d_qos r = it_qos it"
  by (auto simp: delivery_items_def item_of_def split: if_splits option.splits)

lemma fetched_rows:
  "it \<in> set (sel_deliver msg self t d) \<Longrightarrow> \<exists>r \<in> set (deliveries d). d_id r = it_deliveryID it \<and> d_qos r = it_qos it"
  "it \<in> set (sel_session_queue c t d) \<Longrightarrow> \<exists>r \<in> set (deliveries d). d_id r = it_deliveryID it \<and> d_qos r = it_qos it"
  "sel_drain_one c t d = Some it \<Longrightarrow> 0 < it_qos it"
  using delivery_items_row
  by (fastforce simp: sel_deliver_def sel_session_queue_def sel_drain_one_def split: list.splits
      dest: arg_cong [where f = set])+

context custody
begin

lemma kept_fetched:
  assumes "P d" "\<exists>r \<in> set (deliveries d). d_id r = it_deliveryID it \<and> d_qos r = it_qos it"
  shows "keeps kept (deliverOneTracked X it ret dup)"
  using assms by (intro kept_deliver) (metis P_qos0)

lemma kept_Deliver [keeps_rules]: "keeps kept (Deliver X msg)"
  unfolding Deliver_def
  by (intro keeps_bind [OF keeps_ask] keeps_case_prod custody_query keeps_each keeps_ignore
      counting.keeps_each counting.keeps_ignore kept_fetched counting.kept_deliver)
     (auto dest: fetched_rows(1))

lemma kept_drainOnce [keeps_rules]: "keeps kept (drainOnce X k)"
  unfolding drainOnce_def
  by (intro keeps_bind [OF keeps_ask] keeps_case_prod custody_query)
     (intro keeps_rules kept_deliver counting.keeps_case_option counting.keeps_bind counting.keeps_return
        counting.kept_deliver; auto dest: fetched_rows(3))+

lemma kept_drain [keeps_rules]: "keeps kept (drain_wakeup X k)"
proof -
  have loop: "keeps kept (drain_loop X k n)" for n
  proof (induction n)
    case (Suc n)
    show ?case unfolding drain_loop.simps by (intro keeps_rules Suc)
  qed (unfold drain_loop.simps, intro keeps_rules)
  show ?thesis
    unfolding drain_wakeup_def take_kick_def by (intro loop keeps_rules; simp del: drain_loop.simps)
qed

lemma kept_resend:
  assumes "P d" "\<exists>r \<in> set (deliveries d). d_id r = it_deliveryID it \<and> d_qos r = it_qos it"
  shows "keeps kept (resend X k it)"
  unfolding resend_def by (intro keeps_rules kept_fetched [OF assms])

end

lemma counting_resend: "keeps (custody_kept served cid T (\<lambda>d. False)) (resend X k it)"
  unfolding resend_def by (intro keeps_rules counting.kept_deliver) simp_all

context custody
begin

lemma kept_drainSessionQueue [keeps_rules]: "keeps kept (drainSessionQueue X k)"
  unfolding drainSessionQueue_def
  by (intro keeps_bind [OF keeps_ask] keeps_case_prod custody_query keeps_each counting.keeps_each
      kept_resend counting_resend) (auto dest: fetched_rows(2))

end

section \<open>The Pod, the janitor and the listener\<close>

lemma counting_expiry:
  "keeps (custody_kept served cid T (\<lambda>d. False)) (execute (del_deliveries_of ids))"
  "keeps (custody_kept served cid T (\<lambda>d. False)) (execute (del_sessions_of ids))"
  by (rule counting.keeps_execute, rule counting.kept_store, simp)+

context custody
begin

lemma kept_pod [keeps_rules]:
  "keeps kept KickAllDrains" "keeps kept AttestOwnedSessions" "keeps kept sweepOrphanedSockets"
  "keeps kept (shutdownGracefully X)"
  unfolding KickAllDrains_def AttestOwnedSessions_def sweepOrphanedSockets_def close_orphan_def
    shutdownGracefully_def
  by (intro keeps_rules)+

lemma kept_gauge [keeps_rules]: "keeps kept (swept b n)"
  "g \<noteq> ''DeliveriesDroppedTotal'' \<Longrightarrow> keeps kept (set_gauge g l v)"
  unfolding swept_def set_gauge_def
  by (intro keeps_rules; simp) (rule keeps_modify, auto simp: custody_kept_def named_def drops_def split: option.splits)

lemma kept_wills [keeps_rules]:
  "keeps kept (fireDueWills X E)" "keeps kept (handleDeadBroker X E b)"
  unfolding fireDueWills_def fire_due_def handleDeadBroker_def dead_broker_work_def fire_undelayed_def
    publish_will_row_def
  by (intro keeps_rules; simp)+

end

context custody
begin

lemma kept_expiry:
  assumes "P d" "t \<le> T"
  shows "keeps kept (execute (del_deliveries_of (sel_expired_sessions t d)))"
    "keeps kept (execute (del_sessions_of (sel_expired_sessions t d)))"
  using P_expire [OF assms] by (auto intro!: keeps_execute kept_store)

lemma kept_expireSessions [keeps_rules]: "keeps kept expireSessions"
  unfolding expireSessions_def
proof (rule custody_now; rule keeps_bind counting.keeps_bind)
  fix t assume t: "t \<le> T"
  show "keeps kept (go_tx (go_bind (query (sel_expired_sessions t)) (\<lambda>ids. if ids = [] then go_return 0
      else go_then (execute (del_deliveries_of ids)) (go_then (execute (del_sessions_of ids)) (go_return (length ids))))))"
    by (intro kept_tx custody_query)
       (intro keeps_rules kept_expiry t; assumption | intro keeps_rules counting_expiry)+
qed (intro keeps_rules counting_expiry; simp)+

lemma kept_jobs [keeps_rules]:
  "keeps kept (sweepOrphanDeliveries g)" "keeps kept expireRetained"
  "keeps kept (sweepInboundQoS2 g)" "keeps kept (sweepOrphanMessages g)"
  "keeps kept findDeadBrokerCandidates" "keeps kept (refreshNotifyQueue E)"
  "keeps kept refreshStateGauges" "keeps kept refreshDeliveriesGauge"
  unfolding sweepOrphanDeliveries_def expireRetained_def
    sweepInboundQoS2_def sweepOrphanMessages_def findDeadBrokerCandidates_def refreshNotifyQueue_def refresh_count_def
    refreshStateGauges_def refreshDeliveriesGauge_def
  by (intro keeps_rules; simp)+

lemma kept_run_job [keeps_rules]: "keeps kept (run_job X E j b)"
  by (cases b) (simp_all only: run_job.simps, (intro keeps_rules)+)

lemma kept_timed [keeps_rules]: "keeps kept m \<Longrightarrow> keeps kept (timed b m)"
  unfolding timed_def by (intro keeps_rules; simp)

lemma kept_Tick [keeps_rules]: "keeps kept (Tick X E j)"
proof -
  have each: "keeps kept (tick_each X E t bs j e)" for t bs j e
  proof (induction bs arbitrary: j e)
    case (Cons b bs)
    show ?case unfolding tick_each.simps by (intro keeps_rules Cons)
  qed (unfold tick_each.simps, intro keeps_rules)
  show ?thesis
    unfolding Tick_def tick_dead_def tick_dead_broker_def by (intro keeps_rules each; simp)
qed

lemma kept_sleep: "0 \<le> b \<Longrightarrow> keeps kept (go_sleep b)"
  unfolding go_sleep_def by (rule kept_modify) simp

lemma kept_reconnect [keeps_rules]: "keeps kept (reconnect ctx_done)"
proof -
  have "0 \<le> b \<Longrightarrow> keeps kept (reconnect_loop ctx_done n b)" for n b
  proof (induction n arbitrary: b)
    case (Suc n)
    show ?case
      unfolding reconnect_loop.simps dialAndRegister_def acquireBrokerLock_def
      by (intro keeps_rules kept_sleep Suc.IH next_backoff_pos Suc.prems)
  qed (unfold reconnect_loop.simps, intro keeps_rules)
  then show ?thesis unfolding reconnect_def by (simp add: reconnectInitialBackoff_def)
qed

lemma kept_dispatchNotification [keeps_rules]: "keeps kept (dispatchNotification X self n)"
  unfolding dispatchNotification_def deliver_id_def by (intro keeps_rules)

lemma kept_listener [keeps_rules]: "keeps kept (listener_step X ctx_done r)"
  unfolding listener_step_def
  by (cases r; simp only: wait_result.simps; intro keeps_rules; simp)

end

section \<open>Serving a client\<close>

text \<open>What the code has read of the served connection names the client.\<close>

locale custody_serving = custody +
  fixes k :: conn_ref
  assumes served: "served = Some k"
begin

lemma kept_ask:
  assumes "\<And>w. clientID (heap w k) = cid \<Longrightarrow> keeps kept (f (g w))"
  shows "keeps kept (go_bind (go_ask g) f)"
  unfolding keeps_def
proof
  fix w
  show "kept w (snd (go_bind (go_ask g) f w))"
    using assms [of w] served
    by (cases "clientID (heap w k) = cid") (simp_all add: keeps_def custody_kept_def named_def)
qed

lemma kept_go_conn:
  "(\<And>c. clientID c = cid \<Longrightarrow> keeps kept (f c)) \<Longrightarrow> keeps kept (go_bind (go_conn k) f)"
  unfolding go_conn_def by (rule kept_ask)

lemma kept_acks [keeps_rules]:
  "keeps kept (handlePuback k pk)" "keeps kept (handlePubrec X k pk)"
  "keeps kept (handlePubrel X k pk)" "keeps kept (handlePubcomp k pk)"
  unfolding handlePuback_def handlePubrec_def handlePubrel_def handlePubcomp_def
  by (intro kept_go_conn keeps_rules; simp)+

lemma kept_allocPacketID [keeps_rules]: "keeps kept (allocPacketID k msg)"
  unfolding allocPacketID_def by (intro keeps_rules)

lemma kept_retained_replay [keeps_rules]: "keeps kept (dispatchRetainedForFilter X k d)"
  unfolding dispatchRetainedForFilter_def dispatch_retained_row_def persistRetainedDispatch_def
  by (intro keeps_rules)

lemma kept_subscribe [keeps_rules]: "keeps kept (handleSubscribe X k pk)"
proof -
  have "keeps kept (subscribe_filters c subID fs)" for c subID fs
    by (induction fs) (auto simp only: subscribe_filters.simps subscribe_filter_def intro!: keeps_rules)
  then show ?thesis
    unfolding handleSubscribe_def subscribe_tx_def by (intro keeps_rules; simp)
qed

lemma kept_unsubscribe [keeps_rules]: "keeps kept (handleUnsubscribe X k pk)"
proof -
  have "keeps kept (unsubscribe_filters c fs)" for c fs
    by (induction fs) (auto simp only: unsubscribe_filters.simps unsubscribe_filter_def intro!: keeps_rules)
  then show ?thesis
    unfolding handleUnsubscribe_def by (intro keeps_rules; simp)
qed

lemma kept_reject [keeps_rules]:
  "keeps kept (reject X k pv r e)" "keeps kept (dropConnectOnInfraError s)"
  "keeps kept m \<Longrightarrow> keeps kept (or_drop s m)"
  unfolding reject_def writeConnackReject_def dropConnectOnInfraError_def or_drop_def
  by (intro keeps_rules; simp)+

lemma kept_takeOwnership [keeps_rules]: "keeps kept (takeOwnership k pk token)"
  unfolding takeOwnership_def by (intro kept_ask keeps_rules; simp)

lemma kept_evict [keeps_rules]: "keeps kept (evict_previous X k b token)"
  unfolding evict_previous_def by (intro keeps_rules)

lemma kept_cleanup [keeps_rules]: "cid' = cid \<Longrightarrow> keeps kept (session_cleanup cid' clean)"
  unfolding session_cleanup_def by (intro keeps_rules)

lemma kept_connect_session: "keeps kept (connect_session X k pk token kao)"
  unfolding connect_session_def replay_queue_def
  by (intro kept_go_conn keeps_rules; simp)

lemma kept_handleDisconnect [keeps_rules]: "keeps kept (handleDisconnect X k)"
proof -
  have fate: "keeps kept (case f of SessionDelete \<Rightarrow> m | SessionKeep e \<Rightarrow> n e)"
    if "keeps kept m" "\<And>e. keeps kept (n e)" for f m n
    using that by (cases f) simp_all
  show ?thesis
    unfolding handleDisconnect_def delete_clean_session_def
    by (intro kept_ask keeps_rules fate; simp)
qed

lemma kept_graceful [keeps_rules]: "keeps kept (handleGracefulDisconnect X k pk)"
  unfolding handleGracefulDisconnect_def by (intro keeps_rules; simp)

lemma kept_dispatch [keeps_rules]: "keeps kept (dispatch X k pk)"
  unfolding dispatch_def
  by (cases "ptype pk"; simp only: ptype.simps ptype.distinct simp_thms if_True if_False;
      intro keeps_rules; simp)

lemma kept_read_loop: "keeps kept (read_loop X k n)"
proof (induction n)
  case (Suc n)
  have "keeps kept (conn_read X k)"
    unfolding conn_read_def by (intro keeps_rules; simp)
  then show ?case unfolding read_loop.simps by (intro keeps_rules Suc)
qed (unfold read_loop.simps, intro keeps_rules)

end

section \<open>No silent loss\<close>

text \<open>The client a socket is served for: the one its first packet names.\<close>

definition connect_name :: "packet \<Rightarrow> string \<Rightarrow> string" where
  "connect_name pk auto =
     (if ClientIdentifier (ConnectParams pk) = [] then ''auto-'' @ auto
      else ClientIdentifier (ConnectParams pk))"

definition socket_client :: "ext \<Rightarrow> reader \<Rightarrow> string \<Rightarrow> string option" where
  "socket_client X rd auto =
     (case fst (Read (codec X) rd) of
        Inl e \<Rightarrow> None
      | Inr pk \<Rightarrow> if ptype pk = Connect then Some (connect_name pk auto) else None)"

text \<open>Admission changes no row and gives the connection that name.\<close>

definition admitted :: "world \<Rightarrow> world \<Rightarrow> bool" where
  "admitted w w' \<longleftrightarrow> store w' = store w \<and> now w' = now w \<and> drops w' = drops w"

interpretation admitted: run_relation admitted
  by unfold_locales (auto simp: admitted_def drops_def)

lemma admitted_basic [keeps_rules]:
  "keeps admitted (go_upd k f)" "n \<noteq> ''DeliveriesDroppedTotal'' \<Longrightarrow> keeps admitted (count n l v)"
  "keeps admitted (go_modify (\<lambda>w. w\<lparr>iplimit := h w\<rparr>))"
  "keeps admitted (checkIPLimits_go X addr)" "keeps admitted tryReserveConn" "keeps admitted releaseConn"
  by (auto simp: keeps_def admitted_def drops_def checkIPLimits_go_def tryReserveConn_def releaseConn_def
      split: prod.splits)

lemma admitted_reject [keeps_rules]:
  "keeps admitted (conn_write X k pk)" "keeps admitted (reject X k pv r e)" "keeps admitted (dropConnectOnInfraError s)"
  unfolding conn_write_def reject_def writeConnackReject_def dropConnectOnInfraError_def
  by (intro keeps_rules; simp)+

lemma admitted_admission: "keeps admitted (connect_admission X k pk auto)"
  unfolding connect_admission_def resolve_client_id_def authenticate_connect_def Authenticate_def v5_params_def
  by (intro keeps_rules)

lemma admission_name:
  assumes "connect_admission X k pk auto w = (Inr kao, w')"
  shows "clientID (heap w' k) = connect_name pk auto"
proof -
  from assms obtain w1 w2 w3 w4 w5 w6 cid ka K where
    0: "resolve_client_id X k pk auto w1 = (Inr cid, w2)" and
    1: "go_upd k (\<lambda>c. c\<lparr>clientID := cid, cleanStart := Clean (ConnectParams pk), keepalive := ka\<rparr>) w2 = (Inr (), w3)"
    and 2: "authenticate_connect X k pk w3 = (Inr (), w4)" and 3: "go_upd k (capture_will X pk) w4 = (Inr (), w5)"
    and 4: "v5_params X k pk w5 = (Inr (), w6)"
    and 5: "go_upd k (\<lambda>c. raise_read_cap K (setup_channels c)) w6 = (Inr (), w')"
    by (auto simp: connect_admission_def Let_def go_bind_Inr reject_fails case_prod_beta split: option.splits if_splits)
  from 0 have "cid = connect_name pk auto"
    by (auto simp: resolve_client_id_def connect_name_def Let_def go_bind_Inr reject_fails split: if_splits)
  with 1 have "clientID (heap w3 k) = connect_name pk auto" by auto
  with keepsD [OF owners_auth(1) 2] keepsD [OF owners_auth(3) 3] keepsD [OF owners_auth(2) 4] keepsD [OF owners_auth(4) 5]
  show ?thesis by (simp add: owners_kept_def same_owner_def)
qed

text \<open>What a Pod's action means for a waiting delivery.\<close>

definition left_waiting :: "nat \<Rightarrow> string \<Rightarrow> nat \<Rightarrow> nat \<Rightarrow> instant \<Rightarrow> world \<Rightarrow> world \<Rightarrow> bool" where
  "left_waiting i c q m T w w' \<longleftrightarrow> now w \<le> now w' \<and> drops w \<le> drops w' \<and>
     (now w' \<le> T \<and> awaits i c q m T (store w) \<longrightarrow> awaits i c q m T (store w') \<or> drops w < drops w')"

interpretation left_waiting: run_relation "left_waiting i c q m T" for i c q m T
  by unfold_locales (auto simp: left_waiting_def drops_def)

interpretation waiting: custody served cid T "\<lambda>d. cid = c \<or> awaits i c q m T d" for served cid T i c q m
proof
  show "cid = c \<or> awaits i c q m T (snd (del_delivery (d_id r) d'))"
    if "cid = c \<or> awaits i c q m T d" "r \<in> set (deliveries d)" "d_qos r = 0" "cid = c \<or> awaits i c q m T d'" for r d d'
  proof (cases "cid = c")
    case False
    with that have "d_id r \<noteq> i" by (auto simp: awaits_def)
    with that awaits_delivery_statements(6) show ?thesis by blast
  qed simp
qed (auto dest: awaits_step awaits_expire intro: awaits_rollback)

interpretation serving: custody_serving "Some k" cid T "\<lambda>d. cid = c \<or> awaits i c q m T d" k for k cid T i c q m
  by unfold_locales simp

lemma admitted_left_waiting: "admitted w w' \<Longrightarrow> left_waiting i c q m T w w'"
  by (auto simp: admitted_def left_waiting_def)

lemma kept_left_waiting:
  "custody_kept (Some k) cid T (\<lambda>d. cid = c \<or> awaits i c q m T d) w w' \<Longrightarrow> clientID (heap w k) = cid \<Longrightarrow>
   cid \<noteq> c \<Longrightarrow> left_waiting i c q m T w w'"
  by (auto simp: custody_kept_def left_waiting_def named_def)

lemma unnamed_left_waiting:
  assumes "keeps (custody_kept None (c @ ''x'') T (\<lambda>d. c @ ''x'' = c \<or> awaits i c q m T d)) M"
  shows "keeps (left_waiting i c q m T) M"
  using assms by (auto simp: keeps_def custody_kept_def left_waiting_def named_def)

lemma go_bind_assoc: "go_bind (go_bind M f) g = go_bind M (\<lambda>x. go_bind (f x) g)"
  by (rule ext) (auto simp: go_bind_def split: prod.splits sum.splits)

text \<open>One connection of another client.\<close>

lemma conn_run_waits:
  assumes "socket_client X (reader_of (heap w k)) auto \<noteq> Some c"
  shows "left_waiting i c q m T w (snd (conn_run X k auto token w))"
proof -
  let ?R = "left_waiting i c q m T"
  let ?loop = "go_bind (go_conn k) (\<lambda>c. read_loop X k (length (br (reader_of c)) + 2))"
  let ?body = "go_bind (conn_read X k) (\<lambda>pk.
       if ptype pk \<noteq> Connect then go_fail (ErrProtocol ''first packet not CONNECT'')
       else go_then (handleConnect X k pk auto token) ?loop)"
  have "?R w (snd (?body w))"
  proof -
    obtain r rd where rd: "Read (codec X) (reader_of (heap w k)) = (r, rd)" by fastforce
    let ?w1 = "upd_conn k (\<lambda>c. c\<lparr>reader_of := rd\<rparr>) w"
    have read: "conn_read X k w = go_lift r ?w1" by (simp add: conn_read_def rd)
    have r1: "?R w ?w1" by (rule admitted_left_waiting) (simp add: admitted_def drops_def)
    show ?thesis
    proof (cases "\<exists>pk. r = Inr pk \<and> ptype pk = Connect")
      case False
      with read r1 show ?thesis by (cases r) (auto simp: go_bind_def go_lift_def)
    next
      case True
      then obtain pk where pk: "r = Inr pk" "ptype pk = Connect" by blast
      let ?cid = "connect_name pk auto"
      have ne: "?cid \<noteq> c" using assms pk by (simp add: socket_client_def rd)
      let ?rest = "\<lambda>kao. go_then (connect_session X k pk token kao) ?loop"
      have body: "?body w = go_bind (connect_admission X k pk auto) ?rest ?w1"
        using read pk by (simp add: go_lift_def handleConnect_def go_bind_assoc)
      obtain ra w2 where adm: "connect_admission X k pk auto ?w1 = (ra, w2)" by fastforce
      from keepsD [OF admitted_admission adm] have r2: "?R w w2"
        using r1 left_waiting.R_trans admitted_left_waiting by blast
      show ?thesis
      proof (cases ra)
        case (Inl e)
        with body adm r2 show ?thesis by simp
      next
        case (Inr kao)
        have "keeps (custody_kept (Some k) ?cid T (\<lambda>d. ?cid = c \<or> awaits i c q m T d)) (?rest kao)"
          by (intro waiting.keeps_bind waiting.keeps_conn serving.kept_connect_session serving.kept_read_loop)
        then have "custody_kept (Some k) ?cid T (\<lambda>d. ?cid = c \<or> awaits i c q m T d) w2 (snd (?rest kao w2))"
          by (simp add: keeps_def)
        from kept_left_waiting [OF this admission_name [OF adm [unfolded Inr]] ne] r2
        have "?R w (snd (?rest kao w2))" using left_waiting.R_trans by blast
        with body adm Inr show ?thesis by simp
      qed
    qed
  qed
  moreover have "keeps ?R (shutdown k)" by (intro unnamed_left_waiting keeps_rules)
  ultimately show ?thesis
    unfolding conn_run_def by (auto simp: go_ignore_eq keeps_def intro: left_waiting.R_trans)
qed

lemma accept_waits:
  assumes "socket_client X rd auto \<noteq> Some c"
  shows "left_waiting i c q m T w (snd (accept_conn X k rd addr auto token w))"
proof -
  let ?R = "left_waiting i c q m T"
  obtain refused w1 where lim: "checkIPLimits_go X addr w = (Inr refused, w1)"
    by (cases "checkIPLimits X addr (now w) (iplimit w)") (simp add: checkIPLimits_go_def)
  from keepsD [OF admitted_basic(4) lim] have r1: "?R w w1" by (rule admitted_left_waiting)
  show ?thesis
  proof (cases refused)
    case (Some reason)
    with lim r1 show ?thesis
      by (auto simp: accept_conn_def left_waiting_def drops_def)
  next
    case None
    have "\<exists>ok w2. tryReserveConn w1 = (Inr ok, w2)"
      by (auto simp: tryReserveConn_def)
    then obtain ok w2 where res: "tryReserveConn w1 = (Inr ok, w2)" by blast
    from keepsD [OF admitted_basic(5) res] r1 have r2: "?R w w2"
      using admitted_left_waiting left_waiting.R_trans by blast
    let ?w3 = "upd_conn k (\<lambda>_. newConn (knobs w2) rd addr (now w2)) w2"
    have r3: "?R w ?w3"
      by (rule left_waiting.R_trans [OF r2]) (simp add: left_waiting_def drops_def)
    have "socket_client X (reader_of (heap ?w3 k)) auto \<noteq> Some c" using assms by (simp add: newConn_def)
    from left_waiting.R_trans [OF r3 conn_run_waits [OF this]]
    have r4: "?R w (snd (conn_run X k auto token ?w3))" .
    have "?R w (snd (releaseConn (snd (conn_run X k auto token ?w3))))"
      by (rule left_waiting.R_trans [OF r4], rule admitted_left_waiting)
         (simp add: releaseConn_def admitted_def drops_def)
    with lim None res r2 r4 show ?thesis
      by (cases "conn_run X k auto token ?w3"; cases "fst (conn_run X k auto token ?w3)")
         (auto simp: accept_conn_def releaseConn_def)
  qed
qed

lemma action_waits:
  assumes "\<And>k rd addr auto token. a = ServeSocket k rd addr auto token \<Longrightarrow> socket_client X rd auto \<noteq> Some c"
  shows "left_waiting i c q m T w (run_action X a w)"
proof -
  have quiet: "left_waiting i c q m T w (snd (M w))"
    if "keeps (custody_kept None (c @ ''x'') T (\<lambda>d. c @ ''x'' = c \<or> awaits i c q m T d)) M" for M :: "'a go"
    using unnamed_left_waiting [OF that] by (simp add: keeps_def)
  show ?thesis
  proof (cases a)
    case (ServeSocket k rd addr auto token)
    with accept_waits [OF assms [OF this]] show ?thesis by simp
  next
    case (DeliverMessage msg)
    then show ?thesis using unnamed_left_waiting [OF waiting.kept_Deliver] by (simp add: keeps_def)
  next
    case (DrainWakeup k)
    then show ?thesis using unnamed_left_waiting [OF waiting.kept_drain] by (simp add: keeps_def)
  next
    case (KickQuota cid token)
    then show ?thesis using unnamed_left_waiting [OF waiting.kept_quota(1)] by (simp add: keeps_def)
  next
    case (TakeoverSignal k)
    then show ?thesis using unnamed_left_waiting [OF waiting.kept_registry(4)] by (simp add: keeps_def)
  next
    case (JanitorTick E j)
    then show ?thesis using unnamed_left_waiting [OF waiting.kept_Tick] by (simp add: keeps_def)
  next
    case (Listen ctx_done r)
    then show ?thesis using unnamed_left_waiting [OF waiting.kept_listener] by (simp add: keeps_def)
  qed (use unnamed_left_waiting [OF waiting.kept_pod(1)] unnamed_left_waiting [OF waiting.kept_pod(2)]
      unnamed_left_waiting [OF waiting.kept_pod(3)] unnamed_left_waiting [OF waiting.kept_pod(4)]
      in \<open>simp_all add: keeps_def\<close>)
qed

text \<open>The cluster without the connections of one client, up to an instant.\<close>

fun serves :: "ext \<Rightarrow> string \<Rightarrow> pod_action \<Rightarrow> bool" where
  "serves X c (ServeSocket k rd addr auto token) = (socket_client X rd auto = Some c)"
| "serves X c _ = False"

inductive others_step :: "ext \<Rightarrow> string \<Rightarrow> instant \<Rightarrow> (nat \<Rightarrow> pod) \<times> db \<Rightarrow> (nat \<Rightarrow> pod) \<times> db \<Rightarrow> bool"
  for X c T where
  act: "w = run_action X a (pod_world (pods i) d t fs) \<Longrightarrow> now w \<le> T \<Longrightarrow> \<not> serves X c a \<Longrightarrow>
     others_step X c T (pods, d) (pods(i := pod.truncate w), store w)"

lemma others_step_cluster: "others_step X c T s s' \<Longrightarrow> cluster_step X s s'"
  by (induction rule: others_step.induct) (erule cluster_step.act)

lemma others_step_waits:
  assumes "others_step X c T (pods, d) (pods', d')"
  shows "(\<forall>j. drops (pods j) \<le> drops (pods' j)) \<and>
    (awaits i c q m T d \<longrightarrow> awaits i c q m T d' \<or> (\<exists>j. drops (pods j) < drops (pods' j)))"
  using assms
proof cases
  case (act w a n t fs)
  let ?w0 = "pod_world (pods n) d t fs"
  have "left_waiting i c q m T ?w0 w"
    unfolding act(3) by (rule action_waits) (use act(5) in auto)
  moreover have "store ?w0 = d" "drops ?w0 = drops (pods n)"
    by (simp_all add: pod_world_def pod.defs world.defs drops_def)
  moreover have "drops (pod.truncate w) = drops w" by (simp add: pod.defs drops_def)
  ultimately show ?thesis
    using act by (auto simp: left_waiting_def intro: exI [of _ n])
qed

lemma others_run_waits:
  "(others_step X c T)\<^sup>*\<^sup>* s s' \<Longrightarrow>
   (\<forall>j. drops (fst s j) \<le> drops (fst s' j)) \<and>
   (awaits i c q m T (snd s) \<longrightarrow> awaits i c q m T (snd s') \<or> (\<exists>j. drops (fst s j) < drops (fst s' j)))"
proof (induction rule: rtranclp_induct)
  case (step y z)
  from step(2) have "(\<forall>j. drops (fst y j) \<le> drops (fst z j)) \<and>
    (awaits i c q m T (snd y) \<longrightarrow> awaits i c q m T (snd z) \<or> (\<exists>j. drops (fst y j) < drops (fst z j)))"
    using others_step_waits [of X c T "fst y" "snd y" "fst z" "snd z"] by simp
  with step(3) show ?case by (meson order.trans order.strict_trans1 order.strict_trans2)
qed simp

lemma awaits_row:
  assumes "db_wf d" "r \<in> set (deliveries d)" "0 < d_qos r"
    and "s \<in> set (sessions d)" "s_client_id s = d_client_id r" "lasting T s"
  shows "awaits (d_id r) (d_client_id r) (d_qos r) (d_message_id r) T d"
proof -
  from assms(1) have wf: "inj_on d_id (set (deliveries d))" "inj_on s_client_id (set (sessions d))"
    "\<forall>r \<in> set (deliveries d). d_id r < deliveries_seq d" "d_message_id ` set (deliveries d) \<subseteq> m_id ` set (messages d)"
    by (simp_all add: db_wf_def deliveries_wf_def sessions_wf_def messages_wf_def distinct_map)
  have "row_waits (d_id r) (d_client_id r) (d_qos r) (d_message_id r) (deliveries d)"
    unfolding row_waits_def using assms(2) inj_onD [OF wf(1)] by blast
  moreover have "session_lasts (d_client_id r) T (sessions d)"
    unfolding session_lasts_def using assms(4-6) inj_onD [OF wf(2)] by metis
  ultimately show ?thesis using wf(3,4) assms(2,3) by (auto simp: awaits_split)
qed

text \<open>C5: no silent loss. Let a QoS 1 or 2 delivery wait for a client whose session is not a clean
  start and does not end before \<open>T\<close>. Then, through any sequence of actions of any Pods up to \<open>T\<close>
  (deliveries, drains, take-overs, sweeps, janitor ticks, listener steps, shutdowns, and the
  connections of all other clients), whichever of their statements and writes fail: as long
  as no connection of the client itself is served, the delivery and its message stay in the
  database, or some Pod's counter of dropped deliveries has grown.\<close>

theorem delivery_not_lost:
  assumes "(others_step X (d_client_id r) T)\<^sup>*\<^sup>* (pods, d) (pods', d')"
    and "db_wf d" "r \<in> set (deliveries d)" "0 < d_qos r"
    and "s \<in> set (sessions d)" "s_client_id s = d_client_id r" "lasting T s"
  shows "(\<exists>r' \<in> set (deliveries d'). d_id r' = d_id r \<and> d_client_id r' = d_client_id r \<and>
            d_qos r' = d_qos r \<and> d_message_id r' = d_message_id r) \<and>
         (\<exists>x \<in> set (messages d'). m_id x = d_message_id r)
       \<or> (\<exists>j. drops (pods j) < drops (pods' j))"
proof -
  have "awaits (d_id r) (d_client_id r) (d_qos r) (d_message_id r) T d' \<or> (\<exists>j. drops (pods j) < drops (pods' j))"
    using others_run_waits [OF assms(1)] awaits_row [OF assms(2-7)] by simp
  then show ?thesis unfolding awaits_def by blast
qed

text \<open>The condition on the clean start is needed: the orphan sweep takes the queue of a
  disconnected clean-start session however long the session still has to live.\<close>

lemma orphan_sweep_takes_live_queue:
  assumes "s \<in> set (sessions (store w))" "s_client_id s = d_client_id r" "\<not> s_connected s" "s_clean_start s"
    and "s_last_seen s < now w - g" "sweepOrphanDeliveries g w = (Inr u, w')"
  shows "r \<notin> set (deliveries (store w')) \<and> sessions (store w') = sessions (store w)"
proof -
  from assms(6) obtain n w1 where x: "exec (del_orphan_deliveries (now w - g)) w = (Inr n, w1)"
    and e: "store w' = store w1"
    by (auto simp: sweepOrphanDeliveries_def swept_def go_bind_Inr)
  from x have "store w1 = snd (del_orphan_deliveries (now w - g) (store w))"
    by (auto elim: exec_Inr)
  with assms e show ?thesis
    by (auto simp: del_orphan_deliveries_def del_deliveries_where_def)
qed

text \<open>A Pod claims the delivery and fails to write it to the client's socket.\<close>

definition sample_pod :: pod where
  "sample_pod = pod.truncate (sample_world (sample_queue 1) (sample_conn ''c'' 5))"

definition sample_failures :: "fault option list" where
  "sample_failures = [None, None, None, None, Some (FaultIO ''broken pipe'')]"

lemma sample_failed_delivery:
  "now (run_action sample_ext (DeliverMessage 1) (pod_world sample_pod (sample_queue 1) 1000 sample_failures)) = 1000"
  "map d_state (deliveries (store (run_action sample_ext (DeliverMessage 1)
     (pod_world sample_pod (sample_queue 1) 1000 sample_failures)))) = [1]"
  "drops (run_action sample_ext (DeliverMessage 1) (pod_world sample_pod (sample_queue 1) 1000 sample_failures)) = 0"
  "drops sample_pod = 0"
  by code_simp+

theorem delivery_not_lost_witness:
  "\<exists>d'. (\<exists>pods'. (others_step sample_ext ''c'' 5000)\<^sup>*\<^sup>* (\<lambda>_. sample_pod, sample_queue 1) (pods', d')) \<and>
     map d_state (deliveries d') = [1] \<and> (\<exists>r' \<in> set (deliveries d'). d_client_id r' = ''c'' \<and> d_qos r' = 1)"
proof -
  let ?w = "run_action sample_ext (DeliverMessage 1) (pod_world sample_pod (sample_queue 1) 1000 sample_failures)"
  let ?pods = "(\<lambda>_. sample_pod)(0 := pod.truncate ?w)"
  let ?r = "hd (deliveries (sample_queue 1))"
  have "others_step sample_ext ''c'' 5000 (\<lambda>_. sample_pod, sample_queue 1) (?pods, store ?w)"
    by (rule others_step.act [of _ _ "DeliverMessage 1" "\<lambda>_. sample_pod" 0 "sample_queue 1" 1000 sample_failures])
       (simp_all only: sample_failed_delivery(1) serves.simps, simp_all)
  moreover have r: "?r \<in> set (deliveries (sample_queue 1))" "d_client_id ?r = ''c''" "d_qos ?r = 1"
    by (simp_all add: sample_queue_def)
  ultimately have run: "(others_step sample_ext (d_client_id ?r) 5000)\<^sup>*\<^sup>* (\<lambda>_. sample_pod, sample_queue 1) (?pods, store ?w)"
    by (metis r_into_rtranclp)
  have none: "\<not> (\<exists>j. drops sample_pod < drops (?pods j))"
    using sample_failed_delivery(3,4) by (simp add: drops_def pod.defs del: run_action.simps)
  have s: "sample_session ''c'' (Some (UUID 1)) \<in> set (sessions (sample_queue 1))"
    "s_client_id (sample_session ''c'' (Some (UUID 1))) = d_client_id ?r" "lasting 5000 (sample_session ''c'' (Some (UUID 1)))"
    by (simp_all add: sample_queue_def sample_db_def sample_session_def lasting_def)
  have "0 < d_qos ?r" using r(3) by simp
  from delivery_not_lost [OF run sample_queue_wf r(1) this s] none
  have "\<exists>r' \<in> set (deliveries (store ?w)). d_client_id r' = d_client_id ?r \<and> d_qos r' = d_qos ?r" by auto
  with r(2,3) run sample_failed_delivery(2) show ?thesis by metis
qed

end
