(* ===== verification/EndToEnd.thy ===== *)
theory EndToEnd
  imports ListenerFacts
begin

text \<open>
  From the publisher to the subscriber: the composition of a publish on one Pod, the notification
  it queues, and the delivery on the Pod that serves the client.
\<close>

section \<open>A packet identifier is found\<close>

lemma candidate_index: "unat (candidate (s + 1 + of_nat i)) = unat (s + of_nat i) mod 65535 + 1"
  by (simp add: unat_candidate ac_simps)

text \<open>Of eight consecutive candidates only the two around the wrap of the 32-bit counter can be the
  same.\<close>

lemma candidates_differ:
  fixes s :: "32 word"
  assumes "a < b" "b < 8" "unat (s + of_nat a) mod 65535 = unat (s + of_nat b) mod 65535"
  shows "s + of_nat b = 0"
proof -
  define x where "x = unat (s + of_nat a)"
  define y where "y = unat (s + of_nat b)"
  obtain e where b: "b = a + e" and e: "0 < e" "e < 8"
    using assms(1,2) less_imp_add_positive [OF assms(1)] by auto
  have "s + of_nat b = (s + of_nat a) + of_nat e" using b by simp
  moreover have "unat (of_nat e :: 32 word) = e" using e(2) by (simp add: unat_of_nat)
  ultimately have y: "y = (x + e) mod 2 ^ 32"
    by (simp only: x_def y_def unat_word_ariths) simp
  have x: "x < 2 ^ 32" using unsigned_less [of "s + of_nat a"] by (simp add: x_def)
  have m: "x mod 65535 = y mod 65535" using assms(3) by (simp add: x_def y_def)
  show ?thesis
  proof (cases "x + e < 2 ^ 32")
    case True
    with y have "y = x + e" by simp
    with m have "65535 dvd e" using mod_eq_dvd_iff_nat [of x y 65535] by simp
    with e show ?thesis by (auto dest: dvd_imp_le)
  next
    case False
    have "x + e - 2 ^ 32 < 2 ^ 32" using x e(2) by simp
    then have "y = x + e - 2 ^ 32" using y False by (simp only: le_mod_geq not_less mod_less)
    with False have "y + 2 ^ 32 = x + e" by simp
    then have xy: "x = y + (2 ^ 32 - e)" using e by simp
    with m have "65535 dvd (2 ^ 32 - e)" using mod_eq_dvd_iff_nat [of y x 65535] by simp
    moreover have "(65535 :: nat) dvd 2 ^ 32 - 1" by simp
    moreover have "(2 ^ 32 - 1) - (2 ^ 32 - e) = e - 1" using e by simp
    ultimately have "65535 dvd e - 1" by (metis dvd_diff_nat)
    with e have "e = 1" by (auto dest: dvd_imp_le)
    with xy x have "y = 0" by simp
    then show ?thesis unfolding y_def by (simp only: unat_eq_0)
  qed
qed

definition held_ids :: "string \<Rightarrow> db \<Rightarrow> nat set" where
  "held_ids c d = {pid. exists_packet_id c pid d}"

lemma finite_held_ids: "finite (held_ids c d)"
proof -
  have "held_ids c d \<subseteq> (\<lambda>r. the (d_packet_id r)) ` set (deliveries d)"
    by (force simp: held_ids_def exists_packet_id_def)
  then show ?thesis by (rule finite_subset) simp
qed

lemma free_candidate:
  assumes "card (held_ids c d) < 7"
  shows "\<exists>i < 8. \<not> exists_packet_id c (unat (candidate (s + 1 + of_nat i))) d"
proof (rule ccontr)
  assume "\<not> ?thesis"
  then have all: "unat (candidate (s + 1 + of_nat i)) \<in> held_ids c d" if "i < 8" for i
    using that by (simp add: held_ids_def)
  let ?f = "\<lambda>i. unat (s + of_nat i) mod 65535 + 1"
  let ?I = "{i. i < 8 \<and> (0 < i \<longrightarrow> s + of_nat i \<noteq> 0)}"
  have "inj_on ?f ?I"
  proof (rule inj_onI)
    fix a b assume "a \<in> ?I" "b \<in> ?I" "?f a = ?f b"
    then show "a = b"
      using candidates_differ [of a b s] candidates_differ [of b a s] by (cases a b rule: linorder_cases) auto
  qed
  moreover have "?f ` ?I \<subseteq> held_ids c d" using all by (auto simp: candidate_index)
  ultimately have "card ?I \<le> card (held_ids c d)" by (rule card_inj_on_le [OF _ _ finite_held_ids])
  moreover have "7 \<le> card ?I"
  proof -
    have one: "a = b" if "a < 8" "b < 8" "s + of_nat a = 0" "s + of_nat b = 0" for a b :: nat
    proof -
      have "(of_nat a :: 32 word) = of_nat b" using that by (metis add_left_cancel)
      then have "unat (of_nat a :: 32 word) = unat (of_nat b :: 32 word)" by simp
      with that show ?thesis by (simp add: unat_of_nat)
    qed
    obtain b where b: "{i. i < 8 \<and> s + of_nat i = 0} \<subseteq> {b :: nat}" using one by blast
    have "{0..<8} - {b} \<subseteq> ?I" using b by auto
    then have "card ({0..<8} - {b}) \<le> card ?I" by (rule card_mono [rotated]) simp
    moreover have "7 \<le> card ({0..<8} - {b})" by (simp add: card_Diff_singleton_if)
    ultimately show ?thesis by simp
  qed
  ultimately show False using assms by simp
qed


text \<open>Runs in which no call fails stay so.\<close>

definition unfailing :: "world \<Rightarrow> world \<Rightarrow> bool" where
  "unfailing w w' \<longleftrightarrow> (faults w = [] \<longrightarrow> internal w w' \<and> faults w' = [])"

interpretation unfailing: run_relation unfailing
  by unfold_locales (auto simp: unfailing_def internal_def same_conn_def)

lemma unfailing_upd [keeps_rules]: "(\<And>c. same_conn c (f c)) \<Longrightarrow> keeps unfailing (go_upd k f)"
  by (auto simp: keeps_def unfailing_def internal_def same_conn_def)

lemma unfailing_basic [keeps_rules]:
  "keeps unfailing (nextPacketIDCandidate k)" "keeps unfailing (resolveAliasForOutbound k topic)"
  by (auto simp: keeps_def unfailing_def internal_def same_conn_def nextPacketIDCandidate_def Let_def
      resolveAliasForOutbound_def resolve_alias_def split: prod.splits option.splits if_splits)

lemma unfailing_flow [keeps_rules]:
  "keeps unfailing (tryAcquireInflight k)" "keeps unfailing (alias_outgoing k it pk)" "keeps unfailing (ensurePacketIDSeeded k)"
  "keeps unfailing (alloc_loop k n)" "keeps unfailing (AllocPacketID k)"
proof -
  show "keeps unfailing (ensurePacketIDSeeded k)" unfolding ensurePacketIDSeeded_def by (intro keeps_rules)
  moreover show "keeps unfailing (alloc_loop k n)" for n
    by (induction n) (auto simp only: alloc_loop.simps packetIDInUse_def intro!: keeps_rules)
  ultimately show "keeps unfailing (AllocPacketID k)" unfolding AllocPacketID_def by (intro keeps_rules)
  show "keeps unfailing (tryAcquireInflight k)" "keeps unfailing (alias_outgoing k it pk)"
    unfolding tryAcquireInflight_def alias_outgoing_def by (intro keeps_rules)+
qed

text \<open>With fewer than seven identifiers of the client in use the eight tries of the allocator find
  one, wherever its counter stands.\<close>

lemma AllocPacketID_finds:
  assumes "faults w = []" "card (held_ids (clientID (heap w k)) (store w)) < 7"
  shows "\<exists>pid w'. AllocPacketID k w = (Inr pid, w')"
proof -
  obtain w1 where seeded: "ensurePacketIDSeeded k w = (Inr (), w1)"
    using assms(1) by (cases "packetIDSeeded (heap w k)") (auto simp: ensurePacketIDSeeded_def Let_def)
  from keepsD [OF unfailing_flow(3) this] assms(1) have i: "internal w w1" "faults w1 = []"
    by (auto simp: unfailing_def)
  then have c: "clientID (heap w1 k) = clientID (heap w k)" "store w1 = store w"
    by (auto simp: internal_def same_conn_def)
  obtain i where "i < 8" "\<not> exists_packet_id (clientID (heap w1 k))
      (unat (candidate (packetIDState (heap w1 k) + 1 + of_nat i))) (store w1)"
    using free_candidate [OF assms(2), of "packetIDState (heap w1 k)"] c by auto
  then have "\<exists>pid. fst (alloc_loop k 8 w1) = Inr pid"
    unfolding alloc_loop_search [OF i(2)] by (auto simp: find_None_iff split: option.splits)
  then obtain pid w' where "alloc_loop k 8 w1 = (Inr pid, w')" by (metis prod.collapse)
  with seeded show ?thesis by (auto simp: AllocPacketID_def allocPacketIDMaxRetries_def)
qed

section \<open>A delivery goes out\<close>

lemma claim_delivery_free:
  assumes "db_wf d" "r \<in> set (deliveries d)" "d_state r = 0" "\<not> exists_packet_id (d_client_id r) pid d"
  shows "\<exists>n d'. claim_delivery pid (d_id r) d = Inr (n, d') \<and> 0 < n"
proof -
  let ?hit = "\<lambda>x. d_id x = d_id r \<and> d_state x = 0"
  let ?f = "\<lambda>x. if ?hit x then x\<lparr>d_packet_id := Some pid, d_state := 1\<rparr> else x"
  let ?key = "\<lambda>x. (d_client_id x, d_packet_id x)"
  have ids: "inj_on d_id (set (deliveries d))" "distinct (map d_id (deliveries d))"
    using assms(1) by (simp_all add: db_wf_def deliveries_wf_def distinct_map)
  have old: "inj_on ?key {x \<in> set (deliveries d). d_packet_id x \<noteq> None}"
    using assms(1) by (simp add: db_wf_def deliveries_wf_def packet_ids_unique_def distinct_map)
  have hit: "?hit x \<longleftrightarrow> x = r" if "x \<in> set (deliveries d)" for x
    using that assms(2,3) ids(1) by (auto dest: inj_onD)
  have "map d_id (map ?f (deliveries d)) = map d_id (deliveries d)" by simp
  with ids(2) have "distinct (map d_id (map ?f (deliveries d)))" by (simp only:)
  then have dist: "distinct (map ?f (deliveries d))" by (simp only: distinct_map [of d_id])
  have free: "\<not> (d_client_id x = d_client_id r \<and> d_packet_id x = Some pid)" if "x \<in> set (deliveries d)" for x
    using assms(4) that by (auto simp: exists_packet_id_def)
  have "inj_on ?key {x \<in> set (map ?f (deliveries d)). d_packet_id x \<noteq> None}"
  proof (rule inj_onI)
    fix a b
    assume a: "a \<in> {x \<in> set (map ?f (deliveries d)). d_packet_id x \<noteq> None}"
      and b: "b \<in> {x \<in> set (map ?f (deliveries d)). d_packet_id x \<noteq> None}" and k: "?key a = ?key b"
    from a b obtain x y where x: "x \<in> set (deliveries d)" "a = ?f x" and y: "y \<in> set (deliveries d)" "b = ?f y"
      by auto
    have same: "?f z = z" if "z \<in> set (deliveries d)" "z \<noteq> r" for z
      using hit [OF that(1)] that(2) by auto
    have mine: "?key (?f r) = (d_client_id r, Some pid)" using assms(3) by simp
    consider "x = r" "y = r" | "x = r" "y \<noteq> r" | "x \<noteq> r" "y = r" | "x \<noteq> r" "y \<noteq> r" by blast
    then show "a = b"
    proof cases
      case 1
      then show ?thesis using x(2) y(2) by simp
    next
      case 2
      have "b = y" "a = ?f r" using same [OF y(1) 2(2)] x(2) y(2) 2(1) by (simp_all only:)
      with k mine have "?key y = (d_client_id r, Some pid)" by (simp only:)
      with free [OF y(1)] show ?thesis by simp
    next
      case 3
      have "a = x" "b = ?f r" using same [OF x(1) 3(1)] x(2) y(2) 3(2) by (simp_all only:)
      with k mine have "?key x = (d_client_id r, Some pid)" by (simp only:)
      with free [OF x(1)] show ?thesis by simp
    next
      case 4
      have ab: "a = x" "b = y" using same [OF x(1) 4(1)] same [OF y(1) 4(2)] x(2) y(2) by (simp_all only:)
      with a b k x(1) y(1) show ?thesis using inj_onD [OF old, of x y] by simp
    qed
  qed
  with dist have "packet_ids_unique (map ?f (deliveries d))"
    by (simp add: packet_ids_unique_def distinct_map)
  moreover have "0 < length (filter ?hit (deliveries d))"
    using assms(2,3) by (auto simp: filter_empty_conv)
  ultimately show ?thesis by (simp add: claim_delivery_def claim_deliveries_where_def)
qed

text \<open>A connection on which the next delivery with a payload can go out: registered for its client
  and for no other, open, with a free slot of the send quota, without a packet size limit, and
  with a codec that encodes the payload.\<close>

definition serving :: "ext \<Rightarrow> world \<Rightarrow> string \<Rightarrow> conn_ref \<Rightarrow> bytes \<Rightarrow> bool" where
  "serving X v c k pl \<longleftrightarrow>
     map_of (conns v) c = Some k \<and> (\<forall>c'. map_of (conns v) c' = Some k \<longrightarrow> c' = c) \<and>
     clientID (heap v k) = c \<and> \<not> closing (heap v k) \<and> maxPacketSize (heap v k) = 0 \<and>
     (\<forall>n cap. inflight (heap v k) = Some (n, cap) \<longrightarrow> n < cap) \<and>
     card (held_ids c (store v)) < 7 \<and>
     (\<forall>pk. ptype pk = Publish \<longrightarrow> Payload pk = pl \<longrightarrow> (\<exists>buf. Encode (codec X) pk = Inr buf))"

lemma conn_write_goes:
  assumes "faults w = []" "\<not> closing (heap w k)" "maxPacketSize (heap w k) = 0"
    and "Encode (codec X) (pk\<lparr>pkProtocol := protocol (heap w k)\<rparr>) = Inr buf"
  shows "conn_write X k pk w = (Inr (), upd_conn k (\<lambda>c. c\<lparr>wire := wire c @ [pk\<lparr>pkProtocol := protocol (heap w k)\<rparr>]\<rparr>) w)"
  using assms by (simp add: conn_write_def Let_def)

lemma alias_outgoing_topic:
  assumes "alias_outgoing k it pk w = (Inr pk', w')"
  shows "TopicName pk' = TopicName pk \<or> 0 < TopicAlias (Properties pk')"
    "Dup pk' = Dup pk" "Retain pk' = Retain pk" "ptype pk' = ptype pk" "Payload pk' = Payload pk" "Qos pk' = Qos pk"
  using assms
  by (auto simp: alias_outgoing_def go_bind_Inr apply_alias_def split: if_splits prod.splits)

text \<open>What \<open>send_outgoing\<close> needs of a world: no failures scheduled, the connection able to write,
  and for QoS 0 the row still there.\<close>

lemma send_outgoing_goes:
  assumes "faults w = []" "\<not> closing (heap w k)" "maxPacketSize (heap w k) = 0"
    and "Encode (codec X) (pk\<lparr>pkProtocol := protocol (heap w k)\<rparr>) = Inr buf"
    and "it_qos it = 0 \<longrightarrow> (\<exists>r \<in> set (deliveries (store w)). d_id r = it_deliveryID it)"
  shows "\<exists>w'. send_outgoing X k it pk w = (Inr True, w') \<and> faults w' = [] \<and> conns w' = conns w \<and> now w' = now w \<and>
    wire (heap w' k) = wire (heap w k) @ [pk\<lparr>pkProtocol := protocol (heap w k)\<rparr>]"
proof (cases "it_qos it = 0")
  case True
  let ?w1 = "w\<lparr>store := snd (del_delivery (it_deliveryID it) (store w))\<rparr>"
  have "0 < fst (del_delivery (it_deliveryID it) (store w))"
    using assms(5) True by (auto simp: del_delivery_def del_deliveries_where_def filter_empty_conv)
  moreover have "conn_write X k pk ?w1 = (Inr (), upd_conn k
      (\<lambda>c. c\<lparr>wire := wire c @ [pk\<lparr>pkProtocol := protocol (heap w k)\<rparr>]\<rparr>) ?w1)"
    using conn_write_goes [of ?w1 k X pk buf] assms(1-4) by simp
  ultimately show ?thesis
    using True assms(1) by (simp add: send_outgoing_def exec_ok)
next
  case False
  then show ?thesis
    using conn_write_goes [OF assms(1-4)] assms(1) by (simp add: send_outgoing_def)
qed

lemma tryAcquire_free:
  assumes "\<forall>n cap. inflight (heap w k) = Some (n, cap) \<longrightarrow> n < cap"
  shows "\<exists>w'. tryAcquireInflight k w = (Inr True, w')"
  using assms by (cases "inflight (heap w k)") (auto simp: tryAcquireInflight_def)

lemma alias_outgoing_keeps_slots:
  assumes "alias_outgoing k it pk w = (r, w')"
  shows "inflight (heap w' k) = inflight (heap w k)"
  using assms
  by (auto simp: alias_outgoing_def go_bind_def resolveAliasForOutbound_def resolve_alias_def Let_def
      split: if_splits prod.splits option.splits)

lemma alias_outgoing_Inr: "\<exists>pk' w'. alias_outgoing k it pk w = (Inr pk', w')"
  by (cases "resolve_alias (it_topic it) (heap w k)")
     (simp add: alias_outgoing_def go_bind_def resolveAliasForOutbound_def)

lemma deliver_to_goes:
  assumes "serving X w c k (it_payload it)" "faults w = []" "db_wf (store w)" "live (now w) (it_expiresAt it)"
    and "r \<in> set (deliveries (store w))" "d_id r = it_deliveryID it" "d_client_id r = c" "d_state r = 0"
    and "it_state it = 0"
  shows "\<exists>pk w'. deliver_to X k it ret False w = (Inr True, w') \<and> faults w' = [] \<and> conns w' = conns w \<and>
    now w' = now w \<and> wire (heap w' k) = wire (heap w k) @ [pk] \<and> ptype pk = Publish \<and> Qos pk = it_qos it \<and>
    Payload pk = it_payload it \<and> \<not> Dup pk \<and> Retain pk = ret \<and>
    (TopicName pk = it_topic it \<or> 0 < TopicAlias (Properties pk))"
proof -
  let ?out = "outgoing X (protocol (heap w k)) (now w) it ret False"
  note s = assms(1) [unfolded serving_def]
  obtain pk w1 where al: "alias_outgoing k it ?out w = (Inr pk, w1)" using alias_outgoing_Inr by blast
  then have i1: "internal w w1" "faults w1 = []"
    using keepsD [OF unfailing_flow(2) al] assms(2) by (auto simp: unfailing_def)
  have pk: "ptype pk = Publish" "Qos pk = it_qos it" "Payload pk = it_payload it" "\<not> Dup pk" "Retain pk = ret"
    "TopicName pk = it_topic it \<or> 0 < TopicAlias (Properties pk)"
    using alias_outgoing_topic [OF al] by (auto simp: outgoing_def new_packet_def Let_def)
  have enc: "\<exists>buf. Encode (codec X) (pk\<lparr>PacketID := pid, pkProtocol := pr\<rparr>) = Inr buf"
    "\<exists>buf. Encode (codec X) (pk\<lparr>pkProtocol := pr\<rparr>) = Inr buf" for pid pr
    using s pk by auto
  have small: "\<not> probe_oversized X (heap w k) pk" using s by (simp add: probe_oversized_def)
  show ?thesis
  proof (cases "it_qos it = 0")
    case True
    have st: "same_conn (heap w k) (heap w1 k)" "store w1 = store w" "conns w1 = conns w" "now w1 = now w"
      using i1(1) by (auto simp: internal_def)
    from enc(2) obtain buf where "Encode (codec X) (pk\<lparr>pkProtocol := protocol (heap w1 k)\<rparr>) = Inr buf" by blast
    then obtain w' where "send_outgoing X k it pk w1 = (Inr True, w')" "faults w' = []" "conns w' = conns w1"
      "now w' = now w1" "wire (heap w' k) = wire (heap w1 k) @ [pk\<lparr>pkProtocol := protocol (heap w1 k)\<rparr>]"
      using send_outgoing_goes [OF i1(2), of k X pk buf it] st s assms(5,6)
      by (auto simp: same_conn_def)
    with al small assms(4) True st pk show ?thesis
      by (intro exI [of _ "pk\<lparr>pkProtocol := protocol (heap w1 k)\<rparr>"] exI [of _ w'])
         (simp add: deliver_to_def same_conn_def)
  next
    case False
    obtain w2 where ac: "tryAcquireInflight k w1 = (Inr True, w2)"
      using tryAcquire_free [of w1 k] alias_outgoing_keeps_slots [OF al] s by auto
    then have i2: "internal w w2" "faults w2 = []"
      using keepsD [OF unfailing_flow(1) ac] i1 internal.R_trans by (auto simp: unfailing_def)
    then have c2: "clientID (heap w2 k) = c" "store w2 = store w" using s by (auto simp: internal_def same_conn_def)
    then obtain pid w3 where apid: "AllocPacketID k w2 = (Inr pid, w3)"
      using AllocPacketID_finds [OF i2(2), of k] s by auto
    then have i3: "internal w w3" "faults w3 = []"
      using keepsD [OF unfailing_flow(5) apid] i2 internal.R_trans by (auto simp: unfailing_def)
    have free: "\<not> exists_packet_id (d_client_id r) (unat pid) (store w)"
      using AllocPacketID_sound [OF apid] c2 assms(7) by simp
    obtain n d where cl: "claim_delivery (unat pid) (it_deliveryID it) (store w) = Inr (n, d)" "0 < n"
      using claim_delivery_free [OF assms(3,5,8) free] assms(6) by auto
    let ?w4 = "w3\<lparr>store := d\<rparr>"
    have st: "same_conn (heap w k) (heap w3 k)" "store w3 = store w" "conns w3 = conns w" "now w3 = now w"
      using i3(1) by (auto simp: internal_def)
    have claim: "claim_packet_id k it w2 = (Inr (Some pid), ?w4)"
      using apid cl i3(2) st assms(9) by (simp add: claim_packet_id_def sql_ok)
    let ?pk = "pk\<lparr>PacketID := pid\<rparr>"
    from enc(1) obtain buf where "Encode (codec X) (?pk\<lparr>pkProtocol := protocol (heap ?w4 k)\<rparr>) = Inr buf" by blast
    then obtain w' where "send_outgoing X k it ?pk ?w4 = (Inr True, w')" "faults w' = []" "conns w' = conns ?w4"
      "now w' = now ?w4" "wire (heap w' k) = wire (heap ?w4 k) @ [?pk\<lparr>pkProtocol := protocol (heap ?w4 k)\<rparr>]"
      using send_outgoing_goes [of ?w4 k X ?pk buf it] i3(2) st s False by (auto simp: same_conn_def)
    with al small assms(4,9) False st pk ac claim show ?thesis
      by (intro exI [of _ "?pk\<lparr>pkProtocol := protocol (heap ?w4 k)\<rparr>"] exI [of _ w'])
         (simp add: deliver_to_def same_conn_def)
  qed
qed

section \<open>The deliveries of the other clients\<close>

text \<open>A run that leaves the client alone: its connection stays as it is, and so do its rows if the
  rows the run works on (\<open>ids\<close>) are not the client's.\<close>

definition others_rows :: "nat set \<Rightarrow> string \<Rightarrow> db \<Rightarrow> bool" where
  "others_rows ids c d \<longleftrightarrow> (\<forall>r \<in> set (deliveries d). d_id r \<in> ids \<longrightarrow> d_client_id r \<noteq> c)"

definition rows_of :: "string \<Rightarrow> db \<Rightarrow> delivery_row list" where
  "rows_of c d = filter (\<lambda>r. d_client_id r = c) (deliveries d)"

definition away :: "nat set \<Rightarrow> string \<Rightarrow> conn_ref \<Rightarrow> world \<Rightarrow> world \<Rightarrow> bool" where
  "away ids c k w w' \<longleftrightarrow> conns w' = conns w \<and> now w' = now w \<and> heap w' k = heap w k \<and>
     (faults w = [] \<longrightarrow> faults w' = []) \<and>
     (others_rows ids c (store w) \<longrightarrow> rows_of c (store w') = rows_of c (store w))"

lemma others_rows_of: "others_rows ids c d \<longleftrightarrow> (\<forall>r \<in> set (rows_of c d). d_id r \<notin> ids)"
  by (auto simp: others_rows_def rows_of_def)

lemma rows_of_member: "r \<in> set (rows_of c d) \<longleftrightarrow> r \<in> set (deliveries d) \<and> d_client_id r = c"
  by (auto simp: rows_of_def)

lemma held_ids_rows: "held_ids c d = {pid. \<exists>r \<in> set (rows_of c d). d_packet_id r = Some pid}"
  by (auto simp: held_ids_def exists_packet_id_def rows_of_member)

interpretation away: run_relation "away ids c k"
  by unfold_locales (auto simp: away_def others_rows_of)

lemma away_upd [keeps_rules]: "j \<noteq> k \<Longrightarrow> keeps (away ids c k) (go_upd j f)"
  by (auto simp: keeps_def away_def)

lemma away_count [keeps_rules]: "keeps (away ids c k) (count n l i)"
  by (simp add: keeps_def away_def)

lemma away_del [keeps_rules]: "i \<in> ids \<Longrightarrow> keeps (away ids c k) (exec (del_delivery i))"
  by (rule away.keeps_exec)
     (auto simp: away_def others_rows_def rows_of_def del_delivery_def del_deliveries_where_def
        intro!: filter_cong)

lemma away_claim [keeps_rules]:
  assumes "i \<in> ids"
  shows "keeps (away ids c k) (sql (claim_delivery pid i))"
proof (rule away.keeps_sql)
  fix w :: world and x d
  assume "claim_delivery pid i (store w) = Inr (x, d)"
  then have d: "deliveries d = map (\<lambda>r. if d_id r = i \<and> d_state r = 0
      then r\<lparr>d_packet_id := Some pid, d_state := 1\<rparr> else r) (deliveries (store w))"
    by (auto simp: claim_delivery_def claim_deliveries_where_def Let_def split: if_splits)
  have same: "filter (\<lambda>r. d_client_id r = c) (map (\<lambda>r. if d_id r = i \<and> d_state r = 0
      then r\<lparr>d_packet_id := Some pid, d_state := 1\<rparr> else r) rs) = filter (\<lambda>r. d_client_id r = c) rs"
    if "\<forall>r \<in> set rs. d_id r \<in> ids \<longrightarrow> d_client_id r \<noteq> c" for rs
    using that assms by (induction rs) auto
  show "away ids c k w (w\<lparr>store := d\<rparr>)"
    unfolding away_def others_rows_def rows_of_def using same [of "deliveries (store w)"] d
    by (intro conjI impI) simp_all
qed

lemma away_basic [keeps_rules]:
  assumes "j \<noteq> k"
  shows "keeps (away ids c k) (nextPacketIDCandidate j)" "keeps (away ids c k) (resolveAliasForOutbound j topic)"
    "keeps (away ids c k) (ensurePacketIDSeeded j)" "keeps (away ids c k) (returnInflight j)"
    "keeps (away ids c k) (tryAcquireInflight j)" "keeps (away ids c k) (alias_outgoing j it pk)"
    "keeps (away ids c k) (conn_write X j pk)"
proof -
  show *: "keeps (away ids c k) (nextPacketIDCandidate j)" "keeps (away ids c k) (resolveAliasForOutbound j topic)"
    using assms by (auto simp: keeps_def away_def nextPacketIDCandidate_def resolveAliasForOutbound_def Let_def
        split: prod.splits)
  have "keeps (away ids c k) (resolveAliasForOutbound j topic)" for topic
    using assms by (auto simp: keeps_def away_def resolveAliasForOutbound_def split: prod.splits)
  with assms show "keeps (away ids c k) (alias_outgoing j it pk)"
    unfolding alias_outgoing_def by (intro keeps_rules)
  show "keeps (away ids c k) (ensurePacketIDSeeded j)" "keeps (away ids c k) (returnInflight j)"
    "keeps (away ids c k) (tryAcquireInflight j)" "keeps (away ids c k) (conn_write X j pk)"
    unfolding ensurePacketIDSeeded_def returnInflight_def tryAcquireInflight_def conn_write_def KickDrain_def Let_def
    by (intro keeps_rules assms)+
qed

lemma away_alloc [keeps_rules]:
  assumes "j \<noteq> k"
  shows "keeps (away ids c k) (AllocPacketID j)"
proof -
  have "keeps (away ids c k) (alloc_loop j n)" for n
    by (induction n) (auto simp only: alloc_loop.simps packetIDInUse_def intro!: keeps_rules assms)
  then show ?thesis unfolding AllocPacketID_def by (intro keeps_rules assms)
qed

lemma away_deliver_to:
  assumes "j \<noteq> k" "it_deliveryID it \<in> ids"
  shows "keeps (away ids c k) (deliver_to X j it ret dup)"
  unfolding deliver_to_def claim_packet_id_def send_outgoing_def
  by (intro keeps_rules assms)

lemma away_each:
  assumes "\<forall>it \<in> set its. it_clientID it \<noteq> c \<and> it_deliveryID it \<in> ids"
    and "\<forall>c'. map_of (conns w) c' = Some k \<longrightarrow> c' = c"
  shows "\<exists>w'. go_each (\<lambda>it. go_ignore (deliverOneTracked X it (wire_retain it) False)) its w = (Inr (), w') \<and>
    away ids c k w w' \<and> db_steps (store w) (store w')"
  using assms
proof (induction its arbitrary: w)
  case Nil
  then show ?case by (simp add: away.R_refl)
next
  case (Cons it its)
  obtain r w1 where d: "deliverOneTracked X it (wire_retain it) False w = (r, w1)" by fastforce
  have "away ids c k w w1"
  proof (cases "map_of (conns w) (it_clientID it)")
    case None
    with d show ?thesis by (auto simp: deliverOneTracked_def ConnFor_def away.R_refl)
  next
    case (Some j)
    with Cons.prems have "j \<noteq> k" "it_deliveryID it \<in> ids" by auto
    moreover from Some d have "deliver_to X j it (wire_retain it) False w = (r, w1)"
      by (simp add: deliverOneTracked_def ConnFor_def)
    ultimately show ?thesis using keepsD [OF away_deliver_to] by blast
  qed
  moreover have "db_steps (store w) (store w1)"
    using keepsD [OF moves_deliver d] by (simp add: moves_def)
  moreover from calculation(1) have "conns w1 = conns w" by (simp add: away_def)
  with Cons.prems have "\<forall>it \<in> set its. it_clientID it \<noteq> c \<and> it_deliveryID it \<in> ids"
    "\<forall>c'. map_of (conns w1) c' = Some k \<longrightarrow> c' = c" by simp_all
  from Cons.IH [OF this] obtain w' where
    "go_each (\<lambda>it. go_ignore (deliverOneTracked X it (wire_retain it) False)) its w1 = (Inr (), w')"
    "away ids c k w1 w'" "db_steps (store w1) (store w')"
    by blast
  moreover have "go_ignore (deliverOneTracked X it (wire_retain it) False) w = (Inr (), w1)"
    using d by (simp add: go_ignore_eq)
  ultimately show ?case by (intro exI [of _ w']) (auto intro: away.R_trans rtranclp_trans)
qed

lemma go_each_append:
  "go_each f xs w = (Inr (), w1) \<Longrightarrow> go_each f (xs @ ys) w = go_each f ys w1"
proof (induction xs arbitrary: w)
  case (Cons x xs)
  from Cons.prems obtain w2 where "f x w = (Inr (), w2)" "go_each f xs w2 = (Inr (), w1)"
    by (auto simp: go_bind_Inr)
  with Cons.IH [OF this(2)] show ?case by simp
qed simp

section \<open>The scan finds the new delivery\<close>

lemma sel_deliver_split:
  assumes "filter (\<lambda>r. d_client_id r = c \<and> d_message_id r = msg) (deliveries d) = [r]" "d_state r = 0"
    and "s \<in> set (sessions d)" "s_client_id s = c" "s_broker_id s = Some self"
    and "message_of msg d = Some m" "live t (m_expires_at m)"
  shows "\<exists>pre post. sel_deliver msg self t d = pre @ item_of d r m # post \<and>
    (\<forall>it \<in> set (pre @ post). it_clientID it \<noteq> c \<and>
       (\<exists>r \<in> set (deliveries d). d_id r = it_deliveryID it \<and> d_client_id r = it_clientID it))"
proof -
  from filter_eq_ConsD [OF assms(1)] obtain us vs where ds: "deliveries d = us @ r # vs"
    and out: "\<forall>x \<in> set us. \<not> (d_client_id x = c \<and> d_message_id x = msg)"
    and r: "d_client_id r = c" "d_message_id r = msg"
    and vs: "filter (\<lambda>r. d_client_id r = c \<and> d_message_id r = msg) vs = []"
    by auto
  from vs have out2: "\<forall>x \<in> set vs. \<not> (d_client_id x = c \<and> d_message_id x = msg)"
    by (simp only: filter_empty_conv)
  define P where "P = (\<lambda>r :: delivery_row. d_message_id r = msg \<and> d_state r = 0 \<and>
       (\<exists>s \<in> set (sessions d). s_client_id s = d_client_id r \<and> s_broker_id s = Some self))"
  define f where "f = (\<lambda>r :: delivery_row. if P r then
         (case message_of (d_message_id r) d of
            None \<Rightarrow> []
          | Some m \<Rightarrow> if live t (m_expires_at m) then [item_of d r m] else []) else [])"
  have "P r" using assms(2-5) r by (auto simp: P_def intro!: bexI [of _ s])
  then have fr: "f r = [item_of d r m]" using assms(6,7) r by (simp add: f_def)
  have "sel_deliver msg self t d = concat (map f (deliveries d))"
    unfolding sel_deliver_def delivery_items_def f_def P_def ..
  then have sel: "sel_deliver msg self t d = concat (map f us) @ item_of d r m # concat (map f vs)"
    by (simp add: ds fr)
  have "it_clientID it \<noteq> c \<and> (\<exists>r \<in> set (deliveries d). d_id r = it_deliveryID it \<and> d_client_id r = it_clientID it)"
    if "x \<in> set us \<union> set vs" "it \<in> set (f x)" for x it
  proof -
    have P: "P x" using that(2) by (rule contrapos_pp) (simp add: f_def)
    moreover from P that(2) have "\<exists>m. it = item_of d x m"
      by (cases "message_of (d_message_id x) d") (auto simp: f_def split: if_split_asm)
    ultimately have x: "d_message_id x = msg" "it_clientID it = d_client_id x" "it_deliveryID it = d_id x"
      unfolding P_def by (auto simp: item_of_def)
    moreover from that(1) ds have "x \<in> set (deliveries d)" by auto
    moreover from that(1) out out2 x(1) have "d_client_id x \<noteq> c" by auto
    ultimately show ?thesis by auto
  qed
  then have "\<forall>it \<in> set (concat (map f us) @ concat (map f vs)). it_clientID it \<noteq> c \<and>
       (\<exists>r \<in> set (deliveries d). d_id r = it_deliveryID it \<and> d_client_id r = it_clientID it)"
    by auto
  with sel show ?thesis by blast
qed

lemma Deliver_reaches:
  assumes "serving X v c k (m_payload m)" "faults v = []" "db_wf (store v)"
    and "filter (\<lambda>r. d_client_id r = c \<and> d_message_id r = msg) (deliveries (store v)) = [r]" "d_state r = 0"
    and "s \<in> set (sessions (store v))" "s_client_id s = c" "s_broker_id s = Some (brokerID v)"
    and "message_of msg (store v) = Some m" "live (now v) (m_expires_at m)"
  shows "\<exists>pk v'. Deliver X msg v = (Inr (), v') \<and> wire (heap v' k) = wire (heap v k) @ [pk] \<and>
    ptype pk = Publish \<and> Qos pk = d_qos r \<and> Payload pk = m_payload m \<and> \<not> Dup pk \<and>
    (TopicName pk = m_topic m \<or> 0 < TopicAlias (Properties pk))"
proof -
  let ?it = "item_of (store v) r m"
  let ?send = "\<lambda>it. go_ignore (deliverOneTracked X it (wire_retain it) False)"
  have r: "r \<in> set (deliveries (store v))" "d_client_id r = c"
    using filter_eq_ConsD [OF assms(4)] by auto
  from sel_deliver_split [OF assms(4-10)] obtain pre post where
    sel: "sel_deliver msg (brokerID v) (now v) (store v) = pre @ ?it # post"
    and other: "\<forall>it \<in> set (pre @ post). it_clientID it \<noteq> c \<and>
       (\<exists>r \<in> set (deliveries (store v)). d_id r = it_deliveryID it \<and> d_client_id r = it_clientID it)"
    by blast
  define ids where "ids = it_deliveryID ` set (pre @ post)"
  have "others_rows ids c (store v)"
    unfolding others_rows_def
  proof (intro ballI impI notI)
    fix x assume x: "x \<in> set (deliveries (store v))" "d_id x \<in> ids" "d_client_id x = c"
    from x(2) other obtain y where "y \<in> set (deliveries (store v))" "d_id y = d_id x" "d_client_id y \<noteq> c"
      unfolding ids_def by fastforce
    with x assms(3) show False by (auto simp: db_wf_def deliveries_wf_def distinct_map inj_on_def)
  qed
  moreover have only: "\<forall>c'. map_of (conns v) c' = Some k \<longrightarrow> c' = c" using assms(1) by (simp add: serving_def)
  have "\<forall>it \<in> set pre. it_clientID it \<noteq> c \<and> it_deliveryID it \<in> ids" using other by (simp add: ids_def)
  from away_each [OF this only] obtain v1 where
    v1: "go_each ?send pre v = (Inr (), v1)" "away ids c k v v1" "db_steps (store v) (store v1)" by blast
  ultimately have a: "conns v1 = conns v" "now v1 = now v" "heap v1 k = heap v k" "faults v1 = []"
    "rows_of c (store v1) = rows_of c (store v)"
    using assms(2) by (auto simp: away_def)
  have held: "held_ids c (store v1) = held_ids c (store v)"
    by (simp only: held_ids_rows a(5))
  then have "serving X v1 c k (it_payload ?it)" using assms(1) a by (simp add: serving_def item_of_def)
  moreover have "db_wf (store v1)" using v1(3) assms(3) by (rule db_wf_steps)
  moreover have "r \<in> set (deliveries (store v1))" using r a(5) by (metis rows_of_member)
  moreover have it: "it_expiresAt ?it = m_expires_at m" "it_deliveryID ?it = d_id r" "it_state ?it = d_state r"
    by (simp_all add: item_of_def)
  ultimately obtain pk v2 where
    v2: "deliver_to X k ?it (wire_retain ?it) False v1 = (Inr True, v2)" "conns v2 = conns v1"
      "wire (heap v2 k) = wire (heap v1 k) @ [pk]" "ptype pk = Publish" "Qos pk = it_qos ?it"
      "Payload pk = it_payload ?it" "\<not> Dup pk" "TopicName pk = it_topic ?it \<or> 0 < TopicAlias (Properties pk)"
    using deliver_to_goes [of X v1 c k ?it r "wire_retain ?it"] it a(2,4) assms(5,10) r by auto
  have "map_of (conns v1) c = Some k" using assms(1) a by (simp add: serving_def)
  then have "?send ?it v1 = (Inr (), v2)"
    using v2(1) r by (simp add: go_ignore_eq deliverOneTracked_def ConnFor_def item_of_def)
  moreover have "\<forall>it \<in> set post. it_clientID it \<noteq> c \<and> it_deliveryID it \<in> ids" using other by (simp add: ids_def)
  from away_each [OF this, of v2 k X] obtain v3 where
    v3: "go_each ?send post v2 = (Inr (), v3)" "away ids c k v2 v3" using only a v2(2) by auto
  ultimately have "go_each ?send (pre @ ?it # post) v = (Inr (), v3)"
    using go_each_append [OF v1(1)] by simp
  then have "Deliver X msg v = (Inr (), v3)" using assms(2) by (simp add: Deliver_def sel)
  with v2 v3(2) a show ?thesis
    by (intro exI [of _ pk] exI [of _ v3]) (simp add: away_def item_of_def)
qed

text \<open>What a publish leaves for one client: exactly one queued row of the new message.\<close>

lemma publish_new_row:
  assumes "publishCore X p w = (Inr res, w')" "db_wf (store w)"
    and "fanout_qos (pc_Topic p) (publisher_of p) (pc_QoS p) (maxQueued (knobs w)) (store w) c = Some q"
  shows "\<exists>r. filter (\<lambda>r. d_client_id r = c \<and> d_message_id r = MessageID res) (deliveries (store w')) = [r] \<and>
    d_state r = 0 \<and> d_qos r = q"
proof -
  from publish_rows [OF assms(1,2)] obtain new where
    ds: "deliveries (store w') = deliveries (store w) @ new"
    and v: "map delivery_view (filter (\<lambda>r. d_client_id r = c) new) = [(q, MessageID res, 0, None)]"
    using assms(3) by fastforce
  from v obtain r where r: "filter (\<lambda>r. d_client_id r = c) new = [r]" "delivery_view r = (q, MessageID res, 0, None)"
    by (auto simp: map_eq_Cons_conv)
  have id: "MessageID res = messages_seq (store w)"
    using publish_db_effect [OF publishCore_Inr [OF assms(1)]] by auto
  have "d_message_id x \<noteq> MessageID res" if "x \<in> set (deliveries (store w))" for x
    using that assms(2) id by (fastforce simp: db_wf_def messages_wf_def)
  then have "filter (\<lambda>r. d_client_id r = c \<and> d_message_id r = MessageID res) (deliveries (store w)) = []"
    by (simp add: filter_empty_conv)
  moreover have "filter (\<lambda>r. d_client_id r = c \<and> d_message_id r = MessageID res) new =
      filter (\<lambda>r. d_message_id r = MessageID res) (filter (\<lambda>r. d_client_id r = c) new)"
    by (simp add: conj_commute)
  ultimately show ?thesis using r ds by (simp add: delivery_view_def)
qed

lemma message_of_new:
  assumes "publishCore X p w = (Inr res, w')" "db_wf (store w)"
  shows "\<exists>m. message_of (MessageID res) (store w') = Some m \<and> m_topic m = pc_Topic p \<and>
    pc_Payload p = Some (m_payload m) \<and> m \<in> set (messages (store w')) \<and> m_id m = MessageID res"
proof -
  from publish_db_effect [OF publishCore_Inr [OF assms(1)]] obtain m where
    ms: "messages (store w') = messages (store w) @ [m]" and m: "m_id m = messages_seq (store w)"
      "m_topic m = pc_Topic p" "pc_Payload p = Some (m_payload m)" and id: "MessageID res = messages_seq (store w)"
    by fastforce
  have "m_id x \<noteq> MessageID res" if "x \<in> set (messages (store w))" for x
    using that assms(2) id by (fastforce simp: db_wf_def messages_wf_def)
  moreover have "find P (xs @ [x]) = Some x" if "\<forall>y \<in> set xs. \<not> P y" "P x" for P x and xs :: "message_row list"
    using that by (induction xs) auto
  ultimately have "find (\<lambda>x. m_id x = MessageID res) (messages (store w) @ [m]) = Some m"
    using m(1) id by simp
  with ms m id show ?thesis by (auto simp: message_of_def)
qed

section \<open>From the publisher to the subscriber\<close>

lemma list_all2_in_set: "list_all2 P xs ys \<Longrightarrow> x \<in> set xs \<Longrightarrow> \<exists>y \<in> set ys. P x y"
  by (induction rule: list_all2_induct) auto

text \<open>C4: a published message reaches the subscriber. A successful publish to a topic the client is
  subscribed to queues a notification that only the Pod owning the client acts on. When that
  Pod dispatches it before anything else changes the database, with the message not expired,
  the client's connection open with a slot free, fewer than seven of its identifiers in use and
  no call failing, exactly one packet is appended to the client's connection: a first PUBLISH
  with the published payload and the granted QoS, and the topic or an alias for it.\<close>

theorem publish_reaches_subscriber:
  assumes "publishCore X p w = (Inr res, w1)" "db_wf (store w)" "uuid_text_ok X" "messages_seq (store w) < 2 ^ 63"
    and "fanout_qos (pc_Topic p) (publisher_of p) (pc_QoS p) (maxQueued (knobs w)) (store w) c = Some q"
    and "session_of c (store w) = Some s" "s_broker_id s = Some b"
    and "store v = store w1" "brokerID v = b" "faults v = []" "pc_Payload p = Some pl" "serving X v c k pl"
    and "\<forall>m \<in> set (messages (store w1)). m_id m = MessageID res \<longrightarrow> live (now v) (m_expires_at m)"
  shows "\<exists>n pk v'. n \<in> set (notifications (store w1)) \<and>
    (\<forall>self. self \<noteq> b \<longrightarrow> dispatchNotification X self n = go_return ()) \<and>
    dispatchNotification X b n v = (Inr (), v') \<and> wire (heap v' k) = wire (heap v k) @ [pk] \<and>
    ptype pk = Publish \<and> Payload pk = pl \<and> Qos pk = q \<and> \<not> Dup pk \<and>
    (TopicName pk = pc_Topic p \<or> 0 < TopicAlias (Properties pk))"
proof -
  note eff = publish_db_effect [OF publishCore_Inr [OF assms(1)]]
  have s: "s \<in> set (sessions (store w))" "s_client_id s = c" using session_of_Some [OF assms(6)] by auto
  have "sessions (store w1) = sessions (store w)"
    and bs: "BrokerIDs res = remdups (List.map_filter mt_broker (reached p (maxQueued (knobs w)) (store w)))"
    using eff by auto
  have "b \<in> set (BrokerIDs res)"
    unfolding bs set_remdups reached_brokers_set [OF assms(2)] using s assms(5,7) by auto
  obtain ns where ns: "notifications (store w1) = notifications (store w) @ ns"
    and all: "list_all2 (\<lambda>b n. dispatchNotification X b n = go_ignore (Deliver X (MessageID res)) \<and>
       (\<forall>self. self \<noteq> b \<longrightarrow> dispatchNotification X self n = go_return ())) (BrokerIDs res) ns"
    using publish_signal [OF assms(3,1,4)] by blast
  from list_all2_in_set [OF all \<open>b \<in> set (BrokerIDs res)\<close>] obtain n where "n \<in> set ns"
    and n: "dispatchNotification X b n = go_ignore (Deliver X (MessageID res))"
      "\<forall>self. self \<noteq> b \<longrightarrow> dispatchNotification X self n = go_return ()"
    by blast
  with ns have n0: "n \<in> set (notifications (store w1))" by simp
  obtain r where r: "filter (\<lambda>r. d_client_id r = c \<and> d_message_id r = MessageID res) (deliveries (store v)) = [r]"
    "d_state r = 0" "d_qos r = q"
    using publish_new_row [OF assms(1,2,5)] assms(8) by auto
  obtain m where m: "message_of (MessageID res) (store v) = Some m" "m_topic m = pc_Topic p" "m_payload m = pl"
    "live (now v) (m_expires_at m)"
    using message_of_new [OF assms(1,2)] assms(8,11,13) by auto
  have "db_wf (store v)"
    using db_wf_steps [OF _ assms(2)] keepsD [OF moves_publishCore assms(1)] assms(8) by (simp add: moves_def)
  then obtain pk v' where "Deliver X (MessageID res) v = (Inr (), v')" "wire (heap v' k) = wire (heap v k) @ [pk]"
    "ptype pk = Publish" "Qos pk = q" "Payload pk = pl" "\<not> Dup pk"
    "TopicName pk = pc_Topic p \<or> 0 < TopicAlias (Properties pk)"
    using Deliver_reaches [of X v c k m "MessageID res" r s] assms(7-10,12) m r s \<open>sessions (store w1) = _\<close> by auto
  with n n0 show ?thesis by (intro exI [of _ n] exI [of _ pk] exI [of _ v']) (simp add: go_ignore_eq)
qed

theorem publish_reaches_subscriber_witness:
  "\<exists>w1 n pk v'. publishCore sample_ext (sample_publish 1) (sample_world sample_db (sample_conn ''c'' 5))
       = (Inr \<lparr>MessageID = 1, BrokerIDs = [UUID 1], OverflowClients = []\<rparr>, w1) \<and>
     n \<in> set (notifications (store w1)) \<and>
     dispatchNotification sample_ext (UUID 1) n (sample_world (store w1) (sample_conn ''c'' 5)) = (Inr (), v') \<and>
     wire (heap v' 0) = [pk] \<and> ptype pk = Publish \<and> Payload pk = [1] \<and> Qos pk = 1"
proof -
  let ?w = "sample_world sample_db (sample_conn ''c'' 5)"
  obtain w1 where r: "publishCore sample_ext (sample_publish 1) ?w
    = (Inr \<lparr>MessageID = 1, BrokerIDs = [UUID 1], OverflowClients = []\<rparr>, w1)"
    using sample_run [of 1] by auto
  let ?v = "sample_world (store w1) (sample_conn ''c'' 5)"
  have q: "fanout_qos (pc_Topic (sample_publish 1)) (publisher_of (sample_publish 1)) (pc_QoS (sample_publish 1))
      (maxQueued (knobs ?w)) (store ?w) ''c'' = Some 1" by code_simp
  have s: "session_of ''c'' (store ?w) = Some (sample_session ''c'' (Some (UUID 1)))" by code_simp
  from publish_db_effect [OF publishCore_Inr [OF r]] obtain me where
    me: "me_seconds (json_me sample_ext) (jsonOrNil sample_ext (pc_Properties (sample_publish 1))) = Inr me"
    and ds: "deliveries (store w1) = new_rows 1 1 (reached (sample_publish 1) (maxQueued (knobs ?w)) sample_db)"
    and ms: "messages (store w1) = [\<lparr>m_id = 1, m_topic = pc_Topic (sample_publish 1), m_payload = [1],
       m_qos = 1, m_retain = True, m_properties = jsonOrNil sample_ext (pc_Properties (sample_publish 1)),
       m_publisher = publisher_of (sample_publish 1), m_created_at = now ?w,
       m_expires_at = (if me > 0 then Some (now ?w + seconds me) else None)\<rparr>]"
    by (auto simp: sample_publish_def sample_db_def empty_db_def)
  have "me_seconds (json_me sample_ext) (jsonOrNil sample_ext (pc_Properties (sample_publish 1))) = Inr 0"
    by code_simp
  with me have me0: "me = 0" by simp
  have unclaimed: "\<forall>x \<in> set (new_rows i n xs). d_packet_id x = None" for i n xs
    by (induction xs arbitrary: n) auto
  have "held_ids ''c'' (store ?v) = {}"
    using unclaimed by (auto simp: held_ids_def exists_packet_id_def ds)
  then have serve: "serving sample_ext ?v ''c'' 0 [1]"
    by (auto simp: serving_def sample_world_def sample_conn_def newConn_def sample_ext_def sample_mochi_def
        Encode_def)
  have "\<exists>n pk v'. n \<in> set (notifications (store w1)) \<and>
    (\<forall>self. self \<noteq> UUID 1 \<longrightarrow> dispatchNotification sample_ext self n = go_return ()) \<and>
    dispatchNotification sample_ext (UUID 1) n ?v = (Inr (), v') \<and> wire (heap v' 0) = wire (heap ?v 0) @ [pk] \<and>
    ptype pk = Publish \<and> Payload pk = [1] \<and> Qos pk = 1 \<and> \<not> Dup pk \<and>
    (TopicName pk = pc_Topic (sample_publish 1) \<or> 0 < TopicAlias (Properties pk))"
  proof (rule publish_reaches_subscriber [OF r _ sample_ext_ok(1) _ q s _ _ _ _ _ serve])
    show "db_wf (store ?w)" using sample_db_wf by simp
  qed (simp_all add: sample_session_def sample_publish_def sample_world_def sample_db_def empty_db_def
      ms me0 live_def)
  then obtain n pk v' where "n \<in> set (notifications (store w1))"
    "dispatchNotification sample_ext (UUID 1) n ?v = (Inr (), v')" "wire (heap v' 0) = wire (heap ?v 0) @ [pk]"
    "ptype pk = Publish" "Payload pk = [1]" "Qos pk = 1" by blast
  moreover have "wire (heap ?v 0) = []" by (simp add: sample_world_def sample_conn_def newConn_def)
  ultimately show ?thesis using r by (intro exI [of _ w1] exI [of _ n] exI [of _ pk] exI [of _ v']) simp
qed

end
