(* ===== verification/Soak.thy ===== *)
theory Soak
  imports Codec
begin

text \<open>
  The load generator \<open>src/cmd/soak/main.go\<close>: the sequence-numbered payloads, the serial
  publisher, the subscriber with its loss and duplicate bookkeeping, the drain phase and the
  verdict. The pipelined publisher is in \<open>SoakPipeline\<close>.

  What the outside does in a run (a dial that fails, a packet that arrives, a cancelled
  context, a tick after the end of the run) is a script: a list with one entry for each pass
  of a loop. A loop that runs off the end of its script is still running. \<open>int64\<close> counters
  and sequence numbers are integers; only their wire form has a width.
\<close>

section \<open>Payloads\<close>

definition payloadLen :: nat where
  "payloadLen = 10"

text \<open>\<open>encoding/binary\<close>: \<open>n\<close> bytes of a word, most significant first, and back.\<close>

fun put_be :: "nat \<Rightarrow> 'a::len word \<Rightarrow> bytes" where
  "put_be 0 v = []"
| "put_be (Suc n) v = put_be n (drop_bit 8 v) @ [ucast v]"

definition get_be :: "bytes \<Rightarrow> 'a::len word" where
  "get_be b = foldl (\<lambda>a x. push_bit 8 a OR ucast x) 0 b"

definition encodePayload :: "16 word \<Rightarrow> int \<Rightarrow> bytes" where
  "encodePayload pubID seq = put_be 2 pubID @ put_be 8 (word_of_int seq :: 64 word)"

definition decodePayload :: "bytes \<Rightarrow> (16 word \<times> int) option" where
  "decodePayload b =
     (if length b < payloadLen then None
      else Some (get_be (take 2 b), sint (get_be (take 8 (drop 2 b)) :: 64 word)))"

section \<open>Command line and rates\<close>

definition check_flags :: "int \<Rightarrow> int \<Rightarrow> int \<Rightarrow> err option" where
  "check_flags qos pubs window =
     (if qos < 0 \<or> qos > 2 then Some (ErrConfig ''qos must be 0/1/2'')
      else if pubs < 1 then Some (ErrConfig ''pubs must be at least 1'')
      else if pubs > 0xFFFF then Some (ErrConfig ''pubs must fit in uint16'')
      else if window < 1 then Some (ErrConfig ''inflight must be at least 1'')
      else if qos = 2 \<and> window > 1
      then Some (ErrConfig ''inflight > 1 not supported for QoS 2'')
      else None)"

text \<open>The rate of each publisher. Go's \<open>/\<close> truncates towards zero.\<close>

definition quot :: "int \<Rightarrow> int \<Rightarrow> int" where
  "quot a b = sgn a * sgn b * (\<bar>a\<bar> div \<bar>b\<bar>)"

definition perPubRate :: "int \<Rightarrow> int \<Rightarrow> int" where
  "perPubRate rate pubs = (let r = quot rate pubs in if r < 1 then 1 else r)"

definition publisher_rates :: "int \<Rightarrow> nat \<Rightarrow> int list" where
  "publisher_rates rate pubs =
     (let per = perPubRate rate (int pubs); remainder = rate - per * int pubs in
      map (\<lambda>i. if int i < remainder then per + 1 else per) [0..<pubs])"

text \<open>\<open>time.NewTicker(time.Second / time.Duration(rate))\<close> panics on an interval of zero.\<close>

definition tick_interval :: "int \<Rightarrow> err + duration" where
  "tick_interval rate =
     (if rate = 0 then Inl (Panic ''integer divide by zero'')
      else let d = quot 1000000000 rate in
           if d \<le> 0 then Inl (Panic ''non-positive interval for NewTicker'') else Inr d)"

section \<open>Connecting\<close>

text \<open>\<open>connectOptsV5\<close>: the CONNECT it writes, and its result from what the write and the read
  of the answer return.\<close>

definition connect_packet :: "string \<Rightarrow> string \<Rightarrow> string \<Rightarrow> bool \<Rightarrow> packet" where
  "connect_packet clientID user pass persistent =
     (new_packet Connect)\<lparr>pkProtocol := ProtocolMQTT5,
        ConnectParams := no_connect\<lparr>ProtocolName := ''MQTT'', Clean := \<not> persistent,
          Keepalive := 60, ClientIdentifier := clientID,
          UsernameFlag := user \<noteq> [], Username := user,
          PasswordFlag := pass \<noteq> [], Password := pass\<rparr>,
        Properties := (if persistent
          then no_properties\<lparr>SessionExpiryInterval := 3600, SessionExpiryIntervalFlag := True\<rparr>
          else no_properties)\<rparr>"

definition connectOptsV5 :: "err option \<Rightarrow> err + packet \<Rightarrow> err + bool" where
  "connectOptsV5 write_err answer =
     (case write_err of Some e \<Rightarrow> Inl e
      | None \<Rightarrow> and_then answer (\<lambda>cack.
          if ptype cack \<noteq> Connack then Inl (ErrProtocol ''expected CONNACK'')
          else if ReasonCode cack \<noteq> 0 then Inl (ErrProtocol ''connack reason'')
          else Inr (SessionPresent cack)))"

text \<open>\<open>connect\<close>: no session, the flag dropped.\<close>

definition connect_once :: "err option \<Rightarrow> err + packet \<Rightarrow> err option" where
  "connect_once write_err answer =
     (case connectOptsV5 write_err answer of Inl e \<Rightarrow> Some e | Inr _ \<Rightarrow> None)"

text \<open>One pass of the retry loop: whether the context is over on entry, how the dial, the
  write and the read go, and whether the context ends during the 500 ms wait.\<close>

record dial_try =
  dt_ctx :: bool
  dt_dial :: "err option"
  dt_write :: "err option"
  dt_answer :: "err + packet"
  dt_wait :: bool

fun connectWithBackoffV5 :: "dial_try list \<Rightarrow> (err + bool) option" where
  "connectWithBackoffV5 [] = None"
| "connectWithBackoffV5 (t # ts) =
     (if dt_ctx t then Some (Inl (ErrIO ''context canceled''))
      else case dt_dial t of
        Some e \<Rightarrow> if dt_wait t then Some (Inl (ErrIO ''context canceled'')) else connectWithBackoffV5 ts
      | None \<Rightarrow>
         (case connectOptsV5 (dt_write t) (dt_answer t) of
            Inl e \<Rightarrow> if dt_wait t then Some (Inl (ErrIO ''context canceled''))
                     else connectWithBackoffV5 ts
          | Inr present \<Rightarrow> Some (Inr present)))"

definition connectWithBackoff :: "dial_try list \<Rightarrow> err option option" where
  "connectWithBackoff ts =
     map_option (\<lambda>r. case r of Inl e \<Rightarrow> Some e | Inr _ \<Rightarrow> None) (connectWithBackoffV5 ts)"

section \<open>The subscriber\<close>

text \<open>\<open>seen[pub_id][seq]\<close> as a map of maps.\<close>

record subStats =
  st_received :: int
  st_dups :: int
  st_seen :: "(16 word \<times> (int \<times> int) list) list"

definition no_stats :: subStats where
  "no_stats = \<lparr>st_received = 0, st_dups = 0, st_seen = []\<rparr>"

text \<open>A missing key of a Go map reads as the zero value: an empty map, a count of zero.\<close>

definition seen_pub :: "subStats \<Rightarrow> 16 word \<Rightarrow> (int \<times> int) list" where
  "seen_pub s p = (case map_of (st_seen s) p of None \<Rightarrow> [] | Some m \<Rightarrow> m)"

definition seen_count :: "(int \<times> int) list \<Rightarrow> int \<Rightarrow> int" where
  "seen_count m j = (case map_of m j of None \<Rightarrow> 0 | Some n \<Rightarrow> n)"

definition count_seen :: "16 word \<Rightarrow> int \<Rightarrow> subStats \<Rightarrow> subStats" where
  "count_seen pubID seq s =
     (let n = seen_count (seen_pub s pubID) seq + 1 in
      s\<lparr>st_seen := AList.update pubID (AList.update seq n (seen_pub s pubID)) (st_seen s),
        st_dups := (if n > 1 then st_dups s + 1 else st_dups s),
        st_received := st_received s + 1\<rparr>)"

definition soak_reply :: "ptype \<Rightarrow> 16 word \<Rightarrow> packet" where
  "soak_reply t pid = (new_packet t)\<lparr>pkProtocol := ProtocolMQTT5, PacketID := pid\<rparr>"

text \<open>The dispatch on one packet: the new statistics, the packets written (their errors are
  dropped), and whether the reader returns.\<close>

definition subscriber_packet :: "packet \<Rightarrow> subStats \<Rightarrow> subStats \<times> packet list \<times> bool" where
  "subscriber_packet pk s =
     (case ptype pk of
        Publish \<Rightarrow>
          (case decodePayload (Payload pk) of
             None \<Rightarrow> (s, [], False)
           | Some (pubID, seq) \<Rightarrow>
              (count_seen pubID seq s,
               (if Qos pk = 1 then [soak_reply Puback (PacketID pk)]
                else if Qos pk = 2 then [soak_reply Pubrec (PacketID pk)] else []), False))
      | Pubrel \<Rightarrow> (s, [soak_reply Pubcomp (PacketID pk)], False)
      | Disconnect \<Rightarrow> (s, [], True)
      | _ \<Rightarrow> (s, [], False))"

definition errIsTimeout :: "err option \<Rightarrow> bool" where
  "errIsTimeout e \<longleftrightarrow> e = Some ErrDeadlineExceeded"

text \<open>\<open>readSubscriber\<close>. An entry of the script: whether the context is over at the top of the
  loop, and what the read returns. The last component of the result tells whether it
  returned.\<close>

fun readSubscriber ::
  "(bool \<times> (err + packet)) list \<Rightarrow> subStats \<Rightarrow> subStats \<times> packet list \<times> bool" where
  "readSubscriber [] s = (s, [], False)"
| "readSubscriber ((over, r) # rs) s =
     (if over then (s, [], True)
      else case r of
        Inl e \<Rightarrow> if errIsTimeout (Some e) then readSubscriber rs s else (s, [], True)
      | Inr pk \<Rightarrow>
         (case subscriber_packet pk s of (s1, out, stop) \<Rightarrow>
            if stop then (s1, out, True)
            else (case readSubscriber rs s1 of (s2, out2, fin) \<Rightarrow> (s2, out @ out2, fin))))"

definition subscribe_packet :: "string \<Rightarrow> nat \<Rightarrow> packet" where
  "subscribe_packet topic qos =
     (new_packet Subscribe)\<lparr>Qos := 1, pkProtocol := ProtocolMQTT5, PacketID := 1,
        Filters := [\<lparr>Filter = topic, fQos = qos, fNoLocal = False, fRetainAsPublished = False,
                     fRetainHandling = 0\<rparr>]\<rparr>"

text \<open>One connection of \<open>runSubscriber\<close>: the context at the top of the loop, how connecting
  ends, the error of writing SUBSCRIBE, and the reads.\<close>

record sub_conn =
  sc_over :: bool
  sc_dial :: "dial_try list"
  sc_write :: "err option"
  sc_reads :: "(bool \<times> (err + packet)) list"

fun runSubscriber ::
  "string \<Rightarrow> nat \<Rightarrow> sub_conn list \<Rightarrow> bool \<Rightarrow> subStats \<Rightarrow> subStats \<times> packet list \<times> bool" where
  "runSubscriber topic qos [] subscribed s = (s, [], False)"
| "runSubscriber topic qos (c # cs) subscribed s =
     (if sc_over c then (s, [], True)
      else case connectWithBackoffV5 (sc_dial c) of
        None \<Rightarrow> (s, [], False)
      | Some (Inl e) \<Rightarrow> (s, [], True)
      | Some (Inr present) \<Rightarrow>
         (let fresh = (\<not> subscribed \<or> \<not> present);
              sub = (if fresh then [subscribe_packet topic qos] else []) in
          if fresh \<and> sc_write c \<noteq> None
          then (case runSubscriber topic qos cs subscribed s of (s2, out2, fin) \<Rightarrow>
                  (s2, sub @ out2, fin))
          else (case readSubscriber (sc_reads c) s of (s1, out1, ended) \<Rightarrow>
                  if \<not> ended then (s1, sub @ out1, False)
                  else (case runSubscriber topic qos cs True s1 of (s2, out2, fin) \<Rightarrow>
                          (s2, sub @ out1 @ out2, fin)))))"

section \<open>The serial publisher\<close>

text \<open>\<open>pid++; if pid == 0 { pid = 1 }\<close>.\<close>

definition next_pid :: "16 word \<Rightarrow> 16 word" where
  "next_pid p = (let q = p + 1 in if q = 0 then 1 else q)"

definition publish_packet :: "16 word \<Rightarrow> string \<Rightarrow> nat \<Rightarrow> int \<Rightarrow> 16 word \<Rightarrow> packet" where
  "publish_packet pubID topic qos seq pid =
     (new_packet Publish)\<lparr>Qos := qos, pkProtocol := ProtocolMQTT5, TopicName := topic,
        Payload := encodePayload pubID seq, PacketID := (if qos > 0 then pid else 0)\<rparr>"

record pub_state =
  ps_seq :: int
  ps_pid :: "16 word"
  ps_published :: int

definition pub_start :: pub_state where
  "pub_start = \<lparr>ps_seq = 0, ps_pid = 0, ps_published = 0\<rparr>"

text \<open>One pass of the inner loop: the context, whether the tick comes after \<open>endAt\<close>, and how
  the writes and reads of this publish go.\<close>

record pub_pass =
  pe_over :: bool
  pe_after :: bool
  pe_write :: "err option"
  pe_read :: "err + packet"
  pe_rel :: "err option"
  pe_comp :: "err + packet"

datatype pub_end = PubReturn | PubReconnect | PubAgain

text \<open>An answer counts only if it is of the awaited type and carries the packet id in flight.\<close>

definition is_ack :: "ptype \<Rightarrow> 16 word \<Rightarrow> err + packet \<Rightarrow> bool" where
  "is_ack t pid r = (case r of Inl e \<Rightarrow> False | Inr a \<Rightarrow> ptype a = t \<and> PacketID a = pid)"

definition pubrel_packet :: "16 word \<Rightarrow> packet" where
  "pubrel_packet pid = (new_packet Pubrel)\<lparr>Qos := 1, pkProtocol := ProtocolMQTT5, PacketID := pid\<rparr>"

definition confirm :: "pub_state \<Rightarrow> pub_state" where
  "confirm s = s\<lparr>ps_seq := ps_seq s + 1, ps_published := ps_published s + 1\<rparr>"

definition publish_once ::
  "16 word \<Rightarrow> string \<Rightarrow> nat \<Rightarrow> pub_pass \<Rightarrow> pub_state \<Rightarrow> pub_state \<times> packet list \<times> pub_end" where
  "publish_once pubID topic qos e s =
     (if pe_over e \<or> pe_after e then (s, [], PubReturn)
      else
        let pid = (if qos > 0 then next_pid (ps_pid s) else ps_pid s);
            s1 = s\<lparr>ps_pid := pid\<rparr>;
            pk = publish_packet pubID topic qos (ps_seq s) pid
        in
        if pe_write e \<noteq> None then (s1, [pk], PubReconnect)
        else if qos = 0 then (confirm s1, [pk], PubAgain)
        else if qos = 1 then
          (if is_ack Puback pid (pe_read e) then (confirm s1, [pk], PubAgain)
           else (s1, [pk], PubReconnect))
        else if qos = 2 then
          (if \<not> is_ack Pubrec pid (pe_read e) then (s1, [pk], PubReconnect)
           else if pe_rel e \<noteq> None then (s1, [pk, pubrel_packet pid], PubReconnect)
           else if is_ack Pubcomp pid (pe_comp e)
           then (confirm s1, [pk, pubrel_packet pid], PubAgain)
           else (s1, [pk, pubrel_packet pid], PubReconnect))
        else (s1, [pk], PubAgain))"

fun publish_conn ::
  "16 word \<Rightarrow> string \<Rightarrow> nat \<Rightarrow> pub_pass list \<Rightarrow> pub_state \<Rightarrow> pub_state \<times> packet list \<times> pub_end" where
  "publish_conn pubID topic qos [] s = (s, [], PubAgain)"
| "publish_conn pubID topic qos (e # es) s =
     (case publish_once pubID topic qos e s of (s1, out1, r) \<Rightarrow>
        if r = PubAgain
        then (case publish_conn pubID topic qos es s1 of (s2, out2, r2) \<Rightarrow> (s2, out1 @ out2, r2))
        else (s1, out1, r))"

text \<open>The serial branch of \<open>runPublisher\<close>: a connection after another until one returns.\<close>

fun runPublisher ::
  "16 word \<Rightarrow> string \<Rightarrow> nat \<Rightarrow> (dial_try list \<times> pub_pass list) list \<Rightarrow> pub_state \<Rightarrow>
   pub_state \<times> packet list" where
  "runPublisher pubID topic qos [] s = (s, [])"
| "runPublisher pubID topic qos ((dial, es) # cs) s =
     (case connectWithBackoff dial of
        Some None \<Rightarrow>
          (case publish_conn pubID topic qos es s of (s1, out1, r) \<Rightarrow>
             if r = PubReconnect
             then (case runPublisher pubID topic qos cs s1 of (s2, out2) \<Rightarrow> (s2, out1 @ out2))
             else (s1, out1))
      | _ \<Rightarrow> (s, []))"

section \<open>Drain and verdict\<close>

text \<open>The drain phase. An entry of the script is the aggregate \<open>received\<close> counter read after
  one more second, and the time since the drain began.\<close>

definition drainPollInterval :: duration where "drainPollInterval = 1000000000"
definition drainQuiescence :: duration where "drainQuiescence = 10000000000"
definition drainMaxWait :: duration where "drainMaxWait = 300000000000"

datatype drain_end = Quiescent int | HitMaxWait int | StillDraining

fun drain :: "(int \<times> duration) list \<Rightarrow> int \<Rightarrow> duration \<Rightarrow> drain_end" where
  "drain [] lastReceived unchangedFor = StillDraining"
| "drain ((cur, elapsed) # ps) lastReceived unchangedFor =
     (if cur \<noteq> lastReceived then drain ps cur 0
      else let u = unchangedFor + drainPollInterval in
        if u \<ge> drainQuiescence then Quiescent cur
        else if elapsed \<ge> drainMaxWait then HitMaxWait cur
        else drain ps lastReceived u)"

text \<open>The gap analysis of one publisher's map, and the report of one subscriber.\<close>

definition max_seq :: "(int \<times> int) list \<Rightarrow> int" where
  "max_seq m = foldl (\<lambda>a kv. if fst kv > a then fst kv else a) (- 1) m"

definition lost_in :: "(int \<times> int) list \<Rightarrow> int" where
  "lost_in m =
     (if max_seq m < 0 then 0
      else int (length (filter (\<lambda>j. map_of m j = None) [0..max_seq m])))"

record subReport =
  Received :: int
  Dups :: int
  Lost :: int

definition report_of :: "subStats \<Rightarrow> subReport" where
  "report_of s = \<lparr>Received = st_received s, Dups = st_dups s,
     Lost = sum_list (map (\<lambda>(p, m). lost_in m) (st_seen s))\<rparr>"

definition total_lost :: "subStats list \<Rightarrow> int" where
  "total_lost ss = sum_list (map (\<lambda>s. Lost (report_of s)) ss)"

definition total_dups :: "subStats list \<Rightarrow> int" where
  "total_dups ss = sum_list (map (\<lambda>s. Dups (report_of s)) ss)"

definition exit_code :: "int \<Rightarrow> subStats list \<Rightarrow> int" where
  "exit_code qos ss = (if qos \<ge> 1 \<and> total_lost ss > 0 then 1 else 0)"

end
