(* ===== verification/SoakPipeline.thy ===== *)
theory SoakPipeline
  imports Soak "HOL-Library.Multiset"
begin

text \<open>
  The pipelined QoS 1 publisher of the load generator (\<open>runPublisherPipelined\<close> of
  \<open>src/cmd/soak/main.go\<close>). Its writer loop and its reader goroutine run concurrently and
  share the map of outstanding packet ids, the window channel, the stop channel and the
  counter. The model is a transition system: an action is one step of the writer or of the
  reader with what the outside answered, and a step is defined when the code can take it.
  The theorem at the end is what the crash-recovery comment of the source promises: no
  sequence number is skipped.
\<close>

section \<open>The state\<close>

text \<open>Where the writer stands: connecting; at the select that takes a window slot; past it,
  about to look at the clock; at the select that waits for the tick; waiting for the last
  acknowledgements after the end of the run; out of the loop and waiting for the reader,
  with the value of \<open>exit\<close>; returned.\<close>

datatype pipe_phase = Dialling | Selecting | Holding | Ticking | Draining | Leaving bool | Returned

text \<open>\<open>pp_slot\<close> is the number of tokens in the channel \<open>slot\<close>, \<open>pp_stop\<close> whether \<open>stop\<close> is
  closed, which the reader does on its way out. The map \<open>outstanding\<close> is kept in the order of
  insertion.\<close>

record pipe =
  pp_seq :: int
  pp_pid :: "16 word"
  pp_published :: int
  pp_replay :: "int list"
  pp_idx :: nat
  pp_outstanding :: "(16 word \<times> int) list"
  pp_slot :: nat
  pp_stop :: bool
  pp_phase :: pipe_phase

definition pipe_start :: pipe where
  "pipe_start = \<lparr>pp_seq = 0, pp_pid = 0, pp_published = 0, pp_replay = [], pp_idx = 0,
     pp_outstanding = [], pp_slot = 0, pp_stop = False, pp_phase = Dialling\<rparr>"

text \<open>\<open>WFold\<close> carries the order in which ranging over the map yields its values, which Go
  leaves open.\<close>

datatype pipe_act =
    WDial bool
  | WCancelled
  | WStopped
  | WSlot
  | WInTime
  | WPastEnd
  | WSend "err option"
  | WDrained
  | WDeadline
  | WFold "int list"
  | RAck "err + packet"

section \<open>The steps\<close>

text \<open>The reader goroutine: an error or a packet that is not a PUBACK ends it and stops the
  writer; a PUBACK clears its packet id, counts, and frees a slot if one is taken.\<close>

definition reader_step :: "err + packet \<Rightarrow> pipe \<Rightarrow> pipe" where
  "reader_step r s =
     (case r of
        Inl e \<Rightarrow> s\<lparr>pp_stop := True\<rparr>
      | Inr ack \<Rightarrow>
          if ptype ack \<noteq> Puback then s\<lparr>pp_stop := True\<rparr>
          else s\<lparr>pp_outstanding := AList.delete (PacketID ack) (pp_outstanding s),
                 pp_published := pp_published s + 1, pp_slot := pp_slot s - 1\<rparr>)"

text \<open>The body of the writer loop after the tick: the next replayed sequence number, or a
  fresh one, under the next packet id.\<close>

definition take_seq :: "pipe \<Rightarrow> int \<times> pipe" where
  "take_seq s =
     (if pp_idx s < length (pp_replay s)
      then (pp_replay s ! pp_idx s, s\<lparr>pp_idx := pp_idx s + 1\<rparr>)
      else (pp_seq s, s\<lparr>pp_seq := pp_seq s + 1\<rparr>))"

definition send_step :: "16 word \<Rightarrow> string \<Rightarrow> err option \<Rightarrow> pipe \<Rightarrow> pipe \<times> packet list" where
  "send_step pubID topic werr s =
     (case take_seq s of (q, s1) \<Rightarrow>
        let pid = next_pid (pp_pid s1);
            s2 = s1\<lparr>pp_pid := pid, pp_outstanding := AList.update pid q (pp_outstanding s1)\<rparr>
        in (s2\<lparr>pp_phase := (if werr = None then Selecting else Leaving False)\<rparr>,
            [publish_packet pubID topic 1 q pid]))"

text \<open>After \<open><-stop\<close>: what is still outstanding, in some order, and the unused rest of the
  replay queue are the next replay queue.\<close>

definition fold_step :: "int list \<Rightarrow> pipe \<Rightarrow> pipe" where
  "fold_step vals s =
     s\<lparr>pp_replay := vals @ drop (pp_idx s) (pp_replay s), pp_idx := 0, pp_outstanding := [],
       pp_phase := Dialling\<rparr>"

definition reader_runs :: "pipe \<Rightarrow> bool" where
  "reader_runs s \<longleftrightarrow> \<not> pp_stop s \<and> pp_phase s \<noteq> Dialling \<and> pp_phase s \<noteq> Returned"

text \<open>One step with a window of \<open>n\<close>: the new state and the packets written, if the action is
  enabled.\<close>

definition pipe_step ::
  "nat \<Rightarrow> 16 word \<Rightarrow> string \<Rightarrow> pipe_act \<Rightarrow> pipe \<Rightarrow> (pipe \<times> packet list) option" where
  "pipe_step n pubID topic a s =
     (case a of
        WDial connected \<Rightarrow>
          if pp_phase s \<noteq> Dialling then None
          else if connected
          then Some (s\<lparr>pp_slot := 0, pp_stop := False, pp_outstanding := [], pp_idx := 0,
                       pp_phase := Selecting\<rparr>, [])
          else Some (s\<lparr>pp_phase := Returned\<rparr>, [])
      | WCancelled \<Rightarrow>
          if pp_phase s \<in> {Selecting, Ticking} then Some (s\<lparr>pp_phase := Leaving True\<rparr>, []) else None
      | WStopped \<Rightarrow>
          if pp_phase s \<in> {Selecting, Ticking} \<and> pp_stop s
          then Some (s\<lparr>pp_phase := Leaving False\<rparr>, []) else None
      | WSlot \<Rightarrow>
          if pp_phase s = Selecting \<and> pp_slot s < n
          then Some (s\<lparr>pp_slot := pp_slot s + 1, pp_phase := Holding\<rparr>, []) else None
      | WInTime \<Rightarrow> if pp_phase s = Holding then Some (s\<lparr>pp_phase := Ticking\<rparr>, []) else None
      | WPastEnd \<Rightarrow> if pp_phase s = Holding then Some (s\<lparr>pp_phase := Draining\<rparr>, []) else None
      | WSend werr \<Rightarrow> if pp_phase s = Ticking then Some (send_step pubID topic werr s) else None
      | WDrained \<Rightarrow>
          if pp_phase s = Draining \<and> pp_outstanding s = []
          then Some (s\<lparr>pp_phase := Leaving True\<rparr>, []) else None
      | WDeadline \<Rightarrow> if pp_phase s = Draining then Some (s\<lparr>pp_phase := Leaving True\<rparr>, []) else None
      | WFold vals \<Rightarrow>
          (case pp_phase s of
             Leaving ex \<Rightarrow>
               if \<not> pp_stop s then None
               else if ex then Some (s\<lparr>pp_phase := Returned\<rparr>, [])
               else if mset vals = mset (map snd (pp_outstanding s))
               then Some (fold_step vals s, []) else None
           | _ \<Rightarrow> None)
      | RAck r \<Rightarrow> if reader_runs s then Some (reader_step r s, []) else None)"

text \<open>The sequence number an action confirms. A broker acknowledges in the order of the
  publishes ([MQTT-4.6.0-2]) and only what it was sent: \<open>acks_in_order\<close> says so of one action.\<close>

definition confirms :: "pipe_act \<Rightarrow> pipe \<Rightarrow> int list" where
  "confirms a s =
     (case a of
        RAck (Inr ack) \<Rightarrow>
          if ptype ack = Puback
          then (case map_of (pp_outstanding s) (PacketID ack) of None \<Rightarrow> [] | Some q \<Rightarrow> [q])
          else []
      | _ \<Rightarrow> [])"

definition acks_in_order :: "pipe_act \<Rightarrow> pipe \<Rightarrow> bool" where
  "acks_in_order a s =
     (case a of
        RAck (Inr ack) \<Rightarrow>
          ptype ack = Puback \<longrightarrow>
            (case pp_outstanding s of [] \<Rightarrow> False | (p, q) # rest \<Rightarrow> p = PacketID ack)
      | _ \<Rightarrow> True)"

text \<open>The runs: the state reached, the packets written and the sequence numbers confirmed.\<close>

inductive pipe_run :: "nat \<Rightarrow> 16 word \<Rightarrow> string \<Rightarrow> pipe \<Rightarrow> packet list \<Rightarrow> int list \<Rightarrow> bool"
  for n :: nat and pubID :: "16 word" and topic :: string where
  start: "pipe_run n pubID topic pipe_start [] []"
| step: "pipe_run n pubID topic s out oks \<Longrightarrow> acks_in_order a s \<Longrightarrow>
     pipe_step n pubID topic a s = Some (s', new) \<Longrightarrow>
     pipe_run n pubID topic s' (out @ new) (oks @ confirms a s)"

section \<open>Packet ids\<close>

text \<open>The \<open>k\<close>th packet id: the ids run through 1 to 65535 and start again.\<close>

definition pid_at :: "nat \<Rightarrow> 16 word" where
  "pid_at k = (if k = 0 then 0 else of_nat ((k - 1) mod 65535 + 1))"

lemma unat_pid_at: "unat (pid_at (Suc k)) = k mod 65535 + 1"
proof -
  have "k mod 65535 < 65535" by simp
  then show ?thesis unfolding pid_at_def by (simp add: unat_of_nat take_bit_nat_def del: of_nat_add of_nat_Suc)
qed

lemma next_pid_at: "next_pid (pid_at k) = pid_at (Suc k)"
proof (cases k)
  case 0
  then show ?thesis by (simp add: pid_at_def next_pid_def)
next
  case (Suc j)
  show ?thesis
  proof (cases "j mod 65535 = 65534")
    case True
    then have "Suc j mod 65535 = 0" by (simp add: mod_Suc)
    with True Suc show ?thesis by (simp add: pid_at_def next_pid_def)
  next
    case False
    then have m: "Suc j mod 65535 = Suc (j mod 65535)" by (simp add: mod_Suc)
    have lt: "j mod 65535 + 2 < 65536" using False mod_less_divisor [of 65535 j] by linarith
    have "pid_at (Suc j) + 1 = of_nat (j mod 65535 + 2)"
      by (simp add: pid_at_def)
    moreover have "(of_nat (j mod 65535 + 2) :: 16 word) \<noteq> 0"
      using lt by (simp only: word_unat_eq_iff unat_of_nat take_bit_nat_def) simp
    ultimately show ?thesis
      using Suc m by (simp add: next_pid_def pid_at_def Let_def add.commute)
  qed
qed

lemma pid_at_inj:
  assumes "0 < i" "i \<le> j" "j < i + 65535" "pid_at i = pid_at j"
  shows "i = j"
proof -
  obtain a b where ab: "i = Suc a" "j = Suc b" using assms by (cases i; cases j) auto
  with assms(4) have "a mod 65535 = b mod 65535"
    using unat_pid_at [of a] unat_pid_at [of b] by simp
  then obtain q where "b = a + 65535 * q"
    using assms(2) ab by (metis Suc_le_mono mod_eq_nat1E)
  with assms(3) ab show ?thesis by (cases q) auto
qed

section \<open>The invariant\<close>

text \<open>The outstanding packet ids are the last ones handed out, in order; the tokens in the
  window cover them and the one a writer past the first select holds.\<close>

definition recent_pids :: "pipe \<Rightarrow> bool" where
  "recent_pids s \<longleftrightarrow>
     (\<exists>b. pp_pid s = pid_at b \<and> length (pp_outstanding s) \<le> b \<and>
        map fst (pp_outstanding s) = map pid_at [Suc b - length (pp_outstanding s)..<Suc b])"

definition window_ok :: "nat \<Rightarrow> pipe \<Rightarrow> bool" where
  "window_ok n s \<longleftrightarrow>
     (if pp_phase s = Dialling then pp_outstanding s = [] \<and> pp_idx s = 0
      else length (pp_outstanding s) + (if pp_phase s \<in> {Holding, Ticking} then 1 else 0) \<le> pp_slot s
           \<and> pp_slot s \<le> n \<or> pp_phase s = Returned)"

text \<open>Every sequence number handed out so far is in exactly one place: confirmed, outstanding,
  or still to be replayed.\<close>

definition accounted :: "pipe \<Rightarrow> int list \<Rightarrow> bool" where
  "accounted s oks \<longleftrightarrow>
     mset oks + mset (map snd (pp_outstanding s)) + mset (drop (pp_idx s) (pp_replay s))
       = mset [0..pp_seq s - 1] \<and> 0 \<le> pp_seq s \<and> pp_published s = int (length oks)"

lemmas pipe_inv_defs = recent_pids_def window_ok_def accounted_def

lemma recent_fresh:
  assumes "recent_pids s" "length (pp_outstanding s) < 65535"
  shows "next_pid (pp_pid s) \<notin> set (map fst (pp_outstanding s))"
proof
  assume mem: "next_pid (pp_pid s) \<in> set (map fst (pp_outstanding s))"
  from assms(1) obtain b where b: "pp_pid s = pid_at b" "length (pp_outstanding s) \<le> b"
      "map fst (pp_outstanding s) = map pid_at [Suc b - length (pp_outstanding s)..<Suc b]"
    by (auto simp: recent_pids_def)
  from mem obtain i where i: "Suc b - length (pp_outstanding s) \<le> i" "i < Suc b"
      "pid_at i = pid_at (Suc b)"
    unfolding b(1,3) next_pid_at by (force simp del: upt_Suc)
  have "i = Suc b"
    by (rule pid_at_inj) (use i b(2) assms(2) in \<open>linarith+ | simp\<close>)+
  with i(2) show False by simp
qed

lemma update_fresh: "k \<notin> set (map fst al) \<Longrightarrow> AList.update k v al = al @ [(k, v)]"
  by (induction al) auto

lemma recent_append:
  assumes "recent_pids s" "pp_pid s' = next_pid (pp_pid s)"
    and "pp_outstanding s' = pp_outstanding s @ [(next_pid (pp_pid s), q)]"
  shows "recent_pids s'"
proof -
  from assms(1) obtain b where b: "pp_pid s = pid_at b" "length (pp_outstanding s) \<le> b"
      "map fst (pp_outstanding s) = map pid_at [Suc b - length (pp_outstanding s)..<Suc b]"
    by (auto simp: recent_pids_def)
  have "[Suc (Suc b) - Suc (length (pp_outstanding s))..<Suc (Suc b)]
      = [Suc b - length (pp_outstanding s)..<Suc b] @ [Suc b]"
    using b(2) by (simp add: upt_Suc_append)
  with assms(2,3) b show ?thesis
    by (intro recent_pids_def [THEN iffD2] exI [of _ "Suc b"])
       (simp add: next_pid_at del: upt_Suc)
qed

lemma recent_tail:
  assumes "recent_pids s" "pp_outstanding s = x # rest" "pp_pid s' = pp_pid s"
    and "pp_outstanding s' = rest"
  shows "recent_pids s'"
proof -
  from assms(1) obtain b where b: "pp_pid s = pid_at b" "length (pp_outstanding s) \<le> b"
      "map fst (pp_outstanding s) = map pid_at [Suc b - length (pp_outstanding s)..<Suc b]"
    by (auto simp: recent_pids_def)
  have "map fst rest = map pid_at (tl [Suc b - Suc (length rest)..<Suc b])"
    using b(3) assms(2) by (metis length_Cons list.sel(3) map_tl)
  moreover have "tl [Suc b - Suc (length rest)..<Suc b] = [Suc b - length rest..<Suc b]"
    using b(2) assms(2) by (simp add: Suc_diff_le upt_conv_Cons del: upt_Suc)
  ultimately show ?thesis
    using b assms by (intro recent_pids_def [THEN iffD2] exI [of _ b]) (simp del: upt_Suc)
qed

lemma recent_distinct:
  assumes "recent_pids s" "length (pp_outstanding s) \<le> 65535"
  shows "distinct (map fst (pp_outstanding s))"
proof -
  from assms(1) obtain b where b: "length (pp_outstanding s) \<le> b"
      "map fst (pp_outstanding s) = map pid_at [Suc b - length (pp_outstanding s)..<Suc b]"
    by (auto simp: recent_pids_def)
  have "inj_on pid_at {Suc b - length (pp_outstanding s)..<Suc b}"
  proof (rule inj_onI)
    fix i j assume "i \<in> {Suc b - length (pp_outstanding s)..<Suc b}"
      "j \<in> {Suc b - length (pp_outstanding s)..<Suc b}" and eq: "pid_at i = pid_at j"
    then have r: "0 < i" "0 < j" "i < j + 65535" "j < i + 65535"
      using assms(2) b(1) unfolding atLeastLessThan_iff by linarith+
    show "i = j"
    proof (cases "i \<le> j")
      case True
      then show ?thesis by (rule pid_at_inj [OF r(1) _ r(4) eq])
    next
      case False
      then have "j \<le> i" by simp
      from pid_at_inj [OF r(2) this r(3) eq [symmetric]] show ?thesis ..
    qed
  qed
  then show ?thesis using b(2) by (simp add: distinct_map del: upt_Suc)
qed

lemma recent_cong:
  "recent_pids s \<Longrightarrow> pp_pid s' = pp_pid s \<Longrightarrow> pp_outstanding s' = pp_outstanding s \<Longrightarrow> recent_pids s'"
  by (simp add: recent_pids_def)

lemma recent_empty: "recent_pids s \<Longrightarrow> pp_pid s' = pp_pid s \<Longrightarrow> pp_outstanding s' = [] \<Longrightarrow> recent_pids s'"
  by (auto simp: recent_pids_def)

lemma delete_head:
  assumes "distinct (map fst ((p, q) # rest))"
  shows "AList.delete p ((p, q) # rest) = rest"
proof -
  have "\<forall>x \<in> set rest. fst x \<noteq> p" using assms by (auto simp: image_iff)
  then show ?thesis by (auto simp: AList.delete_eq filter_id_conv)
qed

section \<open>Every step keeps it\<close>

definition pipe_inv :: "nat \<Rightarrow> pipe \<Rightarrow> int list \<Rightarrow> bool" where
  "pipe_inv n s oks \<longleftrightarrow> recent_pids s \<and> window_ok n s \<and> accounted s oks"

lemma pipe_inv_start: "pipe_inv n pipe_start []"
  by (auto simp: pipe_inv_def pipe_inv_defs pipe_start_def pid_at_def intro: exI [of _ 0])

lemma upto_snoc: "0 \<le> k \<Longrightarrow> mset [0..k] = add_mset k (mset [0..k - 1])" for k :: int
  by (simp add: upto_rec2)

lemma send_keeps:
  assumes inv: "pipe_inv n s oks" and n: "n \<le> 65535" and ph: "pp_phase s = Ticking"
    and "send_step pubID topic werr s = (s', new)"
  shows "pipe_inv n s' oks"
proof -
  let ?pid = "next_pid (pp_pid s)"
  obtain q s1 where t: "take_seq s = (q, s1)" by fastforce
  have same: "pp_pid s1 = pp_pid s" "pp_outstanding s1 = pp_outstanding s" "pp_slot s1 = pp_slot s"
    "pp_published s1 = pp_published s"
    using t by (auto simp: take_seq_def split: if_splits)
  have w: "length (pp_outstanding s) + 1 \<le> pp_slot s" "pp_slot s \<le> n"
    using inv ph by (auto simp: pipe_inv_def window_ok_def)
  then have "length (pp_outstanding s) < 65535" using n by linarith
  with inv have out: "AList.update ?pid q (pp_outstanding s) = pp_outstanding s @ [(?pid, q)]"
    by (intro update_fresh recent_fresh) (simp_all add: pipe_inv_def)
  have s': "s' = s1\<lparr>pp_pid := ?pid, pp_outstanding := pp_outstanding s @ [(?pid, q)],
      pp_phase := (if werr = None then Selecting else Leaving False)\<rparr>"
    using assms(4) by (simp add: send_step_def t same out Let_def)
  have "recent_pids s'"
    by (rule recent_append [of s]) (use inv in \<open>simp_all add: pipe_inv_def s' same\<close>)
  moreover have "window_ok n s'"
    using w by (simp add: window_ok_def s' same)
  moreover have "accounted s' oks"
  proof (cases "pp_idx s < length (pp_replay s)")
    case True
    then have d: "drop (pp_idx s) (pp_replay s) = q # drop (pp_idx s + 1) (pp_replay s)"
      and "s1 = s\<lparr>pp_idx := pp_idx s + 1\<rparr>"
      using t by (auto simp: take_seq_def Cons_nth_drop_Suc)
    then show ?thesis
      using inv unfolding pipe_inv_def accounted_def d by (simp add: s')
  next
    case False
    then have "s1 = s\<lparr>pp_seq := pp_seq s + 1\<rparr>" "q = pp_seq s"
      using t by (auto simp: take_seq_def)
    then show ?thesis
      using inv upto_snoc [of "pp_seq s"] False unfolding pipe_inv_def accounted_def by (simp add: s')
  qed
  ultimately show ?thesis by (simp add: pipe_inv_def)
qed

lemma reader_keeps:
  assumes inv: "pipe_inv n s oks" and n: "n \<le> 65535" and ord: "acks_in_order (RAck r) s"
    and run: "reader_runs s"
  shows "pipe_inv n (reader_step r s) (oks @ confirms (RAck r) s)"
proof (cases "\<exists>ack. r = Inr ack \<and> ptype ack = Puback")
  case False
  then have "reader_step r s = s\<lparr>pp_stop := True\<rparr>" "confirms (RAck r) s = []"
    by (auto simp: reader_step_def confirms_def split: sum.splits)
  with inv run show ?thesis
    by (auto simp: pipe_inv_def window_ok_def accounted_def reader_runs_def elim: recent_cong)
next
  case True
  then obtain ack where r: "r = Inr ack" "ptype ack = Puback" by blast
  with ord obtain q rest where o: "pp_outstanding s = (PacketID ack, q) # rest"
    by (auto simp: acks_in_order_def split: list.splits)
  have w: "length (pp_outstanding s) + (if pp_phase s \<in> {Holding, Ticking} then 1 else 0) \<le> pp_slot s"
    "pp_slot s \<le> n"
    using inv run by (auto simp: pipe_inv_def window_ok_def reader_runs_def split: if_splits)
  have "length (pp_outstanding s) \<le> 65535" using w n by (simp split: if_splits)
  with inv have "distinct (map fst (pp_outstanding s))"
    by (intro recent_distinct) (simp_all add: pipe_inv_def)
  then have "AList.delete (PacketID ack) (pp_outstanding s) = rest"
    unfolding o by (rule delete_head)
  then have s': "reader_step r s =
      s\<lparr>pp_outstanding := rest, pp_published := pp_published s + 1, pp_slot := pp_slot s - 1\<rparr>"
    by (simp add: reader_step_def r)
  have c: "confirms (RAck r) s = [q]" by (simp add: confirms_def r o)
  have "recent_pids (reader_step r s)"
    by (rule recent_tail [of s _ rest]) (use inv in \<open>simp_all add: pipe_inv_def s' o\<close>)
  moreover have "window_ok n (reader_step r s)"
    using w run by (auto simp: window_ok_def s' o reader_runs_def split: if_splits)
  moreover have "accounted (reader_step r s) (oks @ [q])"
    using inv by (simp add: pipe_inv_def accounted_def s' o)
  ultimately show ?thesis by (simp add: pipe_inv_def c)
qed

lemma fold_keeps:
  assumes "pipe_inv n s oks" "mset vals = mset (map snd (pp_outstanding s))"
  shows "pipe_inv n (fold_step vals s) oks"
proof -
  have "recent_pids (fold_step vals s)"
    by (rule recent_empty [of s]) (use assms(1) in \<open>simp_all add: pipe_inv_def fold_step_def\<close>)
  moreover have "accounted (fold_step vals s) oks"
    using assms unfolding pipe_inv_def accounted_def
    by (simp add: fold_step_def add.assoc)
  ultimately show ?thesis by (simp add: pipe_inv_def window_ok_def fold_step_def)
qed

text \<open>A step that only moves the writer, and one that fetches a slot.\<close>

lemma move_keeps:
  assumes "pipe_inv n s oks" "pp_phase s \<noteq> Dialling" "pp_phase s \<noteq> Returned" "ph \<noteq> Dialling"
    and "ph \<in> {Holding, Ticking} \<Longrightarrow> pp_phase s \<in> {Holding, Ticking}"
  shows "pipe_inv n (s\<lparr>pp_phase := ph\<rparr>) oks"
proof -
  have "recent_pids (s\<lparr>pp_phase := ph\<rparr>)"
    by (rule recent_cong [of s]) (use assms(1) in \<open>simp_all add: pipe_inv_def\<close>)
  with assms show ?thesis
    by (auto simp: pipe_inv_def window_ok_def accounted_def split: if_splits)
qed

lemma slot_keeps:
  assumes "pipe_inv n s oks" "pp_phase s = Selecting" "pp_slot s < n"
  shows "pipe_inv n (s\<lparr>pp_slot := pp_slot s + 1, pp_phase := Holding\<rparr>) oks"
proof -
  have "recent_pids (s\<lparr>pp_slot := pp_slot s + 1, pp_phase := Holding\<rparr>)"
    by (rule recent_cong [of s]) (use assms(1) in \<open>simp_all add: pipe_inv_def\<close>)
  with assms show ?thesis
    by (auto simp: pipe_inv_def window_ok_def accounted_def split: if_splits)
qed

lemma dial_keeps:
  assumes "pipe_inv n s oks" "pp_phase s = Dialling"
  shows "pipe_inv n (s\<lparr>pp_slot := 0, pp_stop := False, pp_outstanding := [], pp_idx := 0,
      pp_phase := Selecting\<rparr>) oks" (is "pipe_inv n ?s1 oks")
    and "pipe_inv n (s\<lparr>pp_phase := Returned\<rparr>) oks"
proof -
  have "recent_pids ?s1"
    by (rule recent_empty [of s]) (use assms(1) in \<open>simp_all add: pipe_inv_def\<close>)
  with assms show "pipe_inv n ?s1 oks"
    by (auto simp: pipe_inv_def window_ok_def accounted_def)
  have "recent_pids (s\<lparr>pp_phase := Returned\<rparr>)"
    by (rule recent_cong [of s]) (use assms(1) in \<open>simp_all add: pipe_inv_def\<close>)
  with assms show "pipe_inv n (s\<lparr>pp_phase := Returned\<rparr>) oks"
    by (auto simp: pipe_inv_def window_ok_def accounted_def)
qed

lemma return_keeps: "pipe_inv n s oks \<Longrightarrow> pipe_inv n (s\<lparr>pp_phase := Returned\<rparr>) oks"
  by (auto simp: pipe_inv_def window_ok_def accounted_def elim: recent_cong)

lemma pipe_step_keeps:
  assumes inv: "pipe_inv n s oks" and n: "n \<le> 65535" and ord: "acks_in_order a s"
    and st: "pipe_step n pubID topic a s = Some (s', new)"
  shows "pipe_inv n s' (oks @ confirms a s)"
proof (cases a)
  case (RAck r)
  with st have "reader_runs s" "s' = reader_step r s"
    by (auto simp: pipe_step_def split: if_splits)
  with reader_keeps [OF inv n] ord RAck show ?thesis by simp
next
  case (WSend werr)
  with st have "pp_phase s = Ticking" "send_step pubID topic werr s = (s', new)"
    by (auto simp: pipe_step_def split: if_splits)
  with send_keeps [OF inv n] WSend show ?thesis by (simp add: confirms_def)
next
  case (WFold vals)
  with st consider ex where "pp_phase s = Leaving ex" "s' = s\<lparr>pp_phase := Returned\<rparr>"
    | "mset vals = mset (map snd (pp_outstanding s))" "s' = fold_step vals s"
    by (auto simp: pipe_step_def split: if_splits pipe_phase.splits)
  then show ?thesis
    using WFold inv return_keeps [OF inv] fold_keeps [OF inv] by cases (simp_all add: confirms_def)
next
  case (WDial b)
  with st inv dial_keeps [OF inv] show ?thesis
    by (auto simp: pipe_step_def confirms_def split: if_splits)
next
  case WSlot
  with st slot_keeps [OF inv] show ?thesis
    by (auto simp: pipe_step_def confirms_def split: if_splits)
qed (use st inv in \<open>auto simp: pipe_step_def confirms_def intro!: move_keeps split: if_splits\<close>)

lemma pipe_run_inv:
  "pipe_run n pubID topic s out oks \<Longrightarrow> n \<le> 65535 \<Longrightarrow> pipe_inv n s oks"
  by (induction rule: pipe_run.induct) (auto intro: pipe_inv_start pipe_step_keeps)

text \<open>What has been handed out has been written.\<close>

definition written_seqs :: "16 word \<Rightarrow> string \<Rightarrow> packet list \<Rightarrow> int set" where
  "written_seqs pubID topic out = {q. \<exists>pid. publish_packet pubID topic 1 q pid \<in> set out}"

lemma pipe_step_writes:
  assumes "pipe_step n pubID topic a s = Some (s', new)"
  shows "pp_seq s' = pp_seq s \<or>
    pp_seq s' = pp_seq s + 1 \<and> pp_seq s \<in> written_seqs pubID topic new"
proof (cases "pp_seq s' = pp_seq s")
  case False
  have "pp_seq (reader_step r s) = pp_seq s" "pp_seq (fold_step v s) = pp_seq s" for r v
    by (simp_all add: reader_step_def fold_step_def split: sum.splits)
  with False assms obtain werr where "send_step pubID topic werr s = (s', new)"
    by (auto simp: pipe_step_def split: pipe_act.splits if_splits pipe_phase.splits)
  with False show ?thesis
    by (auto simp: send_step_def take_seq_def Let_def written_seqs_def split: if_splits)
qed simp

lemma written_append:
  "written_seqs pubID topic (out @ new) = written_seqs pubID topic out \<union> written_seqs pubID topic new"
  by (auto simp: written_seqs_def)

lemma pipe_run_written:
  "pipe_run n pubID topic s out oks \<Longrightarrow> {0..<pp_seq s} \<subseteq> written_seqs pubID topic out"
proof (induction rule: pipe_run.induct)
  case start
  then show ?case by (simp add: pipe_start_def)
next
  case (step s out oks a s' new)
  from pipe_step_writes [OF step(3)] step(4) show ?case
    by (auto simp: written_append less_le)
qed

text \<open>Executing a list of actions.\<close>

fun pipe_exec :: "nat \<Rightarrow> 16 word \<Rightarrow> string \<Rightarrow> pipe_act list \<Rightarrow> pipe \<Rightarrow>
    (pipe \<times> packet list \<times> int list) option" where
  "pipe_exec n pubID topic [] s = Some (s, [], [])"
| "pipe_exec n pubID topic (a # as) s =
     (if acks_in_order a s
      then (case pipe_step n pubID topic a s of
              None \<Rightarrow> None
            | Some (s1, new) \<Rightarrow>
               (case pipe_exec n pubID topic as s1 of
                  None \<Rightarrow> None
                | Some (s2, out, oks) \<Rightarrow> Some (s2, new @ out, confirms a s @ oks)))
      else None)"

lemma pipe_exec_run:
  "pipe_exec n pubID topic as s = Some (s', out', oks') \<Longrightarrow> pipe_run n pubID topic s out oks \<Longrightarrow>
   pipe_run n pubID topic s' (out @ out') (oks @ oks')"
proof (induction as arbitrary: s out oks out' oks')
  case (Cons a as)
  from Cons.prems(1) obtain s1 new out2 oks2 where
    st: "acks_in_order a s" "pipe_step n pubID topic a s = Some (s1, new)"
    and ex: "pipe_exec n pubID topic as s1 = Some (s', out2, oks2)"
    and eq: "out' = new @ out2" "oks' = confirms a s @ oks2"
    by (auto split: if_splits option.splits)
  from Cons.IH [OF ex pipe_run.step [OF Cons.prems(2) st]] show ?case by (simp add: eq)
qed simp

section \<open>No sequence number is skipped\<close>

text \<open>C40: in every run of the pipelined publisher with a window of at most 65535, against a
  broker that acknowledges in order, however often the connection breaks and whatever was in
  flight then: each sequence number handed out so far has been written to a connection and is,
  exactly once, confirmed by a PUBACK, outstanding on the present connection, or queued for
  replay; and \<open>published\<close> counts the confirmed ones.\<close>

theorem pipeline_no_skip:
  assumes "pipe_run n pubID topic s out oks" "n \<le> 65535"
  shows "mset oks + mset (map snd (pp_outstanding s)) + mset (drop (pp_idx s) (pp_replay s))
           = mset [0..pp_seq s - 1]
       \<and> {0..pp_seq s - 1} \<subseteq> written_seqs pubID topic out
       \<and> pp_published s = int (length oks)"
proof -
  have "{0..pp_seq s - 1} = {0..<pp_seq s}" by auto
  with pipe_run_inv [OF assms] pipe_run_written [OF assms(1)] show ?thesis
    by (simp add: pipe_inv_def accounted_def)
qed

text \<open>Two publishes in flight when the connection breaks; after the reconnect both are
  replayed and the first is acknowledged.\<close>

definition sample_acts :: "pipe_act list" where
  "sample_acts = [WDial True, WSlot, WInTime, WSend None, WSlot, WInTime, WSend (Some ErrEOF),
     RAck (Inl ErrEOF), WFold [1, 0], WDial True, WSlot, WInTime, WSend None,
     RAck (Inr (soak_reply Puback 3)), WSlot, WInTime, WSend None]"

definition sample_end :: pipe where
  "sample_end = \<lparr>pp_seq = 2, pp_pid = 4, pp_published = 1, pp_replay = [1, 0], pp_idx = 2,
     pp_outstanding = [(4, 0)], pp_slot = 1, pp_stop = False, pp_phase = Selecting\<rparr>"

lemma sample_exec:
  "map_option (\<lambda>(s, out, oks). (s, oks)) (pipe_exec 2 7 ''soak/x'' sample_acts pipe_start)
     = Some (sample_end, [1])"
  by (simp add: sample_acts_def sample_end_def pipe_start_def pipe_step_def acks_in_order_def confirms_def send_step_def
      take_seq_def next_pid_def reader_step_def fold_step_def reader_runs_def soak_reply_def
      new_packet_def Let_def)

theorem pipeline_no_skip_witness:
  "\<exists>out. pipe_run 2 7 ''soak/x'' sample_end out [1] \<and> mset [1, 0] = mset [0..1 :: int]
     \<and> {0..1} \<subseteq> written_seqs 7 ''soak/x'' out"
proof -
  from sample_exec obtain out where
    "pipe_exec 2 7 ''soak/x'' sample_acts pipe_start = Some (sample_end, out, [1])"
    by (auto simp del: pipe_exec.simps)
  from pipe_exec_run [OF this pipe_run.start] have r: "pipe_run 2 7 ''soak/x'' sample_end out [1]"
    by simp
  from pipeline_no_skip [OF r] r show ?thesis
    by (intro exI [of _ out]) (simp add: sample_end_def add_mset_commute)
qed

end
