(* ===== verification/SoakFacts.thy ===== *)
theory SoakFacts
  imports SoakPipeline
begin

text \<open>
  What the load generator's verdict is worth: the payload round trip, the serial publisher's
  sequence numbers, the exactness of the counts, duplicates and gaps of a subscriber, the end
  of the drain phase.
\<close>

section \<open>Payloads\<close>

lemma length_put_be [simp]: "length (put_be n v) = n"
  by (induction n arbitrary: v) auto

lemma get_put_be: "get_be (put_be n v) = take_bit (8 * n) (v :: 'a::len word)"
proof (induction n arbitrary: v)
  case 0
  then show ?case by (simp add: get_be_def)
next
  case (Suc n)
  have "get_be (put_be (Suc n) v) =
      push_bit 8 (get_be (put_be n (drop_bit 8 v))) OR ucast (ucast v :: byte)"
    by (simp add: get_be_def)
  also have "\<dots> = take_bit (8 * Suc n) v"
    unfolding Suc.IH by (rule bit_word_eqI) (auto simp: bit_simps)
  finally show ?case .
qed

text \<open>A subscriber decodes from a payload exactly the publisher id and the sequence number
  the publisher encoded, over the whole range of \<open>uint16\<close> and \<open>int64\<close>, whatever follows them in
  the packet.\<close>

theorem payload_roundtrip:
  assumes "- (2 ^ 63) \<le> seq" "seq < 2 ^ 63"
  shows "decodePayload (encodePayload pubID seq @ rest) = Some (pubID, seq)"
proof -
  have "get_be (put_be 2 pubID) = pubID" "get_be (put_be 8 (word_of_int seq :: 64 word)) = (word_of_int seq :: 64 word)"
    by (simp_all add: get_put_be take_bit_word_eq_self)
  moreover have "sint (word_of_int seq :: 64 word) = seq"
    using assms by (simp add: int_word_sint)
  ultimately show ?thesis
    by (simp add: decodePayload_def encodePayload_def payloadLen_def)
qed

theorem payload_roundtrip_witness:
  "decodePayload (encodePayload 7 (- 1) @ [0]) = Some (7, - 1)"
  by (rule payload_roundtrip) simp_all

section \<open>What a subscriber reports\<close>

text \<open>The (publisher, sequence number) pairs a script of reads makes the subscriber count.\<close>

fun read_pubs :: "(bool \<times> (err + packet)) list \<Rightarrow> (16 word \<times> int) list" where
  "read_pubs [] = []"
| "read_pubs ((over, r) # rs) =
     (if over then []
      else case r of
        Inl e \<Rightarrow> if errIsTimeout (Some e) then read_pubs rs else []
      | Inr pk \<Rightarrow>
          if ptype pk = Disconnect then []
          else (if ptype pk = Publish
                then (case decodePayload (Payload pk) of None \<Rightarrow> [] | Some x \<Rightarrow> [x]) else [])
               @ read_pubs rs)"

abbreviation count_all :: "(16 word \<times> int) list \<Rightarrow> subStats \<Rightarrow> subStats" where
  "count_all L s \<equiv> fold (\<lambda>(p, j). count_seen p j) L s"

lemma subscriber_packet_counts:
  "\<exists>out. subscriber_packet pk s =
     (count_all (if ptype pk = Publish
        then (case decodePayload (Payload pk) of None \<Rightarrow> [] | Some x \<Rightarrow> [x]) else []) s,
      out, ptype pk = Disconnect)"
  by (cases "ptype pk"; cases "decodePayload (Payload pk)")
     (auto simp: subscriber_packet_def)

lemma readSubscriber_counts: "fst (readSubscriber rs s) = count_all (read_pubs rs) s"
proof (induction rs arbitrary: s)
  case (Cons x rs)
  obtain over r where x: "x = (over, r)" by fastforce
  show ?case
  proof (cases r)
    case (Inl e)
    with Cons x show ?thesis by simp
  next
    case (Inr pk)
    let ?L = "if ptype pk = Publish
        then (case decodePayload (Payload pk) of None \<Rightarrow> [] | Some x \<Rightarrow> [x]) else []"
    obtain out where out: "subscriber_packet pk s = (count_all ?L s, out, ptype pk = Disconnect)"
      using subscriber_packet_counts by blast
    have none: "ptype pk = Disconnect \<Longrightarrow> ?L = []" by simp
    from Cons.IH [of "count_all ?L s"] show ?thesis
      using none by (auto simp: x Inr out split: prod.splits)
  qed
qed simp

text \<open>The statistics that stand for a list of received pairs.\<close>

definition stats_of :: "(16 word \<times> int) list \<Rightarrow> subStats \<Rightarrow> bool" where
  "stats_of L s \<longleftrightarrow>
     st_received s = int (length L) \<and> st_dups s = int (length L) - int (card (set L)) \<and>
     distinct (map fst (st_seen s)) \<and> fst ` set (st_seen s) = fst ` set L \<and>
     (\<forall>p. distinct (map fst (seen_pub s p)) \<and> fst ` set (seen_pub s p) = {j. (p, j) \<in> set L}) \<and>
     (\<forall>p j. seen_count (seen_pub s p) j = int (count_list L (p, j)))"

lemma stats_of_Nil: "stats_of [] no_stats"
  by (simp add: stats_of_def no_stats_def seen_pub_def seen_count_def)

lemma seen_pub_count:
  "seen_pub (count_seen p j s) p' =
     (if p' = p then AList.update j (seen_count (seen_pub s p) j + 1) (seen_pub s p) else seen_pub s p')"
  by (simp add: count_seen_def seen_pub_def Let_def update_conv')

lemma seen_count_update:
  "seen_count (AList.update j n m) j' = (if j' = j then n else seen_count m j')"
  by (simp add: seen_count_def update_conv')

lemma keys_update: "fst ` set (AList.update k v al) = insert k (fst ` set al)"
  using dom_update [of k v al] by (simp add: dom_map_of_conv_image_fst)

lemma stats_of_snoc:
  assumes "stats_of L s"
  shows "stats_of (L @ [(p, j)]) (count_seen p j s)"
proof -
  have dups: "st_dups (count_seen p j s) = int (Suc (length L)) - int (card (insert (p, j) (set L)))"
  proof -
    have "count_list L (p, j) = 0 \<longleftrightarrow> (p, j) \<notin> set L" by (rule count_list_0_iff)
    then show ?thesis
      using assms by (auto simp: stats_of_def count_seen_def Let_def card_insert_if)
  qed
  have keys: "fst ` set (seen_pub (count_seen p j s) p') = {j'. (p', j') \<in> set (L @ [(p, j)])}" for p'
  proof -
    have "fst ` set (seen_pub s p') = {j. (p', j) \<in> set L}" using assms by (simp add: stats_of_def)
    then show ?thesis by (auto simp: seen_pub_count keys_update)
  qed
  have "fst ` set (st_seen (count_seen p j s)) = insert p (fst ` set (st_seen s))"
    "distinct (map fst (st_seen (count_seen p j s)))"
    using assms by (simp_all add: count_seen_def Let_def keys_update distinct_update stats_of_def)
  moreover have "seen_count (seen_pub (count_seen p j s) p') j' = int (count_list (L @ [(p, j)]) (p', j'))"
    for p' j' using assms by (auto simp: stats_of_def seen_pub_count seen_count_update)
  moreover have "distinct (map fst (seen_pub (count_seen p j s) p'))" for p'
    using assms by (auto simp: stats_of_def seen_pub_count distinct_update)
  moreover have "st_received (count_seen p j s) = int (length (L @ [(p, j)]))"
    using assms by (simp add: stats_of_def count_seen_def Let_def)
  ultimately show ?thesis
    using assms dups keys by (auto simp: stats_of_def)
qed

lemma stats_of_count_all: "stats_of L s \<Longrightarrow> stats_of (L @ L') (count_all L' s)"
proof (induction L' arbitrary: L s)
  case (Cons x L')
  obtain p j where "x = (p, j)" by fastforce
  with Cons.IH [OF stats_of_snoc [OF Cons.prems]] show ?case by simp
qed simp

text \<open>The gap analysis: over a map with distinct keys, the missing numbers up to the largest.\<close>

lemma le_max_seq: "j \<le> max_seq m \<longleftrightarrow> j \<le> - 1 \<or> (\<exists>k \<in> fst ` set m. j \<le> k)"
proof -
  have "j \<le> foldl (\<lambda>a kv. if fst kv > a then fst kv else a) a m \<longleftrightarrow>
      j \<le> a \<or> (\<exists>k \<in> fst ` set m. j \<le> k)" for a
    by (induction m arbitrary: a) auto
  then show ?thesis by (simp add: max_seq_def)
qed

definition missing :: "int set \<Rightarrow> int set" where
  "missing K = {j. 0 \<le> j \<and> j \<notin> K \<and> (\<exists>k \<in> K. j < k)}"

lemma missing_upto: "missing (fst ` set m) = set (filter (\<lambda>j. map_of m j = None) [0..max_seq m])"
proof -
  have "j \<le> max_seq m \<longleftrightarrow> (\<exists>k \<in> fst ` set m. j < k)" if "0 \<le> j" "j \<notin> fst ` set m" for j
    unfolding le_max_seq using that by (auto simp: order.strict_iff_order)
  then show ?thesis by (auto simp: missing_def map_of_eq_None_iff)
qed

lemma finite_missing: "finite K \<Longrightarrow> finite (missing K)"
  by (rule finite_subset [of _ "\<Union>k \<in> K. {0..k}"]) (auto simp: missing_def)

lemma lost_in_card: "lost_in m = int (card (missing (fst ` set m)))"
proof -
  have "lost_in m = int (length (filter (\<lambda>j. map_of m j = None) [0..max_seq m]))"
    by (simp add: lost_in_def)
  also have "\<dots> = int (card (set (filter (\<lambda>j. map_of m j = None) [0..max_seq m])))"
    by (subst distinct_card) simp_all
  finally show ?thesis by (simp add: missing_upto)
qed

lemma sum_seen:
  assumes "distinct (map fst al)"
  shows "sum_list (map (\<lambda>(p, m). f m) al) = (\<Sum>p \<in> fst ` set al. f (the (map_of al p)))"
  using assms
proof (induction al)
  case (Cons x al)
  have "(\<Sum>p \<in> fst ` set al. f (the (map_of (x # al) p))) = (\<Sum>p \<in> fst ` set al. f (the (map_of al p)))"
    using Cons.prems by (intro sum.cong) (auto simp: image_iff split: prod.splits)
  with Cons show ?case by (cases x) (auto simp: image_iff)
qed simp

definition gaps :: "(16 word \<times> int) list \<Rightarrow> 16 word \<Rightarrow> int set" where
  "gaps L p = missing {j. (p, j) \<in> set L}"

lemma finite_gaps: "finite (gaps L p)"
proof -
  have "{j. (p, j) \<in> set L} \<subseteq> snd ` set L" by force
  then have "finite {j. (p, j) \<in> set L}" by (rule finite_subset) simp
  then show ?thesis unfolding gaps_def by (rule finite_missing)
qed

lemma report_of_stats:
  assumes "stats_of L s"
  shows "report_of s = \<lparr>Received = int (length L), Dups = int (length L) - int (card (set L)),
     Lost = (\<Sum>p \<in> fst ` set L. int (card (gaps L p)))\<rparr>"
proof -
  have "lost_in (the (map_of (st_seen s) p)) = int (card (gaps L p))" if "p \<in> fst ` set L" for p
  proof -
    from assms that obtain m where m: "map_of (st_seen s) p = Some m"
      unfolding stats_of_def by (metis map_of_eq_None_iff not_None_eq)
    have "fst ` set (seen_pub s p) = {j. (p, j) \<in> set L}" using assms by (simp add: stats_of_def)
    with m show ?thesis by (simp add: lost_in_card gaps_def seen_pub_def)
  qed
  with assms show ?thesis
    by (simp add: report_of_def stats_of_def sum_seen)
qed

text \<open>The pairs one run of a subscriber counts, over all its connections.\<close>

fun run_pubs :: "sub_conn list \<Rightarrow> bool \<Rightarrow> (16 word \<times> int) list" where
  "run_pubs [] subscribed = []"
| "run_pubs (c # cs) subscribed =
     (if sc_over c then []
      else case connectWithBackoffV5 (sc_dial c) of
        None \<Rightarrow> []
      | Some (Inl e) \<Rightarrow> []
      | Some (Inr present) \<Rightarrow>
         if (\<not> subscribed \<or> \<not> present) \<and> sc_write c \<noteq> None then run_pubs cs subscribed
         else read_pubs (sc_reads c) @
              (if snd (snd (readSubscriber (sc_reads c) no_stats)) then run_pubs cs True else []))"

lemma readSubscriber_ends:
  "snd (snd (readSubscriber rs s)) = snd (snd (readSubscriber rs no_stats))"
proof -
  have "snd (snd (readSubscriber rs s)) = snd (snd (readSubscriber rs s'))" for s'
  proof (induction rs arbitrary: s s')
    case (Cons x rs)
    obtain over r where x: "x = (over, r)" by fastforce
    show ?case
    proof (cases r)
      case (Inl e)
      with Cons x show ?thesis by simp
    next
      case (Inr pk)
      obtain t out t' out' where "subscriber_packet pk s = (t, out, ptype pk = Disconnect)"
        "subscriber_packet pk s' = (t', out', ptype pk = Disconnect)"
        using subscriber_packet_counts by metis
      with Cons [of t t'] show ?thesis by (auto simp: x Inr split: prod.splits)
    qed
  qed simp
  then show ?thesis .
qed

lemma runSubscriber_counts:
  "fst (runSubscriber topic qos cs subscribed s) = count_all (run_pubs cs subscribed) s"
proof (induction cs arbitrary: subscribed s)
  case (Cons c cs)
  obtain out fin where
    r: "readSubscriber (sc_reads c) s = (count_all (read_pubs (sc_reads c)) s, out, fin)"
    using readSubscriber_counts [of "sc_reads c" s] by (metis prod.collapse)
  then have fin: "snd (snd (readSubscriber (sc_reads c) no_stats)) = fin"
    using readSubscriber_ends [of "sc_reads c" s] by simp
  show ?case
    using Cons.IH by (auto simp: r fin split: option.splits sum.splits prod.splits) (metis fst_conv)+
qed simp

abbreviation sub_stats :: "string \<Rightarrow> nat \<Rightarrow> sub_conn list \<Rightarrow> subStats" where
  "sub_stats topic qos cs \<equiv> fst (runSubscriber topic qos cs False no_stats)"

lemma run_stats: "stats_of (run_pubs cs False) (sub_stats topic qos cs)"
  using stats_of_count_all [OF stats_of_Nil] by (simp add: runSubscriber_counts)

text \<open>Whatever connections a subscriber goes through, its report is exact: \<open>received\<close> is the
  number of decodable publishes it handled, \<open>dups\<close> how many of them were repetitions, and
  \<open>lost\<close> the number of sequence numbers below the largest one received from a publisher that
  never arrived, summed over the publishers it heard of.\<close>

theorem subscriber_report_exact:
  "report_of (fst (runSubscriber topic qos cs False no_stats)) =
     (let L = run_pubs cs False in
      \<lparr>Received = int (length L), Dups = int (length L) - int (card (set L)),
       Lost = (\<Sum>p \<in> fst ` set L. int (card
         {j. 0 \<le> j \<and> (p, j) \<notin> set L \<and> (\<exists>k > j. (p, k) \<in> set L)}))\<rparr>)"
proof -
  have "gaps L p = {j. 0 \<le> j \<and> (p, j) \<notin> set L \<and> (\<exists>k > j. (p, k) \<in> set L)}" for L p
    by (auto simp: gaps_def missing_def)
  then show ?thesis using report_of_stats [OF run_stats] by (simp add: Let_def)
qed

text \<open>The verdict of a run with QoS 1 or 2 is a failure exactly if some subscriber received
  a later message of a publisher and never an earlier one.\<close>

theorem soak_verdict:
  "exit_code qos (map (\<lambda>cs. fst (runSubscriber topic q cs False no_stats)) css) =
     (if qos \<ge> 1 \<and> (\<exists>cs \<in> set css. \<exists>p j k. 0 \<le> j \<and> j < k \<and> (p, k) \<in> set (run_pubs cs False)
          \<and> (p, j) \<notin> set (run_pubs cs False))
      then 1 else 0)"
proof -
  let ?L = "\<lambda>cs. run_pubs cs False"
  let ?lost = "\<lambda>cs. \<Sum>p \<in> fst ` set (?L cs). int (card (gaps (?L cs) p))"
  have "total_lost (map (sub_stats topic q) css) = sum_list (map ?lost css)"
    by (simp add: total_lost_def report_of_stats [OF run_stats] o_def)
  moreover have "0 \<le> ?lost cs" for cs by (intro sum_nonneg) simp
  ultimately have "total_lost (map (sub_stats topic q) css) > 0 \<longleftrightarrow> (\<exists>cs \<in> set css. ?lost cs \<noteq> 0)"
    using sum_list_nonneg_eq_0_iff [of "map ?lost css"] sum_list_nonneg [of "map ?lost css"]
    by (simp add: order.strict_iff_order) blast
  moreover have "?lost cs \<noteq> 0 \<longleftrightarrow> (\<exists>p j k. 0 \<le> j \<and> j < k \<and> (p, k) \<in> set (?L cs) \<and> (p, j) \<notin> set (?L cs))"
    for cs
  proof -
    have "?lost cs \<noteq> 0 \<longleftrightarrow> (\<exists>p \<in> fst ` set (?L cs). gaps (?L cs) p \<noteq> {})"
      by (simp add: sum_nonneg_eq_0_iff finite_gaps)
    also have "\<dots> \<longleftrightarrow> (\<exists>p j k. 0 \<le> j \<and> j < k \<and> (p, k) \<in> set (?L cs) \<and> (p, j) \<notin> set (?L cs))"
      by (force simp: gaps_def missing_def)
    finally show ?thesis .
  qed
  ultimately show ?thesis by (simp add: exit_code_def)
qed

text \<open>Messages missing at the end of a publisher's sequence are outside the analysis: a
  subscriber that received nothing at all passes, whatever was published.\<close>

lemma total_loss_passes: "exit_code qos [no_stats, no_stats] = 0"
  by (simp add: exit_code_def total_lost_def report_of_def no_stats_def)

text \<open>A subscriber whose SUBSCRIBE was written on a connection that broke before the broker
  read it does not send it again when the session exists: it counts as subscribed.\<close>

lemma subscribe_not_repeated:
  assumes "connectWithBackoffV5 (sc_dial c) = Some (Inr True)" "\<not> sc_over c"
  shows "runSubscriber topic qos [c] True s =
     (case readSubscriber (sc_reads c) s of (s1, out, ended) \<Rightarrow> (s1, out, False))"
  using assms by (auto split: prod.splits)

section \<open>The serial publisher\<close>

text \<open>The PUBLISH packets among those written carry the numbers \<open>ks\<close>, in order: nothing below
  \<open>b\<close> is left out, and a number is repeated only as a re-send.\<close>

definition numbered_by ::
  "16 word \<Rightarrow> string \<Rightarrow> nat \<Rightarrow> packet list \<Rightarrow> int \<Rightarrow> int \<Rightarrow> (int \<times> 16 word) list \<Rightarrow> bool" where
  "numbered_by pubID topic qos out a b kps \<longleftrightarrow>
     filter (\<lambda>pk. ptype pk = Publish) out = map (\<lambda>(k, pid). publish_packet pubID topic qos k pid) kps
     \<and> sorted (map fst kps) \<and> fst ` set kps \<subseteq> {a..b} \<and> {a..<b} \<subseteq> fst ` set kps
     \<and> (qos = 0 \<or> 0 \<notin> snd ` set kps) \<and> a \<le> b"

definition numbered :: "16 word \<Rightarrow> string \<Rightarrow> nat \<Rightarrow> packet list \<Rightarrow> int \<Rightarrow> int \<Rightarrow> bool" where
  "numbered pubID topic qos out a b \<longleftrightarrow> (\<exists>kps. numbered_by pubID topic qos out a b kps)"

lemma numbered_Nil [simp]: "numbered pubID topic qos [] a a"
  by (auto simp: numbered_def numbered_by_def)

lemma sorted_join:
  "sorted ks \<Longrightarrow> sorted ks' \<Longrightarrow> set ks \<subseteq> {a..b} \<Longrightarrow> set ks' \<subseteq> {b..c} \<Longrightarrow> sorted (ks @ ks')"
  for b :: int by (fastforce simp: sorted_append)

lemma numbered_by_append:
  assumes "numbered_by pubID topic qos out a b kps" "numbered_by pubID topic qos out' b c kps'"
  shows "numbered_by pubID topic qos (out @ out') a c (kps @ kps')"
proof -
  note l = assms [unfolded numbered_by_def]
  have "sorted (map fst (kps @ kps'))"
    unfolding map_append by (rule sorted_join [of _ _ a b c]) (use l in auto)
  moreover have "fst ` set (kps @ kps') \<subseteq> {a..c}" using l by fastforce
  moreover have "{a..<c} \<subseteq> fst ` set (kps @ kps')"
  proof
    fix k assume "k \<in> {a..<c}"
    then have "k \<in> {a..<b} \<or> k \<in> {b..<c}" by auto
    with l show "k \<in> fst ` set (kps @ kps')" unfolding set_append image_Un by blast
  qed
  ultimately show ?thesis using l unfolding numbered_by_def by auto
qed

lemma numbered_append:
  "numbered pubID topic qos out a b \<Longrightarrow> numbered pubID topic qos out' b c \<Longrightarrow>
   numbered pubID topic qos (out @ out') a c"
  unfolding numbered_def using numbered_by_append by blast

lemma next_pid_nonzero: "next_pid p \<noteq> 0"
  by (simp add: next_pid_def Let_def)

lemma publish_once_numbered:
  assumes "publish_once pubID topic qos e s = (s', out, r)" "qos \<le> 2"
  shows "numbered pubID topic qos out (ps_seq s) (ps_seq s')
       \<and> ps_published s' - ps_published s = ps_seq s' - ps_seq s"
proof (cases "out = []")
  case True
  with assms show ?thesis
    by (auto simp: publish_once_def Let_def split: if_splits)
next
  case False
  define pid where "pid = (if qos > 0 then next_pid (ps_pid s) else ps_pid s)"
  from False assms have "filter (\<lambda>pk. ptype pk = Publish) out = [publish_packet pubID topic qos (ps_seq s) pid]"
    by (auto simp: publish_once_def pid_def Let_def publish_packet_def pubrel_packet_def new_packet_def
        split: if_splits)
  moreover have "ps_seq s' = ps_seq s \<and> ps_published s' = ps_published s
      \<or> ps_seq s' = ps_seq s + 1 \<and> ps_published s' = ps_published s + 1"
    using assms by (auto simp: publish_once_def Let_def confirm_def split: if_splits)
  moreover have "qos = 0 \<or> pid \<noteq> 0" by (simp add: pid_def next_pid_nonzero)
  ultimately have "numbered_by pubID topic qos out (ps_seq s) (ps_seq s') [(ps_seq s, pid)]
      \<and> ps_published s' - ps_published s = ps_seq s' - ps_seq s"
    unfolding numbered_by_def by auto
  then show ?thesis unfolding numbered_def by blast
qed

lemma publish_conn_numbered:
  "publish_conn pubID topic qos es s = (s', out, r) \<Longrightarrow> qos \<le> 2 \<Longrightarrow>
   numbered pubID topic qos out (ps_seq s) (ps_seq s')
     \<and> ps_published s' - ps_published s = ps_seq s' - ps_seq s"
proof (induction es arbitrary: s s' out r)
  case (Cons e es)
  obtain s1 out1 r1 where one: "publish_once pubID topic qos e s = (s1, out1, r1)" by (metis prod_cases3)
  note step = publish_once_numbered [OF one Cons.prems(2)]
  show ?case
  proof (cases "r1 = PubAgain")
    case True
    obtain s2 out2 r2 where rest: "publish_conn pubID topic qos es s1 = (s2, out2, r2)"
      by (metis prod_cases3)
    from Cons.IH [OF rest Cons.prems(2)] step Cons.prems(1) True show ?thesis
      by (auto simp: one rest intro: numbered_append)
  next
    case False
    with step Cons.prems(1) show ?thesis by (simp add: one)
  qed
qed simp

text \<open>Over any sequence of connections, failed writes, missing and wrong acknowledgements, the
  serial publisher writes its sequence numbers in order and without gaps: it goes on to the
  next number only after the one before was confirmed, every number below the next one has been
  written, a number occurs again only as a re-send, no QoS 1 or 2 publish carries packet id 0, and
  \<open>published\<close> counts exactly the confirmed ones.\<close>

theorem runPublisher_no_gap:
  assumes "runPublisher pubID topic qos cs pub_start = (s', out)" "qos \<le> 2"
  shows "numbered pubID topic qos out 0 (ps_seq s') \<and> ps_published s' = ps_seq s'"
proof -
  have "numbered pubID topic qos out (ps_seq s) (ps_seq s')
       \<and> ps_published s' - ps_published s = ps_seq s' - ps_seq s"
    if "runPublisher pubID topic qos cs s = (s', out)" for s
    using that
  proof (induction cs arbitrary: s s' out)
    case (Cons c cs)
    obtain dial es where c: "c = (dial, es)" by fastforce
    obtain s1 out1 r where one: "publish_conn pubID topic qos es s = (s1, out1, r)" by (metis prod_cases3)
    obtain s2 out2 where rest: "runPublisher pubID topic qos cs s1 = (s2, out2)" by fastforce
    from publish_conn_numbered [OF one assms(2)] Cons.IH [OF rest] Cons.prems show ?case
      by (auto simp: c one rest intro: numbered_append split: option.splits if_splits)
  qed simp
  from this [OF assms(1)] show ?thesis by (simp add: pub_start_def)
qed

definition sample_dial :: dial_try where
  "sample_dial = \<lparr>dt_ctx = False, dt_dial = None, dt_write = None,
     dt_answer = Inr (new_packet Connack), dt_wait = False\<rparr>"

definition sample_pass :: "err option \<Rightarrow> 16 word \<Rightarrow> pub_pass" where
  "sample_pass werr pid = \<lparr>pe_over = False, pe_after = False, pe_write = werr,
     pe_read = Inr (soak_reply Puback pid), pe_rel = None, pe_comp = Inl ErrEOF\<rparr>"

text \<open>A confirmed publish, one whose write fails, and its re-send on the next connection.\<close>

definition sample_conns :: "(dial_try list \<times> pub_pass list) list" where
  "sample_conns = [([sample_dial], [sample_pass None 1, sample_pass (Some ErrEOF) 2]),
     ([sample_dial], [sample_pass None 3])]"

lemma sample_publisher:
  "fst (runPublisher 7 ''soak/pub-7'' 1 sample_conns pub_start)
     = \<lparr>ps_seq = 2, ps_pid = 3, ps_published = 2\<rparr>"
  by (simp add: sample_conns_def sample_dial_def sample_pass_def pub_start_def publish_once_def
      connectWithBackoff_def connectOptsV5_def new_packet_def is_ack_def soak_reply_def next_pid_def
      confirm_def)

theorem runPublisher_no_gap_witness:
  "\<exists>out. runPublisher 7 ''soak/pub-7'' 1 sample_conns pub_start
       = (\<lparr>ps_seq = 2, ps_pid = 3, ps_published = 2\<rparr>, out)
     \<and> numbered 7 ''soak/pub-7'' 1 out 0 2"
proof -
  obtain s' out where r: "runPublisher 7 ''soak/pub-7'' 1 sample_conns pub_start = (s', out)"
    by fastforce
  with sample_publisher have "s' = \<lparr>ps_seq = 2, ps_pid = 3, ps_published = 2\<rparr>" by simp
  with runPublisher_no_gap [OF r] r show ?thesis by simp
qed

section \<open>Rates\<close>

text \<open>The rates of the publishers add up to the requested total when it is at least one for
  each; below that every publisher still runs at one message a second. Tickers never panic
  for the rates this hands out, up to one publish a nanosecond.\<close>

lemma sum_first:
  "0 \<le> r \<Longrightarrow> r \<le> int n \<Longrightarrow> sum_list (map (\<lambda>i. if int i < r then a + 1 else a) [0..<n]) = a * int n + r" for a :: int
proof (induction n arbitrary: r)
  case (Suc n)
  show ?case
  proof (cases "r = int n + 1")
    case True
    then have all: "map (\<lambda>i. if int i < r then a + 1 else a) [0..<Suc n] = map (\<lambda>i. a + 1) [0..<Suc n]"
      by auto
    show ?thesis unfolding all sum_list_triv using True by (simp add: algebra_simps)
  next
    case False
    with Suc show ?thesis by (simp add: algebra_simps)
  qed
qed simp

lemma rates_total:
  assumes "0 < pubs" "int pubs \<le> rate"
  shows "sum_list (publisher_rates rate pubs) = rate"
proof -
  let ?q = "rate div int pubs"
  have "1 \<le> ?q" using assms by (simp add: pos_imp_zdiv_pos_iff int_one_le_iff_zero_less)
  then have per: "perPubRate rate (int pubs) = ?q"
    using assms by (simp add: perPubRate_def quot_def sgn_if)
  have rem: "rate - ?q * int pubs = rate mod int pubs" by (simp add: minus_div_mult_eq_mod)
  have "sum_list (publisher_rates rate pubs) = ?q * int pubs + rate mod int pubs"
    unfolding publisher_rates_def per Let_def rem using assms
    by (intro sum_first) (simp_all add: less_imp_le)
  then show ?thesis by simp
qed

lemma rates_floor:
  assumes "rate < int pubs"
  shows "publisher_rates rate pubs = replicate pubs 1"
proof -
  have "quot rate (int pubs) < 1"
  proof (cases "0 < rate")
    case True
    with assms show ?thesis by (simp add: quot_def sgn_if)
  next
    case False
    then have "sgn rate * sgn (int pubs) \<le> 0" "0 \<le> \<bar>rate\<bar> div \<bar>int pubs\<bar>"
      by (auto simp: sgn_if) (cases "pubs = 0", simp_all add: pos_imp_zdiv_nonneg_iff)
    then show ?thesis unfolding quot_def
      using mult_nonpos_nonneg [of "sgn rate * sgn (int pubs)" "\<bar>rate\<bar> div \<bar>int pubs\<bar>"] by linarith
  qed
  then show ?thesis
    using assms by (auto simp: publisher_rates_def perPubRate_def Let_def map_replicate_const)
qed

lemma tick_interval_ok: "1 \<le> rate \<Longrightarrow> rate \<le> 1000000000 \<Longrightarrow> \<exists>d > 0. tick_interval rate = Inr d"
  by (simp add: tick_interval_def quot_def sgn_if Let_def not_le pos_imp_zdiv_pos_iff)

section \<open>Connecting\<close>

text \<open>A connection is handed out only after a CONNACK with reason 0, and every attempt before
  it failed; without a cancelled context the loop goes on until then.\<close>

lemma connectOptsV5_Inr:
  "connectOptsV5 werr answer = Inr present \<longleftrightarrow>
     werr = None \<and> (\<exists>cack. answer = Inr cack \<and> ptype cack = Connack \<and> ReasonCode cack = 0
       \<and> SessionPresent cack = present)"
  by (auto simp: connectOptsV5_def and_then_Inr split: option.splits if_splits)

lemma backoff_connected:
  "connectWithBackoffV5 ts = Some (Inr present) \<Longrightarrow>
   \<exists>pre t post. ts = pre @ t # post \<and> dt_dial t = None
     \<and> connectOptsV5 (dt_write t) (dt_answer t) = Inr present
     \<and> (\<forall>u \<in> set pre. dt_dial u \<noteq> None \<or> (\<exists>e. connectOptsV5 (dt_write u) (dt_answer u) = Inl e))"
proof (induction ts rule: connectWithBackoffV5.induct)
  case (2 t ts)
  show ?case
  proof (cases "dt_dial t = None \<and> connectOptsV5 (dt_write t) (dt_answer t) = Inr present")
    case True
    then show ?thesis by (intro exI [of _ "[]"] exI [of _ t] exI [of _ ts]) simp
  next
    case False
    with 2 obtain pre t' post where "ts = pre @ t' # post" "dt_dial t' = None"
      "connectOptsV5 (dt_write t') (dt_answer t') = Inr present"
      "\<forall>u \<in> set pre. dt_dial u \<noteq> None \<or> (\<exists>e. connectOptsV5 (dt_write u) (dt_answer u) = Inl e)"
      and "dt_dial t \<noteq> None \<or> (\<exists>e. connectOptsV5 (dt_write t) (dt_answer t) = Inl e)"
      by (fastforce split: if_splits option.splits sum.splits)
    then show ?thesis by (intro exI [of _ "t # pre"] exI [of _ t'] exI [of _ post]) auto
  qed
qed simp

section \<open>The drain phase\<close>

text \<open>It ends quiescent only after ten polls in a row without a change.\<close>

lemma drain_quiescent_gen:
  "drain ps l u = Quiescent c \<Longrightarrow> u = int k * drainPollInterval \<Longrightarrow> k < 10 \<Longrightarrow>
   (\<exists>pre rest. ps = pre @ rest \<and> length pre = 10 - k \<and> c = l \<and> (\<forall>x \<in> set pre. fst x = c)) \<or>
   (\<exists>pre mid rest. ps = pre @ mid @ rest \<and> length mid = 10 \<and> (\<forall>x \<in> set mid. fst x = c))"
proof (induction ps l u arbitrary: k rule: drain.induct)
  case (2 cur elapsed ps l u)
  show ?case
  proof (cases "cur = l")
    case True
    show ?thesis
    proof (cases "k = 9")
      case True
      with 2 \<open>cur = l\<close> show ?thesis
        by (intro disjI1 exI [of _ "[(cur, elapsed)]"] exI [of _ ps])
           (simp add: drainPollInterval_def drainQuiescence_def)
    next
      case False
      with 2(5) have k: "Suc k < 10" by simp
      then have nq: "\<not> u + drainPollInterval \<ge> drainQuiescence"
        using 2(4) by (simp add: drainPollInterval_def drainQuiescence_def)
      with 2(3) True have d: "drain ps l (u + drainPollInterval) = Quiescent c"
        by (auto simp: Let_def split: if_splits)
      have ne: "\<not> cur \<noteq> l" "\<not> elapsed \<ge> drainMaxWait"
        using 2(3) True nq by (auto simp: Let_def split: if_splits)
      from 2(2) [OF ne(1) refl nq ne(2) d _ k] 2(4)
      consider pre rest where "ps = pre @ rest" "length pre = 10 - Suc k" "c = l" "\<forall>x \<in> set pre. fst x = c"
        | pre mid rest where "ps = pre @ mid @ rest" "length mid = 10" "\<forall>x \<in> set mid. fst x = c"
        by (auto simp: algebra_simps)
      then show ?thesis
      proof cases
        case 1
        with k True show ?thesis
          by (intro disjI1 exI [of _ "(cur, elapsed) # pre"] exI [of _ rest]) auto
      next
        case 2
        then show ?thesis
          by (intro disjI2 exI [of _ "(cur, elapsed) # pre"] exI [of _ mid] exI [of _ rest]) simp
      qed
    qed
  next
    case False
    with 2(3) have d: "drain ps cur 0 = Quiescent c" by simp
    from 2(1) [OF False d, of 0]
    consider pre rest where "ps = pre @ rest" "length pre = 10" "\<forall>x \<in> set pre. fst x = c"
      | pre mid rest where "ps = pre @ mid @ rest" "length mid = 10" "\<forall>x \<in> set mid. fst x = c"
      by auto
    then show ?thesis
    proof cases
      case 1
      then show ?thesis
        by (intro disjI2 exI [of _ "[(cur, elapsed)]"] exI [of _ pre] exI [of _ rest]) simp
    next
      case 2
      then show ?thesis
        by (intro disjI2 exI [of _ "(cur, elapsed) # pre"] exI [of _ mid] exI [of _ rest]) simp
    qed
  qed
qed simp

lemma drain_quiescent:
  "drain ps l 0 = Quiescent c \<Longrightarrow>
   \<exists>pre mid rest. ps = pre @ mid @ rest \<and> length mid = 10 \<and> (\<forall>x \<in> set mid. fst x = c)"
  using drain_quiescent_gen [of ps l 0 c 0]
  by simp (metis append_Nil)

text \<open>The five-minute cap is looked at only after a poll without a change: while the counter
  keeps growing, the phase goes on for any time.\<close>

lemma drain_no_cap:
  "\<forall>x \<in> set ps. l < fst x \<Longrightarrow> sorted_wrt (<) (map fst ps) \<Longrightarrow> drain ps l u = StillDraining"
  by (induction ps l u rule: drain.induct) auto

end
