(* ===== verification/Metrics.thy ===== *)
theory Metrics
  imports Janitor
begin

text \<open>
  The metrics of a Pod (\<open>src/internal/metrics/metrics.go\<close>, \<open>pool_collector.go\<close> and
  \<open>src/internal/operator/metrics.go\<close>): which collectors there are, their names, kinds, label
  names and buckets, in the order of the code; the nil-safe observation functions; the merge of
  several registries on \<open>/metrics\<close>; the health endpoints. Help texts are left out. Bucket bounds
  are counted in ten-thousandths. The collectors themselves belong to the Prometheus library;
  what its documentation asks of names, labels and buckets, and answers with a panic, is
  \<open>registry_accepts\<close>.
\<close>

section \<open>Collectors\<close>

datatype kind = Counter | Gauge | Histogram (buckets: "nat list")

datatype collector = Collector (cl_field: string) (cl_name: string) (cl_kind: kind) (cl_labels: "string list")

text \<open>The fields of the struct \<open>Metrics\<close> with the types they are declared with.\<close>

datatype handle = CounterH | GaugeH | HistogramH | CounterVecH | GaugeVecH | HistogramVecH

definition metrics_fields :: "(string \<times> handle) list" where
  "metrics_fields =
    [
     (''Connections'', GaugeH), (''PublishesTotal'', CounterVecH),
     (''DeliveriesInflight'', GaugeVecH), (''TakeoversTotal'', CounterH),
     (''DeadBrokersTotal'', CounterH), (''SessionsExpired'', CounterH),
     (''WillsFiredTotal'', CounterH), (''QuotaExceededTotal'', CounterH),
     (''RateLimitedTotal'', CounterH), (''PublishStageSeconds'', HistogramVecH),
     (''AuthFailuresTotal'', CounterVecH), (''ConnectDroppedTotal'', CounterVecH),
     (''SubscribesTotal'', CounterH), (''UnsubscribesTotal'', CounterH),
     (''JanitorTickSeconds'', HistogramVecH), (''JanitorErrorsTotal'', CounterVecH),
     (''Subscriptions'', GaugeH), (''Sessions'', GaugeH), (''RetainedCount'', GaugeH),
     (''InboundQoS2Pending'', GaugeH), (''MessagesCount'', GaugeH),
     (''JanitorSweptRowsTotal'', CounterVecH), (''NotifyQueueUsageRatio'', GaugeH),
     (''WillsNotifyFailedTotal'', CounterH), (''RetainedDispatchFailedTotal'', CounterH),
     (''DeliveryStageSeconds'', HistogramVecH), (''WillFireLatenessSeconds'', HistogramH),
     (''OutboundInflightSaturation'', HistogramH), (''ConnectionsCapacityRatio'', GaugeH),
     (''ListenerRestartsTotal'', CounterVecH), (''DrainSessionQueueTotal'', CounterVecH),
     (''DrainSessionQueueFailuresTotal'', CounterVecH), (''DeliveriesDroppedTotal'',
     CounterVecH), (''PublishFanoutSubscribers'', HistogramH),
     (''EndToEndPublishToDeliverSeconds'', HistogramH), (''PgxAcquireSeconds'',
     HistogramH)]"

text \<open>The literal of \<open>New\<close>.\<close>

definition traffic_collectors :: "collector list" where
  "traffic_collectors =
    [
     Collector ''Connections'' ''pgmqtt_connections'' Gauge [],
     Collector ''PublishesTotal'' ''pgmqtt_publishes_total'' Counter [''qos''],
     Collector ''DeliveriesInflight'' ''pgmqtt_deliveries_inflight'' Gauge [''state''],
     Collector ''TakeoversTotal'' ''pgmqtt_takeovers_total'' Counter [],
     Collector ''DeadBrokersTotal'' ''pgmqtt_dead_brokers_handled_total'' Counter [],
     Collector ''SessionsExpired'' ''pgmqtt_sessions_expired_total'' Counter [],
     Collector ''WillsFiredTotal'' ''pgmqtt_wills_fired_total'' Counter [],
     Collector ''QuotaExceededTotal'' ''pgmqtt_quota_exceeded_total'' Counter [],
     Collector ''RateLimitedTotal'' ''pgmqtt_rate_limited_total'' Counter [],
     Collector ''PublishStageSeconds'' ''pgmqtt_publish_seconds'' (Histogram [1, 2, 5, 10, 20,
       50, 100, 200, 500, 1000, 2500, 5000, 10000, 25000, 50000]) [''stage''],
     Collector ''AuthFailuresTotal'' ''pgmqtt_auth_failures_total'' Counter [''reason''],
     Collector ''ConnectDroppedTotal'' ''pgmqtt_connect_dropped_total'' Counter [''reason''],
     Collector ''SubscribesTotal'' ''pgmqtt_subscribes_total'' Counter [],
     Collector ''UnsubscribesTotal'' ''pgmqtt_unsubscribes_total'' Counter []]"

definition janitor_collectors :: "collector list" where
  "janitor_collectors =
    [
     Collector ''JanitorTickSeconds'' ''pgmqtt_janitor_tick_seconds'' (Histogram [1, 5, 10,
       50, 100, 500, 1000, 2500, 5000, 10000, 25000, 50000, 100000]) [''job''],
     Collector ''JanitorErrorsTotal'' ''pgmqtt_janitor_errors_total'' Counter [''job''],
     Collector ''Subscriptions'' ''pgmqtt_subscriptions'' Gauge [],
     Collector ''Sessions'' ''pgmqtt_sessions'' Gauge [],
     Collector ''RetainedCount'' ''pgmqtt_retained_count'' Gauge [],
     Collector ''InboundQoS2Pending'' ''pgmqtt_inbound_qos2_pending'' Gauge [],
     Collector ''MessagesCount'' ''pgmqtt_messages_count'' Gauge [],
     Collector ''JanitorSweptRowsTotal'' ''pgmqtt_janitor_swept_rows_total'' Counter [''job''],
     Collector ''NotifyQueueUsageRatio'' ''pgmqtt_pg_notify_queue_usage_ratio'' Gauge [],
     Collector ''WillsNotifyFailedTotal'' ''pgmqtt_wills_notify_failed_total'' Counter [],
     Collector ''RetainedDispatchFailedTotal'' ''pgmqtt_retained_dispatch_failed_total'' Counter []]"

definition path_collectors :: "collector list" where
  "path_collectors =
    [
     Collector ''DeliveryStageSeconds'' ''pgmqtt_delivery_seconds'' (Histogram [1, 2, 5, 10,
       20, 50, 100, 200, 500, 1000, 2500, 5000, 10000, 25000, 50000]) [''stage''],
     Collector ''WillFireLatenessSeconds'' ''pgmqtt_will_fire_lateness_seconds'' (Histogram
       [500, 1000, 2500, 5000, 10000, 25000, 50000, 100000, 300000, 600000, 3000000]) [],
     Collector ''OutboundInflightSaturation'' ''pgmqtt_outbound_inflight_saturation''
       (Histogram [1000, 2500, 5000, 7500, 9000, 9500, 9900, 10000]) [],
     Collector ''ConnectionsCapacityRatio'' ''pgmqtt_connections_capacity_ratio'' Gauge [],
     Collector ''ListenerRestartsTotal'' ''pgmqtt_listener_restarts_total'' Counter [''reason''],
     Collector ''DrainSessionQueueTotal'' ''pgmqtt_drain_session_queue_total'' Counter [''reason''],
     Collector ''DrainSessionQueueFailuresTotal''
       ''pgmqtt_drain_session_queue_failures_total'' Counter [''reason''],
     Collector ''DeliveriesDroppedTotal'' ''pgmqtt_deliveries_dropped_total'' Counter [''reason''],
     Collector ''PublishFanoutSubscribers'' ''pgmqtt_publish_fanout_subscribers'' (Histogram
       [0, 10000, 20000, 50000, 100000, 250000, 500000, 1000000, 2500000, 5000000, 10000000,
       50000000]) [],
     Collector ''EndToEndPublishToDeliverSeconds'' ''pgmqtt_e2e_publish_to_deliver_seconds''
       (Histogram [5, 10, 20, 50, 100, 200, 500, 1000, 2500, 5000, 10000, 25000, 50000]) [],
     Collector ''PgxAcquireSeconds'' ''pgmqtt_pgx_acquire_seconds'' (Histogram [1, 2, 5, 10,
       20, 50, 100, 200, 500, 1000, 2500, 5000, 10000, 25000, 50000]) []]"

definition New_collectors :: "collector list" where
  "New_collectors = traffic_collectors @ janitor_collectors @ path_collectors"

text \<open>The series created at zero, and the arguments of \<open>MustRegister\<close> (without the Go and process
  collectors of the library).\<close>

definition preset_series :: "(string \<times> string) list" where
  "preset_series =
    [(''DrainSessionQueueTotal'', ''reconnect''), (''DrainSessionQueueFailuresTotal'', ''reconnect''),
     (''DeliveriesDroppedTotal'', ''expired''), (''DeliveriesDroppedTotal'', ''oversized''),
     (''DeliveriesDroppedTotal'', ''write_error''), (''DeliveriesDroppedTotal'', ''overflow'')]"

definition registered_fields :: "string list" where
  "registered_fields =
    [
     ''Connections'', ''PublishesTotal'', ''DeliveriesInflight'', ''TakeoversTotal'',
     ''DeadBrokersTotal'', ''SessionsExpired'', ''WillsFiredTotal'',
     ''QuotaExceededTotal'', ''RateLimitedTotal'', ''PublishStageSeconds'',
     ''AuthFailuresTotal'', ''ConnectDroppedTotal'', ''SubscribesTotal'',
     ''UnsubscribesTotal'', ''JanitorTickSeconds'', ''JanitorErrorsTotal'',
     ''Subscriptions'', ''Sessions'', ''RetainedCount'', ''InboundQoS2Pending'',
     ''MessagesCount'', ''JanitorSweptRowsTotal'', ''NotifyQueueUsageRatio'',
     ''WillsNotifyFailedTotal'', ''RetainedDispatchFailedTotal'',
     ''DeliveryStageSeconds'', ''WillFireLatenessSeconds'',
     ''OutboundInflightSaturation'', ''ConnectionsCapacityRatio'',
     ''ListenerRestartsTotal'', ''DrainSessionQueueTotal'',
     ''DrainSessionQueueFailuresTotal'', ''DeliveriesDroppedTotal'',
     ''PublishFanoutSubscribers'', ''EndToEndPublishToDeliverSeconds'',
     ''PgxAcquireSeconds'']"

text \<open>The collector of the pool: what it describes and what it collects, and the counter of the
  operator, which lives in the registry of controller-runtime.\<close>

definition pool_describe :: "string list" where
  "pool_describe =
    [''pgmqtt_pgx_total_conns'', ''pgmqtt_pgx_idle_conns'', ''pgmqtt_pgx_in_use_conns'',
     ''pgmqtt_pgx_acquire_count_total'', ''pgmqtt_pgx_acquire_duration_seconds_total'']"

text \<open>The values of \<open>pgxpool.Stat\<close>; the time spent acquiring is a duration.\<close>

record pool_stat =
  TotalConns :: int
  IdleConns :: int
  AcquiredConns :: int
  AcquireCount :: int
  AcquireDuration :: duration

definition pool_collect :: "pool_stat \<Rightarrow> (string \<times> kind \<times> int) list" where
  "pool_collect s =
    [(''pgmqtt_pgx_total_conns'', Gauge, TotalConns s), (''pgmqtt_pgx_idle_conns'', Gauge, IdleConns s),
     (''pgmqtt_pgx_in_use_conns'', Gauge, AcquiredConns s),
     (''pgmqtt_pgx_acquire_count_total'', Counter, AcquireCount s),
     (''pgmqtt_pgx_acquire_duration_seconds_total'', Counter, AcquireDuration s)]"

definition userRehashTotal :: collector where
  "userRehashTotal = Collector ''userRehashTotal'' ''pgmqtt_user_rehash_total'' Counter [''reason'']"

section \<open>What the library asks of a registration\<close>

definition name_start :: "char \<Rightarrow> bool" where
  "name_start c \<longleftrightarrow>
     (let n = of_char c :: nat in (97 \<le> n \<and> n \<le> 122) \<or> (65 \<le> n \<and> n \<le> 90) \<or> n = 95)"

definition name_char :: "char \<Rightarrow> bool" where
  "name_char c \<longleftrightarrow> name_start c \<or> (let n = of_char c :: nat in 48 \<le> n \<and> n \<le> 57)"

fun name_ok :: "string \<Rightarrow> bool" where
  "name_ok [] = False"
| "name_ok (c # cs) = (name_start c \<and> list_all name_char cs)"

fun increasing :: "nat list \<Rightarrow> bool" where
  "increasing (x # y # zs) = (x < y \<and> increasing (y # zs))"
| "increasing _ = True"

definition collector_ok :: "collector \<Rightarrow> bool" where
  "collector_ok c \<longleftrightarrow> name_ok (cl_name c) \<and> list_all name_ok (cl_labels c) \<and> distinct (cl_labels c) \<and>
     (case cl_kind c of Histogram bs \<Rightarrow> bs \<noteq> [] \<and> increasing bs \<and> ''le'' \<notin> set (cl_labels c) | _ \<Rightarrow> True)"

definition registry_accepts :: "collector list \<Rightarrow> bool" where
  "registry_accepts cs \<longleftrightarrow> list_all collector_ok cs \<and> distinct (map cl_name cs)"

definition handle_of :: "collector \<Rightarrow> handle" where
  "handle_of c = (case (cl_kind c, cl_labels c) of
       (Counter, []) \<Rightarrow> CounterH | (Gauge, []) \<Rightarrow> GaugeH | (Histogram _, []) \<Rightarrow> HistogramH
     | (Counter, _) \<Rightarrow> CounterVecH | (Gauge, _) \<Rightarrow> GaugeVecH | (Histogram _, _) \<Rightarrow> HistogramVecH)"

definition collector_of :: "string \<Rightarrow> collector option" where
  "collector_of f = find (\<lambda>c. cl_field c = f) New_collectors"

section \<open>Label values\<close>

text \<open>The values the code gives to the one label of a vector, where they are fixed; the QoS label
  is a number.\<close>

definition jobs :: "job list" where
  "jobs = [JobFindDeadBrokers, JobHandleDeadBroker, JobFireDueWills, JobExpireSessions,
     JobExpireRetained, JobSweepInboundQoS2, JobSweepOrphanDeliveries, JobRefreshDeliveriesGauge,
     JobRefreshStateGauges, JobSweepOrphanMessages, JobRefreshNotifyQueue]"

definition label_values :: "(string \<times> string list) list" where
  "label_values =
    [(''PublishesTotal'', [''0'', ''1'', ''2'']),
     (''DeliveriesInflight'', map stateLabel [0, 1, 2, 3]),
     (''AuthFailuresTotal'', [''bad_credentials'', ''not_authorized'', ''bad_auth_method'',
        ''client_id_invalid'', ''unsupported_protocol'', ''other'']),
     (''ConnectDroppedTotal'', [''rate_limit'', ''penalty_box'', ''db_error'']),
     (''JanitorErrorsTotal'', map job_label jobs), (''JanitorSweptRowsTotal'', map job_label jobs),
     (''ListenerRestartsTotal'', [''wait_error'', ''ctx_cancel'', ''exhausted_retries'']),
     (''DrainSessionQueueTotal'', [''reconnect'']), (''DrainSessionQueueFailuresTotal'', [''reconnect'']),
     (''DeliveriesDroppedTotal'', [''expired'', ''oversized'', ''write_error'', ''overflow''])]"

text \<open>\<open>m.f.WithLabelValues(l)\<close>, or \<open>m.f\<close> with \<open>l\<close> empty, is a series of a counter or gauge that
  exists: the field is declared with that kind and as many labels, and a label value is one of
  the field's list.\<close>

definition series_ok :: "string \<Rightarrow> string \<Rightarrow> bool" where
  "series_ok f l =
     (case collector_of f of None \<Rightarrow> False
      | Some c \<Rightarrow> (cl_kind c = Counter \<or> cl_kind c = Gauge) \<and>
          (case cl_labels c of [] \<Rightarrow> l = ''''
           | [_] \<Rightarrow> (case map_of label_values f of None \<Rightarrow> False | Some ls \<Rightarrow> l \<in> set ls)
           | _ \<Rightarrow> False))"

definition is_counter :: "string \<Rightarrow> bool" where
  "is_counter f \<longleftrightarrow> map_option cl_kind (collector_of f) = Some Counter"

section \<open>Observing\<close>

text \<open>A \<open>*Metrics\<close>, or nil: the values each series was given, latest last, and the registries
  that were added. A gatherer answers a scrape with metric families, by name, and possibly an
  error; the content of a family is left open.\<close>

type_synonym 'v gatherer = "(string \<times> 'v) list \<times> err option"

record 'v metrics =
  series :: "string \<times> string \<Rightarrow> int list"
  Reg :: "'v gatherer"
  extraGatherers :: "'v gatherer list"

definition observe :: "string \<Rightarrow> string \<Rightarrow> int \<Rightarrow> 'v metrics option \<Rightarrow> 'v metrics option" where
  "observe f l v m = (case m of None \<Rightarrow> None
     | Some m \<Rightarrow> Some (m\<lparr>series := (series m)((f, l) := series m (f, l) @ [v])\<rparr>))"

definition ObserveDeliveryStage :: "string \<Rightarrow> duration \<Rightarrow> 'v metrics option \<Rightarrow> 'v metrics option" where
  "ObserveDeliveryStage stage d = observe ''DeliveryStageSeconds'' stage d"

definition ObserveDeliveryDropped :: "string \<Rightarrow> 'v metrics option \<Rightarrow> 'v metrics option" where
  "ObserveDeliveryDropped reason = observe ''DeliveriesDroppedTotal'' reason 1"

definition ObservePublishStage :: "string \<Rightarrow> duration \<Rightarrow> 'v metrics option \<Rightarrow> 'v metrics option" where
  "ObservePublishStage stage d = observe ''PublishStageSeconds'' stage d"

definition ObservePublishFanout :: "int \<Rightarrow> 'v metrics option \<Rightarrow> 'v metrics option" where
  "ObservePublishFanout subscribers = observe ''PublishFanoutSubscribers'' '''' subscribers"

definition ObserveE2EPublishToDeliver :: "duration \<Rightarrow> 'v metrics option \<Rightarrow> 'v metrics option" where
  "ObserveE2EPublishToDeliver d = observe ''EndToEndPublishToDeliverSeconds'' '''' d"

definition ObservePgxAcquire :: "duration \<Rightarrow> 'v metrics option \<Rightarrow> 'v metrics option" where
  "ObservePgxAcquire d = observe ''PgxAcquireSeconds'' '''' d"

text \<open>\<open>AddGatherer\<close>: nothing on a nil receiver or a nil gatherer.\<close>

definition AddGatherer :: "'v gatherer option \<Rightarrow> 'v metrics option \<Rightarrow> 'v metrics option" where
  "AddGatherer g m = (case (m, g) of
      (Some m, Some g) \<Rightarrow> Some (m\<lparr>extraGatherers := extraGatherers m @ [g]\<rparr>)
    | _ \<Rightarrow> m)"

section \<open>Scraping\<close>

text \<open>\<open>dedupeGatherer.Gather\<close>. The inner loop over the families of one extra registry, with the
  set \<open>seen\<close>; the loop over the extra registries, which stops at the first error.\<close>

fun take_unseen :: "(string \<times> 'v) list \<Rightarrow> string list \<Rightarrow> (string \<times> 'v) list \<Rightarrow>
    string list \<times> (string \<times> 'v) list" where
  "take_unseen [] seen out = (seen, out)"
| "take_unseen (mf # mfs) seen out =
     (if fst mf \<in> set seen then take_unseen mfs seen out
      else take_unseen mfs (fst mf # seen) (out @ [mf]))"

fun gather_extras :: "'v gatherer list \<Rightarrow> string list \<Rightarrow> (string \<times> 'v) list \<Rightarrow> 'v gatherer" where
  "gather_extras [] seen out = (out, None)"
| "gather_extras (g # gs) seen out =
     (case snd g of
        Some e \<Rightarrow> (out, Some e)
      | None \<Rightarrow> (case take_unseen (fst g) seen out of (seen', out') \<Rightarrow> gather_extras gs seen' out'))"

definition Gather :: "'v gatherer \<Rightarrow> 'v gatherer list \<Rightarrow> 'v gatherer" where
  "Gather primary extras =
     (case snd primary of
        Some e \<Rightarrow> (fst primary, Some e)
      | None \<Rightarrow> gather_extras extras (map fst (fst primary)) (fst primary))"

definition Handler :: "'v metrics \<Rightarrow> 'v gatherer" where
  "Handler m = Gather (Reg m) (extraGatherers m)"

section \<open>Health\<close>

text \<open>The status and body of the two probes. The argument of the readiness probe is the pool, if
  any, with what its ping answers within 1.5 seconds.\<close>

definition healthz_live :: "nat \<times> string" where
  "healthz_live = (200, ''ok'')"

definition healthz_ready :: "err option option \<Rightarrow> nat \<times> string" where
  "healthz_ready pool =
     (case pool of None \<Rightarrow> (200, '''')
      | Some (Some e) \<Rightarrow> (503, ''postgres unavailable'')
      | Some None \<Rightarrow> (200, ''ok''))"

datatype ('r) route = MetricsRoute 'r | LiveRoute | ReadyRoute

definition Serve_mux :: "string \<Rightarrow> 'v metrics \<Rightarrow> 'v gatherer route option" where
  "Serve_mux path m =
     (if path = ''/metrics'' then Some (MetricsRoute (Handler m))
      else if path = ''/healthz/live'' then Some LiveRoute
      else if path = ''/healthz/ready'' then Some ReadyRoute
      else None)"

end
