(* ===== verification/MetricsFacts.thy ===== *)
theory MetricsFacts
  imports Metrics Steps
begin

text \<open>
  What is proved of the metrics: the collectors of \<open>New\<close> satisfy what the library asks of a
  registration, so it does not panic; a scrape shows every family once and prefers the Pod's own;
  and the handlers use the metrics as they are declared (\<open>metered\<close>): every series they touch
  exists, and a counter never falls. The histograms are only declared: the model of the handlers
  leaves their observations out.
\<close>

section \<open>Registration\<close>

lemmas collectors_defs = New_collectors_def traffic_collectors_def janitor_collectors_def
  path_collectors_def userRehashTotal_def

lemma New_ok: "list_all collector_ok (userRehashTotal # New_collectors)"
  by (simp add: collectors_defs collector_ok_def name_char_def name_start_def)

lemma New_distinct: "distinct (map cl_name (userRehashTotal # New_collectors))"
  by (simp add: collectors_defs)

lemma New_accepted: "registry_accepts (userRehashTotal # New_collectors)"
  using New_ok New_distinct by (simp add: registry_accepts_def)

lemma pool_names_new: "set pool_describe \<inter> set (map cl_name (userRehashTotal # New_collectors)) = {}"
  by (simp add: collectors_defs pool_describe_def)

section \<open>Scraping\<close>

lemma take_unseen_spec:
  assumes "take_unseen mfs seen out = (seen', out')" "set seen = fst ` set out" "distinct (map fst out)"
  shows "set seen' = fst ` set out' \<and> distinct (map fst out') \<and> map_of out' = map_of mfs ++ map_of out
       \<and> take (length out) out' = out"
  using assms
proof (induction mfs seen out rule: take_unseen.induct)
  case (2 mf mfs seen out)
  show ?case
  proof (cases "fst mf \<in> set seen")
    case True
    with "2.prems" obtain v where v: "map_of out (fst mf) = Some v"
      by (metis map_of_eq_None_iff option.exhaust)
    from 2 True have IH: "set seen' = fst ` set out' \<and> distinct (map fst out') \<and>
        map_of out' = map_of mfs ++ map_of out \<and> take (length out) out' = out" by simp
    moreover have "map_of mfs ++ map_of out = map_of (mf # mfs) ++ map_of out"
      using v by (intro ext) (simp add: map_add_def split: option.splits)
    ultimately show ?thesis by metis
  next
    case False
    with "2.prems" have n: "map_of out (fst mf) = None" by (simp add: map_of_eq_None_iff)
    have IH: "set seen' = fst ` set out' \<and> distinct (map fst out') \<and>
        map_of out' = map_of mfs ++ map_of (out @ [mf]) \<and> take (length (out @ [mf])) out' = out @ [mf]"
      by (rule "2.IH" (2)) (use "2.prems" False in auto)
    have "map_of mfs ++ map_of (out @ [mf]) = map_of (mf # mfs) ++ map_of out"
      using n by (auto simp: map_add_def split: option.splits)
    moreover from IH have "take (length out) out' = out"
      by (metis append_eq_conv_conj append_take_drop_id append.assoc)
    ultimately show ?thesis using IH by metis
  qed
qed simp

lemma gather_extras_spec:
  assumes "gather_extras gs seen out = (out', e)" "set seen = fst ` set out" "distinct (map fst out)"
  shows "distinct (map fst out') \<and> take (length out) out' = out
       \<and> (e = None \<longleftrightarrow> (\<forall>g \<in> set gs. snd g = None))
       \<and> (e = None \<longrightarrow> map_of out' = map_of (out @ concat (map fst gs)))"
  using assms
proof (induction gs seen out rule: gather_extras.induct)
  case (2 g gs seen out)
  show ?case
  proof (cases "snd g")
    case None
    obtain seen1 out1 where t: "take_unseen (fst g) seen out = (seen1, out1)" by fastforce
    from take_unseen_spec [OF t "2.prems"(2,3)]
    have s: "set seen1 = fst ` set out1" "distinct (map fst out1)"
      "map_of out1 = map_of (fst g) ++ map_of out" "take (length out) out1 = out" by auto
    from "2.prems"(1) None t have g: "gather_extras gs seen1 out1 = (out', e)" by simp
    from "2.IH" [OF None t [symmetric] g s(1,2)]
    have IH: "distinct (map fst out')" "take (length out1) out' = out1"
      "e = None \<longleftrightarrow> (\<forall>g \<in> set gs. snd g = None)"
      "e = None \<Longrightarrow> map_of out' = map_of (out1 @ concat (map fst gs))" by auto
    have "take (length out) out' = out"
    proof -
      have "length out \<le> length out1" using s(4) by (metis length_take min.cobounded1)
      then have "take (length out) out' = take (length out) (take (length out1) out')"
        by (simp add: min_absorb1)
      with IH(2) s(4) show ?thesis by simp
    qed
    with IH s None show ?thesis by simp
  next
    case (Some x)
    with "2.prems" show ?thesis by auto
  qed
qed simp

text \<open>A scrape of \<open>/metrics\<close>. If the Pod's registry answers with distinct families, as its
  documentation promises, the response has no family twice, so it cannot be refused for
  duplicates, and it begins with the Pod's own families. It is an error exactly if some registry
  fails; otherwise a family is shown exactly if some registry has it, with the content of the
  first one that has it, the Pod's own coming first.\<close>

theorem scrape_exact:
  assumes "Gather primary extras = (out, e)" "distinct (map fst (fst primary))"
  shows "distinct (map fst out) \<and> take (length (fst primary)) out = fst primary
       \<and> (e = None \<longleftrightarrow> (\<forall>g \<in> set (primary # extras). snd g = None))
       \<and> (e = None \<longrightarrow> map_of out = map_of (concat (map fst (primary # extras))))"
proof (cases "snd primary")
  case None
  with assms(1) have "gather_extras extras (map fst (fst primary)) (fst primary) = (out, e)"
    by (simp add: Gather_def)
  from gather_extras_spec [OF this _ assms(2)] None show ?thesis by simp
next
  case (Some x)
  with assms show ?thesis by (auto simp: Gather_def)
qed

definition sample_scrape :: "nat gatherer list" where
  "sample_scrape = [([(''pgmqtt_sessions'', 1), (''go_threads'', 8)], None),
     ([(''go_threads'', 9), (''workqueue_depth'', 0), (''workqueue_depth'', 2)], None)]"

theorem scrape_exact_witness:
  "Gather (hd sample_scrape) (tl sample_scrape)
     = ([(''pgmqtt_sessions'', 1), (''go_threads'', 8), (''workqueue_depth'', 0)], None)
   \<and> map_of [(''pgmqtt_sessions'', 1), (''go_threads'', 8), (''workqueue_depth'', 0)]
     = map_of (concat (map fst sample_scrape))"
proof -
  have g: "Gather (hd sample_scrape) (tl sample_scrape)
     = ([(''pgmqtt_sessions'', 1), (''go_threads'', 8), (''workqueue_depth'', 0)], None)"
    by code_simp
  have d: "distinct (map fst (fst (hd sample_scrape)))" by code_simp
  have "hd sample_scrape # tl sample_scrape = sample_scrape" by (simp add: sample_scrape_def)
  with scrape_exact [OF g d] g show ?thesis by simp
qed

section \<open>The handlers use the metrics as declared\<close>

definition metered :: "world \<Rightarrow> world \<Rightarrow> bool" where
  "metered w w' \<longleftrightarrow>
     (\<forall>f l. (counters w' (f, l) \<noteq> counters w (f, l) \<longrightarrow> series_ok f l) \<and>
            (is_counter f \<longrightarrow> counters w (f, l) \<le> counters w' (f, l)))"

interpretation metered: run_relation metered
proof unfold_locales
  fix w1 w2 w3
  assume "metered w1 w2" "metered w2 w3"
  then show "metered w1 w3" unfolding metered_def by (metis order_trans)
qed (simp_all add: metered_def)

lemma metered_same: "counters w' = counters w \<Longrightarrow> metered w w'"
  by (simp add: metered_def)

lemma metered_basic [keeps_rules]:
  "keeps metered (sql s)" "keeps metered (exec f)" "keeps metered (execute g)" "keeps metered (go_upd k h)"
  "keeps metered (go_modify (\<lambda>w. w\<lparr>conns := u w\<rparr>))" "keeps metered (go_modify (\<lambda>w. w\<lparr>iplimit := v w\<rparr>))"
  by (rule metered.keeps_sql metered.keeps_exec metered.keeps_execute metered.keeps_upd metered.keeps_modify,
      rule metered_same, simp)+

lemma metered_tx [keeps_rules]:
  "keeps metered m \<Longrightarrow> keeps metered (go_tx m)" "keeps metered m \<Longrightarrow> keeps metered (tx_rest m)"
  by (erule metered.keeps_tx metered.keeps_tx_rest; simp add: metered_def)+

lemma metered_count:
  "series_ok f l \<Longrightarrow> 0 \<le> v \<or> \<not> is_counter f \<Longrightarrow> keeps metered (count f l v)"
  by (auto simp: keeps_def metered_def)

lemma metered_gauge:
  "series_ok f l \<Longrightarrow> \<not> is_counter f \<Longrightarrow> keeps metered (set_gauge f l v)"
  by (auto simp: keeps_def metered_def set_gauge_def)

text \<open>The collectors the handlers use, looked up by field.\<close>

lemma fields_distinct: "distinct (map cl_field New_collectors)"
  by (simp add: collectors_defs)

lemma declared:
  "Collector ''Connections'' ''pgmqtt_connections'' Gauge [] \<in> set New_collectors"
  "Collector ''TakeoversTotal'' ''pgmqtt_takeovers_total'' Counter [] \<in> set New_collectors"
  "Collector ''DeadBrokersTotal'' ''pgmqtt_dead_brokers_handled_total'' Counter [] \<in> set New_collectors"
  "Collector ''SessionsExpired'' ''pgmqtt_sessions_expired_total'' Counter [] \<in> set New_collectors"
  "Collector ''WillsFiredTotal'' ''pgmqtt_wills_fired_total'' Counter [] \<in> set New_collectors"
  "Collector ''QuotaExceededTotal'' ''pgmqtt_quota_exceeded_total'' Counter [] \<in> set New_collectors"
  "Collector ''RateLimitedTotal'' ''pgmqtt_rate_limited_total'' Counter [] \<in> set New_collectors"
  "Collector ''SubscribesTotal'' ''pgmqtt_subscribes_total'' Counter [] \<in> set New_collectors"
  "Collector ''UnsubscribesTotal'' ''pgmqtt_unsubscribes_total'' Counter [] \<in> set New_collectors"
  "Collector ''RetainedDispatchFailedTotal'' ''pgmqtt_retained_dispatch_failed_total'' Counter [] \<in> set New_collectors"
  "Collector ''NotifyQueueUsageRatio'' ''pgmqtt_pg_notify_queue_usage_ratio'' Gauge [] \<in> set New_collectors"
  "Collector ''Subscriptions'' ''pgmqtt_subscriptions'' Gauge [] \<in> set New_collectors"
  "Collector ''Sessions'' ''pgmqtt_sessions'' Gauge [] \<in> set New_collectors"
  "Collector ''RetainedCount'' ''pgmqtt_retained_count'' Gauge [] \<in> set New_collectors"
  "Collector ''InboundQoS2Pending'' ''pgmqtt_inbound_qos2_pending'' Gauge [] \<in> set New_collectors"
  "Collector ''MessagesCount'' ''pgmqtt_messages_count'' Gauge [] \<in> set New_collectors"
  "Collector ''PublishesTotal'' ''pgmqtt_publishes_total'' Counter [''qos''] \<in> set New_collectors"
  "Collector ''DeliveriesInflight'' ''pgmqtt_deliveries_inflight'' Gauge [''state''] \<in> set New_collectors"
  "Collector ''AuthFailuresTotal'' ''pgmqtt_auth_failures_total'' Counter [''reason''] \<in> set New_collectors"
  "Collector ''ConnectDroppedTotal'' ''pgmqtt_connect_dropped_total'' Counter [''reason''] \<in> set New_collectors"
  "Collector ''JanitorErrorsTotal'' ''pgmqtt_janitor_errors_total'' Counter [''job''] \<in> set New_collectors"
  "Collector ''JanitorSweptRowsTotal'' ''pgmqtt_janitor_swept_rows_total'' Counter [''job''] \<in> set New_collectors"
  "Collector ''ListenerRestartsTotal'' ''pgmqtt_listener_restarts_total'' Counter [''reason''] \<in> set New_collectors"
  "Collector ''DrainSessionQueueTotal'' ''pgmqtt_drain_session_queue_total'' Counter [''reason''] \<in> set New_collectors"
  "Collector ''DrainSessionQueueFailuresTotal'' ''pgmqtt_drain_session_queue_failures_total'' Counter [''reason''] \<in> set New_collectors"
  "Collector ''DeliveriesDroppedTotal'' ''pgmqtt_deliveries_dropped_total'' Counter [''reason''] \<in> set New_collectors"
  unfolding collectors_defs set_append Un_iff list.set insert_iff by simp_all

lemma declared_kind:
  assumes "Collector f n k ls \<in> set New_collectors"
  shows "collector_of f = Some (Collector f n k ls)"
proof -
  have "find (\<lambda>c. cl_field c = cl_field x) cs = Some x" if "x \<in> set cs" "distinct (map cl_field cs)" for x cs
    using that by (induction cs) auto
  from this [OF assms fields_distinct] show ?thesis by (simp add: collector_of_def)
qed

lemmas collectors_used [simp] = declared [THEN declared_kind]

lemma series_plain [simp]:
  "series_ok ''Connections'' ''''"
  "series_ok ''TakeoversTotal'' ''''"
  "series_ok ''DeadBrokersTotal'' ''''"
  "series_ok ''SessionsExpired'' ''''"
  "series_ok ''WillsFiredTotal'' ''''"
  "series_ok ''QuotaExceededTotal'' ''''"
  "series_ok ''RateLimitedTotal'' ''''"
  "series_ok ''SubscribesTotal'' ''''"
  "series_ok ''UnsubscribesTotal'' ''''"
  "series_ok ''RetainedDispatchFailedTotal'' ''''"
  "series_ok ''NotifyQueueUsageRatio'' ''''"
  "series_ok ''Subscriptions'' ''''"
  "series_ok ''Sessions'' ''''"
  "series_ok ''RetainedCount'' ''''"
  "series_ok ''InboundQoS2Pending'' ''''"
  "series_ok ''MessagesCount'' ''''"
  by (simp_all add: series_ok_def)

lemma counters_used [simp]:
  "\<not> is_counter ''Connections''"
  "\<not> is_counter ''NotifyQueueUsageRatio''"
  "\<not> is_counter ''Subscriptions''"
  "\<not> is_counter ''Sessions''"
  "\<not> is_counter ''RetainedCount''"
  "\<not> is_counter ''InboundQoS2Pending''"
  "\<not> is_counter ''MessagesCount''"
  "\<not> is_counter ''DeliveriesInflight''"
  by (simp_all add: is_counter_def)

lemma series_labelled [simp]:
  "series_ok ''ConnectDroppedTotal'' ''db_error''"
  "series_ok ''ConnectDroppedTotal'' ''rate_limit''"
  "series_ok ''ConnectDroppedTotal'' ''penalty_box''"
  "series_ok ''DrainSessionQueueTotal'' ''reconnect''"
  "series_ok ''DrainSessionQueueFailuresTotal'' ''reconnect''"
  "series_ok ''DeliveriesDroppedTotal'' ''expired''"
  "series_ok ''DeliveriesDroppedTotal'' ''oversized''"
  "series_ok ''DeliveriesDroppedTotal'' ''write_error''"
  "series_ok ''DeliveriesDroppedTotal'' ''overflow''"
  "series_ok ''ListenerRestartsTotal'' ''wait_error''"
  "series_ok ''ListenerRestartsTotal'' ''ctx_cancel''"
  "series_ok ''ListenerRestartsTotal'' ''exhausted_retries''"
  "series_ok ''AuthFailuresTotal'' (authReasonLabel r)"
  "series_ok ''DeliveriesInflight'' (stateLabel s)"
  by (simp_all add: series_ok_def label_values_def authReasonLabel_def stateLabel_def)

lemma series_qos: "q \<le> 2 \<Longrightarrow> series_ok ''PublishesTotal'' (itoa q)"
proof -
  assume "q \<le> 2"
  then consider "q = 0" | "q = 1" | "q = 2" by linarith
  moreover have "itoa 0 = ''0''" "itoa 1 = ''1''" "itoa 2 = ''2''" by code_simp+
  ultimately show ?thesis by cases (simp_all add: series_ok_def label_values_def)
qed

lemma series_jobs [simp]:
  "series_ok ''JanitorErrorsTotal'' (job_label b)" "series_ok ''JanitorSweptRowsTotal'' (job_label b)"
proof -
  have "b \<in> set jobs" by (cases b) (simp_all add: jobs_def)
  then show "series_ok ''JanitorErrorsTotal'' (job_label b)" "series_ok ''JanitorSweptRowsTotal'' (job_label b)"
    by (simp_all add: series_ok_def label_values_def)
qed

text \<open>\<open>metrics.New\<close> and \<open>RegisterPgxPool\<close> do not panic. Every collector has a valid name,
  valid and distinct label names and, if it is a histogram, strictly increasing buckets; no two
  share a name, with the counter of the operator and the metrics of the pool included; every
  field of the struct is set, to a collector of its type, and registered exactly once; each
  series created in advance exists; and the pool collects what it describes.\<close>

theorem New_registers:
  "registry_accepts (userRehashTotal # New_collectors)
   \<and> map (\<lambda>c. (cl_field c, handle_of c)) New_collectors = metrics_fields
   \<and> registered_fields = map fst metrics_fields
   \<and> list_all (\<lambda>(f, l). series_ok f l) preset_series
   \<and> list_all name_ok pool_describe \<and> distinct pool_describe
   \<and> set pool_describe \<inter> set (map cl_name (userRehashTotal # New_collectors)) = {}
   \<and> map fst (pool_collect s) = pool_describe"
proof -
  have "map (\<lambda>c. (cl_field c, handle_of c)) New_collectors = metrics_fields"
    by (simp add: collectors_defs handle_of_def metrics_fields_def)
  moreover have "registered_fields = map fst metrics_fields"
    by (simp add: registered_fields_def metrics_fields_def)
  moreover have "list_all (\<lambda>(f, l). series_ok f l) preset_series"
    by (simp add: preset_series_def)
  moreover have "list_all name_ok pool_describe \<and> distinct pool_describe"
    by (simp add: pool_describe_def name_char_def name_start_def)
  moreover have "map fst (pool_collect s) = pool_describe" by (simp add: pool_collect_def pool_describe_def)
  ultimately show ?thesis using New_accepted pool_names_new by blast
qed

lemma metered_conn [keeps_rules]:
  "keeps metered (tryConsumeRateToken k)"
  "keeps metered (resolveAliasForOutbound k topic)"
  "keeps metered (nextPacketIDCandidate k)"
  "keeps metered (ConnFor c)"
  "keeps metered releaseConn"
  "keeps metered tryReserveConn"
  "keeps metered (checkIPLimits_go X addr)"
  by (auto simp: keeps_def tryConsumeRateToken_def resolveAliasForOutbound_def
      nextPacketIDCandidate_def ConnFor_def go_ask_def releaseConn_def tryReserveConn_def checkIPLimits_go_def
      Let_def intro!: metered_same split: prod.splits)

lemma metered_write [keeps_rules]:
  "keeps metered (conn_write X k pk)" "keeps metered (send_disconnect X k r)"
  unfolding send_disconnect_def conn_write_def by (intro keeps_rules)+

lemma metered_alloc [keeps_rules]: "keeps metered (AllocPacketID k)"
proof -
  have "keeps metered (alloc_loop k n)" for n
    by (induction n) (auto simp only: alloc_loop.simps packetIDInUse_def intro!: keeps_rules)
  then show ?thesis
    unfolding AllocPacketID_def ensurePacketIDSeeded_def by (intro keeps_rules)
qed

lemma metered_flow [keeps_rules]:
  "keeps metered (tryAcquireInflight k)" "keeps metered (KickDrain k)" "keeps metered (returnInflight k)"
  "keeps metered (shutdown k)" "keeps metered (add_inbound k n)"
  "keeps metered (registerConn c k)" "keeps metered (unregisterConnIfSame c k)"
  unfolding tryAcquireInflight_def KickDrain_def returnInflight_def shutdown_def add_inbound_def
    registerConn_def unregisterConnIfSame_def
  by (intro keeps_rules metered_count; simp)+

lemma metered_closing [keeps_rules]:
  "keeps metered (ShutdownForTakeover k)" "keeps metered (gracefulClose X k)"
  unfolding ShutdownForTakeover_def gracefulClose_def by (intro keeps_rules)+

section \<open>Publishing and delivering\<close>

lemma metered_lift [keeps_rules]: "keeps metered (go_lift r)" "keeps metered (go_check v)"
  unfolding go_lift_def go_check_def by (intro keeps_rules)+

lemma metered_publish [keeps_rules]:
  "keeps metered (publishCore X p)" "keeps metered (kickForQuota X k)"
  "keeps metered (NotifyQuota X b c token)" "keeps metered (NotifyTakeover X b c token)"
  unfolding publishCore_def publish_body_def publish_dedup_def publish_retain_def kickForQuota_def
    NotifyQuota_def NotifyTakeover_def
  by (intro keeps_rules metered_count; simp)+

lemma metered_quota [keeps_rules]:
  "keeps metered (QuotaExceededLocallyForToken X c token)" "keeps metered (QuotaExceededLocally X c)"
  unfolding QuotaExceededLocallyForToken_def QuotaExceededLocally_def by (intro keeps_rules)+

lemma metered_wills [keeps_rules]:
  "keeps metered (dispatchQuotaExceeded X cs)" "keeps metered (PublishWill X t p q r pr)"
  "keeps metered (fireWill X k)"
  unfolding dispatchQuotaExceeded_def fireWill_def PublishWill_def by (intro keeps_rules)+

lemma metered_publish_parts [keeps_rules]:
  "keeps metered (acquire_inbound X k pk)" "keeps metered (check_publish X k pk)"
  "keeps metered (disconnectForPublishError X k e)"
  unfolding acquire_inbound_def check_publish_def disconnectForPublishError_def by (intro keeps_rules)+

lemma metered_handlePublish: "Qos pk \<le> 2 \<Longrightarrow> keeps metered (handlePublish X k pk)"
  unfolding handlePublish_def publish_steps_def by (intro keeps_rules metered_count; simp add: series_qos)

lemma metered_claim_packet_id [keeps_rules]: "keeps metered (claim_packet_id k it)"
  unfolding claim_packet_id_def by (intro keeps_rules)

lemma metered_deliver [keeps_rules]: "keeps metered (deliverOneTracked X it ret dup)"
  unfolding deliverOneTracked_def deliver_to_def send_outgoing_def alias_outgoing_def
  by (intro keeps_rules metered_count; simp)

lemma metered_Deliver [keeps_rules]:
  "keeps metered (Deliver X msg)" "keeps metered (drainOnce X k)" "keeps metered (drainSessionQueue X k)"
  unfolding Deliver_def drainOnce_def drainSessionQueue_def resend_def by (intro keeps_rules)+

lemma metered_drain [keeps_rules]: "keeps metered (drain_wakeup X k)"
proof -
  have "keeps metered (drain_loop X k n)" for n
  proof (induction n)
    case (Suc n)
    show ?case unfolding drain_loop.simps by (intro keeps_rules Suc)
  qed (unfold drain_loop.simps, intro keeps_rules)
  then show ?thesis
    unfolding drain_wakeup_def take_kick_def by (intro keeps_rules)
qed

lemma metered_acks [keeps_rules]:
  "keeps metered (handlePuback k pk)" "keeps metered (handlePubrec X k pk)"
  "keeps metered (handlePubrel X k pk)" "keeps metered (handlePubcomp k pk)"
  unfolding handlePuback_def handlePubrec_def handlePubrel_def handlePubcomp_def
  by (intro keeps_rules)+

section \<open>Subscriptions, sessions and the Pod\<close>

lemma metered_retained_replay [keeps_rules]: "keeps metered (dispatchRetainedForFilter X k d)"
  unfolding dispatchRetainedForFilter_def dispatch_retained_row_def persistRetainedDispatch_def allocPacketID_def
  by (intro keeps_rules)

lemma metered_subscribe [keeps_rules]: "keeps metered (handleSubscribe X k pk)"
proof -
  have "keeps metered (subscribe_filters cid subID fs)" for cid subID fs
    by (induction fs) (auto simp only: subscribe_filters.simps subscribe_filter_def intro!: keeps_rules)
  then show ?thesis
    unfolding handleSubscribe_def subscribe_tx_def by (intro keeps_rules metered_count; simp)
qed

lemma metered_unsubscribe [keeps_rules]: "keeps metered (handleUnsubscribe X k pk)"
proof -
  have "keeps metered (unsubscribe_filters cid fs)" for cid fs
    by (induction fs) (auto simp only: unsubscribe_filters.simps unsubscribe_filter_def intro!: keeps_rules)
  then show ?thesis
    unfolding handleUnsubscribe_def by (intro keeps_rules metered_count; simp)
qed

lemma metered_reject [keeps_rules]:
  "keeps metered (reject X k pv r e)" "keeps metered (dropConnectOnInfraError s)"
  "keeps metered m \<Longrightarrow> keeps metered (or_drop s m)"
  unfolding reject_def writeConnackReject_def dropConnectOnInfraError_def or_drop_def
  by (intro keeps_rules metered_count; simp)+

lemma metered_handleConnect [keeps_rules]: "keeps metered (handleConnect X k pk auto token)"
proof -
  have "keeps metered (connect_admission X k pk auto)"
    unfolding connect_admission_def resolve_client_id_def authenticate_connect_def Authenticate_def
      v5_params_def
    by (intro keeps_rules)
  then show ?thesis
    unfolding handleConnect_def connect_session_def takeOwnership_def evict_previous_def
      session_cleanup_def replay_queue_def
    by (intro keeps_rules metered_count; simp)
qed

lemma metered_handleDisconnect [keeps_rules]: "keeps metered (handleDisconnect X k)"
proof -
  have fate: "keeps metered (case f of SessionDelete \<Rightarrow> m | SessionKeep e \<Rightarrow> n e)"
    if "keeps metered m" "\<And>e. keeps metered (n e)" for f m n
    using that by (cases f) simp_all
  show ?thesis
    unfolding handleDisconnect_def delete_clean_session_def by (intro keeps_rules fate)
qed

lemma metered_dispatch: "Qos pk \<le> 2 \<Longrightarrow> keeps metered (dispatch X k pk)"
  unfolding dispatch_def handleGracefulDisconnect_def
  by (cases "ptype pk"; simp only: ptype.simps ptype.distinct simp_thms if_True if_False;
      intro keeps_rules metered_count metered_handlePublish; simp)

text \<open>What the packet library promises of the QoS, which is two bits of the first byte: it refuses
  the value 3, and decoding the rest of a packet leaves it.\<close>

definition rejects_qos3 :: "mochi \<Rightarrow> bool" where
  "rejects_qos3 m \<longleftrightarrow> (\<forall>hb pk. mochi_header m hb = Inr pk \<longrightarrow> Qos pk \<le> 2) \<and>
     (\<forall>pk bs pk'. mochi_decode m pk bs = Inr pk' \<longrightarrow> Qos pk' = Qos pk)"

lemma decodeBody_qos:
  assumes "rejects_qos3 m" "decodeBody m pk bs = Inr pk'"
  shows "Qos pk' = Qos pk"
  using assms by (cases "ptype pk") (auto simp: rejects_qos3_def decodeBody_def)

lemma Read_qos:
  assumes "rejects_qos3 m" "Read m rd = (Inr pk, rd')"
  shows "Qos pk \<le> 2"
proof -
  from assms(2) obtain hb pk0 n v bs where h: "mochi_header m hb = Inr pk0"
    and d: "decodeBody m (pk0\<lparr>Remaining := n, pkProtocol := v\<rparr>) bs = Inr pk"
    by (auto simp: Read_def Let_def split: list.splits sum.splits prod.splits option.splits if_splits)
  from decodeBody_qos [OF assms(1) d] h assms(1) show ?thesis by (simp add: rejects_qos3_def)
qed

lemma conn_read_qos:
  assumes "rejects_qos3 (codec X)" "conn_read X k w = (Inr pk, w')"
  shows "Qos pk \<le> 2"
proof -
  obtain r rd where read: "Read (codec X) (reader_of (heap w k)) = (r, rd)" by fastforce
  with assms(2) have "r = Inr pk"
    by (cases r) (auto simp: conn_read_def go_lift_def)
  with read Read_qos [OF assms(1)] show ?thesis by blast
qed

lemma metered_conn_run:
  assumes "rejects_qos3 (codec X)"
  shows "keeps metered (conn_run X k auto token)"
proof -
  have read: "keeps metered (conn_read X k)"
    unfolding conn_read_def by (intro keeps_rules)
  have "keeps metered (read_loop X k n)" for n
  proof (induction n)
    case (Suc n)
    have step: "keeps metered (go_bind (go_attempt (conn_read X k)) (\<lambda>r. case r of
       Inl e \<Rightarrow>
         go_then (go_when (e = ErrPacketTooLarge \<and> protocol c = ProtocolMQTT5)
                    (send_disconnect X k 0x95))
         (go_then (handleDisconnect X k) (go_return (Some ())))
     | Inr pk \<Rightarrow> go_bind (go_attempt (dispatch X k pk)) (\<lambda>r. case r of
         Inl e \<Rightarrow> go_then (handleDisconnect X k) (go_return (Some ()))
       | Inr _ \<Rightarrow> read_loop X k n)))" for c
    proof (rule metered.keeps_bind_result)
      fix w r w' assume r: "go_attempt (conn_read X k) w = (Inr r, w')"
      show "keeps metered (case r of
         Inl e \<Rightarrow>
           go_then (go_when (e = ErrPacketTooLarge \<and> protocol c = ProtocolMQTT5)
                      (send_disconnect X k 0x95))
           (go_then (handleDisconnect X k) (go_return (Some ())))
       | Inr pk \<Rightarrow> go_bind (go_attempt (dispatch X k pk)) (\<lambda>r. case r of
           Inl e \<Rightarrow> go_then (handleDisconnect X k) (go_return (Some ()))
         | Inr _ \<Rightarrow> read_loop X k n))"
      proof (cases r)
        case (Inl e)
        then show ?thesis unfolding Inl sum.case by (intro keeps_rules)
      next
        case (Inr pk)
        with r have "conn_read X k w = (Inr pk, w')"
          by (auto simp: go_attempt_def split: prod.splits)
        from conn_read_qos [OF assms this] show ?thesis
          unfolding Inr sum.case by (intro keeps_rules metered_dispatch Suc)
      qed
    qed (intro keeps_rules read)
    show ?case
      unfolding read_loop.simps
      by (rule metered.keeps_bind [OF metered.keeps_conn metered.keeps_if [OF metered.keeps_return step]])
  qed (unfold read_loop.simps, intro keeps_rules)
  then show ?thesis
    unfolding conn_run_def by (intro keeps_rules read)
qed

text \<open>The limiter answers with a reason the metric knows.\<close>

lemma limit_reasons: "checkIPLimits_go X addr w = (Inr (Some reason), w') \<Longrightarrow> series_ok ''ConnectDroppedTotal'' reason"
  by (auto simp: checkIPLimits_go_def checkIPLimits_def split: prod.splits if_splits)

lemma metered_accept:
  assumes "rejects_qos3 (codec X)"
  shows "keeps metered (accept_conn X k rd addr auto token)"
  unfolding accept_conn_def
proof (rule metered.keeps_bind_result)
  fix w r w'
  assume "checkIPLimits_go X addr w = (Inr r, w')"
  then show "keeps metered (case r of
      Some reason \<Rightarrow> go_then (count ''ConnectDroppedTotal'' reason 1) (go_return False)
    | None \<Rightarrow> go_bind tryReserveConn (\<lambda>ok.
         if \<not> ok then go_return False
         else go_bind (go_ask (\<lambda>w. (knobs w, now w))) (\<lambda>(K, t).
           go_then (go_upd k (\<lambda>_. newConn K rd addr t))
           (go_then (conn_run X k auto token)
           (go_then releaseConn (go_return True))))))"
    by (cases r) (use limit_reasons assms in \<open>auto intro!: keeps_rules metered_count metered_conn_run\<close>)
qed (intro keeps_rules)

lemma metered_pod [keeps_rules]:
  "keeps metered KickAllDrains" "keeps metered AttestOwnedSessions" "keeps metered sweepOrphanedSockets"
  "keeps metered (shutdownGracefully X)"
  unfolding KickAllDrains_def AttestOwnedSessions_def sweepOrphanedSockets_def close_orphan_def
    shutdownGracefully_def
  by (intro keeps_rules)+

section \<open>The janitor and the listener\<close>

lemma metered_swept [keeps_rules]: "keeps metered (swept b n)"
  unfolding swept_def by (rule metered_count) simp_all

lemma metered_jobs [keeps_rules]:
  "keeps metered (fireDueWills X E)" "keeps metered (handleDeadBroker X E b)"
  "keeps metered expireSessions" "keeps metered (sweepOrphanDeliveries g)" "keeps metered expireRetained"
  "keeps metered (sweepInboundQoS2 g)" "keeps metered (sweepOrphanMessages g)"
  "keeps metered findDeadBrokerCandidates" "keeps metered (refreshNotifyQueue E)"
  "keeps metered refreshStateGauges" "keeps metered refreshDeliveriesGauge"
  unfolding fireDueWills_def fire_due_def handleDeadBroker_def dead_broker_work_def fire_undelayed_def
    publish_will_row_def expireSessions_def sweepOrphanDeliveries_def expireRetained_def sweepInboundQoS2_def
    sweepOrphanMessages_def findDeadBrokerCandidates_def refreshNotifyQueue_def refresh_count_def
    refreshStateGauges_def refreshDeliveriesGauge_def
  by (intro keeps_rules metered_count metered_gauge; simp)+

lemma metered_run_job [keeps_rules]: "keeps metered (run_job X E j b)"
  by (cases b) (simp_all only: run_job.simps, (intro keeps_rules)+)

lemma metered_timed [keeps_rules]: "keeps metered m \<Longrightarrow> keeps metered (timed b m)"
  unfolding timed_def by (intro keeps_rules metered_count; simp)

lemma metered_Tick [keeps_rules]: "keeps metered (Tick X E j)"
proof -
  have "keeps metered (tick_each X E t bs j e)" for t bs j e
  proof (induction bs arbitrary: j e)
    case (Cons b bs)
    show ?case unfolding tick_each.simps by (intro keeps_rules Cons)
  qed (unfold tick_each.simps, intro keeps_rules)
  then show ?thesis
    unfolding Tick_def tick_dead_def tick_dead_broker_def by (intro keeps_rules metered_count; simp)
qed

lemma metered_reconnect [keeps_rules]: "keeps metered (reconnect ctx_done)"
proof -
  have sleep: "keeps metered (go_sleep b)" for b
    unfolding go_sleep_def by (rule metered.keeps_modify, rule metered_same) simp
  have "keeps metered (reconnect_loop ctx_done n b)" for n b
  proof (induction n arbitrary: b)
    case (Suc n)
    show ?case
      unfolding reconnect_loop.simps dialAndRegister_def acquireBrokerLock_def
      by (intro keeps_rules sleep Suc)
  qed (unfold reconnect_loop.simps, intro keeps_rules)
  then show ?thesis unfolding reconnect_def .
qed

lemma metered_listener [keeps_rules]: "keeps metered (listener_step X ctx_done r)"
  unfolding listener_step_def dispatchNotification_def deliver_id_def
  by (cases r; simp only: wait_result.simps; intro keeps_rules metered_count; simp)

lemma run_action_metered: "rejects_qos3 (codec X) \<Longrightarrow> metered w (run_action X a w)"
  using metered_accept metered_Deliver(1) metered_drain metered_quota(1) metered_closing(1) metered_pod
    metered_Tick metered_listener
  by (cases a) (simp_all add: keeps_def)

section \<open>A Pod's life\<close>

lemma series_finite: "finite {(f, l). series_ok f l}"
proof (rule finite_subset)
  show "{(f, l). series_ok f l} \<subseteq>
      (cl_field ` set New_collectors) \<times> ({''''} \<union> (\<Union>p \<in> set label_values. set (snd p)))"
  proof clarify
    fix f l assume ok: "series_ok f l"
    then obtain c where c: "collector_of f = Some c" by (auto simp: series_ok_def split: option.splits)
    then have "f \<in> cl_field ` set New_collectors"
      by (auto simp: collector_of_def find_Some_iff)
    moreover have "l \<in> {''''} \<union> (\<Union>p \<in> set label_values. set (snd p))"
    proof (cases "cl_labels c")
      case (Cons a as)
      with ok c obtain ls where ls: "map_of label_values f = Some ls" "l \<in> set ls"
        by (auto simp: series_ok_def split: list.splits option.splits)
      with map_of_SomeD [OF ls(1)] show ?thesis by force
    qed (use ok c in \<open>simp add: series_ok_def\<close>)
    ultimately show "f \<in> cl_field ` set New_collectors \<and>
        l \<in> {''''} \<union> (\<Union>p \<in> set label_values. set (snd p))" by blast
  qed
qed simp

text \<open>C32: the counters and gauges are well typed. Whatever the Pods of a cluster do, with whatever
  failures, in any order: a counter or gauge series whose value has changed is one that
  \<open>metrics.New\<close> declares, as a counter or a gauge, with as many label values as it has labels,
  and the label value is one of a fixed finite list; and a counter never falls. So none of their
  \<open>WithLabelValues\<close> and \<open>Add\<close> calls panics, and the number of these series is bounded. Of the packet
  library it is used that it refuses a PUBLISH with QoS 3. The observations of the histograms
  are not covered.\<close>

theorem metrics_well_typed:
  assumes "(cluster_step X)\<^sup>*\<^sup>* (pods, d) (pods', d')" "rejects_qos3 (codec X)"
  shows "(counters (pods' i) (f, l) \<noteq> counters (pods i) (f, l) \<longrightarrow> series_ok f l)
       \<and> (is_counter f \<longrightarrow> counters (pods i) (f, l) \<le> counters (pods' i) (f, l))
       \<and> finite {(f, l). series_ok f l}"
  using assms(1)
proof (induction "(pods', d')" arbitrary: pods' d' rule: rtranclp_induct)
  case (step s)
  obtain p e where s: "s = (p, e)" by fastforce
  from step.hyps(2) obtain j a t fs w where w: "w = run_action X a (pod_world (p j) e t fs)"
    and p': "pods' = p(j := pod.truncate w)"
    unfolding s by (auto elim: cluster_step.cases)
  have "metered (pod_world (p j) e t fs) w" using run_action_metered [OF assms(2)] w by simp
  then have "(counters w (f, l) \<noteq> counters (p j) (f, l) \<longrightarrow> series_ok f l) \<and>
      (is_counter f \<longrightarrow> counters (p j) (f, l) \<le> counters w (f, l))"
    by (simp add: metered_def pod_world_def pod.defs world.defs)
  moreover have "counters (pods' i) = (if i = j then counters w else counters (p i))"
    using p' by (simp add: pod.defs)
  ultimately show ?case using step.hyps(3) [OF s] by (auto split: if_splits)
qed (simp add: series_finite)

lemma sample_rejects_qos3: "rejects_qos3 (codec sample_ext)"
  by (auto simp: rejects_qos3_def sample_ext_def sample_mochi_def new_packet_def)

text \<open>A connection kicked for its quota: the counter goes from 0 to 1, and it is a declared one.\<close>

theorem metrics_well_typed_witness:
  "counters (run_action sample_ext (KickQuota ''c'' (UUID 7))
     (pod_world (pod.truncate (sample_world empty_db (sample_conn ''c'' 5))) empty_db 5 [])) (''QuotaExceededTotal'', '''') = 1 \<and>
   series_ok ''QuotaExceededTotal'' ''''"
proof -
  let ?pods = "\<lambda>_ :: nat. pod.truncate (sample_world empty_db (sample_conn ''c'' 5))"
  let ?w = "run_action sample_ext (KickQuota ''c'' (UUID 7)) (pod_world (?pods 0) empty_db 5 [])"
  have "cluster_step sample_ext (?pods, empty_db) (?pods(0 := pod.truncate ?w), store ?w)"
    by (rule cluster_step.act) (rule refl)
  then have "(cluster_step sample_ext)\<^sup>*\<^sup>* (?pods, empty_db) (?pods(0 := pod.truncate ?w), store ?w)"
    by (rule r_into_rtranclp)
  note typed = metrics_well_typed [OF this sample_rejects_qos3, of 0 "''QuotaExceededTotal''" "''''"]
  have c: "counters ?w (''QuotaExceededTotal'', '''') = 1" by code_simp
  have "counters (?pods 0) (''QuotaExceededTotal'', '''') = 0" by (simp add: pod.defs sample_world_def)
  with typed c show ?thesis by (simp add: pod.defs)
qed

end
