(* ===== verification/Boot.thy ===== *)
theory Boot
  imports Config Engine Janitor Operator
begin

text \<open>
  Start-up: \<open>engine.New\<close> and \<open>SetBrokerID\<close> of \<open>src/internal/engine/engine.go\<close>, the websocket
  handler of \<open>serveWS\<close>, the rejection at the connection cap, and what
  \<open>src/cmd/pgmqttd/main.go\<close> hands from the configuration to the parts and exits with.
\<close>

section \<open>The engine\<close>

definition knobs_of :: "Config \<Rightarrow> knobs" where
  "knobs_of c = \<lparr>allowAnonymous = AllowAnonymous c, maxConns = MaxConnections c,
     maxQueued = MaxQueuedDeliveriesPerClient c, maxInboundRate = MaxInboundMsgsPerSec c,
     maxPacketSizeKnob = MaxPacketSize c, receiveMaxV5 = uint (V5ReceiveMaximum c),
     keepaliveMaxV5 = V5KeepaliveMax c\<rparr>"

text \<open>The heap of a new Pod holds no connection that anything refers to.\<close>

definition New :: "Config \<Rightarrow> pod" where
  "New c = \<lparr>brokerID = uuid_Nil, conns = [], openConns = 0, knobs = knobs_of c,
     iplimit = newIPLimiter (MaxConnectsPerIPPerSec c) (MaxAuthFailuresPerIPPerMin c),
     heap = (\<lambda>_. newConn (knobs_of c) (NewReader [] ErrEOF) [] 0), counters = (\<lambda>_. 0)\<rparr>"

definition SetBrokerID :: "uuid \<Rightarrow> pod \<Rightarrow> pod" where
  "SetBrokerID u p = p\<lparr>brokerID := u\<rparr>"

definition KeepAliveMultiplier :: "int \<times> int" where
  "KeepAliveMultiplier = (3, 2)"

section \<open>Websockets\<close>

definition CheckOrigin :: "string list \<Rightarrow> string \<Rightarrow> bool" where
  "CheckOrigin allowed origin \<longleftrightarrow> allowed = [] \<or> (\<exists>a \<in> set allowed. a = origin)"

definition ws_read_limit :: "knobs \<Rightarrow> int option" where
  "ws_read_limit K = (if maxPacketSizeKnob K > 0 then Some (maxPacketSizeKnob K + 64) else None)"

text \<open>The minimal MQTT 5 \<open>CONNACK\<close> with reason 0x9F.\<close>

definition rejectConnAtCap :: bytes where
  "rejectConnAtCap = [0x20, 0x03, 0x00, 0x9F, 0x00]"

text \<open>The handler of an upgrade request. \<open>upgrade_ok\<close> is whether the websocket package accepts the
  handshake apart from the origin.\<close>

datatype ws_outcome = TooManyRequests | UpgradeFailed | RejectedAtCap "int option" bytes | ServedWs "int option"

definition ws_handler ::
  "ext \<Rightarrow> string list \<Rightarrow> string \<Rightarrow> bool \<Rightarrow> conn_ref \<Rightarrow> reader \<Rightarrow> string \<Rightarrow> string \<Rightarrow> uuid \<Rightarrow> ws_outcome go" where
  "ws_handler X allowed origin upgrade_ok k rd addr auto token =
     go_bind (checkIPLimits_go X addr) (\<lambda>refused. case refused of
       Some reason \<Rightarrow> go_then (count ''ConnectDroppedTotal'' reason 1) (go_return TooManyRequests)
     | None \<Rightarrow>
         if \<not> (CheckOrigin allowed origin \<and> upgrade_ok) then go_return UpgradeFailed
         else go_bind (go_ask (\<lambda>w. (knobs w, now w))) (\<lambda>(K, t).
           go_bind tryReserveConn (\<lambda>ok.
           if \<not> ok then go_return (RejectedAtCap (ws_read_limit K) rejectConnAtCap)
           else go_then (go_upd k (\<lambda>_. newConn K rd addr t))
             (go_then (conn_run X k auto token)
             (go_then releaseConn (go_return (ServedWs (ws_read_limit K))))))))"

section \<open>The process\<close>

definition janitor_of :: "Config \<Rightarrow> janitor" where
  "janitor_of c = (if JanitorInterval c > 0 then SetInterval (JanitorInterval c) new_janitor else new_janitor)"

definition operator_options :: "Config \<Rightarrow> Options" where
  "operator_options c = \<lparr>opt_ServiceHost = ServiceHost c, opt_ServicePort = ServicePort c,
     opt_WSPort = WSPort c, opt_BcryptCost = BcryptCost c, opt_LeaderElectionNamespace = PodNamespace c\<rparr>"

text \<open>The exit code of \<open>main\<close>, from what opening the pool, migrating, starting the listener and
  serving return and whether the operator's goroutine panicked.\<close>

record startup =
  db_open :: "err + unit"
  db_migrate :: "err + unit"
  listener_start :: "err + uuid"
  serve :: "err + unit"
  operator_panicked :: bool

definition main_exit :: "environment \<Rightarrow> startup \<Rightarrow> nat" where
  "main_exit env s =
     (case FromEnv env of Inl e \<Rightarrow> 1 | Inr c \<Rightarrow>
     (case db_open s of Inl e \<Rightarrow> 1 | Inr _ \<Rightarrow>
     (case db_migrate s of Inl e \<Rightarrow> 1 | Inr _ \<Rightarrow>
     (case listener_start s of Inl e \<Rightarrow> 1 | Inr u \<Rightarrow>
     (case serve s of Inl e \<Rightarrow> 1 | Inr _ \<Rightarrow>
      if operator_panicked s then 1 else 0)))))"

section \<open>What an accepted configuration guarantees\<close>

lemma FromEnv_Inr:
  assumes "FromEnv env = Inr c"
  shows "c = read_env env" "DatabaseURL c \<noteq> []" "TCPAddr c \<noteq> [] \<or> WSAddr c \<noteq> []" "0 < V5KeepaliveMax c"
    "4 \<le> BcryptCost c" "BcryptCost c \<le> 31" "0 \<le> PGStatementTimeout c"
    "0 \<le> MaxPacketSize c" "MaxPacketSize c \<le> 268435455"
    "0 \<le> MaxConnectsPerIPPerSec c" "0 \<le> MaxAuthFailuresPerIPPerMin c"
  using assms by (auto simp: FromEnv_def Let_def split: if_splits)

text \<open>Idle clients are always timed out. Under every accepted configuration, whatever keep-alive
  a client asks for (none included), the keep-alive of its connection is positive and at most
  the configured cap, and the read deadline set from it lies in the future and at most one and
  a half caps away.\<close>

theorem keepalive_always_armed:
  assumes "FromEnv env = Inr c" "negotiate_keepalive (knobs (New c)) requested = (d, overridden)"
  shows "0 < d \<and> d \<le> V5KeepaliveMax c \<and>
    (\<exists>dl. armReadDeadline KeepAliveMultiplier t (cn\<lparr>keepalive := d\<rparr>) = Some dl \<and>
       t < dl \<and> dl \<le> t + V5KeepaliveMax c * 3 div 2)"
proof -
  have pos: "uint requested = 0 \<or> 0 < uint requested" using uint_ge_0 [of requested] by linarith
  from assms(2) FromEnv_Inr(4) [OF assms(1)] pos have d: "0 < d" "d \<le> V5KeepaliveMax c"
    by (auto simp: negotiate_keepalive_def maxAllowedKeepalive_def New_def knobs_of_def defaultKeepalive_def Let_def
        split: if_splits)
  moreover from d have "0 < d * 3 div 2" "d * 3 div 2 \<le> V5KeepaliveMax c * 3 div 2"
    by (simp_all add: zdiv_mono1)
  ultimately show ?thesis by (simp add: armReadDeadline_def KeepAliveMultiplier_def)
qed

definition sample_environment :: environment where
  "sample_environment = Map.empty(''PGMQTT_DATABASE_URL'' := Some ''postgres://db'',
     ''PGMQTT_KEEPALIVE_MAX_SEC'' := Some (itoa 30),
     ''PGMQTT_MAX_QUEUED_DELIVERIES_PER_CLIENT'' := Some ''-1'')"

lemma sample_environment_ok: "FromEnv sample_environment = Inr (read_env sample_environment)"
  by (simp add: FromEnv_def read_env_def sample_environment_def os_Getenv_def getenv_def getenvInt_def
      getenvDefaultEmpty_def parse_int64_itoa int64_id Let_def)

theorem keepalive_always_armed_witness:
  "0 < fst (negotiate_keepalive (knobs (New (read_env sample_environment))) 0)"
  using keepalive_always_armed [OF sample_environment_ok, of 0] by (metis prod.collapse)

text \<open>A negative cap on queued deliveries is accepted; Postgres then refuses every publish that
  matches a subscription, so no delivery is ever queued.\<close>

lemma negative_queue_cap:
  "maxQueued (knobs (New (read_env sample_environment))) = -1 \<and>
   (mqtt_publish jm topic payload qos ret props publisher (-1) t d = Inr (r, d') \<longrightarrow> pr_delivered r = 0)"
proof -
  have "parse_int64 ''-1'' = Some (-1)" by (simp add: parse_int64_def digit_value_def)
  then have "maxQueued (knobs (New (read_env sample_environment))) = -1"
    by (simp add: New_def knobs_of_def read_env_def sample_environment_def getenvInt_def os_Getenv_def)
  moreover have "pr_delivered r = 0" if "mqtt_publish jm topic payload qos ret props publisher (-1) t d = Inr (r, d')"
  proof -
    from that obtain me i d1 where "me_seconds jm props = Inr me"
      "ins_message topic payload qos ret props publisher (if me > 0 then Some (t + seconds me) else None) t d = Inr (i, d1)"
      by (auto simp: mqtt_publish_def and_then_Inr)
    with that show ?thesis by (auto simp: mqtt_publish_def Let_def inserted_def split: if_splits)
  qed
  ultimately show ?thesis by blast
qed

end
