(* ===== verification/Lifecycle.thy ===== *)
theory Lifecycle
  imports Boot Listener
begin

text \<open>
  The loops and the order of a process's life: the accept loop, the ownership sweep, \<open>Serve\<close> and
  the in-process notifiers of \<open>src/internal/engine/engine.go\<close>, \<open>Run\<close> of the janitor with its
  recovery from panics, the garbage collection loop of the address limiter, and \<open>main\<close> of
  \<open>src/cmd/pgmqttd/main.go\<close> with its deferred clean-up.

  What a loop waits for (a socket, a tick, a cancelled context) is a script with one entry for
  each pass. A run-time panic is an entry of the script that carries what the interrupted code
  had done to the state.
\<close>

section \<open>Logging\<close>

text \<open>\<open>slog.Level.UnmarshalText\<close>: a name in any case, and an offset.\<close>

definition ascii_upper :: "char \<Rightarrow> char" where
  "ascii_upper c = (let n = of_char c :: nat in if 97 \<le> n \<and> n \<le> 122 then char_of (n - 32) else c)"

definition level_named :: "string \<Rightarrow> int option" where
  "level_named name =
     (let u = map ascii_upper name in
      if u = ''DEBUG'' then Some (- 4) else if u = ''INFO'' then Some 0
      else if u = ''WARN'' then Some 4 else if u = ''ERROR'' then Some 8 else None)"

definition parse_level :: "string \<Rightarrow> int option" where
  "parse_level s =
     (let name = takeWhile (\<lambda>c. c \<noteq> CHR ''+'' \<and> c \<noteq> CHR ''-'') s; rest = drop (length name) s in
      if rest = [] then level_named name
      else case parse_int64 rest of None \<Rightarrow> None
        | Some n \<Rightarrow> map_option (\<lambda>l. l + n) (level_named name))"

datatype log_handler = JSONHandler int | TextHandler int

text \<open>The handler, and whether the level could not be parsed.\<close>

definition log_setup :: "environment \<Rightarrow> log_handler \<times> bool" where
  "log_setup env =
     (let raw = os_Getenv env ''PGMQTT_LOG_LEVEL'';
          level = (if raw = [] then Some 0 else parse_level raw);
          l = (case level of None \<Rightarrow> 0 | Some l \<Rightarrow> l) in
      (if os_Getenv env ''PGMQTT_LOG_FORMAT'' = ''json'' then JSONHandler l else TextHandler l,
       level = None))"

text \<open>\<open>logSlowStage\<close>: the line it logs, if any, with the duration in milliseconds.\<close>

definition logSlowStage :: "Config option \<Rightarrow> string \<Rightarrow> string \<Rightarrow> duration \<Rightarrow> (string \<times> string \<times> int) option" where
  "logSlowStage cfg kind stage dur =
     (case cfg of None \<Rightarrow> None
      | Some c \<Rightarrow>
         if SlowStageLogMs c \<le> 0 then None
         else if dur < int64 (SlowStageLogMs c * 1000000) then None
         else Some (kind, stage, dur div 1000000))"

section \<open>Accepting\<close>

text \<open>What the accept loop of TCP sees: \<open>Accept\<close> failing, with whether the listener is closed and
  whether the context is over; a socket from an address; and, in between, a goroutine of an earlier
  socket releasing its slot. The number of these goroutines is the first argument. The result
  lists what became of the sockets.\<close>

datatype accept_event = AcceptError bool bool | Accepted string | ConnDone

datatype accept_result = DroppedConn string | RejectedConn bytes | SpawnedConn

definition accept_socket :: "ext \<Rightarrow> string \<Rightarrow> accept_result go" where
  "accept_socket X addr = go_bind (checkIPLimits_go X addr) (\<lambda>refused. case refused of
      Some reason \<Rightarrow> go_then (count ''ConnectDroppedTotal'' reason 1) (go_return (DroppedConn reason))
    | None \<Rightarrow> go_bind tryReserveConn (\<lambda>ok.
        go_return (if ok then SpawnedConn else RejectedConn rejectConnAtCap)))"

fun acceptTCP :: "ext \<Rightarrow> nat \<Rightarrow> accept_event list \<Rightarrow> (nat \<times> accept_result list) go" where
  "acceptTCP X running [] = go_return (running, [])"
| "acceptTCP X running (AcceptError closed over # es) =
     (if closed \<or> over then go_return (running, []) else acceptTCP X running es)"
| "acceptTCP X running (ConnDone # es) =
     (if running = 0 then acceptTCP X running es
      else go_then releaseConn (acceptTCP X (running - 1) es))"
| "acceptTCP X running (Accepted addr # es) = go_bind (accept_socket X addr) (\<lambda>r.
     go_bind (acceptTCP X (if r = SpawnedConn then running + 1 else running) es) (\<lambda>(n, rs).
       go_return (n, r # rs)))"

text \<open>\<open>isClosedNetErr\<close>.\<close>

definition isClosedNetErr :: "err option \<Rightarrow> bool" where
  "isClosedNetErr e \<longleftrightarrow> e = Some ErrNetClosed"

section \<open>Loops on a ticker\<close>

text \<open>One pass of a select: the context or the shutdown channel is closed, or the ticker fires; then
  the body runs, and a panic may interrupt it.\<close>

datatype 'p loop_event = LoopCancelled | LoopTick duration "'p option"

definition capacity_ratio :: "world \<Rightarrow> int \<times> int" where
  "capacity_ratio w =
     (if maxConns (knobs w) \<le> 0 then (0, 1) else (openConns w, maxConns (knobs w)))"

text \<open>The ownership sweep. Its recovery is outside the loop. The result lists, for each pass, the
  error of the sweep and the capacity gauge as a fraction.\<close>

fun runOwnershipSweep :: "(world \<Rightarrow> world) loop_event list \<Rightarrow> (err option \<times> int \<times> int) list go" where
  "runOwnershipSweep [] = go_return []"
| "runOwnershipSweep (LoopCancelled # es) = go_return []"
| "runOwnershipSweep (LoopTick d (Some panic) # es) = go_then (go_sleep d) (go_then (go_modify panic) (go_return []))"
| "runOwnershipSweep (LoopTick d None # es) = go_then (go_sleep d)
     (go_bind (go_attempt sweepOrphanedSockets) (\<lambda>r.
      go_bind (go_ask capacity_ratio) (\<lambda>q.
      go_bind (runOwnershipSweep es) (\<lambda>rs.
        go_return ((case r of Inl e \<Rightarrow> Some e | Inr _ \<Rightarrow> None, q) # rs)))))"

text \<open>The janitor. Its recovery is inside the loop, in \<open>tickWithRecover\<close>. A panic leaves the
  janitor's record of the jobs it has run as far as it had come.\<close>

type_synonym tick_panic = "janitor \<times> (world \<Rightarrow> world)"

definition tickWithRecover ::
  "ext \<Rightarrow> pg_env \<Rightarrow> tick_panic option \<Rightarrow> janitor \<Rightarrow> (janitor \<times> err option) go" where
  "tickWithRecover X E panic j =
     (case panic of None \<Rightarrow> Tick X E j
      | Some (j', f) \<Rightarrow> go_then (go_modify f) (go_return (j', Some (Panic ''janitor tick panic''))))"

fun janitor_Run :: "ext \<Rightarrow> pg_env \<Rightarrow> tick_panic loop_event list \<Rightarrow> janitor \<Rightarrow> (janitor \<times> err option list) go" where
  "janitor_Run X E [] j = go_return (j, [])"
| "janitor_Run X E (LoopCancelled # es) j = go_return (j, [])"
| "janitor_Run X E (LoopTick d p # es) j = go_then (go_sleep d)
     (go_bind (tickWithRecover X E p j) (\<lambda>(j1, e).
      go_bind (janitor_Run X E es j1) (\<lambda>(j2, rs). go_return (j2, e # rs))))"

text \<open>The garbage collection of the address limiter, which starts unless both limits are off; the
  entries of the script are the instants of the ticks, or the end of the context.\<close>

fun gcLoop :: "instant option list \<Rightarrow> ipLimiter \<Rightarrow> ipLimiter" where
  "gcLoop [] l = l"
| "gcLoop (None # ts) l = l"
| "gcLoop (Some t # ts) l = gcLoop ts (gcOnce t l)"

definition newIPLimiter_run :: "int \<Rightarrow> int \<Rightarrow> instant option list \<Rightarrow> ipLimiter" where
  "newIPLimiter_run perSec perMin ts =
     (let l = newIPLimiter perSec perMin in if disabled l then l else gcLoop ts l)"

definition limiter_len :: "ipLimiter option \<Rightarrow> nat" where
  "limiter_len l = (case l of None \<Rightarrow> 0 | Some l \<Rightarrow> length (ip_entries l))"

section \<open>Notifiers of a single process\<close>

definition localNotifier_Notify :: "uuid list \<Rightarrow> nat \<Rightarrow> unit go" where
  "localNotifier_Notify ids msgID = go_return ()"

definition inProcNotifier_Notify :: "ext \<Rightarrow> uuid list \<Rightarrow> nat \<Rightarrow> unit go" where
  "inProcNotifier_Notify X ids msgID = go_bind (go_ask brokerID) (\<lambda>self.
     if self \<in> set ids then Deliver X msgID else go_return ())"

section \<open>The process\<close>

text \<open>What \<open>main\<close> and \<open>Serve\<close> do, in order. \<open>Drain\<close> is \<open>shutdownGracefully\<close> and the wait for the
  goroutines.\<close>

datatype boot_step =
    OpenPool | RunMigrate | NewEngine | ServeMetrics string | StartListener | SetBroker uuid
  | StartJanitor | StartOperator | ListenOn string | AcceptTCP | ServeWS | StartSweep | Drain
  | CancelRoot | StopListener | ClosePool | ExitWith nat

text \<open>\<open>Serve\<close>: \<open>listen\<close> is what \<open>net.Listen\<close> answers for an address. It returns only when the
  context ends or a listener cannot be opened.\<close>

definition Serve :: "Config \<Rightarrow> (string \<Rightarrow> err option) \<Rightarrow> boot_step list \<times> err option" where
  "Serve c listen =
     (let tcp = (if TCPAddr c = [] then [] else [ListenOn (TCPAddr c), AcceptTCP]);
          ws = (if WSAddr c = [] then [] else [ListenOn (WSAddr c), ServeWS]) in
      if TCPAddr c \<noteq> [] \<and> listen (TCPAddr c) \<noteq> None then ([], listen (TCPAddr c))
      else if WSAddr c \<noteq> [] \<and> listen (WSAddr c) \<noteq> None then (tcp, listen (WSAddr c))
      else (tcp @ ws @ [StartSweep, Drain], None))"

text \<open>\<open>main\<close>. \<open>os.Exit\<close> ends the process at once; the deferred calls run, last one first, when
  \<open>main\<close> returns. The exit after \<open>engine.New\<close> is never taken: its only \<open>return\<close> gives no error.\<close>

definition main_steps :: "environment \<Rightarrow> startup \<Rightarrow> (string \<Rightarrow> err option) \<Rightarrow> boot_step list" where
  "main_steps env s listen =
     (case FromEnv env of Inl e \<Rightarrow> [ExitWith 1] | Inr c \<Rightarrow>
     (case db_open s of Inl e \<Rightarrow> [ExitWith 1] | Inr _ \<Rightarrow> OpenPool #
     (case db_migrate s of Inl e \<Rightarrow> [ExitWith 1] | Inr _ \<Rightarrow> [RunMigrate, NewEngine] @
      (if MetricsAddr c = [] then [] else [ServeMetrics (MetricsAddr c)]) @
     (case listener_start s of Inl e \<Rightarrow> [ExitWith 1] | Inr u \<Rightarrow>
       [StartListener, SetBroker u, StartJanitor, StartOperator] @
     (case Serve c listen of (steps, err) \<Rightarrow> steps @
       (if err \<noteq> None \<or> operator_panicked s then [ExitWith 1]
        else [StopListener, ClosePool, CancelRoot]))))))"

text \<open>\<open>recoverPanic\<close> and \<open>fatalRecoverOperator\<close>, on what \<open>recover\<close> returns: whether the panic is
  logged, the flag \<open>operatorPanicked\<close> and whether the root context is cancelled.\<close>

definition recoverPanic :: "string option \<Rightarrow> bool" where
  "recoverPanic r \<longleftrightarrow> r \<noteq> None"

definition fatalRecoverOperator :: "string option \<Rightarrow> bool \<times> bool \<Rightarrow> bool \<times> bool" where
  "fatalRecoverOperator r st = (if r = None then st else (True, True))"

end
