(* ===== verification/LifecycleFacts.thy ===== *)
theory LifecycleFacts
  imports Lifecycle JanitorFacts
begin

text \<open>
  What is proved of the loops and of the order of a process's life: the cap on connections holds
  after every prefix of what the accept loop sees; the janitor ticks on after any error or panic;
  \<open>main\<close> serves nobody before the schema is migrated and the Pod holds its lock.
\<close>

section \<open>Accepting\<close>

lemma accept_socket_runs:
  "\<exists>r w'. accept_socket X addr w = (Inr r, w') \<and> knobs w' = knobs w \<and>
     openConns w' = openConns w + (if r = SpawnedConn then 1 else 0) \<and>
     (r = SpawnedConn \<longrightarrow> maxConns (knobs w) \<le> 0 \<or> openConns w < maxConns (knobs w)) \<and>
     (\<forall>b. r = RejectedConn b \<longrightarrow> 0 < maxConns (knobs w) \<and> maxConns (knobs w) \<le> openConns w)"
proof -
  obtain refused l where "checkIPLimits X addr (now w) (iplimit w) = (refused, l)" by fastforce
  then have c: "checkIPLimits_go X addr w = (Inr refused, w\<lparr>iplimit := l\<rparr>)"
    by (simp add: checkIPLimits_go_def)
  show ?thesis
    by (cases refused) (simp_all add: accept_socket_def c tryReserveConn_def go_bind_def)
qed

lemma acceptTCP_slots:
  assumes "acceptTCP X n es w = (Inr (n', rs), w')"
  shows "knobs w' = knobs w \<and> openConns w' - int n' = openConns w - int n \<and>
    (0 < maxConns (knobs w) \<longrightarrow> openConns w \<le> maxConns (knobs w) \<longrightarrow> openConns w' \<le> maxConns (knobs w)) \<and>
    (\<forall>b. RejectedConn b \<in> set rs \<longrightarrow> 0 < maxConns (knobs w))"
  using assms
proof (induction X n es arbitrary: n' rs w w' rule: acceptTCP.induct)
  case (3 X n es)
  show ?case
  proof (cases "n = 0")
    case False
    let ?w = "w\<lparr>openConns := openConns w - 1\<rparr>"
    from 3(3) False have "acceptTCP X (n - 1) es ?w = (Inr (n', rs), w')"
      by (simp add: releaseConn_def)
    from 3(2) [OF False this] False show ?thesis by auto
  qed (use 3 in simp)
next
  case (4 X n addr es)
  obtain r w1 where a: "accept_socket X addr w = (Inr r, w1)" "knobs w1 = knobs w"
    "openConns w1 = openConns w + (if r = SpawnedConn then 1 else 0)"
    "r = SpawnedConn \<longrightarrow> maxConns (knobs w) \<le> 0 \<or> openConns w < maxConns (knobs w)"
    "\<forall>b. r = RejectedConn b \<longrightarrow> 0 < maxConns (knobs w)"
    using accept_socket_runs [of X addr w] by auto
  from 4(2) a(1) obtain rs1 where
    t: "acceptTCP X (if r = SpawnedConn then n + 1 else n) es w1 = (Inr (n', rs1), w')" "rs = r # rs1"
    by (auto simp: go_bind_Inr)
  from 4(1) [OF t(1)] a t(2) show ?case by (cases "r = SpawnedConn") auto
qed (auto split: if_splits)

lemma acceptTCP_runs: "\<exists>n' rs w'. acceptTCP X n es w = (Inr (n', rs), w')"
proof -
  have "never_fails (acceptTCP X n es)"
  proof (induction X n es rule: acceptTCP.induct)
    case (4 X n addr es)
    have "never_fails (accept_socket X addr)"
      using accept_socket_runs [of X addr] unfolding never_fails_def by (metis fst_conv)
    with 4 show ?case unfolding acceptTCP.simps by (intro total_rules)
  qed (unfold acceptTCP.simps releaseConn_def, (intro total_rules; simp)+)
  then show ?thesis by (metis never_failsE prod.exhaust)
qed

text \<open>C31: the cap on connections. Let a fresh Pod accept sockets, with other goroutines giving their
  slots back in between, in any order and for as long as one likes: the counter of open
  connections is exactly the number of goroutines serving one, with a positive cap it never
  exceeds the cap, and without one nobody is rejected for it.\<close>

theorem connection_cap_holds:
  assumes "openConns w = 0"
  shows "\<exists>n rs w'. acceptTCP X 0 es w = (Inr (n, rs), w') \<and> openConns w' = int n \<and>
    (0 < maxConns (knobs w) \<longrightarrow> int n \<le> maxConns (knobs w)) \<and>
    (maxConns (knobs w) \<le> 0 \<longrightarrow> (\<forall>b. RejectedConn b \<notin> set rs))"
proof -
  obtain n rs w' where "acceptTCP X 0 es w = (Inr (n, rs), w')" using acceptTCP_runs by blast
  with acceptTCP_slots [OF this] assms show ?thesis by fastforce
qed

definition capped_world :: world where
  "capped_world = (sample_world empty_db (sample_conn ''c'' 5))\<lparr>openConns := 0, knobs := sample_knobs\<lparr>maxConns := 1\<rparr>\<rparr>"

theorem connection_cap_holds_witness:
  "openConns capped_world = 0 \<and>
   (\<exists>n rs w'. acceptTCP sample_ext 0 [Accepted ''a'', Accepted ''b'', ConnDone, Accepted ''b''] capped_world
      = (Inr (n, rs), w') \<and> int n \<le> 1 \<and> openConns w' = int n)"
proof -
  have o: "openConns capped_world = 0" "maxConns (knobs capped_world) = 1"
    by (simp_all add: capped_world_def sample_world_def)
  with connection_cap_holds [OF o(1), of sample_ext "[Accepted ''a'', Accepted ''b'', ConnDone, Accepted ''b'']"]
  show ?thesis by auto
qed

section \<open>Loops\<close>

lemma Tick_total: "\<exists>j' e w'. Tick X E j w = (Inr (j', e), w')"
  using Tick_runs [of JobFireDueWills X E j w] by (auto simp: tick_jobs_def)

lemma tickWithRecover_total: "\<exists>j' e w'. tickWithRecover X E p j w = (Inr (j', e), w')"
  using Tick_total by (auto simp: tickWithRecover_def split: option.split)

text \<open>C26: the janitor goes on. Whatever its ticks so far did, fail or panic at any point with any
  damage done, the next tick runs the whole \<open>Tick\<close> on what they left, and its result is the next
  entry of the log; only the end of the context stops the loop.\<close>

theorem janitor_keeps_ticking:
  assumes "LoopCancelled \<notin> set es"
  shows "\<exists>j1 rs w1 j2 e w2. janitor_Run X E es j w = (Inr (j1, rs), w1) \<and> length rs = length es \<and>
    Tick X E j1 (w1\<lparr>now := now w1 + d\<rparr>) = (Inr (j2, e), w2) \<and>
    janitor_Run X E (es @ LoopTick d None # LoopCancelled # es') j w = (Inr (j2, rs @ [e]), w2)"
  using assms
proof (induction es arbitrary: j w)
  case Nil
  show ?case using Tick_total [of X E j "w\<lparr>now := now w + d\<rparr>"]
    by (auto simp: tickWithRecover_def go_sleep_def)
next
  case (Cons ev es)
  then obtain d0 p where ev: "ev = LoopTick d0 p" by (cases ev) auto
  obtain j0 e0 w0 where t: "tickWithRecover X E p j (w\<lparr>now := now w + d0\<rparr>) = (Inr (j0, e0), w0)"
    using tickWithRecover_total by blast
  from Cons.IH [of j0 w0] Cons.prems show ?case by (auto simp: ev t go_sleep_def)
qed

theorem janitor_keeps_ticking_witness:
  "\<exists>j1 rs w1 j2 e w2. janitor_Run sample_ext sample_env [LoopTick 5 (Some (new_janitor, \<lambda>w. w\<lparr>store := empty_db\<rparr>))]
      new_janitor (sample_janitor_world []) = (Inr (j1, rs), w1) \<and>
    Tick sample_ext sample_env j1 (w1\<lparr>now := now w1 + 5\<rparr>) = (Inr (j2, e), w2) \<and> length rs = 1"
  using janitor_keeps_ticking [of "[LoopTick 5 (Some (new_janitor, \<lambda>w. w\<lparr>store := empty_db\<rparr>))]"
      sample_ext sample_env new_janitor "sample_janitor_world []" 5 "[]"]
  by (metis (no_types, lifting) length_Cons list.size(3) One_nat_def list.distinct(1) list.set_cases set_ConsD loop_event.distinct(1) empty_set empty_iff)

text \<open>The ownership sweep recovers outside its loop: after one panic the Pod sweeps no more, and
  keeps serving sockets of sessions it has lost.\<close>

lemma sweep_stops_at_panic:
  "runOwnershipSweep (LoopTick d (Some f) # es) w = (Inr [], f (w\<lparr>now := now w + d\<rparr>))"
  by (simp add: go_sleep_def)

section \<open>The process\<close>

lemma in_rest: "pre @ x # post = P @ rest \<Longrightarrow> x \<notin> set P \<Longrightarrow> \<exists>p. pre = P @ p"
  by (auto simp: append_eq_append_conv2 Cons_eq_append_conv)

text \<open>C33: the order of start-up. Whenever the process opens a port to clients, or starts its janitor
  or its operator, the configuration was accepted, the pool is open, the migrations have been
  applied without an error, and the listener holds the Pod's lock under the broker id that the
  engine has been given before.\<close>

theorem main_order:
  assumes "main_steps env s listen = pre @ x # post"
    and "x \<in> {AcceptTCP, ServeWS, StartSweep, StartJanitor, StartOperator} \<union> range ListenOn"
  shows "\<exists>c u. FromEnv env = Inr c \<and> db_open s = Inr () \<and> db_migrate s = Inr () \<and> listener_start s = Inr u \<and>
    OpenPool \<in> set pre \<and> RunMigrate \<in> set pre \<and> StartListener \<in> set pre \<and> SetBroker u \<in> set pre"
proof -
  have x: "x \<in> {AcceptTCP, ServeWS, StartSweep, StartJanitor, StartOperator} \<or> (\<exists>a. x = ListenOn a)"
    using assms(2) by auto
  obtain c where c: "FromEnv env = Inr c"
    using assms x by (cases "FromEnv env") (auto simp: main_steps_def Cons_eq_append_conv)
  have o: "db_open s = Inr ()"
    using assms x by (cases "db_open s") (auto simp: main_steps_def c Cons_eq_append_conv)
  have m: "db_migrate s = Inr ()"
    using assms x by (cases "db_migrate s") (auto simp: main_steps_def c o Cons_eq_append_conv)
  let ?M = "if MetricsAddr c = [] then [] else [ServeMetrics (MetricsAddr c)]"
  obtain u where u: "listener_start s = Inr u"
    using assms x
    by (cases "listener_start s") (auto simp: main_steps_def c o m Cons_eq_append_conv split: if_splits)
  have "\<exists>rest. main_steps env s listen =
      ([OpenPool, RunMigrate, NewEngine] @ ?M @ [StartListener, SetBroker u]) @ rest"
    by (simp add: main_steps_def c o m u)
  then obtain rest where r: "main_steps env s listen =
      ([OpenPool, RunMigrate, NewEngine] @ ?M @ [StartListener, SetBroker u]) @ rest" ..
  let ?P = "[OpenPool, RunMigrate, NewEngine] @ ?M @ [StartListener, SetBroker u]"
  have "x \<notin> set ?P" using x by (auto split: if_splits)
  moreover from r assms(1) have eq: "pre @ x # post = ?P @ rest" by simp
  ultimately obtain p where "pre = ?P @ p" using in_rest by metis
  then have "{OpenPool, RunMigrate, StartListener, SetBroker u} \<subseteq> set pre" by auto
  with c o m u show ?thesis by auto
qed

definition sample_startup :: startup where
  "sample_startup = \<lparr>db_open = Inr (), db_migrate = Inr (), listener_start = Inr (UUID 7),
     serve = Inr (), operator_panicked = True\<rparr>"

lemma sample_main_steps:
  "main_steps sample_environment sample_startup (\<lambda>a. None) =
     [OpenPool, RunMigrate, NewEngine, ServeMetrics '':9090'', StartListener, SetBroker (UUID 7)] @
     StartJanitor # [StartOperator, ListenOn '':1883'', AcceptTCP, ListenOn '':8083'', ServeWS,
       StartSweep, Drain, ExitWith 1]"
  by (simp add: main_steps_def sample_environment_ok sample_startup_def Serve_def)
     (simp add: read_env_def getenv_def sample_environment_def)

theorem main_order_witness:
  "\<exists>c u. FromEnv sample_environment = Inr c \<and> listener_start sample_startup = Inr u \<and> u = UUID 7"
  using main_order [OF sample_main_steps] by (auto simp: sample_startup_def)

text \<open>After a panic of the operator \<open>main\<close> leaves by \<open>os.Exit\<close>, so the deferred calls that release
  the Pod's lock and close the pool, for which it waited, do not run.\<close>

lemma operator_panic_skips_cleanup:
  assumes "operator_panicked s"
  shows "StopListener \<notin> set (main_steps env s listen) \<and> ClosePool \<notin> set (main_steps env s listen)"
  using assms
  by (auto simp: main_steps_def Serve_def Let_def split: sum.splits prod.splits if_splits)

end
