(* ===== verification/Pool.thy ===== *)
theory Pool
  imports Config "HOL-Library.Sublist"
begin

text \<open>
  Opening the database (\<open>src/internal/db/db.go\<close>, and the parameters of the listener's own
  connection in \<open>src/internal/listener/listener.go\<close>): the settings of the pool, and the removal of
  the password from error texts. The parsers of the pool library and what the server answers are
  arguments. What \<open>net/url\<close> reads as the password of a URL is the argument \<open>url_password\<close>: nothing
  if the URL does not parse or has no password.
\<close>

section \<open>Scrubbing\<close>

text \<open>\<open>strings.ReplaceAll\<close> with a non-empty text to replace.\<close>

function replace_all :: "string \<Rightarrow> string \<Rightarrow> string \<Rightarrow> string" where
  "replace_all old new [] = []"
| "replace_all old new (c # s) =
     (if old \<noteq> [] \<and> prefix old (c # s) then new @ replace_all old new (drop (length old) (c # s))
      else c # replace_all old new s)"
  by pat_completeness auto
termination
  by (relation "measure (\<lambda>(old, new, s). length s)") (auto simp: Suc_le_eq)

definition ScrubURLError :: "(string \<Rightarrow> string option) \<Rightarrow> string option \<Rightarrow> string \<Rightarrow> string option" where
  "ScrubURLError url_password msg url =
     map_option (\<lambda>m. case url_password url of
         Some pw \<Rightarrow> if pw \<noteq> [] then replace_all pw ''REDACTED'' m else m
       | None \<Rightarrow> m) msg"

section \<open>Settings\<close>

text \<open>\<open>keepalivedDialer\<close>, of the pool and of the listener.\<close>

record dialer =
  dial_timeout :: duration
  dial_keepalive :: duration

definition keepalivedDialer :: dialer where
  "keepalivedDialer = \<lparr>dial_timeout = 5 * 1000000000, dial_keepalive = 10 * 1000000000\<rparr>"

record pool_config =
  DialFunc :: "dialer option"
  PingTimeout :: duration
  MaxConns :: int
  MaxConnLifetime :: duration
  MaxConnLifetimeJitter :: duration
  MaxConnIdleTime :: duration
  RuntimeParams :: "string \<rightharpoonup> string"

definition pool_settings :: "duration \<Rightarrow> pool_config \<Rightarrow> pool_config" where
  "pool_settings statementTimeout cfg =
     (let cfg1 = cfg\<lparr>DialFunc := Some keepalivedDialer, PingTimeout := 2 * 1000000000,
        MaxConns := (if MaxConns cfg < 8 then 8 else MaxConns cfg),
        MaxConnLifetime := 1800 * 1000000000, MaxConnLifetimeJitter := 300 * 1000000000,
        MaxConnIdleTime := 300 * 1000000000\<rparr> in
      if statementTimeout > 0
      then cfg1\<lparr>RuntimeParams := (RuntimeParams cfg1)(''statement_timeout'' \<mapsto> itoa (nat (statementTimeout div 1000000)))\<rparr>
      else cfg1)"

text \<open>\<open>Open\<close>: the error text or the settings of the pool, and whether a pool was opened and closed
  again.\<close>

definition Open ::
  "(string \<Rightarrow> string option) \<Rightarrow> string \<Rightarrow> duration \<Rightarrow> string + pool_config \<Rightarrow>
   (pool_config \<Rightarrow> string option) \<Rightarrow> string option \<Rightarrow> (string + pool_config) \<times> bool" where
  "Open url_password url statementTimeout parsed connect_err ping_err =
     (case parsed of
        Inl m \<Rightarrow> (Inl (''parse config: '' @ the (ScrubURLError url_password (Some m) url)), False)
      | Inr cfg0 \<Rightarrow>
         let cfg = pool_settings statementTimeout cfg0 in
         case connect_err cfg of
           Some m \<Rightarrow> (Inl (''connect: '' @ the (ScrubURLError url_password (Some m) url)), False)
         | None \<Rightarrow>
            (case ping_err of
               Some m \<Rightarrow> (Inl (''ping: '' @ the (ScrubURLError url_password (Some m) url)), True)
             | None \<Rightarrow> (Inr cfg, False)))"

definition mergeParams :: "(string \<rightharpoonup> string) \<Rightarrow> (string \<rightharpoonup> string) \<Rightarrow> (string \<rightharpoonup> string)" where
  "mergeParams base extra = base ++ extra"

definition listener_params :: "(string \<rightharpoonup> string) \<Rightarrow> (string \<rightharpoonup> string)" where
  "listener_params base = mergeParams base
     [''tcp_keepalives_idle'' \<mapsto> ''10'', ''tcp_keepalives_interval'' \<mapsto> ''5'',
      ''tcp_keepalives_count'' \<mapsto> ''3'', ''application_name'' \<mapsto> ''pgmqttd-listener'']"

section \<open>What scrubbing achieves\<close>

lemma replace_all_prefix:
  assumes "prefix t (replace_all old new s)" "set t \<inter> set new = {}" "new \<noteq> []"
  shows "prefix t s"
  using assms
proof (induction old new s arbitrary: t rule: replace_all.induct)
  case (2 old new c s)
  show ?case
  proof (cases t)
    case (Cons a t')
    have "\<not> (old \<noteq> [] \<and> prefix old (c # s))"
      using 2(3-5) Cons by (cases new) (auto split: if_splits)
    then show ?thesis using 2(2) [of t'] 2(3-5) Cons by auto
  qed simp
qed simp

lemma sublist_append_disjoint:
  assumes "sublist pw (new @ rest)" "set pw \<inter> set new = {}" "pw \<noteq> []"
  shows "sublist pw rest"
  using assms
proof (induction new)
  case (Cons a new)
  then have "\<not> prefix pw (a # new @ rest)" by (cases pw) auto
  with Cons show ?case by (simp add: sublist_Cons_right)
qed simp

lemma replace_all_removes:
  assumes "pw \<noteq> []" "set pw \<inter> set new = {}" "new \<noteq> []"
  shows "\<not> sublist pw (replace_all pw new s)"
  using assms
proof (induction pw new s rule: replace_all.induct)
  case (2 pw new c s)
  show ?case
  proof (cases "prefix pw (c # s)")
    case True
    with 2 have "\<not> sublist pw (replace_all pw new (drop (length pw) (c # s)))" by simp
    with True 2 sublist_append_disjoint [of pw new] show ?thesis by auto
  next
    case False
    with 2 have IH: "\<not> sublist pw (replace_all pw new s)" by simp
    have "\<not> prefix pw (replace_all pw new (c # s))"
      using False replace_all_prefix [OF _ 2(4,5)] by blast
    with IH False show ?thesis by (simp add: sublist_Cons_right)
  qed
qed simp

text \<open>A text cut into pieces at the occurrences of \<open>sep\<close>, and put together again with another
  separator.\<close>

fun weave :: "string \<Rightarrow> string list \<Rightarrow> string" where
  "weave sep [] = []"
| "weave sep [x] = x"
| "weave sep (x # y # xs) = x @ sep @ weave sep (y # xs)"

lemma weave_Cons: "xs \<noteq> [] \<Longrightarrow> weave sep (x # xs) = x @ sep @ weave sep xs"
  by (cases xs) simp_all

lemma weave_Cons_char: "weave sep ((c # x) # xs) = c # weave sep (x # xs)"
  by (cases xs) simp_all

lemma prefix_weave: "prefix x (weave sep (x # xs))"
  by (cases xs) simp_all

text \<open>Replacing keeps everything outside the occurrences, and no occurrence is left in there.\<close>

lemma replace_all_weave:
  assumes "old \<noteq> []"
  shows "\<exists>x xs. s = weave old (x # xs) \<and> replace_all old new s = weave new (x # xs) \<and>
    (\<forall>y \<in> set (x # xs). \<not> sublist old y)"
  using assms
proof (induction old new s rule: replace_all.induct)
  case (1 old new)
  then show ?case by (intro exI [of _ "[]"]) simp
next
  case (2 old new c s)
  show ?case
  proof (cases "prefix old (c # s)")
    case True
    with 2(1,3) obtain x xs where r: "drop (length old) (c # s) = weave old (x # xs)"
      "replace_all old new (drop (length old) (c # s)) = weave new (x # xs)" "\<forall>y \<in> set (x # xs). \<not> sublist old y"
      by metis
    have "replace_all old new (c # s) = weave new ([] # x # xs)" using True r(2) 2(3) by simp
    moreover have "c # s = weave old ([] # x # xs)"
      using True r(1) unfolding weave.simps append_Nil by (metis append_eq_conv_conj prefix_def)
    moreover have "\<forall>y \<in> set ([] # x # xs). \<not> sublist old y" using r(3) 2(3) by simp
    ultimately show ?thesis by blast
  next
    case False
    with 2(2,3) obtain x xs where r: "s = weave old (x # xs)" "replace_all old new s = weave new (x # xs)"
      "\<forall>y \<in> set (x # xs). \<not> sublist old y" by metis
    have "\<not> prefix old (c # x)"
    proof
      assume "prefix old (c # x)"
      also have "prefix (c # x) (c # s)" unfolding r(1) using prefix_weave [of x old xs] by simp
      finally show False using False by blast
    qed
    with False r show ?thesis
      by (intro exI [of _ "c # x"] exI [of _ xs]) (simp add: weave_Cons_char sublist_Cons_right)
  qed
qed

lemma sublist_after_blank:
  assumes "sublist pw (s @ '' '' @ t)" "CHR '' '' \<notin> set pw"
  shows "sublist pw s \<or> sublist pw t"
proof -
  have cases: "sublist pw s \<or> sublist pw ('' '' @ t) \<or>
      (\<exists>u v. pw = u @ v \<and> suffix u s \<and> prefix v ('' '' @ t))"
    using assms(1) by (simp only: sublist_append)
  have "v = []" if "prefix v ('' '' @ t)" "set v \<subseteq> set pw" for v
    using that assms(2) by (cases v) auto
  then have nil: "v = []" if "pw = u @ v" "prefix v ('' '' @ t)" for u v using that by simp
  from cases show ?thesis
  proof (elim disjE exE conjE)
    fix u v assume "pw = u @ v" "suffix u s" "prefix v ('' '' @ t)"
    then show ?thesis using nil [of u v] by (simp add: suffix_imp_sublist)
  qed (use nil [of "[]" pw] in \<open>auto simp: sublist_Cons_right\<close>)
qed

text \<open>C34: the password is taken out of the error texts. Let \<open>net/url\<close> find a password in the
  connection URL, and let the parse, the connect or the ping fail with whatever report. Then the
  error of \<open>Open\<close> is the fixed text of that step followed by the report, in which every
  occurrence of the password, from the left, is replaced by \<open>REDACTED\<close>: the rest of the report
  is unchanged and has the password nowhere between the replacements. So the error does not
  contain the password at all, unless it has a character of \<open>REDACTED\<close> or a blank, or stands in
  the fixed text. The pool is closed again exactly when it was the ping that failed.\<close>

theorem Open_redacts_password:
  assumes "Open url_password url t parsed connect_err ping_err = (Inl msg, closed)"
    and "url_password url = Some pw" "pw \<noteq> []"
  shows "\<exists>stage report pieces. msg = stage @ weave ''REDACTED'' pieces \<and> report = weave pw pieces \<and>
    (\<forall>x \<in> set pieces. \<not> sublist pw x) \<and>
    (stage = ''parse config: '' \<and> parsed = Inl report \<or>
     stage = ''connect: '' \<and> (\<exists>cfg. parsed = Inr cfg \<and> connect_err (pool_settings t cfg) = Some report) \<or>
     stage = ''ping: '' \<and> ping_err = Some report) \<and>
    (set pw \<inter> set ''REDACTED '' = {} \<and> \<not> sublist pw stage \<longrightarrow> \<not> sublist pw msg) \<and>
    (closed \<longleftrightarrow> stage = ''ping: '')"
proof -
  have scrub: "the (ScrubURLError url_password (Some m) url) = replace_all pw ''REDACTED'' m" for m
    using assms(2,3) by (simp add: ScrubURLError_def)
  have result: ?thesis
    if msg: "msg = stage @ replace_all pw ''REDACTED'' report" and stage: "stage = butlast stage @ '' ''"
      and failed: "stage = ''parse config: '' \<and> parsed = Inl report \<or>
        stage = ''connect: '' \<and> (\<exists>cfg. parsed = Inr cfg \<and> connect_err (pool_settings t cfg) = Some report) \<or>
        stage = ''ping: '' \<and> ping_err = Some report"
      and closed: "closed \<longleftrightarrow> stage = ''ping: ''" for stage report
  proof -
    obtain x xs where p: "report = weave pw (x # xs)"
      "replace_all pw ''REDACTED'' report = weave ''REDACTED'' (x # xs)" "\<forall>y \<in> set (x # xs). \<not> sublist pw y"
      using replace_all_weave [OF assms(3)] by blast
    have "\<not> sublist pw msg" if "set pw \<inter> set ''REDACTED '' = {} \<and> \<not> sublist pw stage"
    proof
      assume "sublist pw msg"
      with stage msg have "sublist pw (butlast stage @ '' '' @ replace_all pw ''REDACTED'' report)"
        by (metis append.assoc)
      then have "sublist pw (butlast stage) \<or> sublist pw (replace_all pw ''REDACTED'' report)"
        by (rule sublist_after_blank) (use that in auto)
      moreover have "\<not> sublist pw (replace_all pw ''REDACTED'' report)"
        by (rule replace_all_removes) (use assms(3) that in auto)
      ultimately show False using that stage by (metis sublist_append)
    qed
    with msg p failed closed show ?thesis by (intro exI [of _ stage] exI [of _ report] exI [of _ "x # xs"]) simp
  qed
  from assms(1) consider m where "parsed = Inl m" "msg = ''parse config: '' @ replace_all pw ''REDACTED'' m" "\<not> closed"
    | cfg m where "parsed = Inr cfg" "connect_err (pool_settings t cfg) = Some m"
        "msg = ''connect: '' @ replace_all pw ''REDACTED'' m" "\<not> closed"
    | m where "ping_err = Some m" "msg = ''ping: '' @ replace_all pw ''REDACTED'' m" "closed"
    unfolding Open_def Let_def scrub by (auto split: sum.splits option.splits)
  then show ?thesis
  proof cases
    case (1 m)
    show ?thesis by (rule result [OF 1(2)]) (use 1 in simp_all)
  next
    case (2 cfg m)
    show ?thesis by (rule result [OF 2(3)]) (use 2 in simp_all)
  next
    case (3 m)
    show ?thesis by (rule result [OF 3(2)]) (use 3 in simp_all)
  qed
qed

definition sample_url_password :: "string \<Rightarrow> string option" where
  "sample_url_password url = (if url = ''postgres://u:hunter2@h'' then Some ''hunter2'' else None)"

lemma sample_open_fails:
  "Open sample_url_password ''postgres://u:hunter2@h'' 0 (Inl ''bad port in postgres://u:hunter2@h'') (\<lambda>_. None) None
   = (Inl ''parse config: bad port in postgres://u:REDACTED@h'', False)"
  by (simp add: Open_def ScrubURLError_def sample_url_password_def)

theorem Open_redacts_password_witness:
  "\<exists>stage pieces. ''parse config: bad port in postgres://u:REDACTED@h'' = stage @ weave ''REDACTED'' pieces \<and>
     ''bad port in postgres://u:hunter2@h'' = weave ''hunter2'' pieces"
proof -
  have pw: "sample_url_password ''postgres://u:hunter2@h'' = Some ''hunter2''" "''hunter2'' \<noteq> []"
    by (simp_all add: sample_url_password_def)
  from Open_redacts_password [OF sample_open_fails pw] obtain stage report pieces where
    "''parse config: bad port in postgres://u:REDACTED@h'' = stage @ weave ''REDACTED'' pieces"
    "report = weave ''hunter2'' pieces"
    "Inl ''bad port in postgres://u:hunter2@h'' = (Inl report :: string + pool_config)" by blast
  then show ?thesis by blast
qed

text \<open>What is removed is the password as \<open>net/url\<close> decodes it. A message that shows the URL with the
  password percent-encoded, or comes of a URL that \<open>net/url\<close> does not accept either, is passed on
  as it is.\<close>

lemma replace_all_absent: "\<not> sublist old s \<Longrightarrow> replace_all old new s = s"
  by (induction old new s rule: replace_all.induct) (auto simp: sublist_Cons_right)

lemma scrub_misses_encoded:
  assumes "case url_password url of None \<Rightarrow> True | Some pw \<Rightarrow> \<not> sublist pw m"
  shows "ScrubURLError url_password (Some m) url = Some m"
  using assms by (auto simp: ScrubURLError_def replace_all_absent split: option.splits)

end
