(* ===== verification/ListenerConn.thy ===== *)
theory ListenerConn
  imports Listener
begin

text \<open>
  The listener's own connection (\<open>Start\<close>, \<open>dialAndRegister\<close>, \<open>run\<close>, \<open>reconnect\<close> and \<open>Stop\<close> of
  \<open>src/internal/listener/listener.go\<close>). \<open>Listener\<close> models what these functions do to the Pod; here
  the connections they open and close are part of the state. The advisory lock of the Pod and its
  LISTEN registrations live and die with such a connection.

  The facts: this model and that of \<open>Listener\<close> do the same to the Pod, and a listener never holds
  more than the one connection it waits on.
\<close>

section \<open>Connections\<close>

text \<open>The open connections by number, the next number, and the fields \<open>conn\<close> and \<open>closeOnce\<close> of the
  \<open>Listener\<close>.\<close>

record ports =
  open_conns :: "nat list"
  next_conn :: nat
  held :: "nat option"
  stopped :: bool

definition no_ports :: ports where
  "no_ports = \<lparr>open_conns = [], next_conn = 0, held = None, stopped = False\<rparr>"

definition close_port :: "nat \<Rightarrow> ports \<Rightarrow> ports" where
  "close_port i p = p\<lparr>open_conns := filter (\<lambda>j. j \<noteq> i) (open_conns p)\<rparr>"

type_synonym 'a wire = "world \<times> ports \<Rightarrow> (err + 'a) \<times> world \<times> ports"

text \<open>The steps after the connection is open: the lock and the three \<open>LISTEN\<close>s. Each error closes the
  connection again.\<close>

fun register_steps :: "unit go list \<Rightarrow> nat \<Rightarrow> nat wire" where
  "register_steps [] i (w, p) = (Inr i, w, p)"
| "register_steps (m # ms) i (w, p) =
     (case m w of
        (Inl e, w1) \<Rightarrow> (Inl e, w1, close_port i p)
      | (Inr _, w1) \<Rightarrow> register_steps ms i (w1, p))"

definition dial_conn :: "nat wire" where
  "dial_conn s = (case s of (w, p) \<Rightarrow>
     (case call w of
        (Inl e, w1) \<Rightarrow> (Inl e, w1, p)
      | (Inr _, w1) \<Rightarrow> register_steps [acquireBrokerLock, call, call, call] (next_conn p)
          (w1, p\<lparr>open_conns := open_conns p @ [next_conn p], next_conn := next_conn p + 1\<rparr>)))"

text \<open>\<open>Start\<close>. The first argument is what parsing the URL answers.\<close>

definition Start :: "err option \<Rightarrow> unit wire" where
  "Start parsed s = (case parsed of Some e \<Rightarrow> (Inl e, s)
     | None \<Rightarrow> (case dial_conn s of
         (Inl e, s1) \<Rightarrow> (Inl e, s1)
       | (Inr i, w1, p1) \<Rightarrow> (Inr (), w1, p1\<lparr>held := Some i\<rparr>)))"

section \<open>Reconnecting\<close>

text \<open>The connection is taken out of the listener and closed before the first attempt.\<close>

definition teardown :: "ports \<Rightarrow> ports" where
  "teardown p = (case held p of None \<Rightarrow> p\<lparr>held := None\<rparr> | Some i \<Rightarrow> close_port i (p\<lparr>held := None\<rparr>))"

fun redial :: "(instant \<Rightarrow> bool) \<Rightarrow> nat \<Rightarrow> duration \<Rightarrow> bool wire" where
  "redial ctx_done 0 backoff s = (Inr False, s)"
| "redial ctx_done (Suc n) backoff (w, p) =
     (if ctx_done (now w) then (Inr False, w, p)
      else (case dial_conn (w, p) of
          (Inr i, w1, p1) \<Rightarrow> (Inr True, w1, p1\<lparr>held := Some i\<rparr>)
        | (Inl e, w1, p1) \<Rightarrow>
            if n = 0 then (Inr False, w1, p1)
            else redial ctx_done n (next_backoff backoff) (w1\<lparr>now := now w1 + backoff\<rparr>, p1)))"

definition reconnect_conn :: "(instant \<Rightarrow> bool) \<Rightarrow> bool wire" where
  "reconnect_conn ctx_done s = (case s of (w, p) \<Rightarrow>
     redial ctx_done reconnectMaxAttempts reconnectInitialBackoff (w, teardown p))"

section \<open>The goroutine\<close>

text \<open>One event of the loop: \<open>WaitForNotification\<close> returns, or it panics. Waiting needs a connection;
  without one the code would dereference nil.\<close>

datatype run_event = Waited wait_result | WaitPanicked

definition lift_go :: "'a go \<Rightarrow> 'a wire" where
  "lift_go m s = (case s of (w, p) \<Rightarrow> (case m w of (r, w1) \<Rightarrow> (r, w1, p)))"

definition failed_wait :: "ext \<Rightarrow> (instant \<Rightarrow> bool) \<Rightarrow> loop_outcome wire" where
  "failed_wait X ctx_done s =
     (case lift_go (count ''ListenerRestartsTotal'' ''wait_error'' 1) s of
        (Inl e, s1) \<Rightarrow> (Inl e, s1)
      | (Inr _, s1) \<Rightarrow> (case reconnect_conn ctx_done s1 of
          (Inl e, s2) \<Rightarrow> (Inl e, s2)
        | (Inr ok, s2) \<Rightarrow>
           lift_go (if ok then go_then AttestOwnedSessions (go_then KickAllDrains (go_return LoopOn))
             else go_bind (go_ask now) (\<lambda>t.
               if ctx_done t
               then go_then (count ''ListenerRestartsTotal'' ''ctx_cancel'' 1) (go_return LoopReturn)
               else go_then (count ''ListenerRestartsTotal'' ''exhausted_retries'' 1) (go_return ProcessExit))) s2))"

definition run_step :: "ext \<Rightarrow> (instant \<Rightarrow> bool) \<Rightarrow> run_event \<Rightarrow> loop_outcome wire" where
  "run_step X ctx_done ev s = (case s of (w, p) \<Rightarrow>
     if held p = None then (Inl (Panic ''nil connection''), s)
     else (case ev of
        WaitPanicked \<Rightarrow> (Inr LoopReturn, s)
      | Waited WaitFailed \<Rightarrow>
          if ctx_done (now w)
          then lift_go (go_then (count ''ListenerRestartsTotal'' ''ctx_cancel'' 1) (go_return LoopReturn)) s
          else failed_wait X ctx_done s
      | Waited WaitNetClosed \<Rightarrow>
          if ctx_done (now w)
          then lift_go (go_then (count ''ListenerRestartsTotal'' ''ctx_cancel'' 1) (go_return LoopReturn)) s
          else (Inr LoopReturn, s)
      | Waited (Notified channel msg) \<Rightarrow>
          lift_go (go_then (dispatchNotification X (brokerID w) (channel, msg)) (go_return LoopOn)) s))"

fun run_conn :: "ext \<Rightarrow> (instant \<Rightarrow> bool) \<Rightarrow> run_event list \<Rightarrow> loop_outcome wire" where
  "run_conn X ctx_done [] s = (Inr LoopOn, s)"
| "run_conn X ctx_done (e # es) s =
     (case run_step X ctx_done e s of
        (Inr LoopOn, s1) \<Rightarrow> run_conn X ctx_done es s1
      | (r, s1) \<Rightarrow> (r, s1))"

text \<open>\<open>Stop\<close>, once the goroutine has ended: the connection is closed but stays in the field.\<close>

definition Stop_conn :: "ports \<Rightarrow> ports" where
  "Stop_conn p =
     (if stopped p then p
      else let p1 = p\<lparr>stopped := True\<rparr> in
           case held p1 of None \<Rightarrow> p1 | Some i \<Rightarrow> close_port i p1)"

section \<open>The same effect on the Pod\<close>

lemma lift_go_eq [simp]: "lift_go m (w, p) = (fst (m w), snd (m w), p)"
  by (simp add: lift_go_def split: prod.splits)

fun go_seq :: "unit go list \<Rightarrow> unit go" where
  "go_seq [] = go_return ()"
| "go_seq (m # ms) = go_then m (go_seq ms)"

lemma register_steps_refines:
  "register_steps ms i (w, p) = (r, w', p') \<Longrightarrow>
     go_seq ms w = (map_sum id (\<lambda>_. ()) r, w') \<and> (case r of Inl e \<Rightarrow> p' = close_port i p | Inr j \<Rightarrow> j = i \<and> p' = p)"
proof (induction ms arbitrary: w)
  case (Cons m ms)
  obtain r1 w1 where m: "m w = (r1, w1)" by fastforce
  with Cons show ?case by (cases r1) auto
qed auto

lemma dialAndRegister_seq: "dialAndRegister = go_seq [call, acquireBrokerLock, call, call, call]"
proof
  fix w
  have "go_then call (go_return ()) = call"
    by (rule ext) (auto simp: go_bind_def split: prod.splits sum.splits)
  then show "dialAndRegister w = go_seq [call, acquireBrokerLock, call, call, call] w"
    by (simp add: dialAndRegister_def)
qed

definition fresh_ports :: "ports \<Rightarrow> bool" where
  "fresh_ports p \<longleftrightarrow> (\<forall>i \<in> set (open_conns p). i < next_conn p) \<and> distinct (open_conns p)"

lemma dial_conn_cases:
  assumes "dial_conn (w, p) = (r, w', p')" "fresh_ports p"
  shows "dialAndRegister w = (map_sum id (\<lambda>_. ()) r, w')" "fresh_ports p'"
    "held p' = held p" "stopped p' = stopped p" "next_conn p \<le> next_conn p'"
    "open_conns p' = (case r of Inl e \<Rightarrow> open_conns p | Inr i \<Rightarrow> open_conns p @ [i])"
    "\<forall>i. r = Inr i \<longrightarrow> i \<notin> set (open_conns p)"
proof -
  obtain r1 w1 where c: "call w = (r1, w1)" by fastforce
  let ?p = "p\<lparr>open_conns := open_conns p @ [next_conn p], next_conn := next_conn p + 1\<rparr>"
  have new: "next_conn p \<notin> set (open_conns p)" using assms(2) by (auto simp: fresh_ports_def)
  have f: "fresh_ports ?p" using assms(2) by (auto simp: fresh_ports_def less_Suc_eq)
  have "dialAndRegister w = (map_sum id (\<lambda>_. ()) r, w') \<and> fresh_ports p' \<and> held p' = held p \<and>
    stopped p' = stopped p \<and> next_conn p \<le> next_conn p' \<and>
    open_conns p' = (case r of Inl e \<Rightarrow> open_conns p | Inr i \<Rightarrow> open_conns p @ [i]) \<and>
    (\<forall>i. r = Inr i \<longrightarrow> i \<notin> set (open_conns p))"
  proof (cases r1)
    case (Inl e)
    with assms c show ?thesis by (auto simp: dial_conn_def dialAndRegister_seq)
  next
    case (Inr u)
    with assms(1) c have "register_steps [acquireBrokerLock, call, call, call] (next_conn p) (w1, ?p) = (r, w', p')"
      by (simp add: dial_conn_def)
    from register_steps_refines [OF this] show ?thesis
      using c Inr new f assms(2) by (cases r) (auto simp: dialAndRegister_seq close_port_def fresh_ports_def filter_id_conv less_Suc_eq)
  qed
  then show "dialAndRegister w = (map_sum id (\<lambda>_. ()) r, w')" "fresh_ports p'"
    "held p' = held p" "stopped p' = stopped p" "next_conn p \<le> next_conn p'"
    "open_conns p' = (case r of Inl e \<Rightarrow> open_conns p | Inr i \<Rightarrow> open_conns p @ [i])"
    "\<forall>i. r = Inr i \<longrightarrow> i \<notin> set (open_conns p)" by blast+
qed

section \<open>One connection at a time\<close>

definition one_port :: "ports \<Rightarrow> bool" where
  "one_port p \<longleftrightarrow> fresh_ports p \<and> open_conns p = (case held p of None \<Rightarrow> [] | Some i \<Rightarrow> [i])"

lemma redial_refines:
  assumes "redial ctx_done n b (w, p) = (r, w', p')" "one_port p" "held p = None"
  shows "reconnect_loop ctx_done n b w = (r, w') \<and> one_port p' \<and> stopped p' = stopped p \<and>
    r = Inr (held p' \<noteq> None)"
  using assms
proof (induction n arbitrary: b w p)
  case (Suc n)
  show ?case
  proof (cases "ctx_done (now w)")
    case True
    with Suc.prems show ?thesis by auto
  next
    case False
    obtain r1 w1 p1 where d: "dial_conn (w, p) = (r1, w1, p1)" by (metis prod_cases3)
    have fresh: "fresh_ports p" "open_conns p = []" using Suc.prems(2,3) by (auto simp: one_port_def)
    note c = dial_conn_cases [OF d fresh(1)]
    show ?thesis
    proof (cases r1)
      case (Inr i)
      with False Suc.prems d have "r = Inr True" "w' = w1" "p' = p1\<lparr>held := Some i\<rparr>" by auto
      moreover have "one_port (p1\<lparr>held := Some i\<rparr>)"
        using c Inr fresh by (simp add: one_port_def fresh_ports_def)
      ultimately show ?thesis using c(1,4) Inr False by (simp add: go_bind_def go_attempt_def)
    next
      case (Inl e)
      have one: "one_port p1" "held p1 = None" using c Inl fresh Suc.prems(3) by (simp_all add: one_port_def)
      show ?thesis
      proof (cases "n = 0")
        case True
        with False Inl Suc.prems d c(1,4) one show ?thesis by (auto simp: go_bind_def go_attempt_def)
      next
        case n: False
        with False Inl Suc.prems(1) d
        have "redial ctx_done n (next_backoff b) (w1\<lparr>now := now w1 + b\<rparr>, p1) = (r, w', p')" by simp
        from Suc.IH [OF this one] show ?thesis
          using False n Inl c(1,4) by (simp add: go_bind_def go_attempt_def go_sleep_def)
      qed
    qed
  qed
qed auto

lemma teardown_one: "one_port p \<Longrightarrow> one_port (teardown p) \<and> held (teardown p) = None \<and> stopped (teardown p) = stopped p"
  by (auto simp: one_port_def teardown_def close_port_def fresh_ports_def split: option.splits)

lemma reconnect_refines:
  assumes "reconnect_conn ctx_done (w, p) = (r, w', p')" "one_port p"
  shows "reconnect ctx_done w = (r, w') \<and> one_port p' \<and> stopped p' = stopped p \<and>
    r = Inr (held p' \<noteq> None)"
  using redial_refines [of ctx_done reconnectMaxAttempts reconnectInitialBackoff w "teardown p" r w' p']
    teardown_one [OF assms(2)] assms(1)
  by (simp add: reconnect_conn_def reconnect_def)

lemma Start_one:
  assumes "Start parsed (w, no_ports) = (r, w', p)"
  shows "one_port p \<and> \<not> stopped p \<and> (r = Inr () \<longleftrightarrow> held p \<noteq> None) \<and>
    (parsed = None \<longrightarrow> dialAndRegister w = (r, w'))"
proof (cases parsed)
  case (Some e)
  with assms show ?thesis by (auto simp: Start_def no_ports_def one_port_def fresh_ports_def)
next
  case None
  obtain r1 w1 p1 where d: "dial_conn (w, no_ports) = (r1, w1, p1)" by (metis prod_cases3)
  have "fresh_ports no_ports" by (simp add: no_ports_def fresh_ports_def)
  note c = dial_conn_cases [OF d this]
  from c None d assms show ?thesis
    by (cases r1) (auto simp: Start_def no_ports_def one_port_def fresh_ports_def)
qed

text \<open>The tail of a failed wait never fails and does not touch the listener's connection.\<close>

lemma go_lift_eval [simp]: "lift_go m s = (r, w', p') \<longleftrightarrow> m (fst s) = (r, w') \<and> p' = snd s"
  by (cases s) (auto simp: lift_go_def split: prod.splits)

lemma AttestOwnedSessions_total: "\<exists>w'. AttestOwnedSessions w = (Inr (), w')"
  by (auto simp: AttestOwnedSessions_def go_ignore_eq)

lemma KickAllDrains_total: "\<exists>w'. KickAllDrains w = (Inr (), w')"
proof -
  have "\<exists>w'. go_each KickDrain ks w = (Inr (), w')" for ks w
    by (induction ks arbitrary: w) (auto simp: KickDrain_def)
  then show ?thesis by (simp add: KickAllDrains_def)
qed

lemma run_step_refines:
  assumes "run_step X ctx_done (Waited ev) (w, p) = (r, w', p')" "one_port p" "held p \<noteq> None"
  shows "listener_step X ctx_done ev w = (r, w') \<and> one_port p' \<and> stopped p' = stopped p \<and>
    (r = Inr LoopOn \<longrightarrow> held p' \<noteq> None)"
proof (cases ev)
  case (Notified channel msg)
  with assms show ?thesis by (auto simp: run_step_def listener_step_def)
next
  case WaitNetClosed
  with assms show ?thesis by (auto simp: run_step_def listener_step_def split: if_splits)
next
  case WaitFailed
  show ?thesis
  proof (cases "ctx_done (now w)")
    case True
    with WaitFailed assms show ?thesis by (auto simp: run_step_def listener_step_def)
  next
    case False
    let ?w1 = "snd (count ''ListenerRestartsTotal'' ''wait_error'' 1 w)"
    have w1: "count ''ListenerRestartsTotal'' ''wait_error'' 1 w = (Inr (), ?w1)" by simp
    obtain r2 w2 p2 where rc: "reconnect_conn ctx_done (?w1, p) = (r2, w2, p2)" by (metis prod_cases3)
    from reconnect_refines [OF this assms(2)] obtain ok where
      ok: "reconnect ctx_done ?w1 = (Inr ok, w2)" "r2 = Inr ok" "ok = (held p2 \<noteq> None)" "one_port p2" "stopped p2 = stopped p"
      by auto
    obtain w3 where at: "AttestOwnedSessions w2 = (Inr (), w3)" using AttestOwnedSessions_total by blast
    obtain w4 where kd: "KickAllDrains w3 = (Inr (), w4)" using KickAllDrains_total by blast
    have step: "failed_wait X ctx_done (w, p) = (r, w', p')" using WaitFailed assms False by (simp add: run_step_def)
    then show ?thesis
      using WaitFailed False w1 rc ok at kd by (cases ok) (auto simp: failed_wait_def listener_step_def split: if_splits)
  qed
qed

lemma run_conn_refines:
  assumes "run_conn X ctx_done (map Waited evs) (w, p) = (r, w', p')" "one_port p" "held p \<noteq> None"
  shows "listener_run X ctx_done evs w = (r, w') \<and> one_port p' \<and> stopped p' = stopped p \<and>
    (r = Inr LoopOn \<longrightarrow> held p' \<noteq> None)"
  using assms
proof (induction evs arbitrary: w p)
  case (Cons e es)
  obtain r1 w1 p1 where st: "run_step X ctx_done (Waited e) (w, p) = (r1, w1, p1)" by (metis prod_cases3)
  note s = run_step_refines [OF this Cons.prems(2,3)]
  show ?case
  proof (cases "r1 = Inr LoopOn")
    case True
    with Cons.prems(1) st have "run_conn X ctx_done (map Waited es) (w1, p1) = (r, w', p')" by simp
    with Cons.IH [OF this] s True show ?thesis by auto
  next
    case False
    with Cons.prems(1) st have "r = r1" "w' = w1" "p' = p1"
      by (auto split: sum.splits loop_outcome.splits)
    with s False show ?thesis by (cases r1) auto
  qed
qed auto

lemma Stop_conn_one: "one_port p \<Longrightarrow> \<not> stopped p \<Longrightarrow> open_conns (Stop_conn p) = []"
  by (auto simp: Stop_conn_def one_port_def close_port_def Let_def split: option.splits)

lemma Stop_conn_again: "Stop_conn (Stop_conn p) = Stop_conn p"
  by (auto simp: Stop_conn_def close_port_def Let_def split: option.splits)

section \<open>The life of a listener\<close>

lemma run_step_one:
  assumes "run_step X ctx_done ev (w, p) = (r, w', p')" "one_port p" "held p \<noteq> None"
  shows "one_port p' \<and> stopped p' = stopped p \<and> (r = Inr LoopOn \<longrightarrow> held p' \<noteq> None)"
proof (cases ev)
  case (Waited e)
  with assms run_step_refines show ?thesis by blast
next
  case WaitPanicked
  with assms show ?thesis by (auto simp: run_step_def)
qed

lemma run_conn_one:
  assumes "run_conn X ctx_done evs (w, p) = (r, w', p')" "one_port p" "held p \<noteq> None"
  shows "one_port p' \<and> stopped p' = stopped p \<and> (r = Inr LoopOn \<longrightarrow> held p' \<noteq> None)"
  using assms
proof (induction evs arbitrary: w p)
  case (Cons e es)
  obtain r1 w1 p1 where st: "run_step X ctx_done e (w, p) = (r1, w1, p1)" by (metis prod_cases3)
  note s = run_step_one [OF this Cons.prems(2,3)]
  show ?case
  proof (cases "r1 = Inr LoopOn")
    case True
    with Cons.prems(1) st have "run_conn X ctx_done es (w1, p1) = (r, w', p')" by simp
    with Cons.IH [OF this] s True show ?thesis by auto
  next
    case False
    with Cons.prems(1) st have "r = r1" "p' = p1" by (auto split: sum.splits loop_outcome.splits)
    with s show ?thesis by simp
  qed
qed auto

text \<open>C29: a listener holds exactly the connection it waits on. Whatever its waits return, however
  the steps of connecting fail, and whenever the goroutine ends: the open connections are the one
  in the listener's field, if any; the loop never waits without one; \<open>Stop\<close> leaves none open, and
  stopping again changes nothing. On the Pod the run has exactly the effect \<open>Listener\<close> models. A
  start that fails leaves nothing open.\<close>

theorem listener_one_connection:
  assumes "Start parsed (w, no_ports) = (r0, w1, p1)" "run_conn X ctx_done evs (w1, p1) = (r, w2, p2)"
  shows "(r0 \<noteq> Inr () \<longrightarrow> open_conns p1 = []) \<and>
    (r0 = Inr () \<longrightarrow> open_conns p2 = (case held p2 of None \<Rightarrow> [] | Some i \<Rightarrow> [i]) \<and>
       (r = Inr LoopOn \<longrightarrow> held p2 \<noteq> None) \<and>
       open_conns (Stop_conn p2) = [] \<and> Stop_conn (Stop_conn p2) = Stop_conn p2 \<and>
       (\<forall>rs. evs = map Waited rs \<longrightarrow> listener_run X ctx_done rs w1 = (r, w2)))"
proof -
  note start = Start_one [OF assms(1)]
  show ?thesis
  proof (intro conjI impI)
    assume "r0 \<noteq> Inr ()"
    with start show "open_conns p1 = []" by (auto simp: one_port_def)
  next
    assume "r0 = Inr ()"
    with start have "one_port p1" "held p1 \<noteq> None" "\<not> stopped p1" by auto
    note run = run_conn_one [OF assms(2) this(1,2)] and ref = run_conn_refines [OF _ this(1,2)]
    show "open_conns p2 = (case held p2 of None \<Rightarrow> [] | Some i \<Rightarrow> [i])" using run by (simp add: one_port_def)
    show "r = Inr LoopOn \<Longrightarrow> held p2 \<noteq> None" using run by blast
    show "open_conns (Stop_conn p2) = []" using run \<open>\<not> stopped p1\<close> by (intro Stop_conn_one) auto
    show "Stop_conn (Stop_conn p2) = Stop_conn p2" by (rule Stop_conn_again)
    show "\<forall>rs. evs = map Waited rs \<longrightarrow> listener_run X ctx_done rs w1 = (r, w2)"
      using assms(2) ref by blast
  qed
qed

text \<open>A start that succeeds, a connection that breaks, a first attempt to reconnect that fails at the
  lock, and a second that succeeds.\<close>

definition lock_fails :: world where
  "lock_fails = (sample_world empty_db (sample_conn ''c'' 5))\<lparr>faults := replicate 6 None @ [Some FaultDeadline]\<rparr>"

lemma lock_fails_start: "Start None (lock_fails, no_ports) = (Inr (), lock_fails\<lparr>faults := [None, Some FaultDeadline]\<rparr>,
    \<lparr>open_conns = [0], next_conn = 1, held = Some 0, stopped = False\<rparr>)"
  by (simp add: Start_def dial_conn_def lock_fails_def no_ports_def acquireBrokerLock_def call_def next_fault_def
      numeral_eq_Suc)

lemma lock_fails_run:
  "fst (run_conn sample_ext (\<lambda>_. False) [Waited WaitFailed] (lock_fails\<lparr>faults := [None, Some FaultDeadline]\<rparr>,
     \<lparr>open_conns = [0], next_conn = 1, held = Some 0, stopped = False\<rparr>)) = Inr LoopOn"
  "held (snd (snd (run_conn sample_ext (\<lambda>_. False) [Waited WaitFailed] (lock_fails\<lparr>faults := [None, Some FaultDeadline]\<rparr>,
     \<lparr>open_conns = [0], next_conn = 1, held = Some 0, stopped = False\<rparr>)))) = Some 2"
  by code_simp+

theorem listener_one_connection_witness:
  "open_conns (snd (snd (Start None (lock_fails, no_ports)))) = [0] \<and>
   (\<exists>w2 p2. run_conn sample_ext (\<lambda>_. False) [Waited WaitFailed] (snd (Start None (lock_fails, no_ports)))
      = (Inr LoopOn, w2, p2) \<and> open_conns p2 = [2] \<and> open_conns (Stop_conn p2) = [])"
proof -
  obtain r w2 p2 where run: "run_conn sample_ext (\<lambda>_. False) [Waited WaitFailed]
      (snd (Start None (lock_fails, no_ports))) = (r, w2, p2)" by (metis prod_cases3)
  then have "r = Inr LoopOn" "held p2 = Some 2" using lock_fails_run by (simp_all add: lock_fails_start)
  with listener_one_connection [OF lock_fails_start, of sample_ext "\<lambda>_. False" "[Waited WaitFailed]" r w2 p2] run
  show ?thesis by (simp add: lock_fails_start)
qed

text \<open>A panic in the goroutine outside a notification's dispatch ends it for good, with the connection
  open: the lock stays held, so no peer takes the Pod for dead, and nothing listens any more.\<close>

lemma deaf_after_panic:
  assumes "Start None (w, no_ports) = (Inr (), w1, p1)"
  shows "\<exists>i. run_conn X ctx_done (WaitPanicked # evs) (w1, p1) = (Inr LoopReturn, w1, p1) \<and> open_conns p1 = [i]"
  using Start_one [OF assms] by (auto simp: run_step_def one_port_def)

end
