(* ===== verification/BufPool.thy ===== *)
theory BufPool
  imports Codec
begin

text \<open>
  The pool of buffers behind \<open>Encode\<close> (\<open>src/internal/mqtt/buf.go\<close>, and \<open>Encode\<close> and \<open>Write\<close> of
  \<open>codec.go\<close>). Any number of goroutines encode at the same time; each takes a buffer out of the pool,
  lets the library write into it, copies the bytes out and gives the buffer back. \<open>Codec\<close> models
  \<open>Encode\<close> as a function of the packet; the fact here is that it is one, whatever the buffers were
  used for before and however the goroutines interleave.
\<close>

section \<open>The pool\<close>

text \<open>The content of each buffer by its number, the numbers in the pool, the next number, the calls of
  \<open>Encode\<close> in progress by goroutine, and the results so far.\<close>

datatype frame = Frame (fr_buf: nat) (fr_packet: packet) (fr_result: "(err + unit) option")

record buf_state =
  contents :: "nat \<Rightarrow> bytes"
  pooled :: "nat list"
  next_buf :: nat
  frames :: "nat \<rightharpoonup> frame"
  encoded :: "(packet \<times> (err + bytes)) list"

definition bufPool :: buf_state where
  "bufPool = \<lparr>contents = (\<lambda>_. []), pooled = [], next_buf = 0, frames = Map.empty, encoded = []\<rparr>"

text \<open>\<open>newBuf\<close>: \<open>Get\<close> of \<open>sync.Pool\<close> answers with any buffer it holds, the \<open>i\<close>-th here, or calls \<open>New\<close>.\<close>

definition newBuf :: "nat \<Rightarrow> buf_state \<Rightarrow> nat \<times> buf_state" where
  "newBuf i s =
     (if i < length (pooled s)
      then (pooled s ! i, s\<lparr>pooled := take i (pooled s) @ drop (i + 1) (pooled s)\<rparr>)
      else (next_buf s, s\<lparr>contents := (contents s)(next_buf s := []), next_buf := next_buf s + 1\<rparr>))"

definition Reset :: "nat \<Rightarrow> buf_state \<Rightarrow> buf_state" where
  "Reset b s = s\<lparr>contents := (contents s)(b := []), pooled := pooled s @ [b]\<rparr>"

section \<open>Encoding into a buffer\<close>

text \<open>The switch of \<open>Encode\<close>: an encoder of the library appends its bytes to the buffer; one that fails
  may leave anything behind (\<open>partial\<close>).\<close>

definition encode_into :: "mochi \<Rightarrow> packet \<Rightarrow> bytes \<Rightarrow> bytes \<Rightarrow> (err + unit) \<times> bytes" where
  "encode_into m pk partial b =
     (let pk' = (if ptype pk \<noteq> Connack then pk\<lparr>AllowResponseInfo := True\<rparr> else pk) in
      case ptype pk' of
        OtherType n \<Rightarrow> (Inl (ErrCodec ''encode: invalid packet type''), b)
      | _ \<Rightarrow> (case mochi_encode m pk' of
            Inl e \<Rightarrow> (Inl e, b @ partial)
          | Inr bs \<Rightarrow> (Inr (), b @ bs)))"

text \<open>A goroutine's call in three parts, and the runtime, which may drop pooled buffers at any time. The
  deferred \<open>Reset\<close> runs on every path, after the bytes have been copied out.\<close>

datatype buf_event = EncodeStart nat nat packet | EncodeInto nat bytes | EncodeReturn nat | PoolDrop nat

fun buf_step :: "mochi \<Rightarrow> buf_event \<Rightarrow> buf_state \<Rightarrow> buf_state" where
  "buf_step m (EncodeStart g i pk) s =
     (if frames s g \<noteq> None then s
      else (case newBuf i s of (b, s1) \<Rightarrow> s1\<lparr>frames := (frames s1)(g \<mapsto> Frame b pk None)\<rparr>))"
| "buf_step m (EncodeInto g partial) s =
     (case frames s g of
        Some (Frame b pk None) \<Rightarrow>
          (case encode_into m pk partial (contents s b) of (r, c) \<Rightarrow>
             s\<lparr>contents := (contents s)(b := c), frames := (frames s)(g \<mapsto> Frame b pk (Some r))\<rparr>)
      | _ \<Rightarrow> s)"
| "buf_step m (EncodeReturn g) s =
     (case frames s g of
        Some (Frame b pk (Some r)) \<Rightarrow>
          Reset b (s\<lparr>encoded := encoded s @ [(pk, case r of Inl e \<Rightarrow> Inl e | Inr _ \<Rightarrow> Inr (contents s b))],
                     frames := (frames s)(g := None)\<rparr>)
      | _ \<Rightarrow> s)"
| "buf_step m (PoolDrop i) s = s\<lparr>pooled := take i (pooled s) @ drop (i + 1) (pooled s)\<rparr>"

definition buf_run :: "mochi \<Rightarrow> buf_event list \<Rightarrow> buf_state" where
  "buf_run m evs = fold (buf_step m) evs bufPool"

text \<open>\<open>Write\<close>: encode, then one write to the connection. The argument \<open>wr\<close> is what that write answers.\<close>

definition mqtt_Write :: "mochi \<Rightarrow> (bytes \<Rightarrow> err option) \<Rightarrow> packet \<Rightarrow> err option \<times> bytes" where
  "mqtt_Write m wr pk =
     (case Encode m pk of
        Inl e \<Rightarrow> (Some e, [])
      | Inr buf \<Rightarrow> (wr buf, buf))"

section \<open>Buffers are not shared and come back empty\<close>

text \<open>Every buffer of the pool is empty, no buffer is in the pool twice or in the pool and in use, and
  two goroutines never use the same one.\<close>

definition frame_ok :: "mochi \<Rightarrow> buf_state \<Rightarrow> frame \<Rightarrow> bool" where
  "frame_ok m s f \<longleftrightarrow> fr_buf f < next_buf s \<and> fr_buf f \<notin> set (pooled s) \<and>
     (case fr_result f of
        None \<Rightarrow> contents s (fr_buf f) = []
      | Some (Inl e) \<Rightarrow> Encode m (fr_packet f) = Inl e
      | Some (Inr _) \<Rightarrow> Encode m (fr_packet f) = Inr (contents s (fr_buf f)))"

definition pool_ok :: "mochi \<Rightarrow> buf_state \<Rightarrow> bool" where
  "pool_ok m s \<longleftrightarrow> distinct (pooled s) \<and> (\<forall>b \<in> set (pooled s). b < next_buf s \<and> contents s b = []) \<and>
     (\<forall>g f. frames s g = Some f \<longrightarrow> frame_ok m s f) \<and>
     (\<forall>g h f k. frames s g = Some f \<longrightarrow> frames s h = Some k \<longrightarrow> fr_buf f = fr_buf k \<longrightarrow> g = h) \<and>
     (\<forall>(pk, r) \<in> set (encoded s). r = Encode m pk)"

lemma encode_into_empty:
  "encode_into m pk partial [] = (r, c) \<Longrightarrow>
     (case r of Inl e \<Rightarrow> Encode m pk = Inl e | Inr _ \<Rightarrow> Encode m pk = Inr c)"
  by (auto simp: encode_into_def Encode_def Let_def split: ptype.splits sum.splits)

lemma frame_ok_keep:
  "frame_ok m s f \<Longrightarrow> fr_buf f \<notin> set (pooled s') \<Longrightarrow> contents s' (fr_buf f) = contents s (fr_buf f) \<Longrightarrow>
     next_buf s \<le> next_buf s' \<Longrightarrow> frame_ok m s' f"
  by (auto simp: frame_ok_def split: option.splits sum.splits)

lemma pool_ok_frame: "pool_ok m s \<Longrightarrow> frames s g = Some f \<Longrightarrow> frame_ok m s f"
  by (simp add: pool_ok_def)

lemma removed_set: "distinct xs \<Longrightarrow> i < length xs \<Longrightarrow> set (take i xs @ drop (i + 1) xs) = set xs - {xs ! i}"
  by (induction xs arbitrary: i) (auto simp: nth_Cons split: nat.splits)

lemma removed_distinct: "distinct xs \<Longrightarrow> distinct (take i xs @ drop (i + 1) xs)"
proof (induction xs arbitrary: i)
  case (Cons x xs)
  then show ?case by (cases i) (auto dest: in_set_takeD in_set_dropD)
qed simp

lemma removed_subset: "set (take i xs @ drop (i + 1) xs) \<subseteq> set xs"
  by (auto dest: in_set_takeD in_set_dropD)

lemma newBuf_ok:
  assumes "pool_ok m s" "newBuf i s = (b, s')"
  shows "pool_ok m s'" "b < next_buf s'" "b \<notin> set (pooled s')" "contents s' b = []"
    "\<forall>g f. frames s' g = Some f \<longrightarrow> fr_buf f \<noteq> b" "frames s' = frames s"
proof -
  have "pool_ok m s' \<and> b < next_buf s' \<and> b \<notin> set (pooled s') \<and> contents s' b = [] \<and>
    (\<forall>g f. frames s' g = Some f \<longrightarrow> fr_buf f \<noteq> b) \<and> frames s' = frames s"
  proof (cases "i < length (pooled s)")
    case True
    with assms(2) have b: "b = pooled s ! i" and s': "s' = s\<lparr>pooled := take i (pooled s) @ drop (i + 1) (pooled s)\<rparr>"
      by (simp_all add: newBuf_def)
    have d: "distinct (pooled s)" using assms(1) by (simp add: pool_ok_def)
    note rest = removed_set [OF d True] removed_distinct [OF d, of i]
    have in_pool: "b \<in> set (pooled s)" using b True by simp
    have sub: "set (pooled s') = set (pooled s) - {b}" "distinct (pooled s')"
      using rest b s' by (simp_all del: set_append distinct_append)
    have old: "frame_ok m s' f \<and> fr_buf f \<noteq> b" if "frames s g = Some f" for g f
    proof -
      note ok = pool_ok_frame [OF assms(1) that]
      then have "fr_buf f \<notin> set (pooled s)" by (simp add: frame_ok_def)
      with sub in_pool show ?thesis using frame_ok_keep [OF ok, of s'] s' by auto
    qed
    have "\<forall>x \<in> set (pooled s'). x < next_buf s' \<and> contents s' x = []"
      using assms(1) sub s' by (auto simp: pool_ok_def)
    moreover have "contents s' b = []" "b < next_buf s'" using assms(1) in_pool s' by (auto simp: pool_ok_def)
    moreover have "frames s' = frames s" "encoded s' = encoded s" using s' by simp_all
    ultimately show ?thesis using assms(1) old sub by (auto simp: pool_ok_def)
  next
    case False
    with assms(2) have b: "b = next_buf s"
      and s': "s' = s\<lparr>contents := (contents s)(next_buf s := []), next_buf := next_buf s + 1\<rparr>"
      by (auto simp: newBuf_def)
    have old: "frame_ok m s' f \<and> fr_buf f \<noteq> b" if "frames s g = Some f" for g f
    proof -
      note ok = pool_ok_frame [OF assms(1) that]
      then have "fr_buf f < next_buf s" "fr_buf f \<notin> set (pooled s)" by (simp_all add: frame_ok_def)
      then show ?thesis using frame_ok_keep [OF ok, of s'] s' b by auto
    qed
    have "\<forall>x \<in> set (pooled s'). x < next_buf s' \<and> contents s' x = []" "b \<notin> set (pooled s')"
      using assms(1) s' b by (auto simp: pool_ok_def less_Suc_eq)
    moreover have "frames s' = frames s" "encoded s' = encoded s" "pooled s' = pooled s" "contents s' b = []" "b < next_buf s'"
      using s' b by simp_all
    ultimately show ?thesis using assms(1) old by (auto simp: pool_ok_def)
  qed
  then show "pool_ok m s'" "b < next_buf s'" "b \<notin> set (pooled s')" "contents s' b = []"
    "\<forall>g f. frames s' g = Some f \<longrightarrow> fr_buf f \<noteq> b" "frames s' = frames s" by blast+
qed

lemma buf_step_ok: "pool_ok m s \<Longrightarrow> pool_ok m (buf_step m ev s)"
proof (induction m ev s rule: buf_step.induct)
  case (1 m g i pk s)
  show ?case
  proof (cases "frames s g = None")
    case True
    obtain b s1 where n: "newBuf i s = (b, s1)" by fastforce
    note ok = newBuf_ok [OF 1 n]
    let ?s = "s1\<lparr>frames := (frames s1)(g \<mapsto> Frame b pk None)\<rparr>"
    have "frame_ok m ?s k" if "frames ?s h = Some k" for h k
    proof (cases "h = g")
      case True
      with that ok show ?thesis by (auto simp: frame_ok_def)
    next
      case False
      with that have "frames s1 h = Some k" by simp
      from frame_ok_keep [OF pool_ok_frame [OF ok(1) this], of ?s] pool_ok_frame [OF ok(1) this]
      show ?thesis by (simp add: frame_ok_def)
    qed
    moreover have "h = h'" if "frames ?s h = Some k" "frames ?s h' = Some k'" "fr_buf k = fr_buf k'" for h h' k k'
    proof -
      have fresh: "fr_buf q \<noteq> b" if "frames s1 x = Some q" for x q using ok(5) that by blast
      have inj: "x = y" if "frames s1 x = Some q" "frames s1 y = Some q'" "fr_buf q = fr_buf q'" for x y q q'
        using ok(1) that unfolding pool_ok_def by blast
      show ?thesis using that fresh [of h k] fresh [of h' k'] inj [of h k h' k'] by (auto split: if_splits)
    qed
    moreover have "distinct (pooled ?s)" "\<forall>x \<in> set (pooled ?s). x < next_buf ?s \<and> contents ?s x = []"
      "\<forall>(pk, r) \<in> set (encoded ?s). r = Encode m pk"
      using ok(1) by (simp_all add: pool_ok_def)
    ultimately have "pool_ok m ?s" unfolding pool_ok_def by blast
    with True n show ?thesis by simp
  qed (use 1 in simp)
next
  case (2 m g partial s)
  show ?case
  proof (cases "\<exists>b pk. frames s g = Some (Frame b pk None)")
    case True
    then obtain b pk where f: "frames s g = Some (Frame b pk None)" by blast
    obtain r c where e: "encode_into m pk partial (contents s b) = (r, c)" by fastforce
    have b: "contents s b = []" "b < next_buf s" "b \<notin> set (pooled s)"
      using 2 f by (force simp: pool_ok_def frame_ok_def)+
    have res: "case r of Inl e \<Rightarrow> Encode m pk = Inl e | Inr _ \<Rightarrow> Encode m pk = Inr c"
      using encode_into_empty [of m pk partial r c] e b(1) by simp
    have other: "fr_buf k \<noteq> b" if "frames s h = Some k" "h \<noteq> g" for h k
      using 2 f that by (force simp: pool_ok_def)
    let ?s = "s\<lparr>contents := (contents s)(b := c), frames := (frames s)(g \<mapsto> Frame b pk (Some r))\<rparr>"
    have "frame_ok m ?s k" if "frames ?s h = Some k" for h k
    proof (cases "h = g")
      case True
      with that b res show ?thesis by (auto simp: frame_ok_def split: sum.splits)
    next
      case False
      with that have "frames s h = Some k" by simp
      from frame_ok_keep [OF pool_ok_frame [OF 2 this], of ?s] pool_ok_frame [OF 2 this] other [OF this False]
      show ?thesis by (simp add: frame_ok_def)
    qed
    moreover have "h = h'" if "frames ?s h = Some k" "frames ?s h' = Some k'" "fr_buf k = fr_buf k'" for h h' k k'
    proof -
      have inj: "x = y" if "frames s x = Some q" "frames s y = Some q'" "fr_buf q = fr_buf q'" for x y q q'
        using 2 that unfolding pool_ok_def by blast
      consider "h = g" "h' = g" | "h = g" "h' \<noteq> g" | "h \<noteq> g" "h' = g" | "h \<noteq> g" "h' \<noteq> g" by blast
      then show ?thesis
      proof cases
        case 2
        with that have "fr_buf k = b" "frames s h' = Some k'" by auto
        with other 2 that(3) show ?thesis by metis
      next
        case 3
        with that have "fr_buf k' = b" "frames s h = Some k" by auto
        with other 3 that(3) show ?thesis by metis
      next
        case 4
        with that have "frames s h = Some k" "frames s h' = Some k'" by auto
        with inj that(3) show ?thesis by blast
      qed simp
    qed
    moreover have "\<forall>x \<in> set (pooled ?s). x < next_buf ?s \<and> contents ?s x = []"
      using 2 b by (auto simp: pool_ok_def)
    moreover have "distinct (pooled ?s)" "\<forall>(pk, r) \<in> set (encoded ?s). r = Encode m pk"
      using 2 by (simp_all add: pool_ok_def)
    ultimately have "pool_ok m ?s" unfolding pool_ok_def by blast
    with f e show ?thesis by simp
  next
    case False
    then have "buf_step m (EncodeInto g partial) s = s"
      by (auto split: option.splits frame.splits)
    with 2 show ?thesis by simp
  qed
next
  case (3 m g s)
  show ?case
  proof (cases "\<exists>b pk r. frames s g = Some (Frame b pk (Some r))")
    case True
    then obtain b pk r where f: "frames s g = Some (Frame b pk (Some r))" by blast
    then have ok: "frame_ok m s (Frame b pk (Some r))" using 3 by (auto simp: pool_ok_def)
    have other: "fr_buf k \<noteq> b" if "frames s h = Some k" "h \<noteq> g" for h k
      using 3 f that by (force simp: pool_ok_def)
    let ?out = "(pk, case r of Inl e \<Rightarrow> Inl e | Inr _ \<Rightarrow> Inr (contents s b))"
    let ?s = "Reset b (s\<lparr>encoded := encoded s @ [?out], frames := (frames s)(g := None)\<rparr>)"
    have out: "snd ?out = Encode m pk" using ok by (auto simp: frame_ok_def split: sum.splits)
    have "frame_ok m ?s k" if "frames ?s h = Some k" for h k
    proof -
      from that have "frames s h = Some k" "h \<noteq> g" by (auto simp: Reset_def split: if_splits)
      note k = pool_ok_frame [OF 3 this(1)] and ne = other [OF this]
      have "contents ?s (fr_buf k) = contents s (fr_buf k)" using ne by (simp add: Reset_def)
      moreover have "fr_buf k \<notin> set (pooled ?s)" using k ne by (simp add: Reset_def frame_ok_def)
      ultimately show ?thesis using frame_ok_keep [OF k, of ?s] by (simp add: Reset_def)
    qed
    moreover have "distinct (pooled ?s) \<and> (\<forall>x \<in> set (pooled ?s). x < next_buf ?s \<and> contents ?s x = [])"
      using 3 ok by (auto simp: pool_ok_def frame_ok_def Reset_def)
    moreover have "\<forall>(q, v) \<in> set (encoded ?s). v = Encode m q" using 3 out by (auto simp: pool_ok_def Reset_def)
    moreover have "h = h'" if "frames ?s h = Some k" "frames ?s h' = Some k'" "fr_buf k = fr_buf k'" for h h' k k'
    proof -
      from that have "frames s h = Some k" "frames s h' = Some k'" by (auto simp: Reset_def split: if_splits)
      with 3 that(3) show ?thesis unfolding pool_ok_def by blast
    qed
    ultimately have "pool_ok m ?s" unfolding pool_ok_def by blast
    with f show ?thesis by simp
  next
    case False
    then have "buf_step m (EncodeReturn g) s = s"
      by (auto split: option.splits frame.splits)
    with 3 show ?thesis by simp
  qed
next
  case (4 m i s)
  then have "distinct (pooled s)" by (simp add: pool_ok_def)
  note d = removed_distinct [OF this, of i] and sub = removed_subset [of i "pooled s"]
  let ?s = "s\<lparr>pooled := take i (pooled s) @ drop (i + 1) (pooled s)\<rparr>"
  have "frame_ok m ?s f" if "frames s g = Some f" for g f
  proof -
    note ok = pool_ok_frame [OF 4 that]
    then have "fr_buf f \<notin> set (pooled ?s)" using sub by (auto simp: frame_ok_def)
    with frame_ok_keep [OF ok, of ?s] show ?thesis by simp
  qed
  moreover have "\<forall>x \<in> set (pooled ?s). x < next_buf s \<and> contents s x = []"
    using sub 4 unfolding pool_ok_def by (simp del: set_append) blast
  ultimately have "pool_ok m ?s" using 4 d by (simp add: pool_ok_def del: set_append distinct_append)
  then show ?case by simp
qed

lemma buf_run_ok: "pool_ok m (buf_run m evs)"
proof -
  have "pool_ok m (fold (buf_step m) evs s)" if "pool_ok m s" for s
    using that by (induction evs arbitrary: s) (auto intro: buf_step_ok)
  moreover have "pool_ok m bufPool" by (simp add: pool_ok_def bufPool_def)
  ultimately show ?thesis by (simp add: buf_run_def)
qed

text \<open>C37: encoding with pooled buffers is a function of the packet. However any number of goroutines
  interleave, whichever buffers the pool hands out or drops, and whatever a failed encoder left in
  one: each call answers what encoding the packet alone into a fresh buffer answers, no two calls in
  progress share a buffer, and a buffer in the pool is empty and in nobody's hands.\<close>

theorem pooled_encode_pure:
  "(\<forall>(pk, r) \<in> set (encoded (buf_run m evs)). r = Encode m pk) \<and>
   (\<forall>g h f k. frames (buf_run m evs) g = Some f \<and> frames (buf_run m evs) h = Some k \<and> g \<noteq> h \<longrightarrow> fr_buf f \<noteq> fr_buf k) \<and>
   (\<forall>b \<in> set (pooled (buf_run m evs)). contents (buf_run m evs) b = [] \<and>
      (\<forall>g f. frames (buf_run m evs) g = Some f \<longrightarrow> fr_buf f \<noteq> b))"
  using buf_run_ok [of m evs] unfolding pool_ok_def frame_ok_def by blast

text \<open>Two calls that overlap, then one that reuses a buffer.\<close>

definition sample_bufs :: buf_state where
  "sample_bufs = buf_run sample_mochi
     [EncodeStart 1 0 (new_packet Publish), EncodeStart 2 0 (new_packet Pingreq),
      EncodeInto 2 [], EncodeInto 1 [], EncodeReturn 2, EncodeStart 3 0 (new_packet Puback),
      EncodeInto 3 [], EncodeReturn 1, EncodeReturn 3]"

lemma sample_bufs_encoded:
  "map fst (encoded sample_bufs) = [new_packet Pingreq, new_packet Publish, new_packet Puback]" "next_buf sample_bufs = 2"
  by (simp_all add: sample_bufs_def buf_run_def bufPool_def newBuf_def Reset_def case_prod_beta)

theorem pooled_encode_pure_witness:
  "map snd (encoded sample_bufs) = map (Encode sample_mochi) [new_packet Pingreq, new_packet Publish, new_packet Puback]"
proof -
  have "map snd (encoded sample_bufs) = map (Encode sample_mochi) (map fst (encoded sample_bufs))"
    using pooled_encode_pure [of sample_mochi] unfolding sample_bufs_def by (auto simp: case_prod_unfold)
  then show ?thesis by (simp only: sample_bufs_encoded)
qed

end
