(* ===== verification/DeepCopy.thy ===== *)
theory DeepCopy
  imports Operator
begin

text \<open>
  The copying of the custom resource (\<open>src/api/v1alpha1/zz_generated_deepcopy.go\<close>, written by hand
  in spite of its name, over the types of \<open>user_types.go\<close>). The client's cache hands out shared
  objects, so the reconciler's writes must not reach them: a copy has the same content and shares no
  memory with its original. Memory is explicit here: an object is a cell, a pointer the number of one.
\<close>

section \<open>Memory\<close>

text \<open>A slice is nil or a window of an array.\<close>

datatype slice = NilSlice | Slice (array: nat) (offset: nat) (slice_len: nat)

record TypeMeta =
  Kind :: string
  APIVersion :: string

record spec_struct =
  sp_Username :: string
  sp_PasswordSecretRef :: "nat option"

record status_struct =
  st_Conditions :: slice
  st_CredentialsSecretRef :: "nat option"
  st_ObservedSecretHash :: string
  st_ObservedUsername :: string

record 'm user_struct =
  u_TypeMeta :: TypeMeta
  u_ObjectMeta :: 'm
  u_Spec :: spec_struct
  u_Status :: status_struct

record 'k list_struct =
  l_TypeMeta :: TypeMeta
  l_ListMeta :: 'k
  l_Items :: slice

text \<open>The types of the metadata (\<open>'m\<close> and \<open>'k\<close>) and what they point to (\<open>'l\<close>) belong to the library.\<close>

datatype ('l, 'm, 'k) cell =
    SelectorCell (sel_name: string) (sel_key: string) (sel_optional: "nat option")
  | BoolCell bool
  | LocalRefCell string
  | ConditionsCell "Condition list"
  | UsersCell "'m user_struct list"
  | SpecCell spec_struct
  | StatusCell status_struct
  | UserCell "'m user_struct"
  | ListCell "'k list_struct"
  | LibraryCell 'l

record ('l, 'm, 'k) memory =
  cells :: "nat \<Rightarrow> ('l, 'm, 'k) cell option"
  next_ref :: nat

definition alloc :: "('l, 'm, 'k) cell \<Rightarrow> ('l, 'm, 'k) memory \<Rightarrow> nat \<times> ('l, 'm, 'k) memory" where
  "alloc c h = (next_ref h, h\<lparr>cells := (cells h)(next_ref h \<mapsto> c), next_ref := next_ref h + 1\<rparr>)"

definition set_cell :: "nat \<Rightarrow> ('l, 'm, 'k) cell \<Rightarrow> ('l, 'm, 'k) memory \<Rightarrow> ('l, 'm, 'k) memory" where
  "set_cell r c h = h\<lparr>cells := (cells h)(r \<mapsto> c)\<rparr>"

definition window :: "nat \<Rightarrow> nat \<Rightarrow> 'a list \<Rightarrow> 'a list option" where
  "window off n xs = (if off + n \<le> length xs then Some (take n (drop off xs)) else None)"

section \<open>The library\<close>

text \<open>What the copying uses of the Kubernetes packages: the copies of the two kinds of metadata and of
  a condition, and the zero value of the metadata.\<close>

record ('l, 'm, 'k) k8s =
  ObjectMeta_DeepCopyInto :: "'m \<Rightarrow> ('l, 'm, 'k) memory \<Rightarrow> 'm \<times> ('l, 'm, 'k) memory"
  ListMeta_DeepCopyInto :: "'k \<Rightarrow> ('l, 'm, 'k) memory \<Rightarrow> 'k \<times> ('l, 'm, 'k) memory"
  Condition_DeepCopyInto :: "Condition \<Rightarrow> Condition"
  zero_meta :: 'm

section \<open>Copying\<close>

text \<open>\<open>DeepCopyInto\<close> answers what \<open>out\<close> holds afterwards: its first assignment is \<open>*out = *in\<close>. A pointer
  that leads nowhere does not occur in Go; the definitions leave it as it is.\<close>

definition UserSpec_DeepCopyInto :: "spec_struct \<Rightarrow> ('l, 'm, 'k) memory \<Rightarrow> spec_struct \<times> ('l, 'm, 'k) memory" where
  "UserSpec_DeepCopyInto s h =
     (case sp_PasswordSecretRef s of
        None \<Rightarrow> (s, h)
      | Some r \<Rightarrow>
         (case cells h r of
            Some (SelectorCell n k opt) \<Rightarrow>
              (case alloc (SelectorCell n k opt) h of (ref, h1) \<Rightarrow>
                 (s\<lparr>sp_PasswordSecretRef := Some ref\<rparr>,
                  case opt of
                    None \<Rightarrow> h1
                  | Some o_ref \<Rightarrow>
                      (case cells h1 o_ref of
                         Some (BoolCell b) \<Rightarrow>
                           (case alloc (BoolCell b) h1 of (b_ref, h2) \<Rightarrow> set_cell ref (SelectorCell n k (Some b_ref)) h2)
                       | _ \<Rightarrow> h1)))
          | _ \<Rightarrow> (s, h)))"

definition copy_conditions :: "('l, 'm, 'k) k8s \<Rightarrow> slice \<Rightarrow> ('l, 'm, 'k) memory \<Rightarrow> slice \<times> ('l, 'm, 'k) memory" where
  "copy_conditions K sl h =
     (case sl of
        NilSlice \<Rightarrow> (sl, h)
      | Slice a off n \<Rightarrow>
         (case cells h a of
            Some (ConditionsCell cs) \<Rightarrow>
              (case alloc (ConditionsCell (map (Condition_DeepCopyInto K) (take n (drop off cs)))) h of
                 (ref, h1) \<Rightarrow> (Slice ref 0 n, h1))
          | _ \<Rightarrow> (sl, h)))"

definition copy_local_ref :: "nat option \<Rightarrow> ('l, 'm, 'k) memory \<Rightarrow> nat option \<times> ('l, 'm, 'k) memory" where
  "copy_local_ref p h =
     (case p of
        None \<Rightarrow> (p, h)
      | Some r \<Rightarrow>
         (case cells h r of
            Some (LocalRefCell n) \<Rightarrow> (case alloc (LocalRefCell n) h of (ref, h1) \<Rightarrow> (Some ref, h1))
          | _ \<Rightarrow> (p, h)))"

definition UserStatus_DeepCopyInto ::
    "('l, 'm, 'k) k8s \<Rightarrow> status_struct \<Rightarrow> ('l, 'm, 'k) memory \<Rightarrow> status_struct \<times> ('l, 'm, 'k) memory" where
  "UserStatus_DeepCopyInto K s h =
     (case copy_conditions K (st_Conditions s) h of (cs, h1) \<Rightarrow>
      (case copy_local_ref (st_CredentialsSecretRef s) h1 of (ref, h2) \<Rightarrow>
         (s\<lparr>st_Conditions := cs, st_CredentialsSecretRef := ref\<rparr>, h2)))"

definition User_DeepCopyInto ::
    "('l, 'm, 'k) k8s \<Rightarrow> 'm user_struct \<Rightarrow> ('l, 'm, 'k) memory \<Rightarrow> 'm user_struct \<times> ('l, 'm, 'k) memory" where
  "User_DeepCopyInto K u h =
     (case ObjectMeta_DeepCopyInto K (u_ObjectMeta u) h of (m, h1) \<Rightarrow>
      (case UserSpec_DeepCopyInto (u_Spec u) h1 of (sp, h2) \<Rightarrow>
      (case UserStatus_DeepCopyInto K (u_Status u) h2 of (st, h3) \<Rightarrow>
         (u\<lparr>u_ObjectMeta := m, u_Spec := sp, u_Status := st\<rparr>, h3))))"

text \<open>The loop over the items: the element is read from the original's array, its copy written into the
  new one.\<close>

definition zero_user :: "('l, 'm, 'k) k8s \<Rightarrow> 'm user_struct" where
  "zero_user K = \<lparr>u_TypeMeta = \<lparr>Kind = [], APIVersion = []\<rparr>, u_ObjectMeta = zero_meta K,
     u_Spec = \<lparr>sp_Username = [], sp_PasswordSecretRef = None\<rparr>,
     u_Status = \<lparr>st_Conditions = NilSlice, st_CredentialsSecretRef = None, st_ObservedSecretHash = [],
       st_ObservedUsername = []\<rparr>\<rparr>"

definition write_item :: "nat \<Rightarrow> nat \<Rightarrow> 'm user_struct \<Rightarrow> ('l, 'm, 'k) memory \<Rightarrow> ('l, 'm, 'k) memory" where
  "write_item dst i u h =
     (case cells h dst of Some (UsersCell us) \<Rightarrow> set_cell dst (UsersCell (us[i := u])) h | _ \<Rightarrow> h)"

fun copy_items :: "('l, 'm, 'k) k8s \<Rightarrow> nat \<Rightarrow> nat \<Rightarrow> 'm user_struct list \<Rightarrow> ('l, 'm, 'k) memory \<Rightarrow> ('l, 'm, 'k) memory" where
  "copy_items K dst i [] h = h"
| "copy_items K dst i (u # us) h =
     (case User_DeepCopyInto K u h of (u', h1) \<Rightarrow> copy_items K dst (Suc i) us (write_item dst i u' h1))"

definition copy_users :: "('l, 'm, 'k) k8s \<Rightarrow> slice \<Rightarrow> ('l, 'm, 'k) memory \<Rightarrow> slice \<times> ('l, 'm, 'k) memory" where
  "copy_users K sl h =
     (case sl of
        NilSlice \<Rightarrow> (sl, h)
      | Slice a off n \<Rightarrow>
         (case cells h a of
            Some (UsersCell us) \<Rightarrow>
              (case alloc (UsersCell (replicate n (zero_user K))) h of (ref, h1) \<Rightarrow>
                 (Slice ref 0 n, copy_items K ref 0 (take n (drop off us)) h1))
          | _ \<Rightarrow> (sl, h)))"

definition UserList_DeepCopyInto ::
    "('l, 'm, 'k) k8s \<Rightarrow> 'k list_struct \<Rightarrow> ('l, 'm, 'k) memory \<Rightarrow> 'k list_struct \<times> ('l, 'm, 'k) memory" where
  "UserList_DeepCopyInto K l h =
     (case ListMeta_DeepCopyInto K (l_ListMeta l) h of (m, h1) \<Rightarrow>
      (case copy_users K (l_Items l) h1 of (items, h2) \<Rightarrow>
         (l\<lparr>l_ListMeta := m, l_Items := items\<rparr>, h2)))"

text \<open>\<open>DeepCopy\<close> of a pointer: nil stays nil; otherwise a new object, which first holds what the original
  holds and then its copy.\<close>

definition new_copy ::
    "('s \<Rightarrow> ('l, 'm, 'k) cell) \<Rightarrow> ('s \<Rightarrow> ('l, 'm, 'k) memory \<Rightarrow> 's \<times> ('l, 'm, 'k) memory) \<Rightarrow> 's \<Rightarrow>
     ('l, 'm, 'k) memory \<Rightarrow> nat option \<times> ('l, 'm, 'k) memory" where
  "new_copy C into s h =
     (case alloc (C s) h of (out, h1) \<Rightarrow> (case into s h1 of (s', h2) \<Rightarrow> (Some out, set_cell out (C s') h2)))"

definition UserSpec_DeepCopy :: "nat option \<Rightarrow> ('l, 'm, 'k) memory \<Rightarrow> nat option \<times> ('l, 'm, 'k) memory" where
  "UserSpec_DeepCopy p h =
     (case p of None \<Rightarrow> (None, h)
      | Some r \<Rightarrow> (case cells h r of Some (SpecCell s) \<Rightarrow> new_copy SpecCell UserSpec_DeepCopyInto s h | _ \<Rightarrow> (p, h)))"

definition UserStatus_DeepCopy ::
    "('l, 'm, 'k) k8s \<Rightarrow> nat option \<Rightarrow> ('l, 'm, 'k) memory \<Rightarrow> nat option \<times> ('l, 'm, 'k) memory" where
  "UserStatus_DeepCopy K p h =
     (case p of None \<Rightarrow> (None, h)
      | Some r \<Rightarrow> (case cells h r of
            Some (StatusCell s) \<Rightarrow> new_copy StatusCell (UserStatus_DeepCopyInto K) s h | _ \<Rightarrow> (p, h)))"

definition User_DeepCopy ::
    "('l, 'm, 'k) k8s \<Rightarrow> nat option \<Rightarrow> ('l, 'm, 'k) memory \<Rightarrow> nat option \<times> ('l, 'm, 'k) memory" where
  "User_DeepCopy K p h =
     (case p of None \<Rightarrow> (None, h)
      | Some r \<Rightarrow> (case cells h r of
            Some (UserCell u) \<Rightarrow> new_copy UserCell (User_DeepCopyInto K) u h | _ \<Rightarrow> (p, h)))"

definition UserList_DeepCopy ::
    "('l, 'm, 'k) k8s \<Rightarrow> nat option \<Rightarrow> ('l, 'm, 'k) memory \<Rightarrow> nat option \<times> ('l, 'm, 'k) memory" where
  "UserList_DeepCopy K p h =
     (case p of None \<Rightarrow> (None, h)
      | Some r \<Rightarrow> (case cells h r of
            Some (ListCell l) \<Rightarrow> new_copy ListCell (UserList_DeepCopyInto K) l h | _ \<Rightarrow> (p, h)))"

text \<open>\<open>DeepCopyObject\<close> answers an interface value. A nil pointer in an interface is not the nil
  interface, hence the test.\<close>

datatype runtime_object = NilObject | UserObject "nat option" | UserListObject "nat option"

definition User_DeepCopyObject ::
    "('l, 'm, 'k) k8s \<Rightarrow> nat option \<Rightarrow> ('l, 'm, 'k) memory \<Rightarrow> runtime_object \<times> ('l, 'm, 'k) memory" where
  "User_DeepCopyObject K p h =
     (case User_DeepCopy K p h of (c, h1) \<Rightarrow> (if c \<noteq> None then UserObject c else NilObject, h1))"

definition UserList_DeepCopyObject ::
    "('l, 'm, 'k) k8s \<Rightarrow> nat option \<Rightarrow> ('l, 'm, 'k) memory \<Rightarrow> runtime_object \<times> ('l, 'm, 'k) memory" where
  "UserList_DeepCopyObject K p h =
     (case UserList_DeepCopy K p h of (c, h1) \<Rightarrow> (if c \<noteq> None then UserListObject c else NilObject, h1))"

section \<open>The contract of a copy\<close>

text \<open>Nothing that was allocated changes.\<close>

definition extends :: "('l, 'm, 'k) memory \<Rightarrow> ('l, 'm, 'k) memory \<Rightarrow> bool" where
  "extends h h' \<longleftrightarrow> next_ref h \<le> next_ref h' \<and> (\<forall>r < next_ref h. cells h' r = cells h r)"

text \<open>\<open>refs\<close>: the cells an object reaches; \<open>val\<close>: its content, undefined for a pointer that leads
  nowhere. The first law is the promise of a copy; the second says that \<open>refs\<close> is all that \<open>val\<close> reads.\<close>

locale deep_copy =
  fixes copy :: "'a \<Rightarrow> ('l, 'm, 'k) memory \<Rightarrow> 'a \<times> ('l, 'm, 'k) memory"
    and refs :: "'a \<Rightarrow> ('l, 'm, 'k) memory \<Rightarrow> nat set"
    and val :: "'a \<Rightarrow> ('l, 'm, 'k) memory \<Rightarrow> 'v option"
  assumes copies: "val a h = Some v \<Longrightarrow> refs a h \<subseteq> {..<next_ref h} \<Longrightarrow> copy a h = (b, h') \<Longrightarrow>
      extends h h' \<and> val b h' = Some v \<and> refs b h' \<subseteq> {next_ref h..<next_ref h'}"
    and reads: "val a h = Some v \<Longrightarrow> (\<forall>r \<in> refs a h. cells h' r = cells h r) \<Longrightarrow>
      val a h' = Some v \<and> refs a h' = refs a h"
begin

lemma kept: "val a h = Some v \<Longrightarrow> refs a h \<subseteq> {..<next_ref h} \<Longrightarrow> extends h h' \<Longrightarrow>
    val a h' = Some v \<and> refs a h' = refs a h"
  by (rule reads) (auto simp: extends_def)

lemma apart:
  assumes "val a h = Some v" "refs a h \<subseteq> {..<next_ref h}" "copy a h = (b, h')"
  shows "val a h' = Some v" "val b h' = Some v" "refs a h' \<inter> refs b h' = {}"
    "\<And>h2. \<forall>r. r \<notin> refs b h' \<longrightarrow> cells h2 r = cells h' r \<Longrightarrow> val a h2 = Some v"
    "\<And>h2. \<forall>r. r \<notin> refs a h' \<longrightarrow> cells h2 r = cells h' r \<Longrightarrow> val b h2 = Some v"
proof -
  note c = copies [OF assms]
  note k = kept [OF assms(1,2), of h']
  show a: "val a h' = Some v" and b: "val b h' = Some v" using c k by blast+
  show d: "refs a h' \<inter> refs b h' = {}" using c k assms(2) by fastforce
  show "val a h2 = Some v" if "\<forall>r. r \<notin> refs b h' \<longrightarrow> cells h2 r = cells h' r" for h2
    using reads [OF a, of h2] that d by blast
  show "val b h2 = Some v" if "\<forall>r. r \<notin> refs a h' \<longrightarrow> cells h2 r = cells h' r" for h2
    using reads [OF b, of h2] that d by blast
qed

end

lemma extends_refl [simp]: "extends h h"
  by (simp add: extends_def)

lemma extends_trans: "extends h h1 \<Longrightarrow> extends h1 h2 \<Longrightarrow> extends h h2"
  by (simp add: extends_def)

lemma extends_alloc: "alloc c h = (r, h1) \<Longrightarrow> extends h h1"
  by (auto simp: alloc_def extends_def)

lemma extends_set_cell: "extends h h1 \<Longrightarrow> next_ref h \<le> r \<Longrightarrow> extends h (set_cell r c h1)"
  by (auto simp: set_cell_def extends_def)

section \<open>Contents\<close>

definition spec_refs :: "spec_struct \<Rightarrow> ('l, 'm, 'k) memory \<Rightarrow> nat set" where
  "spec_refs s h = (case sp_PasswordSecretRef s of None \<Rightarrow> {}
     | Some r \<Rightarrow> insert r (case cells h r of Some (SelectorCell n k (Some b)) \<Rightarrow> {b} | _ \<Rightarrow> {}))"

definition spec_val :: "spec_struct \<Rightarrow> ('l, 'm, 'k) memory \<Rightarrow> (string \<times> (string \<times> string \<times> bool option) option) option" where
  "spec_val s h = (case sp_PasswordSecretRef s of None \<Rightarrow> Some (sp_Username s, None)
     | Some r \<Rightarrow> (case cells h r of
          Some (SelectorCell n k None) \<Rightarrow> Some (sp_Username s, Some (n, k, None))
        | Some (SelectorCell n k (Some b)) \<Rightarrow>
            (case cells h b of Some (BoolCell v) \<Rightarrow> Some (sp_Username s, Some (n, k, Some v)) | _ \<Rightarrow> None)
        | _ \<Rightarrow> None))"

definition conditions_refs :: "slice \<Rightarrow> ('l, 'm, 'k) memory \<Rightarrow> nat set" where
  "conditions_refs sl h = (case sl of NilSlice \<Rightarrow> {} | Slice a off n \<Rightarrow> {a})"

definition conditions_val :: "slice \<Rightarrow> ('l, 'm, 'k) memory \<Rightarrow> Condition list option option" where
  "conditions_val sl h = (case sl of NilSlice \<Rightarrow> Some None
     | Slice a off n \<Rightarrow> (case cells h a of
          Some (ConditionsCell cs) \<Rightarrow> map_option Some (window off n cs) | _ \<Rightarrow> None))"

definition local_ref_refs :: "nat option \<Rightarrow> ('l, 'm, 'k) memory \<Rightarrow> nat set" where
  "local_ref_refs p h = set_option p"

definition local_ref_val :: "nat option \<Rightarrow> ('l, 'm, 'k) memory \<Rightarrow> string option option" where
  "local_ref_val p h = (case p of None \<Rightarrow> Some None
     | Some r \<Rightarrow> (case cells h r of Some (LocalRefCell n) \<Rightarrow> Some (Some n) | _ \<Rightarrow> None))"

definition both :: "'a option \<Rightarrow> 'b option \<Rightarrow> ('a \<times> 'b) option" where
  "both x y = (case (x, y) of (Some a, Some b) \<Rightarrow> Some (a, b) | _ \<Rightarrow> None)"

lemma both_eq [simp]: "both x y = Some p \<longleftrightarrow> x = Some (fst p) \<and> y = Some (snd p)"
  by (cases p) (auto simp: both_def split: option.splits)

definition status_refs :: "status_struct \<Rightarrow> ('l, 'm, 'k) memory \<Rightarrow> nat set" where
  "status_refs s h = conditions_refs (st_Conditions s) h \<union> local_ref_refs (st_CredentialsSecretRef s) h"

definition status_val ::
    "status_struct \<Rightarrow> ('l, 'm, 'k) memory \<Rightarrow> ((string \<times> string) \<times> Condition list option \<times> string option) option" where
  "status_val s h = map_option (Pair (st_ObservedSecretHash s, st_ObservedUsername s))
     (both (conditions_val (st_Conditions s) h) (local_ref_val (st_CredentialsSecretRef s) h))"

lemma alloc_at: "alloc c h = (r, h1) \<longleftrightarrow> r = next_ref h \<and> h1 = h\<lparr>cells := (cells h)(next_ref h \<mapsto> c), next_ref := next_ref h + 1\<rparr>"
  by (auto simp: alloc_def)

interpretation spec: deep_copy UserSpec_DeepCopyInto spec_refs spec_val
proof
  fix a b v and h h' :: "('a, 'b, 'c) memory"
  assume "spec_val a h = Some v" "spec_refs a h \<subseteq> {..<next_ref h}" "UserSpec_DeepCopyInto a h = (b, h')"
  then show "extends h h' \<and> spec_val b h' = Some v \<and> spec_refs b h' \<subseteq> {next_ref h..<next_ref h'}"
    by (auto simp: spec_val_def spec_refs_def UserSpec_DeepCopyInto_def alloc_def set_cell_def extends_def
        split: option.splits cell.splits)
next
  fix a v and h h' :: "('a, 'b, 'c) memory"
  assume "spec_val a h = Some v" "\<forall>r \<in> spec_refs a h. cells h' r = cells h r"
  then show "spec_val a h' = Some v \<and> spec_refs a h' = spec_refs a h"
    by (auto simp: spec_val_def spec_refs_def split: option.splits cell.splits)
qed

interpretation local_ref: deep_copy copy_local_ref local_ref_refs local_ref_val
  by unfold_locales
    (auto simp: copy_local_ref_def local_ref_refs_def local_ref_val_def alloc_def extends_def split: option.splits cell.splits)

lemma conditions_deep:
  assumes "\<And>c. Condition_DeepCopyInto K c = c"
  shows "deep_copy (copy_conditions K) conditions_refs conditions_val"
proof -
  have "map (Condition_DeepCopyInto K) cs = cs" for cs by (simp add: assms map_idI)
  then show ?thesis
    by unfold_locales (auto simp: copy_conditions_def conditions_refs_def conditions_val_def window_def alloc_def extends_def
        split: option.splits cell.splits slice.splits if_splits)
qed

section \<open>Copies of composed objects\<close>

text \<open>One part after the other: the copy of the second part leaves that of the first alone.\<close>

lemma deep_copy_pair:
  fixes c1 :: "'a \<Rightarrow> ('l, 'm, 'k) memory \<Rightarrow> 'a \<times> ('l, 'm, 'k) memory"
  assumes one: "deep_copy c1 r1 v1" and two: "deep_copy c2 r2 v2"
    and copy: "\<And>x h. copy x h = (case c1 (f x) h of (a, h1) \<Rightarrow> (case c2 (g x) h1 of (b, h2) \<Rightarrow> (put x a b, h2)))"
    and refs: "\<And>x h. refs x h = r1 (f x) h \<union> r2 (g x) h"
    and val: "\<And>x h. val x h = map_option (comb x) (both (v1 (f x) h) (v2 (g x) h))"
    and put: "\<And>x a b. f (put x a b) = a" "\<And>x a b. g (put x a b) = b" "\<And>x a b. comb (put x a b) = comb x"
  shows "deep_copy copy refs val"
proof
  fix x y v and h h' :: "('l, 'm, 'k) memory"
  assume v: "val x h = Some v" and r: "refs x h \<subseteq> {..<next_ref h}" and c: "copy x h = (y, h')"
  obtain a h1 where a: "c1 (f x) h = (a, h1)" by fastforce
  obtain b h2 where b: "c2 (g x) h1 = (b, h2)" by fastforce
  from c a b have y: "y = put x a b" and h': "h' = h2" by (simp_all add: copy)
  obtain va vb where va: "v1 (f x) h = Some va" and vb: "v2 (g x) h = Some vb" and v_eq: "v = comb x (va, vb)"
    using v by (auto simp: val)
  note A = deep_copy.copies [OF one va _ a]
  have ext1: "extends h h1" "v1 a h1 = Some va" "r1 a h1 \<subseteq> {next_ref h..<next_ref h1}" using A r by (auto simp: refs)
  have gx: "v2 (g x) h1 = Some vb" "r2 (g x) h1 \<subseteq> {..<next_ref h1}"
    using deep_copy.kept [OF two vb _ ext1(1)] r ext1(1) by (auto simp: refs extends_def)
  note B = deep_copy.copies [OF two gx b]
  have "v1 a h2 = Some va \<and> r1 a h2 = r1 a h1"
    using deep_copy.kept [OF one ext1(2) _, of h2] ext1(3) B by fastforce
  then show "extends h h' \<and> val y h' = Some v \<and> refs y h' \<subseteq> {next_ref h..<next_ref h'}"
    using B ext1 extends_trans [of h h1 h2] by (fastforce simp: y h' val refs put v_eq extends_def)
next
  fix x v and h h' :: "('l, 'm, 'k) memory"
  assume v: "val x h = Some v" and same: "\<forall>r \<in> refs x h. cells h' r = cells h r"
  obtain va vb where va: "v1 (f x) h = Some va" and vb: "v2 (g x) h = Some vb" and v_eq: "v = comb x (va, vb)"
    using v by (auto simp: val)
  have "v1 (f x) h' = Some va \<and> r1 (f x) h' = r1 (f x) h" using deep_copy.reads [OF one va, of h'] same by (simp add: refs)
  moreover have "v2 (g x) h' = Some vb \<and> r2 (g x) h' = r2 (g x) h" using deep_copy.reads [OF two vb, of h'] same by (simp add: refs)
  ultimately show "val x h' = Some v \<and> refs x h' = refs x h" by (simp add: val refs v_eq)
qed

lemma status_deep:
  assumes "\<And>c. Condition_DeepCopyInto K c = c"
  shows "deep_copy (UserStatus_DeepCopyInto K) status_refs status_val"
  by (rule deep_copy_pair [OF conditions_deep [OF assms] local_ref.deep_copy_axioms,
        where f = st_Conditions and g = st_CredentialsSecretRef
          and put = "\<lambda>s a b. s\<lparr>st_Conditions := a, st_CredentialsSecretRef := b\<rparr>"
          and comb = "\<lambda>s. Pair (st_ObservedSecretHash s, st_ObservedUsername s)"])
    (simp_all add: UserStatus_DeepCopyInto_def status_refs_def status_val_def split: prod.splits)

definition user_refs :: "('m \<Rightarrow> ('l, 'm, 'k) memory \<Rightarrow> nat set) \<Rightarrow> 'm user_struct \<Rightarrow> ('l, 'm, 'k) memory \<Rightarrow> nat set" where
  "user_refs mr u h = mr (u_ObjectMeta u) h \<union> (spec_refs (u_Spec u) h \<union> status_refs (u_Status u) h)"

definition user_val where
  "user_val mv u h = map_option (Pair (u_TypeMeta u))
     (both (mv (u_ObjectMeta u) h) (both (spec_val (u_Spec u) h) (status_val (u_Status u) h)))"

lemma spec_status_deep:
  fixes K :: "('l, 'm, 'k) k8s"
  assumes "\<And>c. Condition_DeepCopyInto K c = c"
  shows "deep_copy (\<lambda>(s, t) h. case UserSpec_DeepCopyInto s h of (s', h1) \<Rightarrow>
      (case UserStatus_DeepCopyInto K t h1 of (t', h2) \<Rightarrow> ((s', t'), h2)))
    (\<lambda>(s, t) h. spec_refs s h \<union> status_refs t h) (\<lambda>(s, t) h. both (spec_val s h) (status_val t h))"
  by (rule deep_copy_pair [OF spec.deep_copy_axioms status_deep [OF assms],
        where f = fst and g = snd and put = "\<lambda>_ a b. (a, b)" and comb = "\<lambda>_ p. p"])
    (auto simp: option.map_ident split: prod.splits)

lemma user_deep:
  assumes "deep_copy (ObjectMeta_DeepCopyInto K) mr mv" "\<And>c. Condition_DeepCopyInto K c = c"
  shows "deep_copy (User_DeepCopyInto K) (user_refs mr) (user_val mv)"
  by (rule deep_copy_pair [OF assms(1) spec_status_deep [OF assms(2)],
        where f = u_ObjectMeta and g = "\<lambda>u. (u_Spec u, u_Status u)"
          and put = "\<lambda>u m (s, t). u\<lparr>u_ObjectMeta := m, u_Spec := s, u_Status := t\<rparr>"
          and comb = "\<lambda>u. Pair (u_TypeMeta u)"])
    (auto simp: User_DeepCopyInto_def user_refs_def user_val_def fun_eq_iff split: prod.splits)

section \<open>Copies of lists\<close>

definition items_refs where
  "items_refs ur sl h = (case sl of NilSlice \<Rightarrow> {}
     | Slice a off n \<Rightarrow> insert a (case cells h a of
          Some (UsersCell us) \<Rightarrow> (\<Union>u \<in> set (take n (drop off us)). ur u h) | _ \<Rightarrow> {}))"

definition items_val where
  "items_val uv sl h = (case sl of NilSlice \<Rightarrow> Some None
     | Slice a off n \<Rightarrow> (case cells h a of
          Some (UsersCell us) \<Rightarrow> map_option Some (Option.bind (window off n us) (\<lambda>ws. those (map (\<lambda>u. uv u h) ws)))
        | _ \<Rightarrow> None))"

lemma those_iff: "those xs = Some ys \<longleftrightarrow> xs = map Some ys"
  by (induction xs arbitrary: ys) (auto split: option.splits)

lemma write_item_cells:
  "cells h dst = Some (UsersCell xs) \<Longrightarrow> write_item dst i u h = h\<lparr>cells := (cells h)(dst \<mapsto> UsersCell (xs[i := u]))\<rparr>"
  by (simp add: write_item_def set_cell_def)

text \<open>The loop: the originals lie below the new array, every copy above it.\<close>

lemma copy_items_step:
  fixes i :: nat
  assumes user: "deep_copy (User_DeepCopyInto K) ur uv"
    and u: "uv u h = Some v" "ur u h \<subseteq> {..<dst}"
    and dst: "cells h dst = Some (UsersCell xs)" "dst < next_ref h"
    and c: "User_DeepCopyInto K u h = (u', h1)"
  defines "h2 \<equiv> write_item dst i u' h1"
  shows "cells h2 dst = Some (UsersCell (xs[i := u']))" "next_ref h \<le> next_ref h2"
    "\<forall>r < next_ref h. r \<noteq> dst \<longrightarrow> cells h2 r = cells h r"
    "uv u' h2 = Some v" "ur u' h2 \<subseteq> {next_ref h..<next_ref h2}"
proof -
  note C = deep_copy.copies [OF user u(1) _ c]
  have C: "extends h h1" "uv u' h1 = Some v" "ur u' h1 \<subseteq> {next_ref h..<next_ref h1}" using C u(2) dst(2) by force+
  then have "cells h1 dst = Some (UsersCell xs)" using dst by (simp add: extends_def)
  note w = write_item_cells [OF this, of i u', folded h2_def]
  then show "cells h2 dst = Some (UsersCell (xs[i := u']))" "next_ref h \<le> next_ref h2"
    "\<forall>r < next_ref h. r \<noteq> dst \<longrightarrow> cells h2 r = cells h r"
    using C(1) by (auto simp: extends_def)
  have "\<forall>r \<in> ur u' h1. cells h2 r = cells h1 r" using C(3) dst(2) w by auto
  from deep_copy.reads [OF user C(2) this] C(3) w
  show "uv u' h2 = Some v" "ur u' h2 \<subseteq> {next_ref h..<next_ref h2}" by auto
qed

lemma copy_items_spec:
  assumes user: "deep_copy (User_DeepCopyInto K) ur uv"
    and "list_all2 (\<lambda>u v. uv u h = Some v \<and> ur u h \<subseteq> {..<dst}) us vs"
    and "cells h dst = Some (UsersCell xs)" "dst < next_ref h" "length xs = i + length us"
  shows "\<exists>us'. cells (copy_items K dst i us h) dst = Some (UsersCell (take i xs @ us')) \<and>
    next_ref h \<le> next_ref (copy_items K dst i us h) \<and>
    (\<forall>r < next_ref h. r \<noteq> dst \<longrightarrow> cells (copy_items K dst i us h) r = cells h r) \<and>
    list_all2 (\<lambda>u v. uv u (copy_items K dst i us h) = Some v \<and>
      ur u (copy_items K dst i us h) \<subseteq> {dst<..<next_ref (copy_items K dst i us h)}) us' vs"
  using assms(2-)
proof (induction us arbitrary: i vs xs h)
  case Nil
  then show ?case by (intro exI [of _ "[]"]) simp
next
  case (Cons u us)
  then obtain v vs' where vs: "vs = v # vs'" "uv u h = Some v" "ur u h \<subseteq> {..<dst}"
    "list_all2 (\<lambda>u v. uv u h = Some v \<and> ur u h \<subseteq> {..<dst}) us vs'" by (auto simp: list_all2_Cons1)
  obtain u' h1 where c: "User_DeepCopyInto K u h = (u', h1)" by fastforce
  define h2 where "h2 = write_item dst i u' h1"
  note st = copy_items_step [OF user vs(2,3) Cons.prems(2,3) c, of i, folded h2_def]
  have run: "copy_items K dst i (u # us) h = copy_items K dst (Suc i) us h2" using c by (simp add: h2_def)
  have "uv x h2 = Some y \<and> ur x h2 \<subseteq> {..<dst}" if "uv x h = Some y \<and> ur x h \<subseteq> {..<dst}" for x y
  proof -
    from that have "\<forall>r \<in> ur x h. cells h2 r = cells h r" using st(3) Cons.prems(3) by fastforce
    with deep_copy.reads [OF user, of x h y h2] that show ?thesis by auto
  qed
  with vs(4) have "list_all2 (\<lambda>u v. uv u h2 = Some v \<and> ur u h2 \<subseteq> {..<dst}) us vs'" by (rule list_all2_mono)
  from Cons.IH [OF this st(1)] Cons.prems(3,4) st(2) obtain us' where
    ih: "cells (copy_items K dst (Suc i) us h2) dst = Some (UsersCell (take (Suc i) (xs[i := u']) @ us'))"
      "next_ref h2 \<le> next_ref (copy_items K dst (Suc i) us h2)"
      "\<forall>r < next_ref h2. r \<noteq> dst \<longrightarrow> cells (copy_items K dst (Suc i) us h2) r = cells h2 r"
      "list_all2 (\<lambda>u v. uv u (copy_items K dst (Suc i) us h2) = Some v \<and>
         ur u (copy_items K dst (Suc i) us h2) \<subseteq> {dst<..<next_ref (copy_items K dst (Suc i) us h2)}) us' vs'"
    by auto
  have "take (Suc i) (xs[i := u']) = take i xs @ [u']" using Cons.prems(4) by (simp add: take_Suc_conv_app_nth)
  moreover have "\<forall>r \<in> ur u' h2. cells (copy_items K dst (Suc i) us h2) r = cells h2 r"
    using st(5) ih(3) Cons.prems(3) by fastforce
  from deep_copy.reads [OF user st(4) this] have "uv u' (copy_items K dst (Suc i) us h2) = Some v \<and>
      ur u' (copy_items K dst (Suc i) us h2) \<subseteq> {dst<..<next_ref (copy_items K dst (Suc i) us h2)}"
    using st(2,5) ih(2) Cons.prems(3) by fastforce
  ultimately show ?case
    unfolding run vs(1) using ih st(2,3) by (intro exI [of _ "u' # us'"]) auto
qed

lemma items_deep:
  fixes K :: "('l, 'm, 'k) k8s"
  assumes user: "deep_copy (User_DeepCopyInto K) ur uv"
  shows "deep_copy (copy_users K) (items_refs ur) (items_val uv)"
proof
  fix sl y v and h h' :: "('l, 'm, 'k) memory"
  assume v: "items_val uv sl h = Some v" and r: "items_refs ur sl h \<subseteq> {..<next_ref h}" and c: "copy_users K sl h = (y, h')"
  show "extends h h' \<and> items_val uv y h' = Some v \<and> items_refs ur y h' \<subseteq> {next_ref h..<next_ref h'}"
  proof (cases sl)
    case NilSlice
    with v c show ?thesis by (auto simp: copy_users_def items_val_def items_refs_def)
  next
    case (Slice a off n)
    obtain us vs where us: "cells h a = Some (UsersCell us)" "off + n \<le> length us" "v = Some vs"
      and vals: "map (\<lambda>u. uv u h) (take n (drop off us)) = map Some vs"
      using v Slice by (auto simp: items_val_def window_def those_iff split: option.splits cell.splits if_splits)
    define src where "src = take n (drop off us)"
    have len: "length src = n" using us(2) by (simp add: src_def)
    define h1 where "h1 = snd (alloc (UsersCell (replicate n (zero_user K))) h)"
    have y: "y = Slice (next_ref h) 0 n" and h': "h' = copy_items K (next_ref h) 0 src h1"
      using c Slice us(1) by (auto simp: copy_users_def alloc_def h1_def src_def)
    have h1: "next_ref h1 = Suc (next_ref h)" "cells h1 (next_ref h) = Some (UsersCell (replicate n (zero_user K)))"
      "extends h h1" by (auto simp: h1_def alloc_def extends_def)
    have "uv u h1 = Some w \<and> ur u h1 \<subseteq> {..<next_ref h}" if "uv u h = Some w" "u \<in> set src" for u w
    proof -
      from that(2) have ref: "ur u h \<subseteq> {..<next_ref h}" using r Slice us(1) by (fastforce simp: items_refs_def src_def)
      from deep_copy.kept [OF user that(1) this h1(3)] ref show ?thesis by simp
    qed
    moreover have "list_all2 (\<lambda>u w. uv u h = Some w) src vs"
      using vals by (fastforce simp: list_all2_conv_all_nth src_def map_equality_iff)
    ultimately have "list_all2 (\<lambda>u w. uv u h1 = Some w \<and> ur u h1 \<subseteq> {..<next_ref h}) src vs"
      by (fastforce simp: list_all2_conv_all_nth)
    from copy_items_spec [OF user this h1(2), of 0] h1(1) len obtain us' where
      res: "cells h' (next_ref h) = Some (UsersCell us')" "next_ref h1 \<le> next_ref h'"
        "\<forall>r < next_ref h1. r \<noteq> next_ref h \<longrightarrow> cells h' r = cells h1 r"
        "list_all2 (\<lambda>u w. uv u h' = Some w \<and> ur u h' \<subseteq> {next_ref h<..<next_ref h'}) us' vs"
      by (auto simp: h')
    have "length vs = n" using arg_cong [OF vals, of length] us(2) by simp
    then have n: "length us' = n" using list_all2_lengthD [OF res(4)] by simp
    have "map (\<lambda>u. uv u h') us' = map Some vs"
      using res(4) by (auto simp: list_all2_conv_all_nth intro: nth_equalityI)
    then have "items_val uv y h' = Some v"
      using res(1) n by (simp add: items_val_def y us(3) window_def those_iff)
    moreover have sub: "ur u h' \<subseteq> {next_ref h..<next_ref h'}" if "u \<in> set us'" for u
    proof -
      obtain i where "i < length us'" "u = us' ! i" using \<open>u \<in> set us'\<close> by (auto simp: in_set_conv_nth)
      then have "ur u h' \<subseteq> {next_ref h<..<next_ref h'}" using list_all2_nthD [OF res(4), of i] by simp
      then show ?thesis by (rule subset_trans) auto
    qed
    have "items_refs ur y h' = insert (next_ref h) (\<Union>u \<in> set us'. ur u h')"
      using res(1) n by (simp add: items_refs_def y)
    then have "items_refs ur y h' \<subseteq> {next_ref h..<next_ref h'}"
      using res(2) h1(1) by (simp add: UN_subset_iff sub)
    moreover have "extends h h'" using res(2,3) h1(1,3) by (auto simp: extends_def)
    ultimately show ?thesis by blast
  qed
next
  fix sl v and h h' :: "('l, 'm, 'k) memory"
  assume v: "items_val uv sl h = Some v" and same: "\<forall>r \<in> items_refs ur sl h. cells h' r = cells h r"
  show "items_val uv sl h' = Some v \<and> items_refs ur sl h' = items_refs ur sl h"
  proof (cases sl)
    case NilSlice
    with v show ?thesis by (simp add: items_val_def items_refs_def)
  next
    case (Slice a off n)
    obtain us vs where us: "cells h a = Some (UsersCell us)" "off + n \<le> length us" "v = Some vs"
      and vals: "map (\<lambda>u. uv u h) (take n (drop off us)) = map Some vs"
      using v Slice by (auto simp: items_val_def window_def those_iff split: option.splits cell.splits if_splits)
    have a: "cells h' a = Some (UsersCell us)" using same Slice us(1) by (auto simp: items_refs_def)
    have "uv u h' = uv u h \<and> ur u h' = ur u h" if "u \<in> set (take n (drop off us))" for u
    proof -
      have "uv u h \<in> set (map Some vs)" using that by (metis vals image_eqI set_map)
      then obtain w where w: "uv u h = Some w" by auto
      have "\<forall>r \<in> ur u h. cells h' r = cells h r" using same Slice us(1) that by (auto simp: items_refs_def)
      from deep_copy.reads [OF user w this] w show ?thesis by simp
    qed
    with vals have "map (\<lambda>u. uv u h') (take n (drop off us)) = map Some vs"
      "(\<Union>u \<in> set (take n (drop off us)). ur u h') = (\<Union>u \<in> set (take n (drop off us)). ur u h)"
      by (auto simp: cong: map_cong)
    with us a show ?thesis by (simp add: items_val_def items_refs_def Slice window_def those_iff)
  qed
qed

definition list_refs where
  "list_refs lr mr l h = lr (l_ListMeta l) h \<union> items_refs (user_refs mr) (l_Items l) h"

definition list_val where
  "list_val lv mv l h = map_option (Pair (l_TypeMeta l)) (both (lv (l_ListMeta l) h) (items_val (user_val mv) (l_Items l) h))"

lemma list_deep:
  assumes "deep_copy (ObjectMeta_DeepCopyInto K) mr mv" "deep_copy (ListMeta_DeepCopyInto K) lr lv"
    "\<And>c. Condition_DeepCopyInto K c = c"
  shows "deep_copy (UserList_DeepCopyInto K) (list_refs lr mr) (list_val lv mv)"
  by (rule deep_copy_pair [OF assms(2) items_deep [OF user_deep [OF assms(1,3)]],
        where f = l_ListMeta and g = l_Items and put = "\<lambda>l a b. l\<lparr>l_ListMeta := a, l_Items := b\<rparr>"
          and comb = "\<lambda>l. Pair (l_TypeMeta l)"])
    (auto simp: UserList_DeepCopyInto_def list_refs_def list_val_def fun_eq_iff split: prod.splits)

section \<open>Copies behind a pointer\<close>

definition ptr_refs where
  "ptr_refs D r p h = (case p of None \<Rightarrow> {}
     | Some q \<Rightarrow> insert q (case Option.bind (cells h q) D of Some s \<Rightarrow> r s h | None \<Rightarrow> {}))"

definition ptr_val where
  "ptr_val D v p h = (case p of None \<Rightarrow> Some None
     | Some q \<Rightarrow> (case Option.bind (cells h q) D of Some s \<Rightarrow> map_option Some (v s h) | None \<Rightarrow> None))"

lemma pointer_deep:
  fixes into :: "'s \<Rightarrow> ('l, 'm, 'k) memory \<Rightarrow> 's \<times> ('l, 'm, 'k) memory"
  assumes deep: "deep_copy into r v" and D: "\<And>s. D (C s) = Some s"
    and copy: "\<And>p h. copy p h = (case p of None \<Rightarrow> (None, h)
      | Some q \<Rightarrow> (case Option.bind (cells h q) D of Some s \<Rightarrow> new_copy C into s h | None \<Rightarrow> (p, h)))"
  shows "deep_copy copy (ptr_refs D r) (ptr_val D v)"
proof
  fix p p' x and h h' :: "('l, 'm, 'k) memory"
  assume x: "ptr_val D v p h = Some x" and sub: "ptr_refs D r p h \<subseteq> {..<next_ref h}" and c: "copy p h = (p', h')"
  show "extends h h' \<and> ptr_val D v p' h' = Some x \<and> ptr_refs D r p' h' \<subseteq> {next_ref h..<next_ref h'}"
  proof (cases p)
    case None
    with x c show ?thesis by (auto simp: copy ptr_val_def ptr_refs_def)
  next
    case (Some q)
    then obtain s w where s: "Option.bind (cells h q) D = Some s" "v s h = Some w" "x = Some w"
      using x by (auto simp: ptr_val_def split: option.splits)
    have rs: "r s h \<subseteq> {..<next_ref h}" using sub Some s(1) by (simp add: ptr_refs_def)
    obtain out h1 where a: "alloc (C s) h = (out, h1)" by fastforce
    obtain s' h2 where i: "into s h1 = (s', h2)" by fastforce
    from c Some s(1) a i have p': "p' = Some out" and h': "h' = set_cell out (C s') h2" by (simp_all add: copy new_copy_def)
    note e1 = extends_alloc [OF a]
    have out: "out = next_ref h" "next_ref h1 = Suc (next_ref h)" using a by (auto simp: alloc_def)
    have "v s h1 = Some w" "r s h1 \<subseteq> {..<next_ref h1}" using deep_copy.kept [OF deep s(2) rs e1] rs out(2) by auto
    note C = deep_copy.copies [OF deep this i]
    have "\<forall>k \<in> r s' h2. cells h' k = cells h2 k" using C out by (auto simp: h' set_cell_def)
    with C deep_copy.reads [OF deep, of s' h2 w h'] have val: "v s' h' = Some w" "r s' h' = r s' h2" by auto
    have cell: "cells h' out = Some (C s')" "next_ref h' = next_ref h2" by (simp_all add: h' set_cell_def)
    have "extends h h'" unfolding h' using extends_set_cell [of h h2 out] extends_trans [OF e1, of h2] C out(1) by blast
    moreover have "ptr_val D v p' h' = Some x" using val cell by (simp add: p' ptr_val_def D s(3))
    moreover have "ptr_refs D r p' h' \<subseteq> {next_ref h..<next_ref h'}"
      using val(2) cell C out by (auto simp: p' ptr_refs_def D extends_def)
    ultimately show ?thesis by blast
  qed
next
  fix p x and h h' :: "('l, 'm, 'k) memory"
  assume x: "ptr_val D v p h = Some x" and same: "\<forall>k \<in> ptr_refs D r p h. cells h' k = cells h k"
  show "ptr_val D v p h' = Some x \<and> ptr_refs D r p h' = ptr_refs D r p h"
  proof (cases p)
    case None
    with x show ?thesis by (simp add: ptr_val_def ptr_refs_def)
  next
    case (Some q)
    then obtain s w where s: "Option.bind (cells h q) D = Some s" "v s h = Some w" "x = Some w"
      using x by (auto simp: ptr_val_def split: option.splits)
    have q: "cells h' q = cells h q" using same Some by (simp add: ptr_refs_def)
    have "\<forall>k \<in> r s h. cells h' k = cells h k" using same Some s(1) by (simp add: ptr_refs_def)
    from deep_copy.reads [OF deep s(2) this] q s Some show ?thesis by (simp add: ptr_val_def ptr_refs_def)
  qed
qed

definition spec_of :: "('l, 'm, 'k) cell \<Rightarrow> spec_struct option" where
  "spec_of c = (case c of SpecCell s \<Rightarrow> Some s | _ \<Rightarrow> None)"

definition status_of :: "('l, 'm, 'k) cell \<Rightarrow> status_struct option" where
  "status_of c = (case c of StatusCell s \<Rightarrow> Some s | _ \<Rightarrow> None)"

definition user_of :: "('l, 'm, 'k) cell \<Rightarrow> 'm user_struct option" where
  "user_of c = (case c of UserCell u \<Rightarrow> Some u | _ \<Rightarrow> None)"

definition list_of :: "('l, 'm, 'k) cell \<Rightarrow> 'k list_struct option" where
  "list_of c = (case c of ListCell l \<Rightarrow> Some l | _ \<Rightarrow> None)"

interpretation spec_ptr: deep_copy UserSpec_DeepCopy "ptr_refs spec_of spec_refs" "ptr_val spec_of spec_val"
  by (rule pointer_deep [OF spec.deep_copy_axioms, where C = SpecCell])
    (auto simp: spec_of_def UserSpec_DeepCopy_def split: option.splits cell.splits)

lemma status_pointer_deep:
  "(\<And>c. Condition_DeepCopyInto K c = c) \<Longrightarrow>
     deep_copy (UserStatus_DeepCopy K) (ptr_refs status_of status_refs) (ptr_val status_of status_val)"
  by (rule pointer_deep [OF status_deep, where C = StatusCell])
    (auto simp: status_of_def UserStatus_DeepCopy_def split: option.splits cell.splits)

lemma user_pointer_deep:
  "deep_copy (ObjectMeta_DeepCopyInto K) mr mv \<Longrightarrow> (\<And>c. Condition_DeepCopyInto K c = c) \<Longrightarrow>
     deep_copy (User_DeepCopy K) (ptr_refs user_of (user_refs mr)) (ptr_val user_of (user_val mv))"
  by (rule pointer_deep [OF user_deep, where C = UserCell])
    (auto simp: user_of_def User_DeepCopy_def split: option.splits cell.splits)

lemma list_pointer_deep:
  "deep_copy (ObjectMeta_DeepCopyInto K) mr mv \<Longrightarrow> deep_copy (ListMeta_DeepCopyInto K) lr lv \<Longrightarrow>
     (\<And>c. Condition_DeepCopyInto K c = c) \<Longrightarrow>
     deep_copy (UserList_DeepCopy K) (ptr_refs list_of (list_refs lr mr)) (ptr_val list_of (list_val lv mv))"
  by (rule pointer_deep [OF list_deep, where C = ListCell])
    (auto simp: list_of_def UserList_DeepCopy_def split: option.splits cell.splits)

text \<open>Two objects with one content: whatever is written to the cells of one, the other keeps it.\<close>

definition separate where
  "separate refs val p q h v \<longleftrightarrow> val p h = Some v \<and> val q h = Some v \<and> refs p h \<inter> refs q h = {} \<and>
     (\<forall>h2. (\<forall>r. r \<notin> refs q h \<longrightarrow> cells h2 r = cells h r) \<longrightarrow> val p h2 = Some v) \<and>
     (\<forall>h2. (\<forall>r. r \<notin> refs p h \<longrightarrow> cells h2 r = cells h r) \<longrightarrow> val q h2 = Some v)"

lemma separate_copy:
  "deep_copy copy refs val \<Longrightarrow> val p h = Some v \<Longrightarrow> refs p h \<subseteq> {..<next_ref h} \<Longrightarrow> copy p h = (q, h') \<Longrightarrow>
     separate refs val p q h' v"
  using deep_copy.apart [of copy refs val p h v q h'] unfolding separate_def by blast

lemma User_DeepCopy_new:
  "ptr_val user_of v (Some p) h \<noteq> None \<Longrightarrow> \<exists>q h'. User_DeepCopy K (Some p) h = (Some q, h')"
  by (auto simp: ptr_val_def user_of_def User_DeepCopy_def new_copy_def split: cell.splits option.splits prod.splits)

lemma UserList_DeepCopy_new:
  "ptr_val list_of v (Some p) h \<noteq> None \<Longrightarrow> \<exists>q h'. UserList_DeepCopy K (Some p) h = (Some q, h')"
  by (auto simp: ptr_val_def list_of_def UserList_DeepCopy_def new_copy_def split: cell.splits option.splits prod.splits)

text \<open>C39: a copy of a User, or of a whole UserList, is an object of the same content that shares no
  memory with the original: afterwards both have the content the original had, and no write to the
  cells of one changes the other, be it the secret reference with its optional flag, the conditions,
  the items or their metadata. The copy of nil is the nil interface. The hypotheses are the same
  promise for the library's metadata, and that a condition is copied by value.\<close>

theorem deep_copies_are_separate:
  fixes K :: "('l, 'm, 'k) k8s"
  assumes "deep_copy (ObjectMeta_DeepCopyInto K) mr mv" "deep_copy (ListMeta_DeepCopyInto K) lr lv"
    "\<And>c. Condition_DeepCopyInto K c = c"
  shows "(\<forall>p h v. ptr_val user_of (user_val mv) (Some p) h = Some v \<and> ptr_refs user_of (user_refs mr) (Some p) h \<subseteq> {..<next_ref h} \<longrightarrow>
      (\<exists>q h'. User_DeepCopyObject K (Some p) h = (UserObject (Some q), h') \<and>
         separate (ptr_refs user_of (user_refs mr)) (ptr_val user_of (user_val mv)) (Some p) (Some q) h' v)) \<and>
    (\<forall>p h v. ptr_val list_of (list_val lv mv) (Some p) h = Some v \<and> ptr_refs list_of (list_refs lr mr) (Some p) h \<subseteq> {..<next_ref h} \<longrightarrow>
      (\<exists>q h'. UserList_DeepCopyObject K (Some p) h = (UserListObject (Some q), h') \<and>
         separate (ptr_refs list_of (list_refs lr mr)) (ptr_val list_of (list_val lv mv)) (Some p) (Some q) h' v)) \<and>
    (\<forall>h. User_DeepCopyObject K None h = (NilObject, h) \<and> UserList_DeepCopyObject K None h = (NilObject, h))"
proof (intro conjI allI impI; (elim conjE)?)
  fix p v and h :: "('l, 'm, 'k) memory"
  assume v: "ptr_val user_of (user_val mv) (Some p) h = Some v" and r: "ptr_refs user_of (user_refs mr) (Some p) h \<subseteq> {..<next_ref h}"
  then obtain q h' where c: "User_DeepCopy K (Some p) h = (Some q, h')" using User_DeepCopy_new by blast
  with separate_copy [OF user_pointer_deep [OF assms(1,3)] v r c]
  show "\<exists>q h'. User_DeepCopyObject K (Some p) h = (UserObject (Some q), h') \<and>
      separate (ptr_refs user_of (user_refs mr)) (ptr_val user_of (user_val mv)) (Some p) (Some q) h' v"
    by (auto simp: User_DeepCopyObject_def)
next
  fix p v and h :: "('l, 'm, 'k) memory"
  assume v: "ptr_val list_of (list_val lv mv) (Some p) h = Some v" and r: "ptr_refs list_of (list_refs lr mr) (Some p) h \<subseteq> {..<next_ref h}"
  then obtain q h' where c: "UserList_DeepCopy K (Some p) h = (Some q, h')" using UserList_DeepCopy_new by blast
  with separate_copy [OF list_pointer_deep [OF assms] v r c]
  show "\<exists>q h'. UserList_DeepCopyObject K (Some p) h = (UserListObject (Some q), h') \<and>
      separate (ptr_refs list_of (list_refs lr mr)) (ptr_val list_of (list_val lv mv)) (Some p) (Some q) h' v"
    by (auto simp: UserList_DeepCopyObject_def)
qed (simp_all add: User_DeepCopyObject_def UserList_DeepCopyObject_def User_DeepCopy_def UserList_DeepCopy_def)

text \<open>A library whose metadata is a pointer to the finalizers, and a list that holds one User twice.\<close>

definition sample_meta_copy :: "nat option \<Rightarrow> (string list, nat option, string) memory \<Rightarrow> nat option \<times> (string list, nat option, string) memory" where
  "sample_meta_copy p h = (case p of None \<Rightarrow> (p, h)
     | Some r \<Rightarrow> (case cells h r of
          Some (LibraryCell l) \<Rightarrow> (case alloc (LibraryCell l) h of (q, h1) \<Rightarrow> (Some q, h1)) | _ \<Rightarrow> (p, h)))"

definition sample_meta_val :: "nat option \<Rightarrow> (string list, nat option, string) memory \<Rightarrow> string list option option" where
  "sample_meta_val p h = (case p of None \<Rightarrow> Some None
     | Some r \<Rightarrow> (case cells h r of Some (LibraryCell l) \<Rightarrow> Some (Some l) | _ \<Rightarrow> None))"

definition sample_k8s :: "(string list, nat option, string) k8s" where
  "sample_k8s = \<lparr>ObjectMeta_DeepCopyInto = sample_meta_copy, ListMeta_DeepCopyInto = Pair,
     Condition_DeepCopyInto = (\<lambda>c. c), zero_meta = None\<rparr>"

lemma sample_meta_deep: "deep_copy sample_meta_copy (\<lambda>p h. set_option p) sample_meta_val"
  by unfold_locales (auto simp: sample_meta_copy_def sample_meta_val_def alloc_def extends_def split: option.splits cell.splits)

lemma value_deep: "deep_copy Pair (\<lambda>x h. {}) (\<lambda>x h. Some x)"
  by unfold_locales auto

definition sample_user_item :: "nat option user_struct" where
  "sample_user_item = \<lparr>u_TypeMeta = \<lparr>Kind = ''User'', APIVersion = ''v1alpha1''\<rparr>, u_ObjectMeta = Some 0,
     u_Spec = \<lparr>sp_Username = ''bob'', sp_PasswordSecretRef = Some 1\<rparr>,
     u_Status = \<lparr>st_Conditions = NilSlice, st_CredentialsSecretRef = None, st_ObservedSecretHash = [],
       st_ObservedUsername = []\<rparr>\<rparr>"

definition sample_memory :: "(string list, nat option, string) memory" where
  "sample_memory = \<lparr>cells = [0 \<mapsto> LibraryCell [''f''], 1 \<mapsto> SelectorCell ''s'' ''password'' (Some 2), 2 \<mapsto> BoolCell True,
      3 \<mapsto> UsersCell [sample_user_item, sample_user_item],
      4 \<mapsto> ListCell \<lparr>l_TypeMeta = \<lparr>Kind = ''UserList'', APIVersion = ''v1alpha1''\<rparr>, l_ListMeta = ''7'', l_Items = Slice 3 0 2\<rparr>],
     next_ref = 5\<rparr>"

theorem deep_copies_are_separate_witness:
  "\<exists>q h' v. UserList_DeepCopyObject sample_k8s (Some 4) sample_memory = (UserListObject (Some q), h') \<and> v \<noteq> None \<and>
     separate (ptr_refs list_of (list_refs (\<lambda>x h. {}) (\<lambda>p h. set_option p)))
       (ptr_val list_of (list_val (\<lambda>x h. Some x) sample_meta_val)) (Some 4) (Some q) h' v"
proof -
  obtain v where v: "ptr_val list_of (list_val (\<lambda>x h. Some x) sample_meta_val) (Some 4) sample_memory = Some (Some v)"
    by (simp add: ptr_val_def list_of_def list_val_def items_val_def user_val_def both_def spec_val_def status_val_def window_def
        conditions_val_def local_ref_val_def sample_meta_val_def sample_memory_def sample_user_item_def)
  have r: "ptr_refs list_of (list_refs (\<lambda>x h. {}) (\<lambda>p h. set_option p)) (Some 4) sample_memory \<subseteq> {..<next_ref sample_memory}"
    by (simp add: ptr_refs_def list_of_def list_refs_def items_refs_def user_refs_def spec_refs_def status_refs_def
        conditions_refs_def local_ref_refs_def sample_memory_def sample_user_item_def)
  have "deep_copy (ObjectMeta_DeepCopyInto sample_k8s) (\<lambda>p h. set_option p) sample_meta_val"
    "deep_copy (ListMeta_DeepCopyInto sample_k8s) (\<lambda>x h. {}) (\<lambda>x h. Some x)" "\<And>c. Condition_DeepCopyInto sample_k8s c = c"
    by (simp_all add: sample_k8s_def sample_meta_deep value_deep)
  from deep_copies_are_separate [OF this] v r show ?thesis by blast
qed

end
