(* ===== verification/Harness.thy ===== *)
theory Harness
  imports OperatorFacts Boot
begin

text \<open>
  The harness of the integration tests (\<open>src/internal/engine/enginetest/harness.go\<close>): a client that
  speaks the protocol step by step, and the start and stop of the Pods it talks to. The network is a
  script: what the reads of the client yield, and what its writes answer. \<open>t.Fatalf\<close> ends a test, and
  a read without a deadline blocks for ever when nothing comes.
\<close>

section \<open>The client\<close>

datatype 'a test_end = Passed 'a | Fatalf string | Blocked

record test_client =
  sent :: "packet list"
  inbox :: "(err + packet) list"
  write_errs :: "err option list"
  sock_closed :: bool
  deadline_set :: bool
  r_version :: nat
  pktid :: "32 word"
  closed_flag :: bool

type_synonym 'a test = "test_client \<Rightarrow> 'a test_end \<times> test_client"

definition t_bind :: "'a test \<Rightarrow> ('a \<Rightarrow> 'b test) \<Rightarrow> 'b test" where
  "t_bind m f c = (case m c of (Passed a, c1) \<Rightarrow> f a c1 | (Fatalf s, c1) \<Rightarrow> (Fatalf s, c1) | (Blocked, c1) \<Rightarrow> (Blocked, c1))"

definition t_done :: "'a \<Rightarrow> 'a test" where
  "t_done a c = (Passed a, c)"

definition t_check :: "bool \<Rightarrow> string \<Rightarrow> unit test" where
  "t_check ok s c = (if ok then Passed () else Fatalf s, c)"

text \<open>One write of an encoded packet, and one read of the framing reader.\<close>

definition tc_write :: "packet \<Rightarrow> test_client \<Rightarrow> err option \<times> test_client" where
  "tc_write pk c =
     (if sock_closed c then (Some ErrNetClosed, c)
      else case write_errs c of
          Some e # es \<Rightarrow> (Some e, c\<lparr>write_errs := es\<rparr>)
        | None # es \<Rightarrow> (None, c\<lparr>write_errs := es, sent := sent c @ [pk]\<rparr>)
        | [] \<Rightarrow> (None, c\<lparr>sent := sent c @ [pk]\<rparr>))"

definition tc_read :: "(err + packet) test" where
  "tc_read c =
     (if sock_closed c then (Passed (Inl ErrNetClosed), c)
      else case inbox c of
          x # xs \<Rightarrow> (Passed x, c\<lparr>inbox := xs\<rparr>)
        | [] \<Rightarrow> (if deadline_set c then Passed (Inl ErrDeadlineExceeded) else Blocked, c))"

definition must_write :: "packet \<Rightarrow> string \<Rightarrow> unit test" where
  "must_write pk s c = (case tc_write pk c of (None, c1) \<Rightarrow> (Passed (), c1) | (Some e, c1) \<Rightarrow> (Fatalf s, c1))"

definition must_read :: "string \<Rightarrow> packet test" where
  "must_read s = t_bind tc_read (\<lambda>r c. case r of Inl e \<Rightarrow> (Fatalf s, c) | Inr pk \<Rightarrow> (Passed pk, c))"

text \<open>\<open>NextPacketID\<close>: the counter is atomic, but the reset after an overflow is a second step.\<close>

definition id_add :: "test_client \<Rightarrow> 32 word \<times> test_client" where
  "id_add c = (pktid c + 1, c\<lparr>pktid := pktid c + 1\<rparr>)"

definition id_reset :: "32 word \<Rightarrow> test_client \<Rightarrow> 16 word \<times> test_client" where
  "id_reset v c = (if v = 0 \<or> v > 0xFFFF then (1, c\<lparr>pktid := 1\<rparr>) else (ucast v, c))"

definition NextPacketID :: "test_client \<Rightarrow> 16 word \<times> test_client" where
  "NextPacketID c = (case id_add c of (v, c1) \<Rightarrow> id_reset v c1)"

definition tc_Publish :: "string \<Rightarrow> bytes \<Rightarrow> nat \<Rightarrow> bool \<Rightarrow> unit test" where
  "tc_Publish topic payload qos retain c =
     (let pk0 = (new_packet Publish)\<lparr>Qos := qos, Retain := retain, pkProtocol := r_version c,
                   TopicName := topic, Payload := payload\<rparr>;
          (pk, c1) = (if qos > 0 then (case NextPacketID c of (i, c1) \<Rightarrow> (pk0\<lparr>PacketID := i\<rparr>, c1)) else (pk0, c)) in
      t_bind (must_write pk ''publish'') (\<lambda>_.
        if qos = 1 then
          t_bind (must_read ''read puback'') (\<lambda>ack. t_check (ptype ack = Puback) ''expected puback'')
        else if qos = 2 then
          t_bind (must_read ''read pubrec'') (\<lambda>rec.
          t_bind (t_check (ptype rec = Pubrec) ''expected pubrec'') (\<lambda>_.
          t_bind (must_write ((new_packet Pubrel)\<lparr>Qos := 1, pkProtocol := r_version c, PacketID := PacketID pk\<rparr>) ''pubrel'') (\<lambda>_.
          t_bind (must_read ''read pubcomp'') (\<lambda>comp.
            t_check (ptype comp = Pubcomp) ''expected pubcomp''))))
        else t_done ()) c1)"

definition tc_Subscribe :: "string \<Rightarrow> nat \<Rightarrow> nat list test" where
  "tc_Subscribe filt qos c =
     (case NextPacketID c of (i, c1) \<Rightarrow>
        t_bind (must_write ((new_packet Subscribe)\<lparr>Qos := 1, pkProtocol := r_version c, PacketID := i,
                  Filters := [\<lparr>Filter = filt, fQos = qos, fNoLocal = False, fRetainAsPublished = False,
                               fRetainHandling = 0\<rparr>]\<rparr>) ''subscribe'') (\<lambda>_.
        t_bind (must_read ''read suback'') (\<lambda>resp.
        t_bind (t_check (ptype resp = Suback) ''expected suback'') (\<lambda>_.
          t_done (ReasonCodes resp)))) c1)"

text \<open>The loop of \<open>TryRead\<close> and \<open>Read\<close>, run with a deadline: answers to pings are skipped, a PUBLISH of
  QoS 1 is acknowledged.\<close>

definition auto_ack :: "packet \<Rightarrow> test_client \<Rightarrow> test_client" where
  "auto_ack pk c =
     (if ptype pk = Publish \<and> Qos pk = 1
      then snd (tc_write ((new_packet Puback)\<lparr>pkProtocol := r_version c, PacketID := PacketID pk\<rparr>) c)
      else c)"

function test_read_loop :: "(err + packet) test" where
  "test_read_loop c =
     (case tc_read c of
        (Passed (Inr pk), c1) \<Rightarrow> if ptype pk = Pingresp then test_read_loop c1 else (Passed (Inr pk), auto_ack pk c1)
      | (r, c1) \<Rightarrow> (r, c1))"
  by pat_completeness auto
termination
  by (relation "measure (\<lambda>c. length (inbox c))") (auto simp: tc_read_def split: if_splits list.splits)

declare test_read_loop.simps [simp del]

definition TryRead :: "test_client \<Rightarrow> packet option \<times> test_client" where
  "TryRead c =
     (if sock_closed c then (None, c)
      else case test_read_loop (c\<lparr>deadline_set := True\<rparr>) of
          (Passed (Inr pk), c1) \<Rightarrow> (Some pk, c1\<lparr>deadline_set := False\<rparr>)
        | (_, c1) \<Rightarrow> (None, c1\<lparr>deadline_set := False\<rparr>))"

definition tc_Read :: "packet test" where
  "tc_Read c =
     (if sock_closed c then (Fatalf ''set deadline'', c)
      else case test_read_loop (c\<lparr>deadline_set := True\<rparr>) of
          (Passed (Inr pk), c1) \<Rightarrow> (Passed pk, c1\<lparr>deadline_set := False\<rparr>)
        | (Passed (Inl e), c1) \<Rightarrow> (Fatalf ''read'', c1\<lparr>deadline_set := False\<rparr>)
        | (Fatalf s, c1) \<Rightarrow> (Fatalf s, c1\<lparr>deadline_set := False\<rparr>)
        | (Blocked, c1) \<Rightarrow> (Blocked, c1))"

definition tc_Disconnect :: "(packet \<Rightarrow> packet) list \<Rightarrow> unit test" where
  "tc_Disconnect opts c =
     (if closed_flag c then (Passed (), c)
      else let c1 = c\<lparr>closed_flag := True\<rparr>;
               pk = fold (\<lambda>opt pk. opt pk) opts ((new_packet Disconnect)\<lparr>pkProtocol := r_version c\<rparr>) in
           t_bind (must_write pk ''write disconnect'') (\<lambda>_ c2. (Passed (), c2\<lparr>sock_closed := True\<rparr>)) c1)"

definition tc_Close :: "test_client \<Rightarrow> test_client" where
  "tc_Close c =
     (if closed_flag c then c
      else let c1 = c\<lparr>closed_flag := True\<rparr>;
               c2 = snd (tc_write ((new_packet Disconnect)\<lparr>pkProtocol := r_version c\<rparr>) c1) in
           c2\<lparr>sock_closed := True\<rparr>)"

definition tc_Kill :: "test_client \<Rightarrow> test_client" where
  "tc_Kill c = c\<lparr>closed_flag := True, sock_closed := True\<rparr>"

definition NextRaw :: "(err + packet) test" where
  "NextRaw = tc_read"

definition WritePacket :: "packet \<Rightarrow> test_client \<Rightarrow> err option \<times> test_client" where
  "WritePacket pk c = tc_write (pk\<lparr>pkProtocol := r_version c\<rparr>) c"

text \<open>\<open>Connect\<close> of the harness; that of a Pod differs only in the address. \<open>line\<close> is what dialling
  answers: an error, or the script of the new socket.\<close>

definition connect_pk :: "string \<Rightarrow> (packet \<Rightarrow> packet) list \<Rightarrow> packet" where
  "connect_pk client opts =
     fold (\<lambda>opt pk. opt pk) opts
       ((new_packet Connect)\<lparr>pkProtocol := ProtocolMQTT5,
          ConnectParams := no_connect\<lparr>ProtocolName := ''MQTT'', Clean := True, Keepalive := 60,
            ClientIdentifier := client, Username := ''test'', UsernameFlag := True,
            Password := ''test'', PasswordFlag := True\<rparr>\<rparr>)"

definition Harness_Connect ::
    "err + (err + packet) list \<times> err option list \<Rightarrow> string \<Rightarrow> (packet \<Rightarrow> packet) list \<Rightarrow> test_client test_end" where
  "Harness_Connect line client opts =
     (case line of
        Inl e \<Rightarrow> Fatalf ''dial''
      | Inr (input, errs) \<Rightarrow>
          let pk = connect_pk client opts;
              tc = \<lparr>sent = [], inbox = input, write_errs = errs, sock_closed = False, deadline_set = False,
                    r_version = 0, pktid = 0, closed_flag = False\<rparr> in
          (case t_bind (must_write pk ''write connect'') (\<lambda>_ c.
             t_bind (must_read ''read connack'') (\<lambda>resp.
             t_bind (t_check (ptype resp = Connack) ''expected CONNACK'') (\<lambda>_.
               t_check (ReasonCode resp = 0) ''connack reason'')) (c\<lparr>r_version := pkProtocol pk\<rparr>)) tc of
             (Passed _, c) \<Rightarrow> Passed c
           | (Fatalf s, c) \<Rightarrow> Fatalf s
           | (Blocked, c) \<Rightarrow> Blocked))"

definition Pod_Connect ::
    "err + (err + packet) list \<times> err option list \<Rightarrow> string \<Rightarrow> (packet \<Rightarrow> packet) list \<Rightarrow> test_client test_end" where
  "Pod_Connect = Harness_Connect"

section \<open>Pods\<close>

text \<open>\<open>startBroker\<close> polls for the listening socket (\<open>bound\<close>) every 10 ms, for 2 s.\<close>

definition bind_poll :: duration where "bind_poll = 10000000"
definition bind_wait :: duration where "bind_wait = 2000000000"

function wait_bound :: "(instant \<Rightarrow> bool) \<Rightarrow> instant \<Rightarrow> instant \<Rightarrow> instant" where
  "wait_bound bound until t =
     (if t < until \<and> \<not> bound t then wait_bound bound until (t + bind_poll) else t)"
  by pat_completeness auto
termination
  by (relation "measure (\<lambda>(_, until, t). nat (until - t))") (auto simp: bind_poll_def)

declare wait_bound.simps [simp del]

definition test_config :: "string \<Rightarrow> Config" where
  "test_config url = \<lparr>DatabaseURL = url, TCPAddr = ''127.0.0.1:0'', WSAddr = [], PodName = [], PodNamespace = [],
     AllowAnonymous = False, ServiceHost = [], ServicePort = 0, WSPort = 0, V5ReceiveMaximum = 0, V5KeepaliveMax = 0,
     BcryptCost = 0, MaxQueuedDeliveriesPerClient = 0, MaxConnections = 0, MaxInboundMsgsPerSec = 0,
     MaxConnectsPerIPPerSec = 0, MaxAuthFailuresPerIPPerMin = 0, MaxPacketSize = 0, MetricsAddr = [],
     PGStatementTimeout = 0, LogFormat = [], WSAllowedOrigins = [], JanitorInterval = 0, SlowStageLogMs = 0\<rparr>"

definition startBroker ::
    "string \<Rightarrow> (pod \<Rightarrow> pod) \<Rightarrow> uuid \<Rightarrow> (instant \<Rightarrow> bool) \<Rightarrow> instant \<Rightarrow> pod test_end \<times> instant" where
  "startBroker url customise broker bound t0 =
     (let eng = customise (SetBrokerID broker (New (test_config url)));
          t = wait_bound bound (t0 + bind_wait) t0 in
      (if bound t then Passed eng else Fatalf ''engine never bound TCP'', t))"

text \<open>\<open>seedUser\<close>; the error of the hash is not looked at.\<close>

definition seedUser :: "op_ext \<Rightarrow> nat \<Rightarrow> string \<Rightarrow> string \<Rightarrow> unit go" where
  "seedUser Y seed user pass =
     execute (upsert_user user (case bcrypt_generate Y seed pass 4 of Inl _ \<Rightarrow> [] | Inr h \<Rightarrow> h))"

text \<open>Stopping: each Pod is cancelled and gets 5 s to end. \<open>ends\<close> answers when a Pod cancelled at a time
  ends.\<close>

definition stop_wait :: duration where "stop_wait = 5000000000"

record test_pods =
  cancelled :: "nat list"
  timed_out :: "nat list"
  clock :: instant
  pool_closed :: bool

definition stop_one :: "(nat \<Rightarrow> instant \<Rightarrow> instant) \<Rightarrow> nat \<Rightarrow> test_pods \<Rightarrow> test_pods" where
  "stop_one ends i s =
     (let s1 = s\<lparr>cancelled := cancelled s @ [i]\<rparr>; t = ends i (clock s) in
      if t \<le> clock s + stop_wait then s1\<lparr>clock := max (clock s) t\<rparr>
      else s1\<lparr>clock := clock s + stop_wait, timed_out := timed_out s @ [i]\<rparr>)"

definition MultiHarness_Stop :: "(nat \<Rightarrow> instant \<Rightarrow> instant) \<Rightarrow> nat \<Rightarrow> test_pods \<Rightarrow> test_pods" where
  "MultiHarness_Stop ends n s = (fold (stop_one ends) [0..<n] s)\<lparr>pool_closed := True\<rparr>"

definition Harness_Stop :: "(nat \<Rightarrow> instant \<Rightarrow> instant) \<Rightarrow> test_pods \<Rightarrow> test_pods" where
  "Harness_Stop ends s = (stop_one ends 0 s)\<lparr>pool_closed := True\<rparr>"

section \<open>Facts\<close>

text \<open>Packet identifiers run through 1 to 65535 and start again.\<close>

lemma unat_word32: "n < 2 ^ 32 \<Longrightarrow> unat (of_nat n :: 32 word) = n"
  by (simp add: unat_of_nat take_bit_nat_eq_self)

lemma NextPacketID_eq:
  assumes "k \<le> 65535" "pktid c = of_nat k"
  shows "NextPacketID c = (of_nat (1 + k mod 65535), c\<lparr>pktid := of_nat (1 + k mod 65535)\<rparr>)"
proof -
  have v: "pktid c + 1 = of_nat (Suc k)" using assms(2) by simp
  have u: "unat (of_nat (Suc k) :: 32 word) = Suc k" using assms(1) by (intro unat_word32) simp
  have zero: "(of_nat (Suc k) :: 32 word) \<noteq> 0" using u by (metis nat.distinct(1) unat_0)
  have big: "(of_nat (Suc k) :: 32 word) > 0xFFFF \<longleftrightarrow> k = 65535"
    using u assms(1) by (auto simp: word_less_nat_alt simp del: of_nat_Suc)
  have cast: "ucast (of_nat (Suc k) :: 32 word) = (of_nat (Suc k) :: 16 word)"
    by (rule bit_word_eqI) (simp add: bit_simps del: of_nat_Suc)
  have step: "NextPacketID c = id_reset (of_nat (Suc k)) (c\<lparr>pktid := of_nat (Suc k)\<rparr>)"
    unfolding NextPacketID_def id_add_def prod.case v ..
  show ?thesis
  proof (cases "k = 65535")
    case True
    then have "id_reset (of_nat (Suc k)) (c\<lparr>pktid := of_nat (Suc k)\<rparr>) = (1, c\<lparr>pktid := 1\<rparr>)"
      using big unfolding id_reset_def by (simp del: of_nat_Suc)
    with step show ?thesis by (simp add: True)
  next
    case False
    then have "k mod 65535 = k" using assms(1) by simp
    moreover have "id_reset (of_nat (Suc k)) (c\<lparr>pktid := of_nat (Suc k)\<rparr>) = (of_nat (Suc k), c\<lparr>pktid := of_nat (Suc k)\<rparr>)"
      using False big zero unfolding id_reset_def cast by (simp del: of_nat_Suc)
    ultimately show ?thesis using step by (simp del: of_nat_Suc add: plus_1_eq_Suc)
  qed
qed

fun take_ids :: "nat \<Rightarrow> test_client \<Rightarrow> 16 word list" where
  "take_ids 0 c = []"
| "take_ids (Suc n) c = (case NextPacketID c of (i, c1) \<Rightarrow> i # take_ids n c1)"

lemma take_ids_cycle:
  "k \<le> 65535 \<Longrightarrow> pktid c = of_nat k \<Longrightarrow> take_ids n c = map (\<lambda>j. of_nat (1 + (k + j) mod 65535)) [0..<n]"
proof (induction n arbitrary: k c)
  case (Suc n)
  let ?c = "c\<lparr>pktid := of_nat (1 + k mod 65535)\<rparr>"
  have "1 + k mod 65535 \<le> 65535" using mod_less_divisor [of 65535 k] by simp
  from Suc.IH [OF this, of ?c]
  have "take_ids n ?c = map (\<lambda>j. of_nat (1 + (1 + k mod 65535 + j) mod 65535)) [0..<n]" by simp
  moreover have "(1 + k mod 65535 + j) mod 65535 = (k + Suc j) mod 65535" for j
    by (metis add.commute add_Suc_right add_Suc mod_add_left_eq plus_1_eq_Suc)
  ultimately show ?case
    using NextPacketID_eq [OF Suc.prems] by (simp add: upt_conv_Cons map_Suc_upt [symmetric] del: upt_Suc)
qed simp

lemma unat_id: "unat (of_nat (1 + m mod 65535) :: 16 word) = 1 + m mod 65535"
proof -
  have "m mod 65535 < 65535" by simp
  then have "1 + m mod 65535 < 2 ^ 16" by simp
  then show ?thesis by (simp add: unat_of_nat take_bit_nat_eq_self del: of_nat_add of_nat_Suc)
qed

lemma take_ids_distinct:
  assumes "k \<le> 65535" "pktid c = of_nat k" "n \<le> 65535"
  shows "distinct (take_ids n c)" "0 \<notin> set (take_ids n c)"
proof -
  let ?f = "\<lambda>j. of_nat (1 + (k + j) mod 65535) :: 16 word"
  have le: "i = j" if "(k + i) mod 65535 = (k + j) mod 65535" "i \<le> j" "j < n" for i j
  proof -
    have "65535 dvd (k + j) - (k + i)" using that(1,2) by (subst mod_eq_dvd_iff_nat [symmetric]) simp_all
    then have "65535 dvd j - i" by simp
    with that(2,3) assms(3) show ?thesis by (auto dest: dvd_imp_le)
  qed
  have "i = j" if "?f i = ?f j" "i < n" "j < n" for i j
  proof -
    have m: "(k + i) mod 65535 = (k + j) mod 65535" using that(1) by (metis unat_id add_left_cancel)
    show ?thesis using le [OF m] le [OF m [symmetric]] that(2,3) by (cases "i \<le> j") auto
  qed
  then show "distinct (take_ids n c)"
    unfolding take_ids_cycle [OF assms(1,2)] by (auto simp: distinct_map inj_on_def)
  have "?f j \<noteq> 0" for j by (metis unat_id unat_0 add_is_0 zero_neq_one)
  then show "0 \<notin> set (take_ids n c)" unfolding take_ids_cycle [OF assms(1,2)] by auto
qed

text \<open>Two goroutines that ask for an identifier at the turn of the counter get the same one.\<close>

lemma NextPacketID_race:
  assumes "pktid c = 65535" "id_add c = (v, c1)" "id_add c1 = (v', c2)" "id_reset v c2 = (i, c3)" "id_reset v' c3 = (i', c4)"
  shows "i = 1 \<and> i' = 1"
  using assms by (auto simp: id_add_def id_reset_def)

text \<open>What the client acknowledges. A packet that is no answer to a ping ends the loop.\<close>

lemma test_read_loop_skips:
  assumes "\<not> sock_closed c" "\<forall>p \<in> set pings. ptype p = Pingresp" "inbox c = map Inr pings @ Inr pk # rest" "ptype pk \<noteq> Pingresp"
  shows "test_read_loop c = (Passed (Inr pk), auto_ack pk (c\<lparr>inbox := rest\<rparr>))"
  using assms
proof (induction pings arbitrary: c)
  case Nil
  then show ?case by (subst test_read_loop.simps) (simp add: tc_read_def)
next
  case (Cons p pings)
  from Cons.IH [of "c\<lparr>inbox := map Inr pings @ Inr pk # rest\<rparr>"] Cons.prems show ?case
    by (subst test_read_loop.simps) (simp add: tc_read_def)
qed

lemma TryRead_first:
  assumes "\<not> sock_closed c" "\<forall>p \<in> set pings. ptype p = Pingresp" "inbox c = map Inr pings @ Inr pk # rest"
    "ptype pk \<noteq> Pingresp" "write_errs c = []" "\<not> deadline_set c"
  shows "TryRead c = (Some pk, c\<lparr>inbox := rest, sent := sent c @
    (if ptype pk = Publish \<and> Qos pk = 1 then [(new_packet Puback)\<lparr>pkProtocol := r_version c, PacketID := PacketID pk\<rparr>] else [])\<rparr>)"
  using test_read_loop_skips [of "c\<lparr>deadline_set := True\<rparr>" pings pk rest] assms
  by (simp add: TryRead_def auto_ack_def tc_write_def)

text \<open>A PUBLISH of QoS 2 is not acknowledged, though the comment speaks of QoS above 0.\<close>

lemma auto_ack_not_qos2: "Qos pk = 2 \<Longrightarrow> auto_ack pk c = c"
  by (simp add: auto_ack_def)

text \<open>A client says good-bye once: closing, disconnecting or killing it in any order.\<close>

datatype closing = DoClose | DoDisconnect "(packet \<Rightarrow> packet) list" | DoKill

fun close_step :: "closing \<Rightarrow> test_client \<Rightarrow> test_client" where
  "close_step DoClose c = tc_Close c"
| "close_step (DoDisconnect opts) c = snd (tc_Disconnect opts c)"
| "close_step DoKill c = tc_Kill c"

lemma tc_write_sent: "tc_write pk c = (r, c') \<Longrightarrow>
    closed_flag c' = closed_flag c \<and> sock_closed c' = sock_closed c \<and> (sent c' = sent c \<or> sent c' = sent c @ [pk])"
  by (auto simp: tc_write_def split: if_splits list.splits option.splits)

lemma close_step_closed: "closed_flag c \<Longrightarrow> closed_flag (close_step k c) \<and> sent (close_step k c) = sent c"
  by (cases k) (simp_all add: tc_Close_def tc_Disconnect_def tc_Kill_def)

lemma close_step_sent: "closed_flag (close_step k c) \<and> length (sent (close_step k c)) \<le> length (sent c) + 1"
proof (cases "closed_flag c")
  case True
  with close_step_closed show ?thesis by fastforce
next
  case False
  have w: "length (sent (snd (tc_write pk c'))) \<le> length (sent c') + 1 \<and> closed_flag (snd (tc_write pk c')) = closed_flag c'" for pk c'
    using tc_write_sent [of pk c' "fst (tc_write pk c')" "snd (tc_write pk c')"] by auto
  show ?thesis
  proof (cases k)
    case DoClose
    with False w [of _ "c\<lparr>closed_flag := True\<rparr>"] show ?thesis by (simp add: tc_Close_def Let_def)
  next
    case (DoDisconnect opts)
    obtain r c1 where "tc_write (fold (\<lambda>opt pk. opt pk) opts ((new_packet Disconnect)\<lparr>pkProtocol := r_version c\<rparr>))
        (c\<lparr>closed_flag := True\<rparr>) = (r, c1)" by fastforce
    with DoDisconnect False w [of _ "c\<lparr>closed_flag := True\<rparr>"] show ?thesis
      by (cases r) (auto simp: tc_Disconnect_def Let_def t_bind_def must_write_def dest: tc_write_sent)
  qed (simp add: tc_Kill_def)
qed

lemma close_once: "length (sent (fold close_step ks c)) \<le> length (sent c) + 1"
proof (cases ks)
  case (Cons k ks')
  have "closed_flag c' \<Longrightarrow> sent (fold close_step ks' c') = sent c'" for c'
    by (induction ks' arbitrary: c') (simp_all add: close_step_closed)
  with Cons close_step_sent [of k c] show ?thesis by simp
qed simp

text \<open>The wait for the socket ends, and with a bound socket unless the time was up.\<close>

lemma wait_bound_result: "t \<le> until \<Longrightarrow> (let r = wait_bound bound until t in t \<le> r \<and> r < until + bind_poll \<and> (bound r \<or> until \<le> r))"
proof (induction bound until t rule: wait_bound.induct)
  case (1 bound until t)
  show ?case
  proof (cases "t < until \<and> \<not> bound t")
    case True
    show ?thesis
    proof (cases "t + bind_poll \<le> until")
      case le: True
      with 1 True show ?thesis by (subst wait_bound.simps) (simp add: Let_def bind_poll_def)
    next
      case False
      with True show ?thesis
        by (subst wait_bound.simps, subst wait_bound.simps) (simp add: Let_def bind_poll_def)
    qed
  next
    case False
    with 1(2) show ?thesis by (subst wait_bound.simps) (auto simp: Let_def bind_poll_def)
  qed
qed

text \<open>Stopping reaches every Pod, in order, and takes at most 5 s for each.\<close>

lemma stop_fold:
  "cancelled (fold (stop_one ends) ks s) = cancelled s @ ks \<and> clock s \<le> clock (fold (stop_one ends) ks s) \<and>
    clock (fold (stop_one ends) ks s) \<le> clock s + stop_wait * int (length ks)"
proof (induction ks arbitrary: s)
  case (Cons i ks)
  have "cancelled (stop_one ends i s) = cancelled s @ [i]" "clock s \<le> clock (stop_one ends i s)"
    "clock (stop_one ends i s) \<le> clock s + stop_wait" by (auto simp: stop_one_def Let_def stop_wait_def)
  with Cons.IH [of "stop_one ends i s"] show ?case by (simp add: algebra_simps)
qed simp

lemma MultiHarness_Stop_all:
  "cancelled (MultiHarness_Stop ends n s) = cancelled s @ [0..<n] \<and> pool_closed (MultiHarness_Stop ends n s) \<and>
    clock (MultiHarness_Stop ends n s) \<le> clock s + stop_wait * int n"
  using stop_fold [of ends "[0..<n]" s] by (simp add: MultiHarness_Stop_def)

text \<open>The user the harness creates can log in with the password its clients send.\<close>

lemma seedUser_authenticates:
  assumes "faults w = []" "bcrypt_generate Y seed ''test'' 4 = Inr h" "bcrypt_match X h ''test''"
  shows "fst (Authenticate X ''test'' ''test'' (snd (seedUser Y seed ''test'' ''test'' w))) = Inr ()"
proof -
  have "seedUser Y seed ''test'' ''test'' w = (Inr (), w\<lparr>store := upsert_user ''test'' h (store w)\<rparr>)"
    using assms(1,2) by (simp add: seedUser_def execute_def sql_def)
  with assms(1,3) show ?thesis by (simp add: Authenticate_row sel_password_upsert)
qed

section \<open>Handshakes\<close>

lemma t_bind_Passed: "t_bind m f c = (Passed b, c') \<longleftrightarrow> (\<exists>a c1. m c = (Passed a, c1) \<and> f a c1 = (Passed b, c'))"
  by (auto simp: t_bind_def split: prod.splits test_end.splits)

lemma t_check_Passed [simp]: "t_check ok s c = (Passed u, c') \<longleftrightarrow> ok \<and> c' = c"
  by (auto simp: t_check_def)

lemma must_write_Passed:
  "must_write pk s c = (Passed u, c') \<Longrightarrow> sent c' = sent c @ [pk] \<and> inbox c' = inbox c \<and> pktid c' = pktid c"
  by (auto simp: must_write_def tc_write_def split: if_splits list.splits option.splits prod.splits)

lemma must_read_Passed:
  "must_read s c = (Passed pk, c') \<Longrightarrow> inbox c = Inr pk # inbox c' \<and> sent c' = sent c \<and> pktid c' = pktid c"
  by (auto simp: must_read_def tc_read_def t_bind_Passed split: if_splits list.splits sum.splits)

definition publish_pk :: "test_client \<Rightarrow> string \<Rightarrow> bytes \<Rightarrow> nat \<Rightarrow> bool \<Rightarrow> 16 word \<Rightarrow> packet" where
  "publish_pk c topic payload qos retain i = (new_packet Publish)\<lparr>Qos := qos, Retain := retain, pkProtocol := r_version c,
     TopicName := topic, Payload := payload, PacketID := i\<rparr>"

definition acks_of :: "nat \<Rightarrow> ptype list" where
  "acks_of qos = (if qos = 1 then [Puback] else if qos = 2 then [Pubrec, Pubcomp] else [])"

definition pubrels :: "test_client \<Rightarrow> nat \<Rightarrow> 16 word \<Rightarrow> packet list" where
  "pubrels c qos i = (if qos = 2 then [(new_packet Pubrel)\<lparr>Qos := 1, pkProtocol := r_version c, PacketID := i\<rparr>] else [])"

text \<open>The id a publish uses: none for QoS 0, the next one otherwise.\<close>

definition publish_id :: "nat \<Rightarrow> test_client \<Rightarrow> 16 word \<times> test_client" where
  "publish_id qos c = (if qos > 0 then NextPacketID c else (0, c))"

lemma NextPacketID_frame: "NextPacketID c = (i, c1) \<Longrightarrow> sent c1 = sent c \<and> inbox c1 = inbox c \<and> write_errs c1 = write_errs c \<and>
    sock_closed c1 = sock_closed c"
  by (auto simp: NextPacketID_def id_add_def id_reset_def split: if_splits)

lemma tc_Publish_unfold:
  assumes "publish_id qos c = (i, c1)"
  shows "tc_Publish topic payload qos retain c =
     t_bind (must_write (publish_pk c topic payload qos retain i) ''publish'') (\<lambda>_.
        if qos = 1 then
          t_bind (must_read ''read puback'') (\<lambda>ack. t_check (ptype ack = Puback) ''expected puback'')
        else if qos = 2 then
          t_bind (must_read ''read pubrec'') (\<lambda>rec.
          t_bind (t_check (ptype rec = Pubrec) ''expected pubrec'') (\<lambda>_.
          t_bind (must_write ((new_packet Pubrel)\<lparr>Qos := 1, pkProtocol := r_version c, PacketID := i\<rparr>) ''pubrel'') (\<lambda>_.
          t_bind (must_read ''read pubcomp'') (\<lambda>comp.
            t_check (ptype comp = Pubcomp) ''expected pubcomp''))))
        else t_done ()) c1"
  using assms by (auto simp: tc_Publish_def publish_id_def publish_pk_def new_packet_def Let_def split: if_splits prod.splits)

lemma tc_Publish_acks:
  assumes "publish_id qos c = (i, c1)" "tc_Publish topic payload qos retain c = (Passed (), c')" "qos \<le> 2"
  shows "sent c' = sent c @ publish_pk c topic payload qos retain i # pubrels c qos i"
    "\<exists>acks. inbox c = map Inr acks @ inbox c' \<and> map ptype acks = acks_of qos"
proof -
  have f: "sent c1 = sent c" "inbox c1 = inbox c"
    using assms(1) NextPacketID_frame [of c i c1] by (auto simp: publish_id_def split: if_splits)
  from assms(3) consider "qos = 0" | "qos = 1" | "qos = 2" by linarith
  then have "sent c' = sent c @ publish_pk c topic payload qos retain i # pubrels c qos i \<and>
    (\<exists>acks. inbox c = map Inr acks @ inbox c' \<and> map ptype acks = acks_of qos)"
  proof cases
    case 1
    with assms(2) f show ?thesis unfolding tc_Publish_unfold [OF assms(1)]
      by (auto simp: t_bind_Passed t_done_def pubrels_def acks_of_def dest!: must_write_Passed)
  next
    case 2
    with assms(2) obtain c2 a where "must_write (publish_pk c topic payload qos retain i) ''publish'' c1 = (Passed (), c2)"
      "must_read ''read puback'' c2 = (Passed a, c')" "ptype a = Puback"
      unfolding tc_Publish_unfold [OF assms(1)] by (auto simp: t_bind_Passed)
    then show ?thesis using 2 f by (auto simp: pubrels_def acks_of_def dest!: must_write_Passed must_read_Passed intro!: exI [of _ "[a]"])
  next
    case 3
    with assms(2) obtain c2 c3 c4 a b where "must_write (publish_pk c topic payload qos retain i) ''publish'' c1 = (Passed (), c2)"
      "must_read ''read pubrec'' c2 = (Passed a, c3)" "ptype a = Pubrec"
      "must_write ((new_packet Pubrel)\<lparr>Qos := 1, pkProtocol := r_version c, PacketID := i\<rparr>) ''pubrel'' c3 = (Passed (), c4)"
      "must_read ''read pubcomp'' c4 = (Passed b, c')" "ptype b = Pubcomp"
      unfolding tc_Publish_unfold [OF assms(1)] by (auto simp: t_bind_Passed)
    then show ?thesis using 3 f
      by (auto simp: pubrels_def acks_of_def dest!: must_write_Passed must_read_Passed intro!: exI [of _ "[a, b]"])
  qed
  then show "sent c' = sent c @ publish_pk c topic payload qos retain i # pubrels c qos i"
    "\<exists>acks. inbox c = map Inr acks @ inbox c' \<and> map ptype acks = acks_of qos" by blast+
qed

lemma tc_Publish_returns:
  assumes "publish_id qos c = (i, c1)" "qos \<le> 2" "\<not> sock_closed c" "write_errs c = []"
    "inbox c = map Inr acks @ rest" "map ptype acks = acks_of qos"
  shows "\<exists>c'. tc_Publish topic payload qos retain c = (Passed (), c')"
proof -
  have f: "sock_closed c1 = sock_closed c" "write_errs c1 = write_errs c" "inbox c1 = inbox c"
    using assms(1) NextPacketID_frame [of c i c1] by (auto simp: publish_id_def split: if_splits)
  from assms(2) consider "qos = 0" | "qos = 1" | "qos = 2" by linarith
  then show ?thesis
    unfolding tc_Publish_unfold [OF assms(1)]
    by cases (use assms(3-) f in \<open>auto simp: t_bind_def must_write_def tc_write_def must_read_def
      tc_read_def t_check_def t_done_def acks_of_def map_eq_Cons_conv\<close>)
qed

text \<open>Publishing from a test client. With the broker's acknowledgements next in its input the call
  returns; and whenever it returns, it has written the PUBLISH and, for QoS 2, the PUBREL with the
  same identifier and nothing else, and has taken exactly the acknowledgements of its QoS. Identifiers
  are never zero, and no two of 65535 successive ones are equal. Of an acknowledgement only the type
  is looked at: any identifier is accepted.\<close>

theorem test_client_publish:
  assumes "k \<le> 65535" "pktid c = of_nat k" "qos \<le> 2"
  shows "(\<forall>acks rest. \<not> sock_closed c \<and> write_errs c = [] \<and> inbox c = map Inr acks @ rest \<and> map ptype acks = acks_of qos \<longrightarrow>
      (\<exists>c'. tc_Publish topic payload qos retain c = (Passed (), c'))) \<and>
    (\<forall>c'. tc_Publish topic payload qos retain c = (Passed (), c') \<longrightarrow>
      (let i = (if qos = 0 then 0 else of_nat (1 + k mod 65535)) in
        sent c' = sent c @ publish_pk c topic payload qos retain i # pubrels c qos i \<and>
        (\<exists>acks. inbox c = map Inr acks @ inbox c' \<and> map ptype acks = acks_of qos))) \<and>
    (\<forall>n \<le> 65535. distinct (take_ids n c) \<and> 0 \<notin> set (take_ids n c) \<and>
      take_ids n c = map (\<lambda>j. of_nat (1 + (k + j) mod 65535)) [0..<n])"
proof -
  obtain c1 where p: "publish_id qos c = (if qos = 0 then 0 else of_nat (1 + k mod 65535), c1)"
    using NextPacketID_eq [OF assms(1,2)] by (cases "qos = 0") (auto simp: publish_id_def simp del: of_nat_add of_nat_Suc)
  show ?thesis
    using tc_Publish_acks [OF p _ assms(3)] tc_Publish_returns [OF p assms(3)]
      take_ids_distinct [OF assms(1,2)] take_ids_cycle [OF assms(1,2)]
    unfolding Let_def by blast
qed

text \<open>A QoS 2 publish of the last identifier, answered.\<close>

definition sample_client :: test_client where
  "sample_client = \<lparr>sent = [], inbox = [Inr (new_packet Pubrec), Inr (new_packet Pubcomp)], write_errs = [],
     sock_closed = False, deadline_set = False, r_version = 5, pktid = 65534, closed_flag = False\<rparr>"

theorem test_client_publish_witness:
  "(\<exists>c'. tc_Publish ''t'' [1] 2 False sample_client = (Passed (), c') \<and> inbox c' = [] \<and>
      map PacketID (sent c') = [65535, 65535]) \<and> take_ids 2 sample_client = [65535, 1]"
proof -
  have k: "(65534 :: nat) \<le> 65535" "pktid sample_client = of_nat 65534" "(2 :: nat) \<le> 2" by (simp_all add: sample_client_def)
  note T = test_client_publish [OF k, of "''t''" "[1]" False]
  have acks: "inbox sample_client = map Inr [new_packet Pubrec, new_packet Pubcomp] @ []"
    "map ptype [new_packet Pubrec, new_packet Pubcomp] = acks_of 2"
    by (simp_all add: sample_client_def acks_of_def new_packet_def)
  have "\<not> sock_closed sample_client" "write_errs sample_client = []" by (simp_all add: sample_client_def)
  with T acks obtain c' where c': "tc_Publish ''t'' [1] 2 False sample_client = (Passed (), c')" by blast
  with T have "sent c' = publish_pk sample_client ''t'' [1] 2 False 65535 # pubrels sample_client 2 65535"
    "\<exists>acks. inbox sample_client = map Inr acks @ inbox c' \<and> map ptype acks = acks_of 2"
    by (simp_all add: Let_def sample_client_def)
  then have res: "map PacketID (sent c') = [65535, 65535]" "inbox c' = []"
    by (auto simp: publish_pk_def pubrels_def acks_of_def sample_client_def new_packet_def Cons_eq_append_conv map_eq_Cons_conv)
  have "\<forall>n \<le> 65535. take_ids n sample_client = map (\<lambda>j. of_nat (1 + (65534 + j) mod 65535)) [0..<n]"
    using T by blast
  from this [rule_format, of 2]
  have ids: "take_ids 2 sample_client = map (\<lambda>j. of_nat (1 + (65534 + j) mod 65535)) [0..<2]" by simp
  have two: "[0..<2] = [0 :: nat, 1]" by (simp add: numeral_2_eq_2)
  have "take_ids 2 sample_client = [65535, 1]" unfolding ids two by simp
  with c' res show ?thesis by (intro conjI exI [of _ c']) simp_all
qed

end
