(* ===== verification/DbNames.thy ===== *)
theory DbNames
  imports Prelude
begin

text \<open>
  The names of the databases the integration tests create (\<open>src/internal/db/dbtest/url.go\<close>). The
  name of a test is a list of code points.
\<close>

definition sanitize_rune :: "nat \<Rightarrow> char" where
  "sanitize_rune r =
     (if (97 \<le> r \<and> r \<le> 122) \<or> (65 \<le> r \<and> r \<le> 90) \<or> (48 \<le> r \<and> r \<le> 57) then char_of r else CHR ''_'')"

definition ascii_lower :: "char \<Rightarrow> char" where
  "ascii_lower c = (let n = of_char c :: nat in if 65 \<le> n \<and> n \<le> 90 then char_of (n + 32) else c)"

definition sanitize :: "nat list \<Rightarrow> string" where
  "sanitize s = map ascii_lower (map sanitize_rune s)"

text \<open>\<open>itoa\<close>: digits are written into a buffer from its end; \<open>b\<close> is what has been written.\<close>

function itoa_digits :: "nat \<Rightarrow> string \<Rightarrow> string" where
  "itoa_digits n b = (if n > 0 then itoa_digits (n div 10) (char_of (48 + n mod 10) # b) else b)"
  by pat_completeness auto
termination
  by (relation "measure fst") auto

declare itoa_digits.simps [simp del]

definition dbtest_itoa :: "nat \<Rightarrow> string" where
  "dbtest_itoa n = (if n = 0 then ''0'' else itoa_digits n [])"

text \<open>The counter is incremented first, so it is never zero.\<close>

definition freshDBName :: "nat list \<Rightarrow> nat \<Rightarrow> string" where
  "freshDBName test n = take 60 (''t_'' @ sanitize test @ ''_'' @ dbtest_itoa n)"

lemma itoa_digits_itoa: "0 < n \<Longrightarrow> itoa_digits n b = itoa n @ b"
proof (induction n arbitrary: b rule: itoa.induct)
  case (1 n)
  show ?case
  proof (cases "n < 10")
    case True
    with 1(2) show ?thesis
      by (simp add: itoa.simps [of n] itoa_digits.simps [of n] itoa_digits.simps [of 0])
  next
    case False
    with 1 have "itoa_digits (n div 10) b' = itoa (n div 10) @ b'" for b' by simp
    with False 1(2) show ?thesis by (simp add: itoa.simps [of n] itoa_digits.simps [of n])
  qed
qed

lemma dbtest_itoa: "dbtest_itoa n = itoa n"
proof -
  have "CHR ''0'' = char_of (48 :: nat)" by code_simp
  then show ?thesis by (simp add: dbtest_itoa_def itoa_digits_itoa itoa.simps [of 0])
qed

lemma itoa_inj: "itoa m = itoa n \<Longrightarrow> m = n"
  by (metis digits_value_itoa option.inject)

lemma itoa_digit_range: "c \<in> set (itoa n) \<Longrightarrow> 48 \<le> (of_char c :: nat) \<and> (of_char c :: nat) \<le> 57"
proof (induction n rule: itoa.induct)
  case (1 n)
  have d: "(of_char (char_of (48 + k) :: char) :: nat) = 48 + k" if "k < 10" for k :: nat
    using that by (simp add: of_char_of)
  have "c = char_of (48 + n) \<and> n < 10 \<or> \<not> n < 10 \<and> (c = char_of (48 + n mod 10) \<or> c \<in> set (itoa (n div 10)))"
    using 1(2) by (subst (asm) itoa.simps) (auto split: if_splits)
  then show ?case using 1(1) d [of n] d [of "n mod 10"] by auto
qed

lemma itoa_no_underscore: "CHR ''_'' \<notin> set (itoa n)"
  using itoa_digit_range [of "CHR ''_''" n] by auto

lemma last_field:
  assumes "xs @ c # a = ys @ c # b" "c \<notin> set a" "c \<notin> set b"
  shows "a = b"
  using assms
proof (induction xs arbitrary: ys)
  case Nil
  then show ?case by (cases ys) auto
next
  case (Cons x xs)
  then show ?case by (cases ys) auto
qed

text \<open>Two names for tests are different as long as neither is cut to 60 characters, whatever the
  tests are called: the number at the end tells them apart.\<close>

theorem freshDBName_unique:
  assumes "m \<noteq> n" "length test + length (dbtest_itoa m) \<le> 57" "length test' + length (dbtest_itoa n) \<le> 57"
  shows "freshDBName test m \<noteq> freshDBName test' n"
proof
  assume "freshDBName test m = freshDBName test' n"
  then have e: "sanitize test @ CHR ''_'' # itoa m = sanitize test' @ CHR ''_'' # itoa n"
    using assms(2,3) by (simp add: freshDBName_def dbtest_itoa sanitize_def)
  from last_field [OF e] itoa_no_underscore have "itoa m = itoa n" by blast
  with itoa_inj assms(1) show False by blast
qed

text \<open>The bound matters: a longer name loses its number, and all names of such a test are the same.\<close>

lemma freshDBName_collides:
  assumes "58 \<le> length test"
  shows "freshDBName test m = freshDBName test n"
  using assms by (simp add: freshDBName_def sanitize_def)

end
