(* ===== verification/SoakMain.thy ===== *)
theory SoakMain
  imports SoakFacts SoakPipeline DbNames Topic
begin

text \<open>
  The program \<open>cmd/soak\<close> put together (\<open>main\<close> of \<open>src/cmd/soak/main.go\<close>): the flags, the names of the
  clients and topics, the heartbeat, and the phases from the subscribers to the report. What the
  network does to each client is a script, as in \<open>Soak\<close>.
\<close>

record soak_flags =
  fl_broker :: string
  fl_user :: string
  fl_pass :: string
  fl_duration :: duration
  fl_rate :: int
  fl_qos :: int
  fl_subs :: int
  fl_pubs :: int
  fl_inflight :: int
  fl_topic :: string

definition default_flags :: soak_flags where
  "default_flags = \<lparr>fl_broker = ''127.0.0.1:1883'', fl_user = ''test'', fl_pass = ''test'', fl_duration = 60 * 1000000000,
     fl_rate = 100, fl_qos = 1, fl_subs = 1, fl_pubs = 1, fl_inflight = 1, fl_topic = ''soak/x''\<rparr>"

definition subFilter :: "soak_flags \<Rightarrow> string" where
  "subFilter f = fl_topic f @ ''/+''"

definition sub_name :: "nat \<Rightarrow> string" where
  "sub_name i = ''soak-sub-'' @ itoa i"

definition pub_name :: "nat \<Rightarrow> string" where
  "pub_name i = ''soak-pub-'' @ itoa i"

definition pubTopic :: "soak_flags \<Rightarrow> nat \<Rightarrow> string" where
  "pubTopic f i = fl_topic f @ ''/pub-'' @ itoa i"

text \<open>The heartbeat: the two sums and their growth since the last line, and the time of the label
  \<open>elapsed\<close>.\<close>

definition heartbeat ::
    "int list \<Rightarrow> int list \<Rightarrow> instant \<Rightarrow> instant \<Rightarrow> int \<times> int \<Rightarrow> (int \<times> int \<times> int \<times> int \<times> duration) \<times> int \<times> int" where
  "heartbeat published received endAt t prev =
     (case prev of (lastPublished, lastReceived) \<Rightarrow>
        let curPub = sum_list published; curRecv = sum_list received in
        ((curPub, curPub - lastPublished, curRecv, curRecv - lastReceived, endAt - t), curPub, curRecv))"

text \<open>A publisher runs serially unless QoS 1 has a window.\<close>

datatype pub_script = Serial "(dial_try list \<times> pub_pass list) list" | Pipelined "pipe_act list"

definition publisher_run :: "soak_flags \<Rightarrow> nat \<Rightarrow> pub_script \<Rightarrow> (int \<times> packet list) option" where
  "publisher_run f i sc =
     (if fl_qos f = 1 \<and> fl_inflight f > 1
      then (case sc of
          Pipelined acts \<Rightarrow> map_option (\<lambda>(s, out, oks). (pp_published s, out))
            (pipe_exec (nat (fl_inflight f)) (of_nat i) (pubTopic f i) acts pipe_start)
        | Serial _ \<Rightarrow> None)
      else (case sc of
          Serial cs \<Rightarrow> (case runPublisher (of_nat i) (pubTopic f i) (nat (fl_qos f)) cs pub_start of
              (s, out) \<Rightarrow> Some (ps_published s, out))
        | Pipelined _ \<Rightarrow> None))"

record soak_out =
  out_published :: int
  out_reports :: "subReport list"
  out_lost :: int
  out_dups :: int

datatype soak_end = Usage err | SoakPanic string | Exited int soak_out

text \<open>The phases. A number of subscribers below zero is not refused by the flags: \<open>make\<close> panics.\<close>

definition subscriber_stats :: "soak_flags \<Rightarrow> (nat \<Rightarrow> sub_conn list) \<Rightarrow> subStats list" where
  "subscriber_stats f scripts =
     map (\<lambda>i. fst (runSubscriber (subFilter f) (nat (fl_qos f)) (scripts i) False no_stats)) [0..<nat (fl_subs f)]"

definition total_published :: "soak_flags \<Rightarrow> (nat \<Rightarrow> pub_script) \<Rightarrow> int" where
  "total_published f scripts =
     sum_list (map (\<lambda>i. case publisher_run f i (scripts i) of None \<Rightarrow> 0 | Some (n, out) \<Rightarrow> n) [0..<nat (fl_pubs f)])"

definition soak_main :: "soak_flags \<Rightarrow> (nat \<Rightarrow> sub_conn list) \<Rightarrow> (nat \<Rightarrow> pub_script) \<Rightarrow> soak_end" where
  "soak_main f subs pubs =
     (case check_flags (fl_qos f) (fl_pubs f) (fl_inflight f) of
        Some e \<Rightarrow> Usage e
      | None \<Rightarrow>
         if fl_subs f < 0 then SoakPanic ''makeslice: len out of range''
         else if \<exists>r \<in> set (publisher_rates (fl_rate f) (nat (fl_pubs f))). isl (tick_interval r)
         then SoakPanic ''non-positive interval for NewTicker''
         else
           let stats = subscriber_stats f subs in
           Exited (exit_code (fl_qos f) stats)
             \<lparr>out_published = total_published f pubs, out_reports = map report_of stats,
              out_lost = total_lost stats, out_dups = total_dups stats\<rparr>)"

section \<open>Facts\<close>

text \<open>Names are unique, so no client takes another's session over.\<close>

lemma names_distinct: "distinct (map sub_name [0..<m] @ map pub_name [0..<n])"
proof -
  have "inj_on sub_name S" "inj_on pub_name S" for S by (auto simp: inj_on_def sub_name_def pub_name_def dest: itoa_inj)
  then show ?thesis by (auto simp: distinct_map sub_name_def pub_name_def)
qed

lemma level_match_plus: "level_match (ps @ [''+'']) (ps @ [x])"
  by (induction ps) auto

lemma slash_not_in_itoa: "CHR ''/'' \<notin> set (itoa n)"
  using itoa_digit_range [of "CHR ''/''" n] by auto

text \<open>The filter of the subscribers matches the topic of every publisher, by the broker's own rule.\<close>

lemma subscribers_reach_publishers:
  assumes "ValidateTopicName (fl_topic f) = None"
  shows "mqtt_topic_match (subFilter f) (pubTopic f i)"
proof -
  have plus: "split_on (CHR ''/'') (subFilter f) = split_on (CHR ''/'') (fl_topic f) @ [''+'']"
    using split_on_append [of "CHR ''/''" "fl_topic f" "''+''"] by (simp add: subFilter_def)
  have "CHR ''/'' \<notin> set (''pub-'' @ itoa i)" using slash_not_in_itoa by simp
  then have pub: "split_on (CHR ''/'') (pubTopic f i) = split_on (CHR ''/'') (fl_topic f) @ [''pub-'' @ itoa i]"
    using split_on_append [of "CHR ''/''" "fl_topic f" "''pub-'' @ itoa i"] by (simp add: pubTopic_def split_on_no_sep)
  have "hd (split_on (CHR ''/'') (fl_topic f)) \<in> set (split_on (CHR ''/'') (fl_topic f))" by simp
  from name_no_wildcards [OF assms this] have "\<not> dollar_guard (subFilter f) (pubTopic f i)"
    by (auto simp: dollar_guard_def plus)
  moreover have "subFilter f \<noteq> []" "pubTopic f i \<noteq> []" by (simp_all add: subFilter_def pubTopic_def)
  ultimately show ?thesis by (simp add: mqtt_topic_match_levels plus pub level_match_plus)
qed

text \<open>Heartbeats: the growths add up to the sums, but \<open>elapsed\<close> is the time that is left.\<close>

lemma heartbeat_growth:
  assumes "heartbeat ps rs endAt t (lp, lr) = ((p, dp, r, dr, e), lp', lr')"
  shows "lp' = lp + dp \<and> lr' = lr + dr \<and> lp' = sum_list ps \<and> lr' = sum_list rs"
  using assms by (auto simp: heartbeat_def Let_def)

lemma heartbeat_counts_down:
  "snd (snd (snd (snd (fst (heartbeat ps rs endAt t prev))))) = endAt - t"
  by (simp add: heartbeat_def Let_def split: prod.splits)

lemma negative_subs_panic:
  "check_flags (fl_qos f) (fl_pubs f) (fl_inflight f) = None \<Longrightarrow> fl_subs f < 0 \<Longrightarrow>
     soak_main f subs pubs = SoakPanic ''makeslice: len out of range''"
  by (simp add: soak_main_def)

lemma no_subscribers_pass:
  assumes "soak_main f subs pubs = Exited code out" "fl_subs f = 0"
  shows "code = 0"
  using assms by (auto simp: soak_main_def subscriber_stats_def exit_code_def total_lost_def Let_def split: option.splits if_splits)

text \<open>The verdict of the whole program: it fails exactly when, for QoS 1 or 2, a subscriber got a message of
  a publisher and not an earlier one.\<close>

lemma soak_main_verdict:
  assumes "soak_main f subs pubs = Exited code out"
  shows "code = (if fl_qos f \<ge> 1 \<and> (\<exists>i < nat (fl_subs f). \<exists>p j k. 0 \<le> j \<and> j < k \<and>
      (p, k) \<in> set (run_pubs (subs i) False) \<and> (p, j) \<notin> set (run_pubs (subs i) False)) then 1 else 0)"
    "out_lost out = sum_list (map Lost (out_reports out))" "length (out_reports out) = nat (fl_subs f)"
proof -
  have out: "code = exit_code (fl_qos f) (subscriber_stats f subs)" "out_reports out = map report_of (subscriber_stats f subs)"
    "out_lost out = total_lost (subscriber_stats f subs)"
    using assms by (auto simp: soak_main_def Let_def split: option.splits if_splits)
  show "code = (if fl_qos f \<ge> 1 \<and> (\<exists>i < nat (fl_subs f). \<exists>p j k. 0 \<le> j \<and> j < k \<and>
      (p, k) \<in> set (run_pubs (subs i) False) \<and> (p, j) \<notin> set (run_pubs (subs i) False)) then 1 else 0)"
    using soak_verdict [of "fl_qos f" "subFilter f" "nat (fl_qos f)" "map subs [0..<nat (fl_subs f)]"]
    by (simp add: out(1) subscriber_stats_def o_def Bex_def)
  show "out_lost out = sum_list (map Lost (out_reports out))" by (simp add: out total_lost_def o_def)
  show "length (out_reports out) = nat (fl_subs f)" by (simp add: out subscriber_stats_def)
qed

end
