(* ===== verification/Spec2Isabelle.thy ===== *)
theory Spec2Isabelle
  imports SessionFacts OperatorFacts Migrate WsConn Custody EndToEnd SoakFacts MetricsFacts LifecycleFacts Pool
    ListenerConn BufPool DeepCopy Harness SoakMain
begin

text \<open>
  A verification library for pgmqtt, a broker for MQTT 3.1.1 and 5 whose Pods share nothing but a
  Postgres database. The theories follow the Go code under \<open>src/\<close>; the names of definitions are
  those of the code where Isabelle allows it.

  \<^bold>\<open>The program.\<close> A Pod accepts sockets (\<open>internal/engine\<close>), reads packets with the codec
  (\<open>internal/mqtt\<close>) and runs one handler per packet. A publish is one transaction that calls the SQL
  function \<open>mqtt_publish\<close>, which stores the message, one delivery per matching client, and sends a
  notification to each Pod that owns such a client. The listener of that Pod (\<open>internal/listener\<close>)
  turns it into a call of \<open>Deliver\<close>, which claims the deliveries and writes them to the
  sockets. Taking a session over, and kicking a client over its quota, are signalled the same way.
  The janitor (\<open>internal/janitor\<close>), on every Pod, fires wills, expires sessions, sweeps what is left
  over and takes the sessions of dead Pods over. The operator (\<open>internal/operator\<close>) keeps the table
  of users in step with Kubernetes objects. \<open>internal/db\<close> opens the pool and migrates the schema,
  \<open>internal/config\<close> reads the environment, \<open>internal/metrics\<close> declares what is measured,
  \<open>cmd/pgmqttd\<close> puts the parts together, \<open>cmd/soak\<close> is a load generator that looks for lost
  messages.

  \<^bold>\<open>Foundations.\<close>
  \<^item> \<open>Prelude\<close>: bytes, instants in nanoseconds, errors as values, UUIDs with their order, keyed tables
    (the locale \<open>keyed_table\<close>), decimal numbers.
  \<^item> \<open>Ext\<close>: the packages the code calls and does not contain, one record \<open>ext\<close> that is an argument of
    the definitions; \<open>uuid_text_ok\<close> and \<open>rate_first_ok\<close> state what is relied on. \<open>sample_ext\<close> is an
    instance for the witnesses.
  \<^item> \<open>World\<close>: the state a handler runs on (Pod, heap of connections, database, clock) and the monad
    \<open>go\<close> of functions that return an error or a result and a new world. Every SQL statement, begin,
    commit and socket write consults a schedule of faults, so a theorem about all worlds is one about
    all ways the calls can fail. The locale \<open>run_relation\<close> carries a reflexive and transitive
    relation between worlds through the structure of any handler (\<open>keeps_rules\<close>); it is
    interpreted on the relations the proofs need (\<open>moves\<close>, \<open>steady\<close>, \<open>internal\<close>, \<open>owners\<close>,
    \<open>input\<close>, \<open>metered\<close>, \<open>away\<close> and others).
  \<^item> \<open>Resumption\<close>: programs whose calls interleave with those of other processes, and, in the locale
    \<open>rely_guarantee\<close>, the rule that an invariant every call keeps holds in every interleaving, with
    what is known of the results that have been returned. It is interpreted on the operator and on
    the migrations.

  \<^bold>\<open>Models and what is proved of them.\<close>
  \<^item> \<open>Packet\<close>, \<open>Codec\<close> (\<open>mqtt/codec.go\<close>): packets, framing, size caps, the scan of CONNECT properties.
    One read is bounded by the cap in force, lengths and the property scan are inverse to the
    encoding, nothing indexes out of bounds. \<open>BufPool\<close> (\<open>mqtt/buf.go\<close>): encoding with pooled buffers is
    a function of the packet, however goroutines interleave. \<open>WsConn\<close> (\<open>engine/wsconn.go\<close>): the adapter
    is the stream of the payloads.
  \<^item> \<open>Topic\<close> (\<open>mqtt/topic.go\<close>, \<open>mqtt_topic_match\<close>): validation and matching; the SQL loop decides the
    matching rule of the standard.
  \<^item> \<open>Store\<close>, \<open>Fanout\<close>, \<open>Schema\<close> (\<open>db/migrations\<close>): the tables of the final schema, each statement
    of the Go code and \<open>mqtt_publish\<close> as functions, and the invariant \<open>db_wf\<close> (keys, foreign keys,
    unique packet identifiers, the life cycle of a delivery).
  \<^item> \<open>IpLimit\<close> (\<open>iplimit.go\<close>), \<open>Conn\<close>, \<open>Publish\<close>, \<open>Deliver\<close>, \<open>Subscribe\<close>, \<open>Connect\<close>, \<open>Session\<close>
    (\<open>conn.go\<close>, \<open>publish.go\<close>, \<open>will.go\<close>, \<open>deliver.go\<close>, \<open>subscribe.go\<close>, \<open>connect.go\<close>, \<open>auth.go\<close>),
    \<open>Engine\<close> (\<open>engine.go\<close>), \<open>Janitor\<close>, \<open>Listener\<close>: the handlers, whole, with every branch.
  \<^item> \<open>Steps\<close>: one rule per statement (\<open>db_step\<close>) and per thing a Pod does (\<open>cluster_step\<close>); every
    handler moves the database along statements that keep \<open>db_wf\<close>. The theorem about the cluster is
    in this theory.
  \<^item> \<open>PublishFacts\<close>: \<open>publishCore\<close> refines an atomic specification (\<open>publish_db\<close>); whom a publish
    reaches, whom it notifies, what is retained, QoS 2 at most once until the claim is released
    (\<open>claim_released\<close>: PUBREL, clean start, end of the session, stale sweep).
  \<^item> \<open>DeliverFacts\<close>: a delivery is claimed before it is sent, QoS 0 is written at most once, the drain
    loop ends; a packet on the wire decodes to its topic by the alias rules of the client, except
    for topics whose announcement was dropped (\<open>alias_sent_unannounced\<close>).
  \<^item> \<open>SessionFacts\<close>: no access without a password, who is let in owns the session, stale disconnects
    are harmless, the read loop ends.
  \<^item> \<open>WillFacts\<close>, \<open>JanitorFacts\<close>: due wills, session expiry, orphans, dead Pods, no job starves.
    \<open>ListenerFacts\<close>: signals reach whom they are meant for, reconnecting is bounded and reclaims the
    sessions still served. \<open>ListenerConn\<close>: the same loop with the connections it opens as part of the
    state; it refines \<open>Listener\<close> and holds one connection at a time.
  \<^item> \<open>Operator\<close>, \<open>OperatorFacts\<close> (\<open>user_controller.go\<close>, \<open>manager.go\<close>): the Kubernetes API is the record
    \<open>kube\<close> with the hypotheses \<open>kube_ok\<close>; managers running at the same time keep the Secret and
    the table in agreement, a reconciled user can log in, a deleted one cannot.
  \<^item> \<open>DeepCopy\<close> (\<open>api/v1alpha1\<close>): the copies of the operator's objects over an explicit memory. The
    locale \<open>deep_copy\<close> is the contract of a copy; it is interpreted on the structures without library
    parts and carried to composed objects, arrays and pointers.
  \<^item> \<open>Migrate\<close> (\<open>db/migrate.go\<close>): concurrent runs apply every missing migration once and in order,
    from whatever versions are recorded, and who returns without error finds them all applied.
    \<open>Config\<close> (\<open>config.go\<close>), \<open>Boot\<close> (\<open>engine.New\<close>, \<open>serveWS\<close>, \<open>main.go\<close>): what an accepted configuration
    guarantees. \<open>Pool\<close> (\<open>db/db.go\<close>): the settings of the pool; the password is
    replaced throughout the error texts.
  \<^item> \<open>EndToEnd\<close>: \<open>publishCore\<close>, the notification and \<open>Deliver\<close> put together. What is published reaches
    the subscriber's connection. It rests on \<open>AllocPacketID_finds\<close>: eight tries find an identifier
    unless seven are in use.
  \<^item> \<open>Custody\<close>: the life of one queued delivery among everything Pods do. It stays in the database
    until it is sent, acknowledged or counted as dropped.
  \<^item> \<open>Lifecycle\<close>, \<open>LifecycleFacts\<close> (\<open>Serve\<close>, \<open>acceptTCP\<close>, \<open>runOwnershipSweep\<close>, \<open>Run\<close> of the janitor,
    \<open>main\<close>): the loops, with what they wait for as a script, the cap on connections, the order of
    start-up, panics.
  \<^item> \<open>Metrics\<close>, \<open>MetricsFacts\<close> (\<open>internal/metrics\<close>): all collectors as data, the merge on a scrape. The
    counters of the model's state are the counters and gauges of the program: what the handlers
    count is declared, with a label value of a finite list. Histograms are declared only.
  \<^item> \<open>Soak\<close>, \<open>SoakPipeline\<close>, \<open>SoakFacts\<close> (\<open>cmd/soak\<close>): publishers, subscribers and the verdict. No
    sequence number is skipped and the report counts exactly the gaps. \<open>SoakMain\<close>: the program as a
    whole; its subscribers' filter matches every publisher's topic by the broker's own rule.
  \<^item> \<open>Harness\<close> (\<open>engine/enginetest\<close>), \<open>DbNames\<close> (\<open>db/dbtest/url.go\<close>): the protocol client of the
    integration tests, the start and stop of Pods, the names of test databases.

  Lemmas such as \<open>drain_stops_at_oversized\<close>, \<open>alias_sent_unannounced\<close>, \<open>pubrel_underflows\<close>,
  \<open>quota_kick_skips_disconnect\<close>, \<open>will_lost_on_publish_error\<close>, \<open>empty_will_lost\<close>, \<open>dead_row_expiry\<close>,
  \<open>reclaimed_will_still_due\<close>, \<open>delete_before_rename\<close>, \<open>negative_queue_cap\<close>,
  \<open>orphan_sweep_takes_live_queue\<close>, \<open>sweep_stops_at_panic\<close>, \<open>operator_panic_skips_cleanup\<close>,
  \<open>scrub_misses_encoded\<close>, \<open>freshDBName_collides\<close>, \<open>deaf_after_panic\<close>, \<open>NextPacketID_race\<close>,
  \<open>heartbeat_counts_down\<close>, \<open>negative_subs_panic\<close> and \<open>total_loss_passes\<close> record behaviour the comments
  of the code do not intend.

  \<^bold>\<open>Bounds and fuel.\<close> Machine integers that can wrap (packet identifiers, aliases, receive windows,
  property values) are words. \<open>read_loop\<close> runs with two more than the number of bytes the peer
  sends, and \<open>read_loop_ends\<close> shows that more changes nothing; \<open>drain_loop\<close> runs with one more than the
  number of deliveries (\<open>drain_loop_ends\<close>); \<open>alloc_loop\<close> has the bound of the code;
  \<open>reconnect_loop\<close> that of \<open>reconnectMaxAttempts\<close>. Other loops are structural or have a measure.

  \<^bold>\<open>Not modelled.\<close> Log lines other than those of slow stages, and the durations the timing metrics
  observe; goroutines, contexts, tickers and signal handling, which appear as the arbitrary order of
  steps or as the script of a loop; the JSON encoder of \<open>cmd/soak\<close>; the containers of \<open>dbtest\<close>, which a library
  starts, and the scheme registration of \<open>api/v1alpha1\<close>. A handler of the
  engine runs without interruption; the invariant of the schema does not depend on it, because it
  is proved per statement. Floating-point arithmetic (the refill of the rate bucket, the
  multiplier of the keep-alive) is exact in the model. Serialization failures and row locks of
  Postgres are faults of the schedule.
\<close>

section \<open>The cluster\<close>

text \<open>C1: the schema invariant of a cluster. Starting from a well-formed database, whatever
  any number of Pods do (serving sockets from accept to close with arbitrary client input,
  fanning out, draining, kicking, attesting, sweeping, firing wills, shutting down), in any
  order, at any times, and however the database and the network fail, the shared database
  keeps its primary and foreign keys, its unique packet identifiers and the delivery life
  cycle.\<close>

theorem cluster_keeps_schema:
  assumes "(cluster_step X)\<^sup>*\<^sup>* (pods, d) (pods', d')" "db_wf d"
  shows "db_wf d'"
  using db_wf_steps cluster_moves [OF assms(1)] assms(2) by simp

theorem cluster_keeps_schema_witness:
  "db_wf (store (run_action sample_ext (JanitorTick sample_env new_janitor)
     (pod_world (pod.truncate (sample_world sample_db (sample_conn ''c'' 5))) sample_db 5 [Some FaultDeadline])))"
proof -
  let ?pods = "\<lambda>_ :: nat. pod.truncate (sample_world sample_db (sample_conn ''c'' 5))"
  let ?w = "run_action sample_ext (JanitorTick sample_env new_janitor)
     (pod_world (?pods 0) sample_db 5 [Some FaultDeadline])"
  have "cluster_step sample_ext (?pods, sample_db) (?pods(0 := pod.truncate ?w), store ?w)"
    by (rule cluster_step.act) (rule refl)
  then have "(cluster_step sample_ext)\<^sup>*\<^sup>* (?pods, sample_db) (?pods(0 := pod.truncate ?w), store ?w)"
    by (rule r_into_rtranclp)
  from cluster_keeps_schema [OF this sample_db_wf] show ?thesis .
qed

end
